(* ===== verification/Prelude.thy ===== *)
theory Prelude
  imports Main "HOL-Library.Word"
begin

section \<open>Prelude: Python values, exceptions and results\<close>

text \<open>
  The types every component of the ledger shares: Python's \<open>bytes\<close>, \<open>str\<close> and JSON-shaped
  values, the exceptions the code raises, and results that are either an exception or a value.
  The generic lemmas on lists and results that the components use are here as well, collected
  in \<open>result_simps\<close> and in the simpset.
\<close>

named_theorems result_simps \<open>evaluation of results: bind, traverse, guards\<close>
named_theorems row_defs \<open>definitions of the database rows' constraints and operations\<close>

subsection \<open>Bytes and strings\<close>

text \<open>
  A Python \<open>str\<close> is a list of code points, so that keys sort and text encodes as they do in
  Python; \<open>py\<close> reads an ASCII literal. \<open>bytes\<close> are lists of 8-bit words.
\<close>

type_synonym bytes = "8 word list"
type_synonym pystr = "nat list"

definition py :: "string \<Rightarrow> pystr" where
  "py s = map of_char s"

lemma py_inject [simp]: "py s = py t \<longleftrightarrow> s = t"
  unfolding py_def by (rule inj_map_eq_map) (simp add: inj_def)

lemma py_append: "py (s @ t) = py s @ py t"
  by (simp add: py_def)

lemma length_py [simp]: "length (py s) = length s"
  by (simp add: py_def)

lemma set_py_bound: "c \<in> set (py s) \<Longrightarrow> c < 256"
  by (auto simp: py_def)

subsection \<open>JSON values\<close>

text \<open>
  A finite float is given by the text \<open>float.__repr__\<close> prints for it, which identifies the
  float; \<open>dict\<close> keeps its insertion order.
\<close>

datatype pyfloat = Finite pystr | NaN | PosInf | NegInf

datatype json =
    JNull
  | JBool bool
  | JInt int
  | JFloat pyfloat
  | JStr pystr
  | JArr "json list"
  | JObj "(pystr \<times> json) list"

type_synonym pydict = "(pystr \<times> json) list"

text \<open>\<open>d.get(key)\<close> and \<open>d[key]\<close> read the association list.\<close>

definition dict_get :: "pydict \<Rightarrow> pystr \<Rightarrow> json" where
  "dict_get d k = (case map_of d k of None \<Rightarrow> JNull | Some v \<Rightarrow> v)"

subsection \<open>Exceptions\<close>

record ledger_error =
  code :: pystr
  message :: pystr
  status_code :: nat
  details :: pydict

datatype exn =
    LedgerError ledger_error
  | KeyConfigurationError pystr
  | CanonicalizationError
  | MerkleProofError pystr
  | UnicodeEncodeError
  | ValueError
  | ValueErrorWith pystr
  | KeyError
  | TypeError
  | AttributeError
  | OverflowError
  | IntegrityError
  | StaleDataError
  | IndexError
  | JSONDecodeError
  | UnicodeDecodeError
  | OSError
  | BuildCancelRequested

text \<open>The classes of \<open>except\<close> clauses: which exceptions are \<open>ValueError\<close>s.\<close>

fun is_value_error :: "exn \<Rightarrow> bool" where
  "is_value_error (KeyConfigurationError _) = True"
| "is_value_error CanonicalizationError = True"
| "is_value_error (MerkleProofError _) = True"
| "is_value_error UnicodeEncodeError = True"
| "is_value_error ValueError = True"
| "is_value_error (ValueErrorWith _) = True"
| "is_value_error JSONDecodeError = True"
| "is_value_error UnicodeDecodeError = True"
| "is_value_error _ = False"

text \<open>\<open>except LedgerError\<close> and \<open>except SQLAlchemyError\<close>.\<close>

fun is_ledger_error :: "exn \<Rightarrow> bool" where
  "is_ledger_error (LedgerError _) = True"
| "is_ledger_error _ = False"

fun is_database_error :: "exn \<Rightarrow> bool" where
  "is_database_error IntegrityError = True"
| "is_database_error StaleDataError = True"
| "is_database_error _ = False"

definition ledger_error :: "string \<Rightarrow> string \<Rightarrow> nat \<Rightarrow> pydict \<Rightarrow> exn" where
  "ledger_error c m st d =
     LedgerError \<lparr>code = py c, message = py m, status_code = st, details = d\<rparr>"

definition NotFoundError :: "string \<Rightarrow> pystr \<Rightarrow> exn" where
  "NotFoundError entity identifier =
     ledger_error ''NOT_FOUND'' (entity @ '' was not found'') 404
       [(py ''entity'', JStr (py entity)), (py ''id'', JStr identifier)]"

definition InvalidProofError :: "string \<Rightarrow> pydict \<Rightarrow> exn" where
  "InvalidProofError reason d = ledger_error ''INVALID_PROOF'' reason 422 d"

definition error_code :: "exn \<Rightarrow> pystr option" where
  "error_code e = (case e of LedgerError le \<Rightarrow> Some (code le) | _ \<Rightarrow> None)"

lemma error_code_ledger_error [simp]: "error_code (ledger_error c m st d) = Some (py c)"
  by (simp add: error_code_def ledger_error_def)

lemma error_code_NotFoundError [simp]:
  "error_code (NotFoundError entity i) = Some (py ''NOT_FOUND'')"
  by (simp add: NotFoundError_def)

lemma error_code_InvalidProofError [simp]:
  "error_code (InvalidProofError r d) = Some (py ''INVALID_PROOF'')"
  by (simp add: InvalidProofError_def)

subsection \<open>Results\<close>

type_synonym 'a result = "exn + 'a"

fun bind_result :: "'a result \<Rightarrow> ('a \<Rightarrow> 'b result) \<Rightarrow> 'b result" where
  "bind_result (Inl e) f = Inl e"
| "bind_result (Inr x) f = f x"

fun map_result :: "('a \<Rightarrow> 'b) \<Rightarrow> 'a result \<Rightarrow> 'b result" where
  "map_result f (Inl e) = Inl e"
| "map_result f (Inr x) = Inr (f x)"

text \<open>\<open>traverse f xs\<close>: a list comprehension whose element expression may raise.\<close>

fun traverse :: "('a \<Rightarrow> 'b result) \<Rightarrow> 'a list \<Rightarrow> 'b list result" where
  "traverse f [] = Inr []"
| "traverse f (x # xs) =
     (case f x of
        Inl e \<Rightarrow> Inl e
      | Inr y \<Rightarrow> map_result (\<lambda>ys. y # ys) (traverse f xs))"

definition is_ok :: "'a result \<Rightarrow> bool" where
  "is_ok r = (case r of Inl _ \<Rightarrow> False | Inr _ \<Rightarrow> True)"

lemma bind_result_Inr_iff [result_simps]:
  "bind_result r f = Inr y \<longleftrightarrow> (\<exists>x. r = Inr x \<and> f x = Inr y)"
  by (cases r) auto

lemma bind_result_Inl_iff [result_simps]:
  "bind_result r f = Inl e \<longleftrightarrow> r = Inl e \<or> (\<exists>x. r = Inr x \<and> f x = Inl e)"
  by (cases r) auto

lemma bind_result_cong [fundef_cong]:
  "r = r' \<Longrightarrow> (\<And>x. r' = Inr x \<Longrightarrow> f x = g x) \<Longrightarrow> bind_result r f = bind_result r' g"
  by (cases r') auto

lemma map_result_Inr_iff [result_simps]:
  "map_result f r = Inr y \<longleftrightarrow> (\<exists>x. r = Inr x \<and> y = f x)"
  by (cases r) auto

lemma map_result_Inl_iff [result_simps]: "map_result f r = Inl e \<longleftrightarrow> r = Inl e"
  by (cases r) auto

lemma traverse_Inr_iff:
  "traverse f xs = Inr ys \<longleftrightarrow> list_all2 (\<lambda>x y. f x = Inr y) xs ys"
  by (induction xs arbitrary: ys)
     (auto simp: map_result_Inr_iff list_all2_Cons1 split: sum.splits)

lemma traverse_all_Inr:
  "(\<And>x. x \<in> set xs \<Longrightarrow> f x = Inr (g x)) \<Longrightarrow> traverse f xs = Inr (map g xs)"
  by (induction xs) auto

lemma traverse_Inl_ex: "traverse f xs = Inl e \<Longrightarrow> \<exists>x \<in> set xs. f x = Inl e"
  by (induction xs) (auto simp: map_result_Inl_iff split: sum.splits)

lemma traverse_length: "traverse f xs = Inr ys \<Longrightarrow> length ys = length xs"
  by (auto simp: traverse_Inr_iff dest: list_all2_lengthD)

text \<open>\<open>raises E r\<close>: if the computation raises, then an exception in \<open>E\<close>.\<close>

named_theorems raises_intros \<open>bounds on the exceptions of a computation\<close>

definition raises :: "(exn \<Rightarrow> bool) \<Rightarrow> 'a result \<Rightarrow> bool" where
  "raises E r \<longleftrightarrow> (case r of Inl e \<Rightarrow> E e | Inr _ \<Rightarrow> True)"

lemma raisesD: "raises E r \<Longrightarrow> r = Inl e \<Longrightarrow> E e"
  by (simp add: raises_def)

lemma raises_weaken: "raises E r \<Longrightarrow> (\<And>e. E e \<Longrightarrow> F e) \<Longrightarrow> raises F r"
  by (auto simp: raises_def split: sum.splits)

lemma raises_Inr [raises_intros, simp]: "raises E (Inr x)"
  by (simp add: raises_def)

lemma raises_Inl [simp]: "raises E (Inl e) = E e"
  by (simp add: raises_def)

lemma raises_bind [raises_intros]:
  "raises E r \<Longrightarrow> (\<And>x. r = Inr x \<Longrightarrow> raises E (f x)) \<Longrightarrow> raises E (bind_result r f)"
  by (cases r) auto

lemma raises_map [raises_intros]: "raises E r \<Longrightarrow> raises E (map_result f r)"
  by (cases r) auto

lemma raises_if [raises_intros]:
  "(b \<Longrightarrow> raises E r) \<Longrightarrow> (\<not> b \<Longrightarrow> raises E s) \<Longrightarrow> raises E (if b then r else s)"
  by simp

lemma raises_prod [raises_intros]:
  "(\<And>x y. p = (x, y) \<Longrightarrow> raises E (f x y)) \<Longrightarrow> raises E (case p of (x, y) \<Rightarrow> f x y)"
  by (cases p) simp

lemma raises_traverse [raises_intros]:
  "(\<And>x. x \<in> set xs \<Longrightarrow> raises E (f x)) \<Longrightarrow> raises E (traverse f xs)"
  by (cases "traverse f xs") (auto dest!: traverse_Inl_ex dest: raisesD)

subsection \<open>Lists\<close>

text \<open>\<open>xs[:k]\<close>, where a negative \<open>k\<close> counts from the end.\<close>

definition slice_to :: "int \<Rightarrow> 'a list \<Rightarrow> 'a list" where
  "slice_to k xs = take (nat (if k < 0 then int (length xs) + k else k)) xs"

lemma slice_to_nonneg [simp]: "0 \<le> k \<Longrightarrow> slice_to k xs = take (nat k) xs"
  by (simp add: slice_to_def)

lemma append_eq_append_snd:
  "length v = length y \<Longrightarrow> u @ v = x @ y \<longleftrightarrow> u = x \<and> v = y"
  by auto

lemma nth_take_drop_split:
  "k \<le> length xs \<Longrightarrow> i < length xs \<Longrightarrow>
     xs ! i = (if i < k then take k xs ! i else drop k xs ! (i - k))"
  by auto

text \<open>The one row with a given key.\<close>

lemma filter_unique:
  assumes "distinct (map f xs)" "x \<in> set xs"
  shows "filter (\<lambda>y. f y = f x) xs = [x]"
  using assms
proof (induction xs)
  case (Cons y ys)
  show ?case
  proof (cases "x = y")
    case True
    then have "\<forall>z \<in> set ys. f z \<noteq> f x"
      using Cons.prems(1) by (auto dest: sym)
    then show ?thesis
      using True by (simp add: filter_empty_conv)
  next
    case False
    then have "f y \<noteq> f x"
      using Cons.prems by auto
    then show ?thesis
      using Cons False by simp
  qed
qed simp

end
