(* ===== verification/Digest.thy ===== *)
theory Digest
  imports Prelude
begin

section \<open>Digests: SHA-256, HMAC and hexadecimal text\<close>

text \<open>
  The parts of \<open>hashlib\<close>,
    \<open>hmac\<close> and \<open>bytes\<close> the ledger uses: SHA-256 (FIPS 180-4),
  HMAC-SHA-256 (RFC 2104), \<open>bytes.hex\<close>,
    \<open>bytes.fromhex\<close> and \<open>hmac.compare_digest\<close>. The
  functions are executable; the theory \<open>Digest_Vector\<close> evaluates the hash of the empty string
  to its published value.

  No fixed hash is injective, so security statements never assume it. They conclude
  \<open>hash_collision S\<close> for an explicit finite set \<open>S\<close> of inputs that the computations at hand
  really hash: two different members of \<open>S\<close> with one digest.
\<close>

unbundle bit_operations_syntax

type_synonym u32 = "32 word"
type_synonym sha_state = "u32 \<times> u32 \<times> u32 \<times> u32 \<times> u32 \<times> u32 \<times> u32 \<times> u32"

subsection \<open>SHA-256\<close>

text \<open>The round constants and the initial state of FIPS 180-4, in decimal.\<close>

definition sha_k :: "u32 list" where
  "sha_k = [
    1116352408, 1899447441, 3049323471, 3921009573, 961987163, 1508970993, 2453635748, 2870763221,
    3624381080, 310598401, 607225278, 1426881987, 1925078388, 2162078206, 2614888103, 3248222580,
    3835390401, 4022224774, 264347078, 604807628, 770255983, 1249150122, 1555081692, 1996064986,
    2554220882, 2821834349, 2952996808, 3210313671, 3336571891, 3584528711, 113926993, 338241895,
    666307205, 773529912, 1294757372, 1396182291, 1695183700, 1986661051, 2177026350, 2456956037,
    2730485921, 2820302411, 3259730800, 3345764771, 3516065817, 3600352804, 4094571909, 275423344,
    430227734, 506948616, 659060556, 883997877, 958139571, 1322822218, 1537002063, 1747873779,
    1955562222, 2024104815, 2227730452, 2361852424, 2428436474, 2756734187, 3204031479, 3329325298]"

definition sha_init :: sha_state where
  "sha_init = (1779033703, 3144134277, 1013904242, 2773480762,
               1359893119, 2600822924, 528734635, 1541459225)"

definition rotr :: "nat \<Rightarrow> u32 \<Rightarrow> u32" where
  "rotr n w = drop_bit n w OR push_bit (32 - n) w"

text \<open>The message schedule as a window of sixteen words that slides by one word a round.\<close>

definition next_word :: "u32 list \<Rightarrow> u32" where
  "next_word ws =
     (rotr 17 (ws ! 14) XOR rotr 19 (ws ! 14) XOR drop_bit 10 (ws ! 14)) + ws ! 9 +
     (rotr 7 (ws ! 1) XOR rotr 18 (ws ! 1) XOR drop_bit 3 (ws ! 1)) + ws ! 0"

fun sha_round :: "sha_state \<Rightarrow> u32 \<Rightarrow> u32 \<Rightarrow> sha_state" where
  "sha_round (a, b, c, d, e, f, g, h) k w =
     (let t1 = h + (rotr 6 e XOR rotr 11 e XOR rotr 25 e) + ((e AND f) XOR (NOT e AND g)) + k + w;
          t2 = (rotr 2 a XOR rotr 13 a XOR rotr 22 a) +
               ((a AND b) XOR (a AND c) XOR (b AND c))
      in (t1 + t2, a, b, c, d + t1, e, f, g))"

fun sha_rounds :: "u32 list \<Rightarrow> u32 list \<Rightarrow> sha_state \<Rightarrow> u32 list \<times> sha_state" where
  "sha_rounds [] ws s = (ws, s)"
| "sha_rounds (k # ks) ws s =
     sha_rounds ks (tl ws @ [next_word ws]) (sha_round s k (hd ws))"

fun sha_add :: "sha_state \<Rightarrow> sha_state \<Rightarrow> sha_state" where
  "sha_add (a, b, c, d, e, f, g, h) (a', b', c', d', e', f', g', h') =
     (a + a', b + b', c + c', d + d', e + e', f + f', g + g', h + h')"

definition word_of_bytes :: "8 word \<Rightarrow> 8 word \<Rightarrow> 8 word \<Rightarrow> 8 word \<Rightarrow> u32" where
  "word_of_bytes p q r s =
     push_bit 24 (ucast p) OR push_bit 16 (ucast q) OR push_bit 8 (ucast r) OR ucast s"

fun words_of_bytes :: "bytes \<Rightarrow> u32 list" where
  "words_of_bytes (p # q # r # s # rest) = word_of_bytes p q r s # words_of_bytes rest"
| "words_of_bytes _ = []"

definition bytes_of_word :: "u32 \<Rightarrow> bytes" where
  "bytes_of_word w =
     [ucast (drop_bit 24 w), ucast (drop_bit 16 w), ucast (drop_bit 8 w), ucast w]"

text \<open>Padding: the byte 128, zeros up to 56 modulo 64,
    the length in bits on eight bytes.\<close>

definition sha_pad :: "bytes \<Rightarrow> bytes" where
  "sha_pad msg =
     (let n = length msg
      in msg @ [128] @ replicate ((119 - n mod 64) mod 64) 0 @
         map (\<lambda>i. word_of_nat (8 * n div 256 ^ (7 - i))) [0..<8])"

function sha_blocks :: "u32 list \<Rightarrow> sha_state \<Rightarrow> sha_state" where
  "sha_blocks ws s =
     (if length ws < 16 then s
      else sha_blocks (drop 16 ws) (sha_add s (snd (sha_rounds sha_k (take 16 ws) s))))"
  by pat_completeness auto
termination
  by (relation "measure (\<lambda>(ws, s). length ws)") auto

declare sha_blocks.simps [simp del]

fun sha_digest :: "sha_state \<Rightarrow> bytes" where
  "sha_digest (a, b, c, d, e, f, g, h) =
     concat (map bytes_of_word [a, b, c, d, e, f, g, h])"

definition sha256 :: "bytes \<Rightarrow> bytes" where
  "sha256 msg = sha_digest (sha_blocks (words_of_bytes (sha_pad msg)) sha_init)"

lemma length_sha_digest [simp]: "length (sha_digest s) = 32"
  by (cases s rule: sha_digest.cases) (simp add: bytes_of_word_def)

lemma length_sha256 [simp]: "length (sha256 msg) = 32"
  by (simp add: sha256_def)

subsection \<open>HMAC-SHA-256\<close>

definition hmac_block_key :: "bytes \<Rightarrow> bytes" where
  "hmac_block_key key =
     (let k = if 64 < length key then sha256 key else key
      in k @ replicate (64 - length k) 0)"

definition hmac_sha256 :: "bytes \<Rightarrow> bytes \<Rightarrow> bytes" where
  "hmac_sha256 key msg =
     (let k = hmac_block_key key
      in sha256 (map (\<lambda>b. b XOR 92) k @ sha256 (map (\<lambda>b. b XOR 54) k @ msg)))"

lemma length_hmac_sha256 [simp]: "length (hmac_sha256 key msg) = 32"
  by (simp add: hmac_sha256_def Let_def)

lemma length_hmac_block_key: "length (hmac_block_key key) = 64"
  by (simp add: hmac_block_key_def Let_def)

subsection \<open>Hexadecimal text\<close>

definition hex_digit :: "nat \<Rightarrow> nat" where
  "hex_digit d = (if d < 10 then 48 + d else 87 + d)"

definition hex_value :: "nat \<Rightarrow> nat option" where
  "hex_value c =
     (if 48 \<le> c \<and> c \<le> 57 then Some (c - 48)
      else if 97 \<le> c \<and> c \<le> 102 then Some (c - 87)
      else if 65 \<le> c \<and> c \<le> 70 then Some (c - 55)
      else None)"

text \<open>\<open>bytes.hex()\<close>: two lower-case digits a byte.\<close>

definition hex :: "bytes \<Rightarrow> pystr" where
  "hex bs = concat (map (\<lambda>b. [hex_digit (unat b div 16), hex_digit (unat b mod 16)]) bs)"

text \<open>
  \<open>bytes.fromhex(s)\<close>: pairs of digits of either case; ASCII white space is skipped between
  pairs; anything else is a \<open>ValueError\<close>.
\<close>

definition is_ascii_space :: "nat \<Rightarrow> bool" where
  "is_ascii_space c \<longleftrightarrow> c = 32 \<or> (9 \<le> c \<and> c \<le> 13)"

fun fromhex :: "pystr \<Rightarrow> bytes result" where
  "fromhex [] = Inr []"
| "fromhex [c] = (if is_ascii_space c then Inr [] else Inl ValueError)"
| "fromhex (c # d # cs) =
     (if is_ascii_space c then fromhex (d # cs)
      else case (hex_value c, hex_value d) of
             (Some x,
    Some y) \<Rightarrow> map_result (\<lambda>bs. word_of_nat (16 * x + y) # bs) (fromhex cs)
           | _ \<Rightarrow> Inl ValueError)"

lemma hex_value_digit [simp]: "d < 16 \<Longrightarrow> hex_value (hex_digit d) = Some d"
  by (auto simp: hex_value_def hex_digit_def)

lemma hex_digit_not_space [simp]: "d < 16 \<Longrightarrow> \<not> is_ascii_space (hex_digit d)"
  by (auto simp: is_ascii_space_def hex_digit_def)

lemma hex_Nil [simp]: "hex [] = []"
  by (simp add: hex_def)

lemma hex_Cons:
  "hex (b # bs) = hex_digit (unat b div 16) # hex_digit (unat b mod 16) # hex bs"
  by (simp add: hex_def)

lemma unat_byte_div: "unat (b :: 8 word) div 16 < 16"
proof -
  have "unat b < 2 ^ 8"
    using unsigned_less [of b] by simp
  then show ?thesis
    by (simp add: less_mult_imp_div_less)
qed

lemma fromhex_hex [simp]: "fromhex (hex bs) = Inr bs"
  by (induction bs) (simp_all add: hex_Cons unat_byte_div)

lemma hex_inject [simp]: "hex bs = hex cs \<longleftrightarrow> bs = cs"
  by (metis fromhex_hex sum.inject(2))

lemma length_hex [simp]: "length (hex bs) = 2 * length bs"
  by (induction bs) (simp_all add: hex_Cons)

lemma hex_digit_bounds: "d < 16 \<Longrightarrow> 48 \<le> hex_digit d \<and> hex_digit d \<le> 102"
  by (auto simp: hex_digit_def)

lemma hex_ascii: "\<forall>c \<in> set (hex bs). 48 \<le> c \<and> c \<le> 102"
  by (induction bs) (auto simp: hex_Cons hex_digit_bounds unat_byte_div)

text \<open>
  \<open>hmac.compare_digest\<close> on two strings compares them in constant time and raises
  \<open>TypeError\<close> when either holds a non-ASCII character.
\<close>

definition compare_digest :: "pystr \<Rightarrow> pystr \<Rightarrow> bool result" where
  "compare_digest a b =
     (if (\<forall>c \<in> set a. c < 128) \<and> (\<forall>c \<in> set b. c < 128) then Inr (a = b) else Inl TypeError)"

subsection \<open>Collisions among explicit inputs\<close>

definition hash_collision :: "bytes set \<Rightarrow> bool" where
  "hash_collision S \<longleftrightarrow> (\<exists>x \<in> S. \<exists>y \<in> S. x \<noteq> y \<and> sha256 x = sha256 y)"

lemma hash_collision_mono: "hash_collision S \<Longrightarrow> S \<subseteq> T \<Longrightarrow> hash_collision T"
  by (auto simp: hash_collision_def)

lemma hash_collisionI:
  "x \<in> S \<Longrightarrow> y \<in> S \<Longrightarrow> x \<noteq> y \<Longrightarrow> sha256 x = sha256 y \<Longrightarrow> hash_collision S"
  by (auto simp: hash_collision_def)

lemma no_collision_inj: "\<not> hash_collision S \<longleftrightarrow> inj_on sha256 S"
  by (auto simp: hash_collision_def inj_on_def)

lemma no_collisionD:
  "\<not> hash_collision S \<Longrightarrow> sha256 x = sha256 y \<Longrightarrow> x \<in> S \<Longrightarrow> y \<in> S \<Longrightarrow> x = y"
  by (auto simp: hash_collision_def)

end
