(* ===== verification/Merkle.thy ===== *)
theory Merkle
  imports Digest
begin

section \<open>Merkle trees: roots and inclusion proofs\<close>

text \<open>
  \<open>src/ledger/merkle.py\<close>: the RFC 6962 tree hash without duplicated leaves, the construction of
  inclusion and consistency proofs and their verification. The definitions follow the Python;
  the lemmas of this theory are about roots and inclusion proofs, \<open>Merkle_Consistency\<close> treats
  consistency proofs.
\<close>

subsection \<open>Hashes and the split point\<close>

definition EMPTY_ROOT :: bytes where
  "EMPTY_ROOT = sha256 []"

definition leaf_hash :: "bytes \<Rightarrow> bytes" where
  "leaf_hash data = sha256 (0x00 # data)"

definition node_hash :: "bytes \<Rightarrow> bytes \<Rightarrow> bytes" where
  "node_hash left right = sha256 (0x01 # left @ right)"

text \<open>\<open>int.bit_length\<close>.\<close>

fun bit_length :: "nat \<Rightarrow> nat" where
  "bit_length n = (if n = 0 then 0 else Suc (bit_length (n div 2)))"

declare bit_length.simps [simp del]

text \<open>
  \<open>_split\<close> raises below two leaves; every caller has checked the size, so the recursions use
  \<open>split_at\<close>, the value it returns from two leaves on.
\<close>

definition split_at :: "nat \<Rightarrow> nat" where
  "split_at sz = push_bit (bit_length (sz - 1) - 1) 1"

definition merkle_split :: "nat \<Rightarrow> nat result" where
  "merkle_split sz = (if sz < 2 then Inl ValueError else Inr (split_at sz))"

lemma bit_length_bounds: "0 < n \<Longrightarrow> 2 ^ (bit_length n - 1) \<le> n \<and> n < 2 ^ bit_length n"
proof (induction n rule: bit_length.induct)
  case (1 n)
  show ?case
  proof (cases "n div 2 = 0")
    case True
    with 1 show ?thesis
      by (simp add: bit_length.simps [of n] bit_length.simps [of 0])
  next
    case False
    with 1 have IH: "2 ^ (bit_length (n div 2) - 1) \<le> n div 2 \<and> n div 2 < 2 ^ bit_length (n div 2)"
      by simp
    moreover have "0 < bit_length (n div 2)"
      using False by (subst bit_length.simps) simp
    ultimately show ?thesis
      using 1 by (cases "bit_length (n div 2)") (auto simp: bit_length.simps [of n])
  qed
qed

lemma split_at_power: "split_at n = 2 ^ (bit_length (n - 1) - 1)"
  by (simp add: split_at_def push_bit_eq_mult)

lemma split_at_pos: "0 < split_at n"
  by (simp add: split_at_power)

lemma bit_length_pos: "0 < n \<Longrightarrow> 0 < bit_length n"
  by (simp add: bit_length.simps)

lemma split_at_bounds:
  assumes "2 \<le> n"
  shows "split_at n < n" "n \<le> 2 * split_at n"
proof -
  have "0 < n - 1" and b: "0 < bit_length (n - 1)"
    using assms by (auto intro: bit_length_pos)
  from bit_length_bounds [OF this(1)]
  have "2 ^ (bit_length (n - 1) - 1) \<le> n - 1" "n - 1 < 2 * 2 ^ (bit_length (n - 1) - 1)"
    using b by (cases "bit_length (n - 1)"; simp)+
  then show "split_at n < n" "n \<le> 2 * split_at n"
    using assms by (auto simp: split_at_power)
qed

lemma not_less_2: "n \<noteq> 0 \<Longrightarrow> n \<noteq> 1 \<Longrightarrow> \<not> n < (2 :: nat)"
  by simp

text \<open>The two halves are shorter than the list: the termination argument of every recursion here.\<close>

lemma split_halves_shorter:
  "\<not> length xs < 2 \<Longrightarrow> length (take (split_at (length xs)) xs) < length xs"
  "\<not> length xs < 2 \<Longrightarrow> length (drop (split_at (length xs)) xs) < length xs"
  using split_at_bounds(1) [of "length xs"] split_at_pos [of "length xs"] by auto

lemma merkle_split_ok: "2 \<le> n \<Longrightarrow> merkle_split n = Inr (split_at n)"
  by (simp add: merkle_split_def)

text \<open>The split point is the only power of two that is below the size and at least half of it.\<close>

lemma split_at_unique:
  assumes "2 ^ j < n" "n \<le> 2 * 2 ^ j"
  shows "split_at n = 2 ^ j"
proof -
  obtain i where i: "split_at n = 2 ^ i"
    by (simp add: split_at_power)
  have "2 \<le> n"
    using assms(1) by (metis Suc_1 Suc_leI le_less_trans one_le_numeral one_le_power)
  from split_at_bounds [OF this] i have "2 ^ i < n" "n \<le> 2 * 2 ^ i"
    by auto
  with assms have "(2 :: nat) ^ i < 2 ^ Suc j" "(2 :: nat) ^ j < 2 ^ Suc i"
    by auto
  then have "i < Suc j" "j < Suc i"
    using power_less_imp_less_exp [of "2 :: nat"] by (metis one_less_numeral_iff semiring_norm(76))+
  then show ?thesis
    by (simp add: i)
qed

subsection \<open>The tree hash\<close>

function merkle_root :: "bytes list \<Rightarrow> bytes" where
  "merkle_root leaves =
     (let sz = length leaves in
      if sz = 0 then EMPTY_ROOT
      else if sz = 1 then leaves ! 0
      else let k = split_at sz in
           node_hash (merkle_root (take k leaves)) (merkle_root (drop k leaves)))"
  by pat_completeness auto
termination
  by (relation "measure length") (simp_all only: in_measure split_halves_shorter wf_measure not_less_2)

declare merkle_root.simps [simp del]

lemma merkle_root_Nil [simp]: "merkle_root [] = EMPTY_ROOT"
  by (simp add: merkle_root.simps)

lemma merkle_root_single [simp]: "merkle_root [x] = x"
  by (simp add: merkle_root.simps)

lemma merkle_root_length_1: "length leaves = 1 \<Longrightarrow> merkle_root leaves = leaves ! 0"
  by (simp add: merkle_root.simps)

lemma merkle_root_split:
  "2 \<le> length leaves \<Longrightarrow>
     merkle_root leaves =
       node_hash (merkle_root (take (split_at (length leaves)) leaves))
                 (merkle_root (drop (split_at (length leaves)) leaves))"
  by (subst merkle_root.simps) (auto simp: Let_def)

text \<open>Induction along the split: the empty tree, a single leaf, two subtrees.\<close>

lemma merkle_induct [case_names empty single split]:
  assumes "P []" and "\<And>x. P [x]"
    and "\<And>leaves k. 2 \<le> length leaves \<Longrightarrow> k = split_at (length leaves) \<Longrightarrow> 0 < k \<Longrightarrow>
           k < length leaves \<Longrightarrow> P (take k leaves) \<Longrightarrow> P (drop k leaves) \<Longrightarrow> P leaves"
  shows "P leaves"
proof (induction leaves rule: length_induct)
  case (1 leaves)
  show ?case
  proof (cases "2 \<le> length leaves")
    case True
    then have "split_at (length leaves) < length leaves"
      by (rule split_at_bounds)
    moreover have "0 < split_at (length leaves)"
      by (rule split_at_pos)
    ultimately show ?thesis
      using 1 by (intro assms(3) [OF True refl]) simp_all
  next
    case False
    then have "length leaves = 0 \<or> length leaves = 1"
      by linarith
    with assms(1,2) show ?thesis
      by (auto simp: length_Suc_conv)
  qed
qed

definition hashes :: "bytes list \<Rightarrow> bool" where
  "hashes leaves \<longleftrightarrow> (\<forall>l \<in> set leaves. length l = 32)"

lemma hashes_simps [simp]:
  "hashes []" "hashes (x # xs) \<longleftrightarrow> length x = 32 \<and> hashes xs"
  "hashes (xs @ ys) \<longleftrightarrow> hashes xs \<and> hashes ys"
  by (auto simp: hashes_def)

lemma hashes_take [simp, intro]: "hashes xs \<Longrightarrow> hashes (take k xs)"
  by (auto simp: hashes_def dest: in_set_takeD)

lemma hashes_drop [simp, intro]: "hashes xs \<Longrightarrow> hashes (drop k xs)"
  by (auto simp: hashes_def dest: in_set_dropD)

lemma hashes_nth: "hashes xs \<Longrightarrow> i < length xs \<Longrightarrow> length (xs ! i) = 32"
  by (simp add: hashes_def)

lemma length_leaf_hash [simp]: "length (leaf_hash d) = 32"
  by (simp add: leaf_hash_def)

lemma length_node_hash [simp]: "length (node_hash l r) = 32"
  by (simp add: node_hash_def)

lemma hashes_leaf_hash [simp]: "hashes (map leaf_hash ds)"
  by (simp add: hashes_def)

lemma length_merkle_root [simp]: "hashes leaves \<Longrightarrow> length (merkle_root leaves) = 32"
  by (induction leaves rule: merkle_induct) (simp_all add: EMPTY_ROOT_def merkle_root_split)

text \<open>The inputs hashed at the inner nodes of a tree.\<close>

function tree_inputs :: "bytes list \<Rightarrow> bytes set" where
  "tree_inputs leaves =
     (if length leaves < 2 then {}
      else let k = split_at (length leaves) in
           {0x01 # merkle_root (take k leaves) @ merkle_root (drop k leaves)}
           \<union> tree_inputs (take k leaves) \<union> tree_inputs (drop k leaves))"
  by pat_completeness auto
termination
  by (relation "measure length") (use split_halves_shorter in \<open>force+\<close>)

declare tree_inputs.simps [simp del]

lemma tree_inputs_split:
  "2 \<le> length leaves \<Longrightarrow> k = split_at (length leaves) \<Longrightarrow>
     tree_inputs leaves =
       insert (0x01 # merkle_root (take k leaves) @ merkle_root (drop k leaves))
         (tree_inputs (take k leaves) \<union> tree_inputs (drop k leaves))"
  by (simp add: tree_inputs.simps [of leaves] Let_def)

lemma tree_inputs_small [simp]: "length leaves < 2 \<Longrightarrow> tree_inputs leaves = {}"
  by (simp add: tree_inputs.simps)

lemma finite_tree_inputs: "finite (tree_inputs leaves)"
  by (induction leaves rule: merkle_induct) (simp_all add: tree_inputs_split)

text \<open>Equal node hashes without a collision have equal children.\<close>

lemma node_hash_inject:
  assumes "node_hash l r = node_hash l' r'" and "length r = length r'"
    and "0x01 # l @ r \<in> S" and "0x01 # l' @ r' \<in> S" and "\<not> hash_collision S"
  shows "l = l' \<and> r = r'"
proof -
  have "0x01 # l @ r = 0x01 # l' @ r'"
    using assms(1) by (intro no_collisionD [OF assms(5) _ assms(3,4)]) (simp add: node_hash_def)
  then show ?thesis
    using assms(2) by simp
qed

lemma node_hash_inject_left:
  assumes "node_hash l r = node_hash l' r'" and "length l = length l'"
    and "0x01 # l @ r \<in> S" and "0x01 # l' @ r' \<in> S" and "\<not> hash_collision S"
  shows "l = l' \<and> r = r'"
proof -
  have "0x01 # l @ r = 0x01 # l' @ r'"
    using assms(1) by (intro no_collisionD [OF assms(5) _ assms(3,4)]) (simp add: node_hash_def)
  then show ?thesis
    using assms(2) by simp
qed

text \<open>The root binds the list of leaves of a given length.\<close>

lemma merkle_root_binding_aux:
  "length xs = length ys \<Longrightarrow> hashes xs \<Longrightarrow> hashes ys \<Longrightarrow>
     merkle_root xs = merkle_root ys \<Longrightarrow> tree_inputs xs \<union> tree_inputs ys \<subseteq> S \<Longrightarrow>
     \<not> hash_collision S \<Longrightarrow> xs = ys"
proof (induction xs arbitrary: ys rule: merkle_induct)
  case empty
  then show ?case by simp
next
  case (single x)
  then obtain y where "ys = [y]"
    by (metis length_0_conv length_Suc_conv length_Cons)
  with single show ?case by simp
next
  case (split xs k)
  let ?l = "merkle_root (take k xs)" and ?r = "merkle_root (drop k xs)"
  let ?l' = "merkle_root (take k ys)" and ?r' = "merkle_root (drop k ys)"
  have k: "k = split_at (length ys)" "2 \<le> length ys"
    using split.hyps split.prems(1) by simp_all
  have inputs: "tree_inputs xs = insert (0x01 # ?l @ ?r) (tree_inputs (take k xs) \<union> tree_inputs (drop k xs))"
    "tree_inputs ys = insert (0x01 # ?l' @ ?r') (tree_inputs (take k ys) \<union> tree_inputs (drop k ys))"
    using split.hyps k by (simp_all only: tree_inputs_split)
  have "node_hash ?l ?r = node_hash ?l' ?r'"
    using split.prems(4) split.hyps k by (simp add: merkle_root_split)
  moreover have "length ?r = length ?r'"
    using split.prems(2,3) by (auto simp: hashes_drop)
  moreover have "0x01 # ?l @ ?r \<in> S" "0x01 # ?l' @ ?r' \<in> S"
    using split.prems(5) inputs by auto
  ultimately have roots: "?l = ?l'" "?r = ?r'"
    using node_hash_inject split.prems(6) by blast+
  have "take k xs = take k ys"
    using split.IH(1) [OF _ _ _ roots(1)] split.prems inputs by auto
  moreover have "drop k xs = drop k ys"
    using split.IH(2) [OF _ _ _ roots(2)] split.prems inputs by auto
  ultimately show ?case
    by (metis append_take_drop_id)
qed

subsection \<open>Inclusion proofs\<close>

datatype side = LeftSide | RightSide

record inclusion_step =
  side_of :: side
  hash_of :: bytes

text \<open>
  The local functions \<open>walk\<close> of \<open>inclusion_proof\<close> and \<open>collect_sides\<close> of
  \<open>verify_inclusion\<close>; the latter appends to a list that is returned here. Both are entered with
  an index below the size, so a size of zero does not occur.
\<close>

function walk :: "bytes list \<Rightarrow> nat \<Rightarrow> inclusion_step list" where
  "walk items local_index =
     (if length items < 2 then []
      else let k = split_at (length items) in
           if local_index < k
           then walk (take k items) local_index
                  @ [\<lparr>side_of = RightSide, hash_of = merkle_root (drop k items)\<rparr>]
           else walk (drop k items) (local_index - k)
                  @ [\<lparr>side_of = LeftSide, hash_of = merkle_root (take k items)\<rparr>])"
  by pat_completeness auto
termination
  by (relation "measure (\<lambda>(items, _). length items)")
     (simp_all only: in_measure prod.case split_halves_shorter wf_measure not_False_eq_True)

declare walk.simps [simp del]

definition inclusion_proof :: "bytes list \<Rightarrow> int \<Rightarrow> inclusion_step list result" where
  "inclusion_proof leaves index =
     (if \<not> (0 \<le> index \<and> index < int (length leaves))
      then Inl (MerkleProofError (py ''leaf index is outside the tree''))
      else Inr (walk leaves (nat index)))"

function collect_sides :: "nat \<Rightarrow> nat \<Rightarrow> side list" where
  "collect_sides local_index sz =
     (if sz < 2 then []
      else let k = split_at sz in
           if local_index < k then collect_sides local_index k @ [RightSide]
           else collect_sides (local_index - k) (sz - k) @ [LeftSide])"
  by pat_completeness auto
termination
  by (relation "measure snd") (use split_at_bounds(1) split_at_pos in \<open>fastforce+\<close>)

declare collect_sides.simps [simp del]

text \<open>The loop over the zipped proof and sides; \<open>None\<close> is its \<open>return False\<close>.\<close>

fun fold_path :: "bytes \<Rightarrow> (inclusion_step \<times> side) list \<Rightarrow> bytes option" where
  "fold_path current [] = Some current"
| "fold_path current ((step, expected_side) # rest) =
     (if length (hash_of step) \<noteq> 32 \<or> side_of step \<noteq> expected_side then None
      else fold_path
        (if side_of step = LeftSide then node_hash (hash_of step) current
         else node_hash current (hash_of step)) rest)"

definition verify_inclusion ::
  "bytes \<Rightarrow> int \<Rightarrow> int \<Rightarrow> inclusion_step list \<Rightarrow> bytes \<Rightarrow> bool" where
  "verify_inclusion leaf index tree_size proof expected_root =
     (if \<not> (0 \<le> index \<and> index < tree_size) then False
      else let expected_sides = collect_sides (nat index) (nat tree_size) in
           if length proof \<noteq> length expected_sides then False
           else case fold_path leaf (zip proof expected_sides) of
                  None \<Rightarrow> False
                | Some current \<Rightarrow> current = expected_root)"

lemma walk_small: "length items < 2 \<Longrightarrow> walk items i = []"
  by (simp add: walk.simps)

lemma walk_split:
  "2 \<le> length items \<Longrightarrow> k = split_at (length items) \<Longrightarrow>
     walk items i =
       (if i < k then walk (take k items) i
            @ [\<lparr>side_of = RightSide, hash_of = merkle_root (drop k items)\<rparr>]
        else walk (drop k items) (i - k)
            @ [\<lparr>side_of = LeftSide, hash_of = merkle_root (take k items)\<rparr>])"
  by (subst walk.simps) (simp add: Let_def)

lemma collect_sides_small: "n < 2 \<Longrightarrow> collect_sides i n = []"
  by (simp add: collect_sides.simps)

lemma collect_sides_split:
  "2 \<le> n \<Longrightarrow> k = split_at n \<Longrightarrow>
     collect_sides i n =
       (if i < k then collect_sides i k @ [RightSide]
        else collect_sides (i - k) (n - k) @ [LeftSide])"
  by (subst collect_sides.simps) (simp add: Let_def)

lemma fold_path_append:
  "fold_path c (xs @ ys) = (case fold_path c xs of None \<Rightarrow> None | Some d \<Rightarrow> fold_path d ys)"
  by (induction xs arbitrary: c) auto

lemma walk_sides: "map side_of (walk leaves i) = collect_sides i (length leaves)"
proof (induction leaves arbitrary: i rule: merkle_induct)
  case (split leaves k)
  then show ?case
    by (simp add: walk_split [OF split.hyps(1,2)] collect_sides_split [OF split.hyps(1,2)]
        min.absorb2)
qed (simp_all add: walk_small collect_sides_small)

lemma length_walk: "length (walk leaves i) = length (collect_sides i (length leaves))"
  by (metis length_map walk_sides)

lemma fold_path_walk:
  "hashes leaves \<Longrightarrow> i < length leaves \<Longrightarrow>
     fold_path (leaves ! i) (zip (walk leaves i) (collect_sides i (length leaves)))
       = Some (merkle_root leaves)"
proof (induction leaves arbitrary: i rule: merkle_induct)
  case (split leaves k)
  show ?case
  proof (cases "i < k")
    case True
    with split.IH(1) [of i] split.prems split.hyps show ?thesis
      by (simp add: walk_split [OF split.hyps(1,2)] collect_sides_split [OF split.hyps(1,2)]
          length_walk fold_path_append merkle_root_split)
  next
    case False
    with split.IH(2) [of "i - k"] split.prems split.hyps show ?thesis
      by (simp add: walk_split [OF split.hyps(1,2)] collect_sides_split [OF split.hyps(1,2)]
          length_walk fold_path_append merkle_root_split)
  qed
qed (simp_all add: walk_small collect_sides_small)

lemma inclusion_complete:
  "hashes leaves \<Longrightarrow> i < length leaves \<Longrightarrow>
     verify_inclusion (leaves ! i) (int i) (int (length leaves)) (walk leaves i)
       (merkle_root leaves)"
  by (simp add: verify_inclusion_def length_walk fold_path_walk)

text \<open>The inputs the verifier hashes.\<close>

fun path_inputs :: "bytes \<Rightarrow> inclusion_step list \<Rightarrow> bytes set" where
  "path_inputs current [] = {}"
| "path_inputs current (step # rest) =
     (if side_of step = LeftSide
      then insert (0x01 # hash_of step @ current)
             (path_inputs (node_hash (hash_of step) current) rest)
      else insert (0x01 # current @ hash_of step)
             (path_inputs (node_hash current (hash_of step)) rest))"

fun path_root :: "bytes \<Rightarrow> inclusion_step list \<Rightarrow> bytes" where
  "path_root current [] = current"
| "path_root current (step # rest) =
     path_root (if side_of step = LeftSide then node_hash (hash_of step) current
                else node_hash current (hash_of step)) rest"

lemma finite_path_inputs: "finite (path_inputs c path)"
  by (induction c path rule: path_inputs.induct) auto

lemma path_inputs_append:
  "path_inputs c (xs @ ys) = path_inputs c xs \<union> path_inputs (path_root c xs) ys"
  by (induction c xs rule: path_inputs.induct) auto

lemma path_root_append: "path_root c (xs @ ys) = path_root (path_root c xs) ys"
  by (induction c xs rule: path_root.induct) auto

lemma fold_path_Some:
  "length path = length sides \<Longrightarrow> fold_path c (zip path sides) = Some r \<longleftrightarrow>
     map side_of path = sides \<and> (\<forall>step \<in> set path. length (hash_of step) = 32) \<and>
     r = path_root c path"
  by (induction path sides arbitrary: c rule: list_induct2) auto

lemma verify_inclusion_iff:
  "verify_inclusion leaf index tree_size path root \<longleftrightarrow>
     0 \<le> index \<and> index < tree_size \<and>
     map side_of path = collect_sides (nat index) (nat tree_size) \<and>
     (\<forall>step \<in> set path. length (hash_of step) = 32) \<and> path_root leaf path = root"
proof (cases "length path = length (collect_sides (nat index) (nat tree_size))")
  case True
  have "(case x of None \<Rightarrow> False | Some current \<Rightarrow> current = root) \<longleftrightarrow> x = Some root" for x
    by (simp split: option.split)
  with True show ?thesis
    by (auto simp: verify_inclusion_def Let_def fold_path_Some)
next
  case False
  then show ?thesis
    by (auto simp: verify_inclusion_def dest: arg_cong [where f = length])
qed

lemma inclusion_sound_aux:
  "hashes leaves \<Longrightarrow> i < length leaves \<Longrightarrow> map side_of path = collect_sides i (length leaves) \<Longrightarrow>
     \<forall>step \<in> set path. length (hash_of step) = 32 \<Longrightarrow> path_root leaf path = merkle_root leaves \<Longrightarrow>
     tree_inputs leaves \<union> path_inputs leaf path \<subseteq> S \<Longrightarrow> \<not> hash_collision S \<Longrightarrow>
     leaf = leaves ! i"
proof (induction leaves arbitrary: i path rule: merkle_induct)
  case empty
  then show ?case by simp
next
  case (single x)
  then show ?case by (simp add: collect_sides_small)
next
  case (split leaves k)
  let ?l = "merkle_root (take k leaves)" and ?r = "merkle_root (drop k leaves)"
  have sides: "map side_of path = (if i < k then collect_sides i k @ [RightSide]
      else collect_sides (i - k) (length leaves - k) @ [LeftSide])"
    using split.prems(3) collect_sides_split [OF split.hyps(1,2)] by simp
  then have "path \<noteq> []"
    by (auto split: if_splits)
  then obtain p step where path: "path = p @ [step]"
    by (metis append_butlast_last_id)
  let ?sub = "path_root leaf p"
  have inputs: "tree_inputs leaves =
      insert (0x01 # ?l @ ?r) (tree_inputs (take k leaves) \<union> tree_inputs (drop k leaves))"
    using split.hyps by (simp only: tree_inputs_split)
  have S: "0x01 # ?l @ ?r \<in> S" "tree_inputs (take k leaves) \<union> path_inputs leaf p \<subseteq> S"
    "tree_inputs (drop k leaves) \<union> path_inputs leaf p \<subseteq> S"
    using split.prems(6) inputs by (auto simp: path path_inputs_append)
  have len: "length ?r = 32" "length (hash_of step) = 32"
    using split.prems(1,4) by (auto simp: path)
  have root: "merkle_root leaves = node_hash ?l ?r"
    using split.hyps merkle_root_split by simp
  show ?case
  proof (cases "i < k")
    case True
    with sides have side: "side_of step = RightSide" "map side_of p = collect_sides i k"
      by (auto simp: path)
    have "?sub = ?l"
      using node_hash_inject [of ?sub "hash_of step" ?l ?r S] split.prems(5,6,7) S(1) len root side
      by (simp add: path path_root_append path_inputs_append)
    then have "leaf = take k leaves ! i"
      using split.IH(1) [of i p] side True split.prems split.hyps S by (auto simp: path)
    then show ?thesis
      using True by simp
  next
    case False
    with sides have side: "side_of step = LeftSide"
      "map side_of p = collect_sides (i - k) (length leaves - k)"
      by (auto simp: path)
    have "length (hash_of step) = length ?l"
      using len split.prems(1) by auto
    then have "?sub = ?r"
      using node_hash_inject_left [of "hash_of step" ?sub ?l ?r S] split.prems(5,6,7) S(1) root side
      by (simp add: path path_root_append path_inputs_append)
    then have "leaf = drop k leaves ! (i - k)"
      using split.IH(2) [of "i - k" p] side False split.prems split.hyps S by (auto simp: path)
    then show ?thesis
      using False split.prems(2) by simp
  qed
qed

lemma inclusion_sound:
  assumes "hashes leaves" and "verify_inclusion leaf (int i) (int (length leaves)) path (merkle_root leaves)"
  shows "leaf = leaves ! i \<or> hash_collision (tree_inputs leaves \<union> path_inputs leaf path)"
  using assms inclusion_sound_aux [OF assms(1) _ _ _ _ subset_refl]
  by (auto simp: verify_inclusion_iff)

subsection \<open>Proofs are short\<close>

lemma bit_length_less_power: "n < 2 ^ j \<Longrightarrow> bit_length n \<le> j"
proof (induction n arbitrary: j rule: bit_length.induct)
  case (1 n)
  show ?case
  proof (cases "n = 0")
    case True
    then show ?thesis by (simp add: bit_length.simps)
  next
    case False
    with "1.prems" obtain i where "j = Suc i"
      by (cases j) auto
    with 1 False have "bit_length (n div 2) \<le> i"
      by auto
    with False \<open>j = Suc i\<close> show ?thesis
      by (simp add: bit_length.simps [of n])
  qed
qed

lemma length_collect_sides: "i < n \<Longrightarrow> length (collect_sides i n) \<le> bit_length (n - 1)"
proof (induction i n rule: collect_sides.induct)
  case (1 i n)
  show ?case
  proof (cases "n < 2")
    case True
    then show ?thesis by (simp add: collect_sides_small)
  next
    case False
    define k where "k = split_at n"
    have k: "k < n" "n \<le> 2 * k" "0 < k" "k = 2 ^ (bit_length (n - 1) - 1)"
      using False split_at_bounds [of n] split_at_pos [of n] by (simp_all add: k_def split_at_power)
    have "0 < bit_length (n - 1)"
      using False by (intro bit_length_pos) simp
    moreover have "k - 1 < 2 ^ (bit_length (n - 1) - 1)" "n - k - 1 < 2 ^ (bit_length (n - 1) - 1)"
      unfolding k(4) [symmetric] using k(1-3) by linarith+
    then have "bit_length (k - 1) \<le> bit_length (n - 1) - 1"
      "bit_length (n - k - 1) \<le> bit_length (n - 1) - 1"
      by (auto intro: bit_length_less_power)
    moreover have "length (collect_sides i n) =
        Suc (length (if i < k then collect_sides i k else collect_sides (i - k) (n - k)))"
      using False by (simp add: collect_sides_split [OF _ k_def])
    moreover have "i < k \<Longrightarrow> length (collect_sides i k) \<le> bit_length (k - 1)"
      by (rule "1.IH"(1) [OF False k_def])
    moreover have "\<not> i < k \<Longrightarrow> length (collect_sides (i - k) (n - k)) \<le> bit_length (n - k - 1)"
      using "1.prems" by (intro "1.IH"(2) [OF False k_def]) auto
    ultimately show ?thesis
      by (cases "i < k") (simp_all, linarith+)
  qed
qed

end
