(* ===== verification/Merkle_Consistency.thy ===== *)
theory Merkle_Consistency
  imports Merkle
begin

section \<open>Merkle trees: consistency proofs\<close>

text \<open>
  \<open>consistency_proof\<close> and \<open>verify_consistency\<close> of \<open>src/ledger/merkle.py\<close>. The prover recurses
  from the root down; the verifier walks from the leaves up over the bits of two indices. The
  lemmas relate the two through \<open>tree_kinds\<close>, the sequence of node kinds on the path between
  them, and give completeness and soundness.
\<close>

subsection \<open>The code\<close>

text \<open>
  The local function \<open>subproof\<close> of \<open>consistency_proof\<close>: it is entered with \<open>1 \<le> m \<le> n\<close>, so the
  guard \<open>n < 2\<close>, which the recursion needs to end, adds no case.
\<close>

function subproof :: "nat \<Rightarrow> bytes list \<Rightarrow> bool \<Rightarrow> bytes list" where
  "subproof m items complete =
     (let n = length items in
      if m = n \<or> n < 2 then (if complete then [] else [merkle_root items])
      else let k = split_at n in
           if m \<le> k then subproof m (take k items) complete @ [merkle_root (drop k items)]
           else subproof (m - k) (drop k items) False @ [merkle_root (take k items)])"
  by pat_completeness auto
termination
  by (relation "measure (\<lambda>(_, items, _). length items)")
     (simp_all only: in_measure prod.case split_halves_shorter wf_measure not_False_eq_True
        de_Morgan_disj)

declare subproof.simps [simp del]

definition consistency_proof :: "bytes list \<Rightarrow> int \<Rightarrow> bytes list result" where
  "consistency_proof leaves old_size =
     (let new_size = int (length leaves) in
      if old_size < 1 \<or> old_size > new_size
      then Inl (MerkleProofError (py ''old tree size must be between one and the new tree size''))
      else if old_size = new_size then Inr []
      else Inr (subproof (nat old_size) leaves True))"

text \<open>\<open>while fn & 1\<close> and \<open>while fn and not (fn & 1)\<close>: both indices are shifted together.\<close>

function strip_odd :: "nat \<Rightarrow> nat \<Rightarrow> nat \<times> nat" where
  "strip_odd fn sn = (if odd fn then strip_odd (fn div 2) (sn div 2) else (fn, sn))"
  by pat_completeness auto
termination
  by (relation "measure fst") (auto intro!: div_less_dividend odd_pos)

function strip_even :: "nat \<Rightarrow> nat \<Rightarrow> nat \<times> nat" where
  "strip_even fn sn =
     (if fn \<noteq> 0 \<and> even fn then strip_even (fn div 2) (sn div 2) else (fn, sn))"
  by pat_completeness auto
termination
  by (relation "measure fst") auto

declare strip_odd.simps [simp del]
declare strip_even.simps [simp del]

text \<open>The loop over the proof; \<open>None\<close> is its \<open>return False\<close>.\<close>

fun consistency_loop ::
  "nat \<Rightarrow> nat \<Rightarrow> bytes \<Rightarrow> bytes \<Rightarrow> bytes list \<Rightarrow> (nat \<times> bytes \<times> bytes) option" where
  "consistency_loop fn sn old_hash new_hash [] = Some (sn, old_hash, new_hash)"
| "consistency_loop fn sn old_hash new_hash (item # rest) =
     (if sn = 0 then None
      else if odd fn \<or> fn = sn then
        let (fn', sn') = strip_even fn sn in
        consistency_loop (fn' div 2) (sn' div 2)
          (node_hash item old_hash) (node_hash item new_hash) rest
      else consistency_loop (fn div 2) (sn div 2) old_hash (node_hash new_hash item) rest)"

definition verify_consistency ::
  "int \<Rightarrow> int \<Rightarrow> bytes \<Rightarrow> bytes \<Rightarrow> bytes list \<Rightarrow> bool" where
  "verify_consistency old_size new_size old_root new_root proof =
     (if old_size < 1 \<or> old_size > new_size then False
      else if old_size = new_size then length proof = 0 \<and> old_root = new_root
      else if \<exists>item \<in> set proof. length item \<noteq> 32 then False
      else
        let (fn, sn) = strip_odd (nat (old_size - 1)) (nat (new_size - 1));
            finish = (\<lambda>r. case r of None \<Rightarrow> False
                       | Some (sn', old_hash, new_hash) \<Rightarrow>
                           sn' = 0 \<and> old_hash = old_root \<and> new_hash = new_root)
        in if fn = 0 then finish (consistency_loop fn sn old_root old_root proof)
           else case proof of
                  [] \<Rightarrow> False
                | first # rest \<Rightarrow> finish (consistency_loop fn sn first first rest))"

subsection \<open>Node kinds along the path\<close>

text \<open>
  A proof element is either the left sibling of both trees' path (\<open>True\<close>: it enters the old and
  the new hash) or a right sibling that only the new tree has (\<open>False\<close>). \<open>loop_kinds\<close> is the
  order in which the verifier's loop meets them, \<open>tree_kinds\<close> the order the prover writes them.
\<close>

lemma strip_even_snd_le: "snd (strip_even fn sn) \<le> sn"
proof (induction fn sn rule: strip_even.induct)
  case (1 fn sn)
  then show ?case
    by (subst strip_even.simps) (auto intro: order_trans [OF _ div_le_dividend])
qed

function loop_kinds :: "nat \<Rightarrow> nat \<Rightarrow> bool list" where
  "loop_kinds fn sn =
     (if sn = 0 then []
      else if odd fn \<or> fn = sn then
        True # loop_kinds (fst (strip_even fn sn) div 2) (snd (strip_even fn sn) div 2)
      else False # loop_kinds (fn div 2) (sn div 2))"
  by pat_completeness auto
termination
proof (relation "measure snd", goal_cases)
  case (2 fn sn)
  have "snd (strip_even fn sn) div 2 \<le> sn div 2"
    by (simp add: div_le_mono strip_even_snd_le)
  also have "\<dots> < sn"
    using 2 by simp
  finally show ?case by simp
qed auto

declare loop_kinds.simps [simp del]

function tree_kinds :: "nat \<Rightarrow> nat \<Rightarrow> bool list" where
  "tree_kinds m n =
     (if m = n \<or> n < 2 then []
      else let k = split_at n in
           if m \<le> k then tree_kinds m k @ [False] else tree_kinds (m - k) (n - k) @ [True])"
  by pat_completeness auto
termination
  by (relation "measure snd") (use split_at_bounds(1) split_at_pos in \<open>fastforce+\<close>)

declare tree_kinds.simps [simp del]

lemma tree_kinds_same [simp]: "tree_kinds n n = []"
  by (simp add: tree_kinds.simps)

lemma tree_kinds_less:
  "0 < m \<Longrightarrow> m < n \<Longrightarrow> k = split_at n \<Longrightarrow>
     tree_kinds m n = (if m \<le> k then tree_kinds m k @ [False] else tree_kinds (m - k) (n - k) @ [True])"
  by (subst tree_kinds.simps) (simp add: Let_def)

lemma loop_kinds_0 [simp]: "loop_kinds fn 0 = []"
  by (simp add: loop_kinds.simps)

lemma loop_kinds_Nil_iff: "loop_kinds fn sn = [] \<longleftrightarrow> sn = 0"
  by (subst loop_kinds.simps) simp

lemma strip_even_odd [simp]: "odd fn \<Longrightarrow> strip_even fn sn = (fn, sn)"
  by (simp add: strip_even.simps)

lemma strip_odd_even [simp]: "even fn \<Longrightarrow> strip_odd fn sn = (fn, sn)"
  by (simp add: strip_odd.simps)

lemma strip_odd_odd: "odd fn \<Longrightarrow> strip_odd fn sn = strip_odd (fn div 2) (sn div 2)"
  by (subst strip_odd.simps) simp

lemma loop_kinds_odd:
  "odd fn \<Longrightarrow> 0 < sn \<Longrightarrow> loop_kinds fn sn = True # loop_kinds (fn div 2) (sn div 2)"
  by (subst loop_kinds.simps) simp

lemma loop_kinds_left:
  "even fn \<Longrightarrow> fn \<noteq> sn \<Longrightarrow> 0 < sn \<Longrightarrow> loop_kinds fn sn = False # loop_kinds (fn div 2) (sn div 2)"
  by (subst loop_kinds.simps) simp

lemma loop_kinds_same:
  "0 < sn \<Longrightarrow> loop_kinds sn sn =
     True # loop_kinds (fst (strip_even sn sn) div 2) (snd (strip_even sn sn) div 2)"
  by (subst loop_kinds.simps) simp

definition strip_kinds :: "nat \<Rightarrow> nat \<Rightarrow> bool list" where
  "strip_kinds fn sn = (case strip_odd fn sn of (f, s) \<Rightarrow> loop_kinds f s)"

lemma strip_kinds_even: "even fn \<Longrightarrow> strip_kinds fn sn = loop_kinds fn sn"
  by (simp add: strip_kinds_def)

lemma strip_kinds_odd: "odd fn \<Longrightarrow> strip_kinds fn sn = strip_kinds (fn div 2) (sn div 2)"
  by (simp add: strip_kinds_def strip_odd_odd)

text \<open>Halving the last index of a full subtree.\<close>

lemma last_index_half [simp]:
  "(2 * 2 ^ j - Suc 0) div 2 = 2 ^ j - Suc 0" "odd (2 * 2 ^ j - Suc 0)" "Suc 0 < 2 * 2 ^ j"
proof -
  obtain p where "(2 :: nat) ^ j = Suc p"
    by (metis not0_implies_Suc power_not_zero zero_neq_numeral)
  then show "(2 * 2 ^ j - Suc 0) div 2 = 2 ^ j - Suc 0" "odd (2 * 2 ^ j - Suc 0)" "Suc 0 < 2 * 2 ^ j"
    by simp_all
qed

text \<open>The old boundary lies in the full left subtree of \<open>2 ^ j\<close> leaves.\<close>

lemma loop_kinds_in_left:
  "fn < 2 ^ j \<Longrightarrow> 2 ^ j \<le> sn \<Longrightarrow> sn < 2 ^ Suc j \<Longrightarrow>
     loop_kinds fn sn = loop_kinds fn (2 ^ j - 1) @ [False]"
proof (induction j arbitrary: fn sn)
  case 0
  then have "fn = 0" "sn = 1"
    by auto
  then show ?case
    by (simp add: loop_kinds.simps)
next
  case (Suc j)
  have IH: "loop_kinds (fn div 2) (sn div 2) = loop_kinds (fn div 2) (2 ^ j - 1) @ [False]"
    using Suc.prems by (intro Suc.IH) auto
  have "0 < sn" "fn \<noteq> sn"
    using Suc.prems by auto
  moreover have "even fn \<Longrightarrow> fn \<noteq> 2 * 2 ^ j - Suc 0"
    using last_index_half(2) by blast
  ultimately show ?case
    using IH by (cases "odd fn") (simp_all add: loop_kinds_odd loop_kinds_left)
qed

lemma strip_kinds_in_left:
  "fn < 2 ^ j \<Longrightarrow> 2 ^ j \<le> sn \<Longrightarrow> sn < 2 ^ Suc j \<Longrightarrow>
     strip_kinds fn sn = strip_kinds fn (2 ^ j - 1) @ [False]"
proof (induction j arbitrary: fn sn)
  case 0
  then show ?case
    using loop_kinds_in_left [of fn 0 sn] by (simp add: strip_kinds_even)
next
  case (Suc j)
  show ?case
  proof (cases "odd fn")
    case True
    have "strip_kinds (fn div 2) (sn div 2) = strip_kinds (fn div 2) (2 ^ j - 1) @ [False]"
      using Suc.prems by (intro Suc.IH) auto
    with True show ?thesis
      by (simp add: strip_kinds_odd)
  next
    case False
    with loop_kinds_in_left [of fn "Suc j" sn] Suc.prems show ?thesis
      by (simp add: strip_kinds_even)
  qed
qed

text \<open>The old boundary lies in the right subtree: both indices have bit \<open>j\<close> set.\<close>

lemma strip_even_offset:
  "0 < a \<Longrightarrow> a \<le> b \<Longrightarrow> b < 2 ^ j \<Longrightarrow>
     \<exists>i a' b'. i < j \<and> strip_even a b = (a', b') \<and> strip_even (2 ^ j + a) (2 ^ j + b) =
       (2 ^ Suc i + a', 2 ^ Suc i + b') \<and> a' \<le> b' \<and> b' < 2 ^ Suc i"
proof (induction j arbitrary: a b)
  case 0
  then show ?case by simp
next
  case (Suc j)
  show ?case
  proof (cases "odd a")
    case True
    with Suc.prems show ?thesis
      by (intro exI [of _ j] exI [of _ a] exI [of _ b]) simp
  next
    case False
    then have steps: "strip_even a b = strip_even (a div 2) (b div 2)"
      "strip_even (2 * 2 ^ j + a) (2 * 2 ^ j + b) = strip_even (2 ^ j + a div 2) (2 ^ j + b div 2)"
      using Suc.prems(1) by (simp_all add: strip_even.simps [of a] strip_even.simps [of "2 * 2 ^ j + a"])
    have "0 < a div 2" "a div 2 \<le> b div 2" "b div 2 < 2 ^ j"
      using False Suc.prems by (auto elim: evenE)
    from Suc.IH [OF this] show ?thesis
      by (auto simp: steps intro: less_SucI)
  qed
qed

lemma strip_even_power: "strip_even (2 ^ j) (2 ^ j) = (1, 1)"
  by (induction j) (simp_all add: strip_even.simps)

lemma loop_kinds_in_right:
  "a \<le> b \<Longrightarrow> b < 2 ^ j \<Longrightarrow> loop_kinds (2 ^ j + a) (2 ^ j + b) = loop_kinds a b @ [True]"
proof (induction j arbitrary: a b rule: less_induct)
  case (less j)
  show ?case
  proof (cases "b = 0")
    case True
    with less.prems show ?thesis
      by (simp add: loop_kinds_same strip_even_power)
  next
    case False
    then obtain i where j: "j = Suc i"
      using less.prems by (cases j) auto
    have half: "(2 ^ j + a) div 2 = 2 ^ i + a div 2" "(2 ^ j + b) div 2 = 2 ^ i + b div 2"
      by (simp_all add: j)
    have IH: "loop_kinds (2 ^ i + a div 2) (2 ^ i + b div 2) = loop_kinds (a div 2) (b div 2) @ [True]"
      using less.prems by (intro less.IH) (auto simp: j div_le_mono)
    consider "odd a" | "even a" "a \<noteq> b" | "even a" "a = b"
      by blast
    then show ?thesis
    proof cases
      case 1
      then show ?thesis
        using False IH half by (simp add: loop_kinds_odd j)
    next
      case 2
      then show ?thesis
        using False IH half by (simp add: loop_kinds_left j)
    next
      case 3
      then obtain l a' b' where l: "l < j" "strip_even b b = (a', b')"
        "strip_even (2 ^ j + b) (2 ^ j + b) = (2 ^ Suc l + a', 2 ^ Suc l + b')"
        "a' \<le> b'" "b' < 2 ^ Suc l"
        using strip_even_offset [of b b j] False less.prems by auto
      have "loop_kinds (2 ^ l + a' div 2) (2 ^ l + b' div 2) = loop_kinds (a' div 2) (b' div 2) @ [True]"
        using l by (intro less.IH) (auto simp: div_le_mono)
      with 3 False l show ?thesis
        by (simp add: loop_kinds_same)
    qed
  qed
qed

lemma strip_kinds_in_right:
  "a < b \<Longrightarrow> b < 2 ^ j \<Longrightarrow> strip_kinds (2 ^ j + a) (2 ^ j + b) = strip_kinds a b @ [True]"
proof (induction j arbitrary: a b)
  case 0
  then show ?case by simp
next
  case (Suc j)
  show ?case
  proof (cases "odd a")
    case True
    then have "a div 2 < b div 2" "b div 2 < 2 ^ j"
      using Suc.prems by (auto elim!: oddE)
    from Suc.IH [OF this] True show ?thesis
      by (simp add: strip_kinds_odd)
  next
    case False
    with Suc.prems loop_kinds_in_right [of a b "Suc j"] show ?thesis
      by (simp add: strip_kinds_even)
  qed
qed

lemma strip_kinds_full: "strip_kinds (2 ^ j - Suc 0) (2 ^ j - Suc 0) = []"
  by (induction j) (simp_all add: strip_kinds_even strip_kinds_odd)

text \<open>The verifier meets the node kinds in the order in which the prover wrote them.\<close>

lemma strip_kinds_tree:
  "0 < m \<Longrightarrow> m < n \<or> m = n \<and> (\<exists>i. n = 2 ^ i) \<Longrightarrow> strip_kinds (m - 1) (n - 1) = tree_kinds m n"
proof (induction m n rule: tree_kinds.induct)
  case (1 m n)
  show ?case
  proof (cases "m = n")
    case True
    with 1 show ?thesis
      by (auto simp: strip_kinds_full)
  next
    case False
    then have mn: "m < n" "2 \<le> n" "\<not> (m = n \<or> n < 2)"
      using "1.prems" by auto
    define k where "k = split_at n"
    obtain j where j: "k = 2 ^ j"
      by (simp add: k_def split_at_power)
    have k: "k < n" "n \<le> 2 * k" "0 < k"
      using split_at_bounds [OF mn(2)] split_at_pos by (simp_all add: k_def)
    show ?thesis
    proof (cases "m \<le> k")
      case True
      have "strip_kinds (m - 1) (n - 1) = strip_kinds (m - 1) (k - 1) @ [False]"
        unfolding j using True k "1.prems"(1) by (intro strip_kinds_in_left) (auto simp: j)
      also have "strip_kinds (m - 1) (k - 1) = tree_kinds m k"
        using "1.IH"(1) [OF mn(3) k_def True "1.prems"(1)] True j by (auto simp: le_less)
      finally show ?thesis
        using True "1.prems" mn by (simp add: tree_kinds_less [OF _ _ k_def])
    next
      case False
      have "m - 1 = 2 ^ j + (m - k - 1)" "n - 1 = 2 ^ j + (n - k - 1)"
        using False k by (auto simp: j)
      then have "strip_kinds (m - 1) (n - 1) = strip_kinds (m - k - 1) (n - k - 1) @ [True]"
        using False k mn by (simp only:) (intro strip_kinds_in_right; auto simp: j)
      also have "strip_kinds (m - k - 1) (n - k - 1) = tree_kinds (m - k) (n - k)"
        using "1.IH"(2) [OF mn(3) k_def False] False mn by (simp add: diff_less_mono)
      finally show ?thesis
        using False "1.prems" mn by (simp add: tree_kinds_less [OF _ _ k_def])
    qed
  qed
qed

subsection \<open>What the verifier accepts\<close>

fun kind_step :: "bool \<times> bytes \<Rightarrow> bytes \<times> bytes \<Rightarrow> bytes \<times> bytes" where
  "kind_step (both, item) (old_hash, new_hash) =
     (if both then (node_hash item old_hash, node_hash item new_hash)
      else (old_hash, node_hash new_hash item))"

definition kind_fold :: "bool list \<Rightarrow> bytes list \<Rightarrow> bytes \<times> bytes \<Rightarrow> bytes \<times> bytes" where
  "kind_fold kinds path start = fold kind_step (zip kinds path) start"

lemma kind_fold_Nil [simp]: "kind_fold [] [] start = start"
  by (simp add: kind_fold_def)

lemma kind_fold_Cons [simp]:
  "kind_fold (b # kinds) (x # path) start = kind_fold kinds path (kind_step (b, x) start)"
  by (simp add: kind_fold_def)

lemma kind_fold_snoc [simp]:
  "length kinds = length path \<Longrightarrow>
     kind_fold (kinds @ [b]) (path @ [x]) start = kind_step (b, x) (kind_fold kinds path start)"
  by (simp add: kind_fold_def)

lemma consistency_loop_iff:
  "consistency_loop fn sn old_hash new_hash path = Some (0, old', new') \<longleftrightarrow>
     length path = length (loop_kinds fn sn) \<and>
     kind_fold (loop_kinds fn sn) path (old_hash, new_hash) = (old', new')"
proof (induction path arbitrary: fn sn old_hash new_hash)
  case Nil
  then show ?case
    by (auto simp: loop_kinds_Nil_iff)
next
  case (Cons item rest)
  show ?case
  proof (cases "sn = 0")
    case True
    then show ?thesis by simp
  next
    case False
    then show ?thesis
      by (subst (1 2) loop_kinds.simps) (simp add: Cons.IH split_beta)
  qed
qed

text \<open>Whether the path turns right anywhere: exactly when the old size is no power of two.\<close>

function turns_right :: "nat \<Rightarrow> nat \<Rightarrow> bool" where
  "turns_right m n =
     (if m = n \<or> n < 2 then False
      else let k = split_at n in if m \<le> k then turns_right m k else True)"
  by pat_completeness auto
termination
  by (relation "measure snd") (use split_at_bounds(1) split_at_pos in \<open>fastforce+\<close>)

declare turns_right.simps [simp del]

lemma turns_right_less:
  "0 < m \<Longrightarrow> m < n \<Longrightarrow> turns_right m n = (m \<le> split_at n \<longrightarrow> turns_right m (split_at n))"
  by (subst turns_right.simps) (simp add: Let_def)

lemma strip_odd_fst_0: "fst (strip_odd fn sn) = 0 \<longleftrightarrow> (\<exists>i. Suc fn = 2 ^ i)"
proof (induction fn sn rule: strip_odd.induct)
  case (1 fn sn)
  show ?case
  proof (cases "odd fn")
    case True
    have "(\<exists>i. Suc (fn div 2) = 2 ^ i) \<longleftrightarrow> (\<exists>i. Suc fn = 2 ^ i)"
    proof
      assume "\<exists>i. Suc (fn div 2) = 2 ^ i"
      then obtain i where "Suc (fn div 2) = 2 ^ i" ..
      with True have "Suc fn = 2 ^ Suc i"
        by (auto elim!: oddE)
      then show "\<exists>i. Suc fn = 2 ^ i" ..
    next
      assume "\<exists>i. Suc fn = 2 ^ i"
      then obtain i where i: "Suc fn = 2 ^ i" ..
      with True obtain l where "i = Suc l"
        by (cases i) auto
      with i True have "Suc (fn div 2) = 2 ^ l"
        by (auto elim!: oddE)
      then show "\<exists>i. Suc (fn div 2) = 2 ^ i" ..
    qed
    with 1 True show ?thesis
      by (simp add: strip_odd_odd)
  next
    case False
    have "fn = 0 \<longleftrightarrow> (\<exists>i. Suc fn = 2 ^ i)"
    proof
      assume "fn = 0"
      then show "\<exists>i. Suc fn = 2 ^ i" by (intro exI [of _ 0]) simp
    next
      assume "\<exists>i. Suc fn = 2 ^ i"
      then obtain i where "Suc fn = 2 ^ i" ..
      with False show "fn = 0"
        by (cases i) (auto, metis even_Suc even_mult_iff even_numeral)
    qed
    with False show ?thesis by simp
  qed
qed

lemma turns_right_iff:
  "0 < m \<Longrightarrow> m < n \<or> m = n \<and> (\<exists>i. n = 2 ^ i) \<Longrightarrow> turns_right m n \<longleftrightarrow> (\<nexists>i. m = 2 ^ i)"
proof (induction m n rule: turns_right.induct)
  case (1 m n)
  show ?case
  proof (cases "m = n")
    case True
    with 1 show ?thesis
      by (auto simp: turns_right.simps)
  next
    case False
    then have mn: "m < n" "2 \<le> n" "\<not> (m = n \<or> n < 2)"
      using "1.prems" by auto
    define k where "k = split_at n"
    obtain j where j: "k = 2 ^ j"
      by (simp add: k_def split_at_power)
    have k: "k < n" "n \<le> 2 * k"
      using split_at_bounds [OF mn(2)] by (simp_all add: k_def)
    show ?thesis
    proof (cases "m \<le> k")
      case True
      then have "turns_right m k \<longleftrightarrow> (\<nexists>i. m = 2 ^ i)"
        using "1.IH" [OF mn(3) k_def True "1.prems"(1)] j by (auto simp: le_less)
      with True mn "1.prems"(1) show ?thesis
        by (simp add: turns_right_less k_def)
    next
      case False
      have "m \<noteq> 2 ^ i" for i
      proof
        assume "m = 2 ^ i"
        with False k mn have "(2 :: nat) ^ j < 2 ^ i" and less: "(2 :: nat) ^ i < 2 ^ Suc j"
          by (auto simp: j)
        then have "Suc j \<le> i"
          by (simp add: Suc_le_eq)
        then have "(2 :: nat) ^ Suc j \<le> 2 ^ i"
          by (rule power_increasing) simp
        with less show False
          by simp
      qed
      with False mn "1.prems"(1) show ?thesis
        by (simp add: turns_right_less k_def)
    qed
  qed
qed

lemma strip_odd_seeded:
  "0 < m \<Longrightarrow> m < n \<Longrightarrow> fst (strip_odd (m - 1) sn) = 0 \<longleftrightarrow> \<not> turns_right m n"
  by (simp add: strip_odd_fst_0 turns_right_iff)

text \<open>
  The verifier in terms of the tree: from a seed (the old root when the path never turns right,
  the first proof element otherwise) the remaining elements fold along \<open>tree_kinds\<close> to the two
  roots.
\<close>

definition consistency_accepts ::
  "nat \<Rightarrow> nat \<Rightarrow> bytes \<Rightarrow> bytes \<Rightarrow> bytes \<Rightarrow> bytes list \<Rightarrow> bool" where
  "consistency_accepts m n old_root new_root seed path \<longleftrightarrow>
     length path = length (tree_kinds m n) \<and>
     kind_fold (tree_kinds m n) path (seed, seed) = (old_root, new_root)"

lemma verify_consistency_iff:
  assumes "0 < m" "m < n"
  shows "verify_consistency (int m) (int n) old_root new_root proof \<longleftrightarrow>
    (\<forall>item \<in> set proof. length item = 32) \<and>
    (if turns_right m n
     then \<exists>seed path. proof = seed # path \<and> consistency_accepts m n old_root new_root seed path
     else consistency_accepts m n old_root new_root old_root proof)"
proof -
  obtain f s where fs: "strip_odd (m - Suc 0) (n - Suc 0) = (f, s)"
    by fastforce
  have kinds: "loop_kinds f s = tree_kinds m n"
    using strip_kinds_tree [of m n] assms fs by (simp add: strip_kinds_def)
  have seeded: "f = 0 \<longleftrightarrow> \<not> turns_right m n"
    using strip_odd_seeded [OF assms, of "n - 1"] fs by simp
  have loop: "(case consistency_loop f s x x p of None \<Rightarrow> False
      | Some (sn', old_hash, new_hash) \<Rightarrow> sn' = 0 \<and> old_hash = old_root \<and> new_hash = new_root) \<longleftrightarrow>
      consistency_accepts m n old_root new_root x p" for x p
    using consistency_loop_iff [of f s x x p old_root new_root]
    by (auto simp: consistency_accepts_def kinds split: option.splits)
  have nats: "nat (int m - 1) = m - Suc 0" "nat (int n - 1) = n - Suc 0"
    by simp_all
  have "verify_consistency (int m) (int n) old_root new_root proof \<longleftrightarrow>
      (\<forall>item \<in> set proof. length item = 32) \<and>
      (if f = 0 then consistency_accepts m n old_root new_root old_root proof
       else case proof of [] \<Rightarrow> False
            | seed # path \<Rightarrow> consistency_accepts m n old_root new_root seed path)"
    unfolding verify_consistency_def nats fs Let_def prod.case loop
    using assms by auto
  then show ?thesis
    by (auto simp: seeded split: list.splits)
qed

subsection \<open>Completeness\<close>

text \<open>The proof without its seed, and the seed: the root of the subtree where the path ends.\<close>

function proof_path :: "nat \<Rightarrow> bytes list \<Rightarrow> bytes list" where
  "proof_path m items =
     (if m = length items \<or> length items < 2 then []
      else let k = split_at (length items) in
           if m \<le> k then proof_path m (take k items) @ [merkle_root (drop k items)]
           else proof_path (m - k) (drop k items) @ [merkle_root (take k items)])"
  by pat_completeness auto
termination
  by (relation "measure (\<lambda>(_, items). length items)")
     (simp_all only: in_measure prod.case split_halves_shorter wf_measure not_False_eq_True
        de_Morgan_disj)

function proof_seed :: "nat \<Rightarrow> bytes list \<Rightarrow> bytes" where
  "proof_seed m items =
     (if m = length items \<or> length items < 2 then merkle_root items
      else let k = split_at (length items) in
           if m \<le> k then proof_seed m (take k items) else proof_seed (m - k) (drop k items))"
  by pat_completeness auto
termination
  by (relation "measure (\<lambda>(_, items). length items)")
     (simp_all only: in_measure prod.case split_halves_shorter wf_measure not_False_eq_True
        de_Morgan_disj)

declare proof_path.simps [simp del] and proof_seed.simps [simp del]

lemma proof_same [simp]:
  "proof_path (length items) items = []" "proof_seed (length items) items = merkle_root items"
  by (simp_all add: proof_path.simps proof_seed.simps)

lemma proof_less:
  assumes "0 < m" "m < length items" "k = split_at (length items)"
  shows
    "proof_path m items =
       (if m \<le> k then proof_path m (take k items) @ [merkle_root (drop k items)]
        else proof_path (m - k) (drop k items) @ [merkle_root (take k items)])"
    "proof_seed m items =
       (if m \<le> k then proof_seed m (take k items) else proof_seed (m - k) (drop k items))"
    "subproof m items complete =
       (if m \<le> k then subproof m (take k items) complete @ [merkle_root (drop k items)]
        else subproof (m - k) (drop k items) False @ [merkle_root (take k items)])"
  using assms
  by (simp_all add: proof_path.simps [of m items] proof_seed.simps [of m items]
      subproof.simps [of m items] Let_def)

lemma subproof_same [simp]:
  "subproof (length items) items complete = (if complete then [] else [merkle_root items])"
  by (simp add: subproof.simps)

text \<open>Induction along the path of an old size into a list of leaves.\<close>

lemma boundary_induct [consumes 2, case_names same left right]:
  assumes "0 < m" and "m \<le> length items"
    and "\<And>items. 0 < length items \<Longrightarrow> P (length items) items"
    and "\<And>m items k. 0 < m \<Longrightarrow> m < length items \<Longrightarrow> k = split_at (length items) \<Longrightarrow>
           0 < k \<Longrightarrow> k < length items \<Longrightarrow> m \<le> k \<Longrightarrow> P m (take k items) \<Longrightarrow> P m items"
    and "\<And>m items k. 0 < m \<Longrightarrow> m < length items \<Longrightarrow> k = split_at (length items) \<Longrightarrow>
           0 < k \<Longrightarrow> k < length items \<Longrightarrow> k < m \<Longrightarrow> P (m - k) (drop k items) \<Longrightarrow> P m items"
  shows "P m items"
  using assms(1,2)
proof (induction items arbitrary: m rule: merkle_induct)
  case empty
  then show ?case by simp
next
  case (single x)
  then have "m = length [x]"
    by simp
  then show ?case
    using assms(3) [of "[x]"] by simp
next
  case (split items k)
  consider "m = length items" | "m < length items" "m \<le> k" | "m < length items" "k < m"
    using split.prems by linarith
  then show ?case
  proof cases
    case 1
    with split.prems assms(3) show ?thesis by blast
  next
    case 2
    with split show ?thesis
      by (intro assms(4) [of m items k]) simp_all
  next
    case 3
    with split show ?thesis
      by (intro assms(5) [of m items k]) simp_all
  qed
qed

lemma subproof_shape:
  "0 < m \<Longrightarrow> m \<le> length items \<Longrightarrow>
     subproof m items complete =
       (if \<not> complete \<or> turns_right m (length items) then [proof_seed m items] else [])
       @ proof_path m items"
proof (induction m items arbitrary: complete rule: boundary_induct)
  case (same items)
  then show ?case
    by (simp add: turns_right.simps)
next
  case (left m items k)
  then show ?case
    by (simp add: proof_less [OF left.hyps(1-3)] turns_right_less min.absorb2)
next
  case (right m items k)
  then show ?case
    by (simp add: proof_less [OF right.hyps(1-3)] turns_right_less)
qed

lemma length_proof_path:
  "0 < m \<Longrightarrow> m \<le> length items \<Longrightarrow> length (proof_path m items) = length (tree_kinds m (length items))"
proof (induction m items rule: boundary_induct)
  case (same items)
  then show ?case by simp
next
  case (left m items k)
  then show ?case
    by (simp add: proof_less [OF left.hyps(1-3)] tree_kinds_less [OF left.hyps(1-3)] min.absorb2)
next
  case (right m items k)
  then show ?case
    by (simp add: proof_less [OF right.hyps(1-3)] tree_kinds_less [OF right.hyps(1-3)])
qed

lemma merkle_root_take_right:
  assumes "k < m" "m \<le> length items" "k = split_at (length items)" "2 \<le> length items"
  shows "merkle_root (take m items) =
    node_hash (merkle_root (take k items)) (merkle_root (take (m - k) (drop k items)))"
proof -
  obtain j where "k = 2 ^ j"
    by (simp add: assms(3) split_at_power)
  moreover have "k < m" "m \<le> 2 * k"
    using assms split_at_bounds(2) [OF assms(4)] by auto
  ultimately have "split_at m = k"
    using split_at_unique [of j m] by simp
  moreover have "2 \<le> m"
    using \<open>k < m\<close> split_at_pos [of "length items"] assms(3) by simp
  ultimately show ?thesis
    using merkle_root_split [of "take m items"] assms
    by (simp add: min.absorb2 min.absorb1 drop_take)
qed

lemma kind_fold_path:
  "0 < m \<Longrightarrow> m \<le> length items \<Longrightarrow>
     kind_fold (tree_kinds m (length items)) (proof_path m items)
       (proof_seed m items, proof_seed m items) = (merkle_root (take m items), merkle_root items)"
proof (induction m items rule: boundary_induct)
  case (same items)
  then show ?case by simp
next
  case (left m items k)
  have len: "length (tree_kinds m k) = length (proof_path m (take k items))"
    using length_proof_path [of m "take k items"] left.hyps by (simp add: min.absorb2)
  show ?case
    using left.IH left.hyps len
    by (simp add: proof_less [OF left.hyps(1-3)] tree_kinds_less [OF left.hyps(1-3)] min.absorb1
        min.absorb2 merkle_root_split)
next
  case (right m items k)
  have len: "length (tree_kinds (m - k) (length items - k)) = length (proof_path (m - k) (drop k items))"
    using length_proof_path [of "m - k" "drop k items"] right.hyps by simp
  have two: "2 \<le> length items"
    using right.hyps by simp
  have "merkle_root (take m items) =
      node_hash (merkle_root (take k items)) (merkle_root (take (m - k) (drop k items)))"
    using right.hyps two by (intro merkle_root_take_right) auto
  moreover have "merkle_root items = node_hash (merkle_root (take k items)) (merkle_root (drop k items))"
    using merkle_root_split [OF two] right.hyps(3) by simp
  ultimately show ?case
    using right.IH right.hyps(6) len
    by (simp add: proof_less [OF right.hyps(1-3)] tree_kinds_less [OF right.hyps(1-3)])
qed

lemma proof_seed_old_root:
  "0 < m \<Longrightarrow> m \<le> length items \<Longrightarrow> \<not> turns_right m (length items) \<Longrightarrow>
     proof_seed m items = merkle_root (take m items)"
proof (induction m items rule: boundary_induct)
  case (same items)
  then show ?case by simp
next
  case (left m items k)
  then show ?case
    by (simp add: proof_less [OF left.hyps(1-3)] turns_right_less min.absorb1 min.absorb2)
next
  case (right m items k)
  then show ?case
    by (simp add: turns_right_less)
qed

lemma subproof_hashes:
  "0 < m \<Longrightarrow> m \<le> length items \<Longrightarrow> hashes items \<Longrightarrow> hashes (subproof m items complete)"
proof (induction m items arbitrary: complete rule: boundary_induct)
  case (same items)
  then show ?case by simp
next
  case (left m items k)
  then show ?case
    by (simp add: proof_less [OF left.hyps(1-3)])
next
  case (right m items k)
  then show ?case
    by (simp add: proof_less [OF right.hyps(1-3)])
qed

lemma consistency_complete:
  assumes "hashes leaves" "0 < m" "m \<le> length leaves" "consistency_proof leaves (int m) = Inr path"
  shows "verify_consistency (int m) (int (length leaves)) (merkle_root (take m leaves))
    (merkle_root leaves) path"
proof (cases "m = length leaves")
  case True
  with assms show ?thesis
    by (simp add: verify_consistency_def consistency_proof_def)
next
  case False
  with assms have m: "m < length leaves" and path: "path = subproof m leaves True"
    by (auto simp: consistency_proof_def Let_def)
  have items: "\<forall>item \<in> set path. length item = 32"
    using subproof_hashes [OF assms(2,3,1)] by (simp add: path hashes_def)
  have "consistency_accepts m (length leaves) (merkle_root (take m leaves)) (merkle_root leaves)
      (proof_seed m leaves) (proof_path m leaves)"
    using assms by (simp add: consistency_accepts_def length_proof_path kind_fold_path)
  then show ?thesis
    using m assms(2,3) items
    by (cases "turns_right m (length leaves)")
       (simp_all add: verify_consistency_iff subproof_shape path proof_seed_old_root)
qed

subsection \<open>Soundness\<close>

text \<open>The inputs the verifier hashes on the way to the new root.\<close>

fun kind_inputs :: "(bool \<times> bytes) list \<Rightarrow> bytes \<Rightarrow> bytes set" where
  "kind_inputs [] new_hash = {}"
| "kind_inputs ((both, item) # rest) new_hash =
     (if both then insert (0x01 # item @ new_hash) (kind_inputs rest (node_hash item new_hash))
      else insert (0x01 # new_hash @ item) (kind_inputs rest (node_hash new_hash item)))"

definition consistency_inputs :: "nat \<Rightarrow> nat \<Rightarrow> bytes \<Rightarrow> bytes list \<Rightarrow> bytes set" where
  "consistency_inputs m n old_root proof =
     (if turns_right m n then
        (case proof of [] \<Rightarrow> {} | seed # path \<Rightarrow> kind_inputs (zip (tree_kinds m n) path) seed)
      else kind_inputs (zip (tree_kinds m n) proof) old_root)"

lemma finite_kind_inputs: "finite (kind_inputs ks h)"
  by (induction ks h rule: kind_inputs.induct) auto

lemma finite_consistency_inputs: "finite (consistency_inputs m n old_root path)"
  by (simp add: consistency_inputs_def finite_kind_inputs split: list.split)

lemma kind_inputs_snoc:
  "kind_inputs (ks @ [(both, item)]) h =
     insert (if both then 0x01 # item @ snd (fold kind_step ks (x, h))
             else 0x01 # snd (fold kind_step ks (x, h)) @ item) (kind_inputs ks h)"
proof (induction ks arbitrary: h x)
  case Nil
  then show ?case by simp
next
  case (Cons k ks)
  show ?case
  proof (cases k)
    case (Pair b y)
    show ?thesis
      using Cons.IH [of "node_hash y h" "node_hash y x"] Cons.IH [of "node_hash h y" x]
      by (cases b) (auto simp: Pair)
  qed
qed

lemma consistency_sound_aux:
  "0 < m \<Longrightarrow> m \<le> length leaves \<Longrightarrow> hashes leaves \<Longrightarrow> hashes path \<Longrightarrow>
     length path = length (tree_kinds m (length leaves)) \<Longrightarrow>
     kind_fold (tree_kinds m (length leaves)) path (seed, seed) = (old_root, merkle_root leaves) \<Longrightarrow>
     tree_inputs leaves \<union> kind_inputs (zip (tree_kinds m (length leaves)) path) seed \<subseteq> S \<Longrightarrow>
     \<not> hash_collision S \<Longrightarrow> old_root = merkle_root (take m leaves)"
proof (induction m leaves arbitrary: path old_root rule: boundary_induct)
  case (same items)
  then show ?case by auto
next
  case (left m items k)
  let ?l = "merkle_root (take k items)" and ?r = "merkle_root (drop k items)"
  note kinds = tree_kinds_less [OF left.hyps(1-3)]
  obtain p x where path: "path = p @ [x]" "length p = length (tree_kinds m k)"
    using left.prems(3) left.hyps kinds by (cases path rule: rev_cases) auto
  obtain o' n' where sub: "kind_fold (tree_kinds m k) p (seed, seed) = (o', n')"
    by fastforce
  have split: "tree_inputs items = insert (0x01 # ?l @ ?r) (tree_inputs (take k items) \<union> tree_inputs (drop k items))"
    using left.hyps by (intro tree_inputs_split) auto
  have roots: "old_root = o'" "node_hash n' x = node_hash ?l ?r"
    using left.prems(4) left.hyps sub path kinds by (simp_all add: merkle_root_split)
  have "0x01 # n' @ x \<in> S" "kind_inputs (zip (tree_kinds m k) p) seed \<subseteq> S"
    using left.prems(5) left.hyps sub path kinds kind_inputs_snoc [of "zip (tree_kinds m k) p" False x seed seed]
    by (auto simp: kind_fold_def)
  moreover have "0x01 # ?l @ ?r \<in> S" "tree_inputs (take k items) \<subseteq> S"
    using left.prems(5) split by auto
  moreover have "length x = length ?r"
    using left.prems(1,2) by (simp add: path)
  ultimately have "n' = ?l"
    using node_hash_inject [OF roots(2)] left.prems(6) by blast
  then have "o' = merkle_root (take m (take k items))"
    using left.IH [of p o'] left.prems left.hyps sub path \<open>kind_inputs _ seed \<subseteq> S\<close>
      \<open>tree_inputs (take k items) \<subseteq> S\<close> by (auto simp: min.absorb2)
  then show ?case
    using left.hyps roots by (simp add: min.absorb1)
next
  case (right m items k)
  let ?l = "merkle_root (take k items)" and ?r = "merkle_root (drop k items)"
  note kinds = tree_kinds_less [OF right.hyps(1-3)]
  obtain p x where path: "path = p @ [x]" "length p = length (tree_kinds (m - k) (length items - k))"
    using right.prems(3) right.hyps kinds by (cases path rule: rev_cases) auto
  obtain o' n' where sub: "kind_fold (tree_kinds (m - k) (length items - k)) p (seed, seed) = (o', n')"
    by fastforce
  have split: "tree_inputs items = insert (0x01 # ?l @ ?r) (tree_inputs (take k items) \<union> tree_inputs (drop k items))"
    using right.hyps by (intro tree_inputs_split) auto
  have roots: "old_root = node_hash x o'" "node_hash x n' = node_hash ?l ?r"
    using right.prems(4) right.hyps sub path kinds by (simp_all add: merkle_root_split)
  have "0x01 # x @ n' \<in> S" "kind_inputs (zip (tree_kinds (m - k) (length items - k)) p) seed \<subseteq> S"
    using right.prems(5) right.hyps sub path kinds
      kind_inputs_snoc [of "zip (tree_kinds (m - k) (length items - k)) p" True x seed seed]
    by (auto simp: kind_fold_def)
  moreover have "0x01 # ?l @ ?r \<in> S" "tree_inputs (drop k items) \<subseteq> S"
    using right.prems(5) split by auto
  moreover have "length x = length ?l"
    using right.prems(1,2) by (simp add: path)
  ultimately have "x = ?l" "n' = ?r"
    using node_hash_inject_left [OF roots(2)] right.prems(6) by blast+
  then have "o' = merkle_root (take (m - k) (drop k items))"
    using right.IH [of p o'] right.prems right.hyps sub path \<open>kind_inputs _ seed \<subseteq> S\<close>
      \<open>tree_inputs (drop k items) \<subseteq> S\<close> by auto
  then show ?case
    using right.hyps roots \<open>x = ?l\<close> by (simp add: merkle_root_take_right)
qed

lemma consistency_sound:
  assumes "hashes leaves"
    and "verify_consistency (int m) (int (length leaves)) old_root (merkle_root leaves) path"
  shows "old_root = merkle_root (take m leaves) \<or>
    hash_collision (tree_inputs leaves \<union> consistency_inputs m (length leaves) old_root path)"
proof -
  have m: "0 < m" "m \<le> length leaves"
    using assms(2) by (auto simp: verify_consistency_def split: if_splits)
  show ?thesis
  proof (cases "m = length leaves")
    case True
    with assms(2) show ?thesis
      by (auto simp: verify_consistency_def split: if_splits)
  next
    case False
    then have less: "m < length leaves"
      using m by simp
    note accepted = assms(2) [unfolded verify_consistency_iff [OF m(1) less] consistency_accepts_def]
    show ?thesis
    proof (cases "turns_right m (length leaves)")
      case True
      with accepted obtain seed p where p: "path = seed # p"
        "length p = length (tree_kinds m (length leaves))"
        "kind_fold (tree_kinds m (length leaves)) p (seed, seed) = (old_root, merkle_root leaves)"
        by auto
      have "hashes p"
        using accepted p by (auto simp: hashes_def)
      from consistency_sound_aux [OF m assms(1) this p(2,3)] show ?thesis
        using True by (auto simp: consistency_inputs_def p)
    next
      case False
      with accepted have p: "length path = length (tree_kinds m (length leaves))"
        "kind_fold (tree_kinds m (length leaves)) path (old_root, old_root) = (old_root, merkle_root leaves)"
        and "hashes path"
        by (auto simp: hashes_def)
      from consistency_sound_aux [OF m assms(1) this(3,1,2)] show ?thesis
        using False by (auto simp: consistency_inputs_def)
    qed
  qed
qed

end
