(* ===== verification/Commitment.thy ===== *)
theory Commitment
  imports Prelude
begin

section \<open>Interface: commitments to append-only lists\<close>

text \<open>
  What the ledger's clients rely on when they use a tree hash: a short commitment to a list, proofs
  that an item stands at an index, and proofs that one commitment extends another. The laws are
  stated with a breach predicate: an accepted proof tells the truth unless the data of the call
  exhibits a breach (for the Merkle tree, a hash collision among the inputs hashed). The client
  lemmas are proved once here; \<open>Merkle_Properties\<close> interprets the interface on the definitions of
  \<open>src/ledger/merkle.py\<close>.
\<close>

locale list_commitment =
  fixes wf :: "'a list \<Rightarrow> bool"
    and commit :: "'a list \<Rightarrow> 'r"
    and prove :: "'a list \<Rightarrow> nat \<Rightarrow> 'p"
    and accept :: "'a \<Rightarrow> nat \<Rightarrow> nat \<Rightarrow> 'p \<Rightarrow> 'r \<Rightarrow> bool"
    and breach :: "'a list \<Rightarrow> 'a \<Rightarrow> 'p \<Rightarrow> bool"
  assumes accept_range: "accept x i n p r \<Longrightarrow> i < n"
    and complete: "wf xs \<Longrightarrow> i < length xs \<Longrightarrow> accept (xs ! i) i (length xs) (prove xs i) (commit xs)"
    and sound: "wf xs \<Longrightarrow> accept x i (length xs) p (commit xs) \<Longrightarrow> x = xs ! i \<or> breach xs x p"
begin

text \<open>One position opens to one item only.\<close>

lemma open_unique:
  "wf xs \<Longrightarrow> accept x i (length xs) p (commit xs) \<Longrightarrow> accept y i (length xs) q (commit xs) \<Longrightarrow>
     x = y \<or> breach xs x p \<or> breach xs y q"
  using sound by blast

text \<open>Opening every position determines the whole list.\<close>

lemma open_all:
  assumes "wf xs" and "length ys = length xs"
    and "\<And>i. i < length xs \<Longrightarrow> accept (ys ! i) i (length xs) (ps i) (commit xs)"
  shows "ys = xs \<or> (\<exists>i < length xs. breach xs (ys ! i) (ps i))"
proof (cases "\<exists>i < length xs. breach xs (ys ! i) (ps i)")
  case False
  have "ys ! i = xs ! i" if "i < length ys" for i
    using that sound [OF assms(1) assms(3) [of i]] False assms(2) by auto
  then have "ys = xs"
    using assms(2) by (intro nth_equalityI) simp_all
  then show ?thesis ..
qed simp

end

locale append_only_commitment = list_commitment +
  fixes prove_prefix :: "'a list \<Rightarrow> nat \<Rightarrow> 'c"
    and accept_prefix :: "nat \<Rightarrow> nat \<Rightarrow> 'b \<Rightarrow> 'b \<Rightarrow> 'c \<Rightarrow> bool"
    and breach_prefix :: "'a list \<Rightarrow> nat \<Rightarrow> 'b \<Rightarrow> 'c \<Rightarrow> bool"
  assumes wf_take: "wf xs \<Longrightarrow> wf (take m xs)"
    and prefix_range: "accept_prefix m n r s c \<Longrightarrow> 0 < m \<and> m \<le> n"
    and prefix_complete: "wf xs \<Longrightarrow> 0 < m \<Longrightarrow> m \<le> length xs \<Longrightarrow>
      accept_prefix m (length xs) (commit (take m xs)) (commit xs) (prove_prefix xs m)"
    and prefix_sound: "wf xs \<Longrightarrow> accept_prefix m (length xs) r (commit xs) c \<Longrightarrow>
      r = commit (take m xs) \<or> breach_prefix xs m r c"
begin

text \<open>
  History cannot be rewritten: an item opened against an old commitment is still the item at
  that index of the list behind any newer commitment proved consistent with the old one.
\<close>

lemma history_kept:
  assumes "wf xs" and "accept_prefix m (length xs) r (commit xs) c" and "accept x i m p r"
  shows "x = xs ! i \<or> breach_prefix xs m r c \<or> breach (take m xs) x p"
proof -
  have m: "0 < m" "m \<le> length xs"
    using prefix_range [OF assms(2)] by auto
  have i: "i < m"
    using accept_range [OF assms(3)] .
  show ?thesis
  proof (cases "breach_prefix xs m r c")
    case False
    then have "r = commit (take m xs)"
      using prefix_sound assms(1,2) by blast
    then have "accept x i (length (take m xs)) p (commit (take m xs))"
      using assms(3) m by simp
    then have "x = take m xs ! i \<or> breach (take m xs) x p"
      using sound wf_take assms(1) by blast
    then show ?thesis
      using i by auto
  qed simp
qed

text \<open>A list and its prefix, both reached honestly, never contradict each other.\<close>

lemma prefix_open:
  "wf xs \<Longrightarrow> 0 < m \<Longrightarrow> m \<le> length xs \<Longrightarrow> i < m \<Longrightarrow>
     accept (xs ! i) i m (prove (take m xs) i) (commit (take m xs))"
  using complete [of "take m xs" i] wf_take by simp

end

end
