(* ===== verification/Merkle_Properties.thy ===== *)
theory Merkle_Properties
  imports Merkle_Consistency Commitment
begin

section \<open>The Merkle tree as an append-only commitment\<close>

text \<open>
  The interpretation of the interface \<open>append_only_commitment\<close> on the definitions of
  \<open>src/ledger/merkle.py\<close> and the properties of the tree that follow from it. A breach is a
  SHA-256 collision inside the finite set of inputs that the proof's verification and the tree's
  own computation hash.
\<close>

definition inclusion_breach :: "bytes list \<Rightarrow> bytes \<Rightarrow> inclusion_step list \<Rightarrow> bool" where
  "inclusion_breach leaves leaf path \<longleftrightarrow> hash_collision (tree_inputs leaves \<union> path_inputs leaf path)"

definition consistency_breach :: "bytes list \<Rightarrow> nat \<Rightarrow> bytes \<Rightarrow> bytes list \<Rightarrow> bool" where
  "consistency_breach leaves m old_root path \<longleftrightarrow>
     hash_collision (tree_inputs leaves \<union> consistency_inputs m (length leaves) old_root path)"

definition prefix_proof :: "bytes list \<Rightarrow> nat \<Rightarrow> bytes list" where
  "prefix_proof leaves m = (case consistency_proof leaves (int m) of Inl _ \<Rightarrow> [] | Inr path \<Rightarrow> path)"

lemma inclusion_range: "verify_inclusion x (int i) (int n) p r \<Longrightarrow> i < n"
  by (simp add: verify_inclusion_iff)

lemma consistency_range: "verify_consistency (int m) (int n) r s c \<Longrightarrow> 0 < m \<and> m \<le> n"
  by (auto simp: verify_consistency_def split: if_splits)

lemma consistency_proof_Inr:
  "0 < m \<Longrightarrow> m \<le> length leaves \<Longrightarrow> consistency_proof leaves (int m) = Inr (prefix_proof leaves m)"
  by (auto simp: prefix_proof_def consistency_proof_def Let_def)

interpretation tree: append_only_commitment hashes merkle_root walk
  "\<lambda>leaf i n path root. verify_inclusion leaf (int i) (int n) path root" inclusion_breach
  prefix_proof
  "\<lambda>m n old_root new_root path. verify_consistency (int m) (int n) old_root new_root path"
  consistency_breach
proof unfold_locales
  show "verify_inclusion x (int i) (int n) p r \<Longrightarrow> i < n" for x i n p r
    by (rule inclusion_range)
  show "hashes xs \<Longrightarrow> i < length xs \<Longrightarrow>
      verify_inclusion (xs ! i) (int i) (int (length xs)) (walk xs i) (merkle_root xs)" for xs i
    by (rule inclusion_complete)
  show "hashes xs \<Longrightarrow> verify_inclusion x (int i) (int (length xs)) p (merkle_root xs) \<Longrightarrow>
      x = xs ! i \<or> inclusion_breach xs x p" for xs x i p
    unfolding inclusion_breach_def by (rule inclusion_sound)
  show "hashes xs \<Longrightarrow> hashes (take m xs)" for xs m
    by simp
  show "verify_consistency (int m) (int n) r s c \<Longrightarrow> 0 < m \<and> m \<le> n" for m n r s c
    by (rule consistency_range)
  show "hashes xs \<Longrightarrow> 0 < m \<Longrightarrow> m \<le> length xs \<Longrightarrow>
      verify_consistency (int m) (int (length xs)) (merkle_root (take m xs)) (merkle_root xs)
        (prefix_proof xs m)" for xs m
    by (intro consistency_complete) (simp_all add: consistency_proof_Inr)
  show "hashes xs \<Longrightarrow> verify_consistency (int m) (int (length xs)) r (merkle_root xs) c \<Longrightarrow>
      r = merkle_root (take m xs) \<or> consistency_breach xs m r c" for xs m r c
    unfolding consistency_breach_def by (rule consistency_sound)
qed

subsection \<open>Sample leaves for the witnesses\<close>

text \<open>Five leaves as the ledger makes them: hashes of five different commitments.\<close>

definition sample_leaves :: "bytes list" where
  "sample_leaves = map (\<lambda>b. leaf_hash [b]) [1, 2, 3, 4, 5]"

lemma sample_leaves [simp]: "hashes sample_leaves" "length sample_leaves = 5"
  by (simp_all add: sample_leaves_def)

lemma sample_walk_accepted:
  "i < 5 \<Longrightarrow> verify_inclusion (sample_leaves ! i) (int i) 5 (walk sample_leaves i)
     (merkle_root sample_leaves)"
  using tree.complete [of sample_leaves i] by simp

lemma sample_prefix_accepted:
  "0 < m \<Longrightarrow> m \<le> 5 \<Longrightarrow> verify_consistency (int m) 5 (merkle_root (take m sample_leaves))
     (merkle_root sample_leaves) (prefix_proof sample_leaves m)"
  using tree.prefix_complete [of sample_leaves m] by simp

subsection \<open>Properties of the tree hash\<close>

text \<open>
  The root determines the leaves. Two lists of equally many 32-byte leaves with one root are
  equal, or their trees hash two different inputs to one digest.
\<close>

theorem merkle_root_binding:
  assumes "hashes xs" "hashes ys" "length xs = length ys" "merkle_root xs = merkle_root ys"
  shows "xs = ys \<or> hash_collision (tree_inputs xs \<union> tree_inputs ys)"
  using merkle_root_binding_aux [OF assms(3,1,2,4) subset_refl] by blast

theorem merkle_root_binding_witness:
  "sample_leaves = take 5 (sample_leaves @ [leaf_hash []]) \<or>
     hash_collision (tree_inputs sample_leaves \<union> tree_inputs (take 5 (sample_leaves @ [leaf_hash []])))"
  by (rule merkle_root_binding) simp_all

text \<open>
  The split point. From two leaves on, \<open>_split\<close> returns a power of two that is smaller than the
  tree and at least half of it, and that is the only such power; below two leaves it raises
  \<open>ValueError\<close>.
\<close>

theorem merkle_split_spec:
  "merkle_split n =
     (if n < 2 then Inl ValueError
      else Inr (Max {k. k < n \<and> (\<exists>j. k = 2 ^ j)}))"
proof (cases "n < 2")
  case False
  then have n: "2 \<le> n"
    by simp
  obtain i where i: "split_at n = 2 ^ i"
    by (simp add: split_at_power)
  have "k \<le> split_at n" if "k < n" "k = 2 ^ j" for k j
  proof (rule ccontr)
    assume "\<not> k \<le> split_at n"
    then have "(2 :: nat) ^ i < 2 ^ j"
      using i that by simp
    then have "Suc i \<le> j"
      by (simp add: Suc_le_eq)
    then have "(2 :: nat) ^ Suc i \<le> 2 ^ j"
      by (rule power_increasing) simp
    then show False
      using split_at_bounds(2) [OF n] i that by simp
  qed
  then have "Max {k. k < n \<and> (\<exists>j. k = 2 ^ j)} = split_at n"
    using split_at_bounds(1) [OF n] i by (intro Max_eqI) (auto intro: finite_subset [of _ "{..<n}"])
  with n show ?thesis
    by (simp add: merkle_split_def)
qed (simp add: merkle_split_def)

subsection \<open>Properties of inclusion proofs\<close>

text \<open>
  C20: \<open>inclusion_proof\<close> raises exactly when the index is outside the tree; otherwise its proof is
  accepted by \<open>verify_inclusion\<close> for the leaf at that index and the tree's root, and is no longer
  than the number of bits of the last index.
\<close>

theorem inclusion_proof_complete:
  assumes "hashes leaves"
  shows "case inclusion_proof leaves index of
      Inl e \<Rightarrow> \<not> (0 \<le> index \<and> index < int (length leaves)) \<and>
        e = MerkleProofError (py ''leaf index is outside the tree'')
    | Inr path \<Rightarrow> 0 \<le> index \<and> index < int (length leaves) \<and>
        verify_inclusion (leaves ! nat index) index (int (length leaves)) path (merkle_root leaves) \<and>
        length path \<le> bit_length (length leaves - 1)"
proof (cases "0 \<le> index \<and> index < int (length leaves)")
  case True
  then obtain i where i: "index = int i" "i < length leaves"
    by (metis nonneg_int_cases of_nat_less_iff)
  then show ?thesis
    using tree.complete [OF assms, of i] length_collect_sides [of i "length leaves"]
    by (simp add: inclusion_proof_def length_walk)
qed (auto simp: inclusion_proof_def)

theorem inclusion_proof_complete_witness:
  "case inclusion_proof sample_leaves 4 of
     Inl e \<Rightarrow> \<not> (0 \<le> (4 :: int) \<and> 4 < int (length sample_leaves)) \<and>
       e = MerkleProofError (py ''leaf index is outside the tree'')
   | Inr path \<Rightarrow> 0 \<le> (4 :: int) \<and> 4 < int (length sample_leaves) \<and>
       verify_inclusion (sample_leaves ! nat 4) 4 (int (length sample_leaves)) path
         (merkle_root sample_leaves) \<and>
       length path \<le> bit_length (length sample_leaves - 1)"
  by (rule inclusion_proof_complete) simp

text \<open>
  C5: an accepted inclusion proof tells the truth. If \<open>verify_inclusion\<close> accepts a leaf at an index
  against the root of a tree of 32-byte leaves, the leaf is the tree's leaf at that index, unless
  the inputs hashed on the way contain a collision.
\<close>

theorem verify_inclusion_sound:
  assumes "hashes leaves"
    and "verify_inclusion leaf index (int (length leaves)) path (merkle_root leaves)"
  shows "0 \<le> index \<and> index < int (length leaves) \<and>
    (leaf = leaves ! nat index \<or> hash_collision (tree_inputs leaves \<union> path_inputs leaf path))"
proof -
  have "0 \<le> index" "index < int (length leaves)"
    using assms(2) by (auto simp: verify_inclusion_iff)
  moreover from this obtain i where "index = int i"
    by (metis nonneg_int_cases)
  ultimately show ?thesis
    using tree.sound [OF assms(1), of leaf i path] assms(2) by (simp add: inclusion_breach_def)
qed

theorem verify_inclusion_sound_witness:
  "0 \<le> (2 :: int) \<and> 2 < int (length sample_leaves) \<and>
     (sample_leaves ! 2 = sample_leaves ! nat 2 \<or>
      hash_collision (tree_inputs sample_leaves \<union>
        path_inputs (sample_leaves ! 2) (walk sample_leaves 2)))"
  using sample_walk_accepted [of 2] by (intro verify_inclusion_sound) simp_all

text \<open>
  Openings of every position recover the whole tree: if \<open>verify_inclusion\<close> accepts an item at
  each index against one root, the items are the tree's leaves, or some opening exhibits a
  collision.
\<close>

theorem verify_inclusion_recovers_leaves:
  assumes "hashes leaves" and "length items = length leaves"
    and "\<And>i. i < length leaves \<Longrightarrow>
      verify_inclusion (items ! i) (int i) (int (length leaves)) (paths i) (merkle_root leaves)"
  shows "items = leaves \<or> (\<exists>i < length leaves.
    hash_collision (tree_inputs leaves \<union> path_inputs (items ! i) (paths i)))"
  using tree.open_all [OF assms] by (simp add: inclusion_breach_def)

theorem verify_inclusion_recovers_leaves_witness:
  "sample_leaves = sample_leaves \<or> (\<exists>i < length sample_leaves.
     hash_collision (tree_inputs sample_leaves \<union>
       path_inputs (sample_leaves ! i) (walk sample_leaves i)))"
  using sample_walk_accepted
  by (intro verify_inclusion_recovers_leaves [of sample_leaves sample_leaves]) simp_all

subsection \<open>Properties of consistency proofs\<close>

text \<open>
  The verifier's bit loops agree with the tree. After stripping the odd low bits of the two
  last indices, the loop meets the same sequence of left and right siblings as the recursion of
  the prover writes, for every pair of sizes \<open>0 < m < n\<close>.
\<close>

theorem consistency_loop_follows_tree:
  assumes "0 < m" "m < n"
  shows "(case strip_odd (m - 1) (n - 1) of (fn, sn) \<Rightarrow> loop_kinds fn sn) = tree_kinds m n"
  using strip_kinds_tree [of m n] assms by (simp add: strip_kinds_def)

theorem consistency_loop_follows_tree_witness:
  "(case strip_odd (3 - 1) (7 - 1) of (fn, sn) \<Rightarrow> loop_kinds fn sn) = tree_kinds 3 7"
  by (rule consistency_loop_follows_tree) simp_all

text \<open>
  C21: \<open>consistency_proof\<close> raises exactly when the old size is not between one and the new size;
  otherwise \<open>verify_consistency\<close> accepts its proof for the roots of the prefix and of the tree.
\<close>

theorem consistency_proof_complete:
  assumes "hashes leaves"
  shows "case consistency_proof leaves old_size of
      Inl e \<Rightarrow> (old_size < 1 \<or> int (length leaves) < old_size) \<and>
        e = MerkleProofError (py ''old tree size must be between one and the new tree size'')
    | Inr path \<Rightarrow> 1 \<le> old_size \<and> old_size \<le> int (length leaves) \<and>
        verify_consistency old_size (int (length leaves)) (merkle_root (take (nat old_size) leaves))
          (merkle_root leaves) path"
proof (cases "1 \<le> old_size \<and> old_size \<le> int (length leaves)")
  case True
  then obtain m where m: "old_size = int m" "0 < m" "m \<le> length leaves"
    by (metis nonneg_int_cases of_nat_le_iff of_nat_0_less_iff order_less_le_trans zero_less_one
        zero_le_one order_trans)
  then show ?thesis
    using tree.prefix_complete [OF assms m(2,3)] by (simp add: consistency_proof_Inr)
next
  case False
  then have "old_size < 1 \<or> old_size > int (length leaves)"
    by linarith
  then show ?thesis
    by (simp add: consistency_proof_def Let_def)
qed

theorem consistency_proof_complete_witness:
  "case consistency_proof sample_leaves 3 of
     Inl e \<Rightarrow> ((3 :: int) < 1 \<or> int (length sample_leaves) < 3) \<and>
       e = MerkleProofError (py ''old tree size must be between one and the new tree size'')
   | Inr path \<Rightarrow> 1 \<le> (3 :: int) \<and> 3 \<le> int (length sample_leaves) \<and>
       verify_consistency 3 (int (length sample_leaves)) (merkle_root (take (nat 3) sample_leaves))
         (merkle_root sample_leaves) path"
  by (rule consistency_proof_complete) simp

text \<open>
  C6: an accepted consistency proof tells the truth. If \<open>verify_consistency\<close> accepts an old root
  against the root of a tree of 32-byte leaves, the old root is the root of the tree's prefix of
  the old size, unless the inputs hashed on the way contain a collision.
\<close>

theorem verify_consistency_sound:
  assumes "hashes leaves"
    and "verify_consistency old_size (int (length leaves)) old_root (merkle_root leaves) path"
  shows "1 \<le> old_size \<and> old_size \<le> int (length leaves) \<and>
    (old_root = merkle_root (take (nat old_size) leaves) \<or>
     hash_collision (tree_inputs leaves \<union>
       consistency_inputs (nat old_size) (length leaves) old_root path))"
proof -
  have range: "1 \<le> old_size" "old_size \<le> int (length leaves)"
    using assms(2) by (auto simp: verify_consistency_def split: if_splits)
  then obtain m where "old_size = int m"
    by (metis nonneg_int_cases order_trans zero_le_one)
  then show ?thesis
    using tree.prefix_sound [OF assms(1), of m old_root path] assms(2) range
    by (simp add: consistency_breach_def)
qed

theorem verify_consistency_sound_witness:
  "1 \<le> (3 :: int) \<and> 3 \<le> int (length sample_leaves) \<and>
     (merkle_root (take 3 sample_leaves) = merkle_root (take (nat 3) sample_leaves) \<or>
      hash_collision (tree_inputs sample_leaves \<union>
        consistency_inputs (nat 3) (length sample_leaves) (merkle_root (take 3 sample_leaves))
          (prefix_proof sample_leaves 3)))"
  using sample_prefix_accepted [of 3] by (intro verify_consistency_sound) simp_all

text \<open>
  C15: history cannot be rewritten. A leaf opened against an old root is still the leaf at that
  index of every tree whose root was proved consistent with the old root, or one of the two
  verifications exhibits a collision.
\<close>

theorem consistent_history_kept:
  assumes "hashes leaves"
    and "verify_consistency (int m) (int (length leaves)) old_root (merkle_root leaves) path"
    and "verify_inclusion leaf (int i) (int m) steps old_root"
  shows "leaf = leaves ! i \<or>
    hash_collision (tree_inputs leaves \<union> consistency_inputs m (length leaves) old_root path) \<or>
    hash_collision (tree_inputs (take m leaves) \<union> path_inputs leaf steps)"
  using tree.history_kept [OF assms] by (simp add: inclusion_breach_def consistency_breach_def)

theorem consistent_history_kept_witness:
  "sample_leaves ! 1 = sample_leaves ! 1 \<or>
   hash_collision (tree_inputs sample_leaves \<union>
     consistency_inputs 3 (length sample_leaves) (merkle_root (take 3 sample_leaves))
       (prefix_proof sample_leaves 3)) \<or>
   hash_collision (tree_inputs (take 3 sample_leaves) \<union>
     path_inputs (sample_leaves ! 1) (walk (take 3 sample_leaves) 1))"
  using sample_prefix_accepted [of 3] tree.prefix_open [of sample_leaves 3 1]
  by (intro consistent_history_kept) simp_all

end
