(* ===== verification/Digest_Vector.thy ===== *)
theory Digest_Vector
  imports Digest
begin

section \<open>The known answer of SHA-256 on the empty message\<close>

text \<open>
  The empty message is one padded block. Its 64 rounds are evaluated by the kernel in four groups
  of sixteen, each group from the schedule window and the state the one before it left; the
  digest is the one FIPS 180-4 implementations publish. This ties the model of SHA-256, and the
  ledger's \<open>EMPTY_ROOT\<close>, to the real function.
\<close>

definition empty_block :: "u32 list" where
  "empty_block = 2147483648 # replicate 15 0"

lemma empty_block_list: "empty_block = [2147483648, 0, 0, 0, 0, 0, 0, 0,
    0, 0, 0, 0, 0, 0, 0, 0]"
  by (simp add: empty_block_def numeral_eq_Suc)

lemma sha_pad_empty: "sha_pad [] = 128 # replicate 63 0"
proof -
  have "map (\<lambda>i. word_of_nat (8 * length ([] :: bytes) div 256 ^ (7 - i))) [0..<8] =
      (replicate 8 0 :: bytes)"
    by (simp add: map_replicate_const)
  moreover have "replicate 55 0 @ replicate 8 0 = (replicate 63 0 :: bytes)"
    by (simp flip: replicate_add)
  ultimately show ?thesis
    by (simp add: sha_pad_def)
qed

lemma zero_bytes: "(replicate 63 0 :: bytes) = 0 # 0 # 0 # replicate 60 0"
  by (simp add: numeral_eq_Suc)

lemma replicate_plus_4: "replicate (4 + m) x = x # x # x # x # replicate m x"
  by (simp add: numeral_eq_Suc)

lemma words_of_zero_bytes: "words_of_bytes (replicate (4 * n) 0) = replicate n 0"
  by (induction n) (simp_all add: word_of_bytes_def replicate_plus_4)

lemma empty_block_pad: "words_of_bytes (sha_pad []) = empty_block"
  using words_of_zero_bytes [of 15]
  by (simp add: sha_pad_empty zero_bytes word_of_bytes_def empty_block_def)

lemma empty_rounds_1:
  "sha_rounds (take 16 (drop 0 sha_k))
    [2147483648, 0, 0, 0, 0, 0, 0, 0, 0, 0, 0, 0, 0, 0, 0, 0]
    (1779033703, 3144134277, 1013904242, 2773480762, 1359893119, 2600822924, 528734635,
    1541459225) =
   ([2147483648, 0, 2117632, 0, 570427392, 0, 84448578, 2147483648, 1476919296,
    4235264, 1451269, 1711282176, 3592562048, 337794312, 3594910044, 3374850048],
    (3019933109, 3096116699, 1170215847, 553833165, 1555621987, 483372089, 725774998,
    3455974994))"
  by code_simp

lemma empty_rounds_2:
  "sha_rounds (take 16 (drop 16 sha_k))
    [2147483648, 0, 2117632, 0, 570427392, 0, 84448578, 2147483648, 1476919296,
    4235264, 1451269, 1711282176, 3592562048, 337794312, 3594910044, 3374850048]
    (3019933109, 3096116699, 1170215847, 553833165, 1555621987, 483372089, 725774998,
    3455974994) =
   ([3287351444, 676112230, 109604294, 2742808854, 1904000662, 4274181962, 2813755136,
    2165675682, 2561075048, 62000258, 1562224585, 2975250741, 3286092305, 614207615,
    3297584367, 1575308336],
    (300352095, 2696613087, 1926471693, 1690082844, 3151463532, 1447716390, 2957685293,
    2506713973))"
  by code_simp

lemma empty_rounds_3:
  "sha_rounds (take 16 (drop 32 sha_k))
    [3287351444, 676112230, 109604294, 2742808854, 1904000662, 4274181962, 2813755136,
    2165675682, 2561075048, 62000258, 1562224585, 2975250741, 3286092305, 614207615,
    3297584367, 1575308336]
    (300352095, 2696613087, 1926471693, 1690082844, 3151463532, 1447716390, 2957685293,
    2506713973) =
   ([3741240933, 748767245, 1008022316, 30329261, 369937616, 195877528, 907775968,
    3526495142, 43741191, 1967544444, 133517113, 4161330627, 3704256008, 1581412744,
    1153231965, 996066459],
    (911881421, 1419259244, 855262251, 2752082644, 3417569515, 2322236082, 3531982457,
    2855016464))"
  by code_simp

lemma empty_rounds_4:
  "sha_rounds (take 16 (drop 48 sha_k))
    [3741240933, 748767245, 1008022316, 30329261, 369937616, 195877528, 907775968,
    3526495142, 43741191, 1967544444, 133517113, 4161330627, 3704256008, 1581412744,
    1153231965, 996066459]
    (911881421, 1419259244, 855262251, 2752082644, 3417569515, 2322236082, 3531982457,
    2855016464) =
   ([2378657164, 43534273, 2009316420, 2609564739, 634078299, 3041947233, 288713463,
    1830996369, 2108832412, 1277881035, 2902781278, 3718698087, 73499588, 2836008653,
    599194775, 3546702457],
    (2040978907, 3717492111, 1586299222, 4095722474, 3600805733, 3382061760, 2232532848,
    477227836))"
  by code_simp

lemma length_empty_block: "length empty_block = 16"
  by (simp add: empty_block_def)

lemma sha_k_split:
  "sha_k = take 16 (drop 0 sha_k) @ take 16 (drop 16 sha_k) @ take 16 (drop 32 sha_k) @
     take 16 (drop 48 sha_k)"
  by (simp add: sha_k_def)

lemma sha_rounds_append:
  "sha_rounds (ks @ ls) ws s = (case sha_rounds ks ws s of (ws',
    s') \<Rightarrow> sha_rounds ls ws' s')"
  by (induction ks arbitrary: ws s) auto

lemma empty_state:
  "sha_blocks empty_block sha_init =
    (3820012610, 2566659092, 2600203464, 2574235940, 665731556, 1687917388, 2761267483,
    2018687061)"
proof -
  have "snd (sha_rounds sha_k empty_block sha_init) =
    (2040978907, 3717492111, 1586299222, 4095722474, 3600805733, 3382061760, 2232532848,
    477227836)"
    by (subst sha_k_split)
       (simp only: sha_rounds_append empty_block_list sha_init_def empty_rounds_1 empty_rounds_2
          empty_rounds_3 empty_rounds_4 prod.case snd_conv)
  then show ?thesis
    by (simp add: sha_blocks.simps [of empty_block] sha_blocks.simps [of "[]"]
          length_empty_block sha_init_def)
qed

text \<open>The digest itself, as bytes.\<close>

lemma sha256_empty:
  "sha256 [] =
    [227, 176, 196, 66, 152, 252, 28, 20, 154, 251, 244, 200, 153, 111, 185, 36,
     39, 174, 65, 228, 100, 155, 147, 76, 164, 149, 153, 27, 120, 82, 184, 85]"
  unfolding sha256_def empty_block_pad empty_state sha_digest.simps
  by (simp add: bytes_of_word_def)

end
