(* ===== verification/Canonical.thy ===== *)
theory Canonical
  imports Digest "HOL-Library.List_Lexorder"
begin

section \<open>Canonical JSON and its digest\<close>

text \<open>
  \<open>src/ledger/canonical.py\<close>: \<open>json.dumps\<close> with sorted keys, compact separators, no escaping of
  non-ASCII characters and no non-finite numbers, followed by UTF-8 encoding. The main result is
  that the canonical bytes determine the value up to the order of object keys, so a digest of
  canonical JSON commits to the value.
\<close>

subsection \<open>\<open>json.dumps\<close>\<close>

text \<open>Python's \<open>repr\<close> of an integer: decimal digits without leading zeros, a sign if negative.\<close>

fun nat_text :: "nat \<Rightarrow> pystr" where
  "nat_text n = (if n < 10 then [48 + n] else nat_text (n div 10) @ [48 + n mod 10])"

declare nat_text.simps [simp del]

definition int_text :: "int \<Rightarrow> pystr" where
  "int_text i = (if i < 0 then 45 # nat_text (nat (- i)) else nat_text (nat i))"

text \<open>The escapes of \<open>json.encoder\<close> with \<open>ensure_ascii=False\<close>.\<close>

definition escape :: "nat \<Rightarrow> pystr" where
  "escape c =
     (if c = 34 then [92, 34] else if c = 92 then [92, 92]
      else if c = 10 then [92, 110] else if c = 13 then [92, 114] else if c = 9 then [92, 116]
      else if c = 12 then [92, 102] else if c = 8 then [92, 98]
      else if c < 32 then [92, 117, 48, 48, hex_digit (c div 16), hex_digit (c mod 16)]
      else [c])"

definition quote :: "pystr \<Rightarrow> pystr" where
  "quote s = 34 # concat (map escape s) @ [34]"

fun join :: "pystr list \<Rightarrow> pystr" where
  "join [] = []"
| "join (t # ts) = t @ concat (map (\<lambda>u. 44 # u) ts)"

text \<open>
  \<open>allow_nan=False\<close> makes \<open>json.dumps\<close> raise \<open>ValueError\<close> at any non-finite number, before
  anything is returned; \<open>finite_json\<close> is that test and \<open>json_text\<close> the text of the others. Keys
  are sorted by code points; equal keys do not occur in a \<open>dict\<close>.
\<close>

fun finite_json :: "json \<Rightarrow> bool" where
  "finite_json (JFloat f) = (case f of Finite _ \<Rightarrow> True | _ \<Rightarrow> False)"
| "finite_json (JArr vs) = (\<forall>v \<in> set vs. finite_json v)"
| "finite_json (JObj kvs) = (\<forall>(k, v) \<in> set kvs. finite_json v)"
| "finite_json _ = True"

definition float_text :: "pyfloat \<Rightarrow> pystr" where
  "float_text f = (case f of Finite t \<Rightarrow> t | NaN \<Rightarrow> py ''NaN'' | PosInf \<Rightarrow> py ''Infinity''
     | NegInf \<Rightarrow> py ''-Infinity'')"

fun json_text :: "json \<Rightarrow> pystr" where
  "json_text JNull = py ''null''"
| "json_text (JBool b) = (if b then py ''true'' else py ''false'')"
| "json_text (JInt i) = int_text i"
| "json_text (JFloat f) = float_text f"
| "json_text (JStr s) = quote s"
| "json_text (JArr vs) = 91 # join (map json_text vs) @ [93]"
| "json_text (JObj kvs) =
     123 # join (map (\<lambda>(k, t). quote k @ 58 # t)
                  (sort_key fst (map (\<lambda>(k, v). (k, json_text v)) kvs))) @ [125]"

definition dumps :: "json \<Rightarrow> pystr result" where
  "dumps v = (if finite_json v then Inr (json_text v) else Inl ValueError)"

subsection \<open>UTF-8\<close>

definition utf8_char :: "nat \<Rightarrow> nat list" where
  "utf8_char c =
     (if c < 128 then [c]
      else if c < 2048 then [192 + c div 64, 128 + c mod 64]
      else if c < 65536 then [224 + c div 4096, 128 + c div 64 mod 64, 128 + c mod 64]
      else [240 + c div 262144, 128 + c div 4096 mod 64, 128 + c div 64 mod 64, 128 + c mod 64])"

text \<open>A lone surrogate cannot be encoded; code points end at 0x10FFFF.\<close>

definition encodable :: "nat \<Rightarrow> bool" where
  "encodable c \<longleftrightarrow> c < 0x110000 \<and> \<not> (0xD800 \<le> c \<and> c \<le> 0xDFFF)"

definition utf8_encode :: "pystr \<Rightarrow> bytes result" where
  "utf8_encode s =
     (if \<forall>c \<in> set s. encodable c then Inr (map word_of_nat (concat (map utf8_char s)))
      else Inl UnicodeEncodeError)"

subsection \<open>The code\<close>

text \<open>
  The \<open>try\<close> covers \<open>json.dumps\<close> only: its \<open>ValueError\<close> becomes a \<open>CanonicalizationError\<close>, whereas
  the \<open>UnicodeEncodeError\<close> of \<open>text.encode\<close> leaves the function as it is.
\<close>

definition canonical_json :: "json \<Rightarrow> bytes result" where
  "canonical_json v =
     (case dumps v of
        Inl _ \<Rightarrow> Inl CanonicalizationError
      | Inr text \<Rightarrow> utf8_encode text)"

definition sha256_hex :: "bytes \<Rightarrow> pystr" where
  "sha256_hex data = hex (sha256 data)"

definition digest_json :: "json \<Rightarrow> pystr result" where
  "digest_json v = map_result sha256_hex (canonical_json v)"

subsection \<open>Well-formed values and their normal form\<close>

text \<open>
  What every value Python builds from JSON satisfies: keys of a \<open>dict\<close> differ, and a finite
  float's \<open>repr\<close> is made of number characters and has a point or an exponent. \<open>normalize\<close> sorts
  every object by key: two values are the same Python value when they normalize alike.
\<close>

definition number_char :: "nat \<Rightarrow> bool" where
  "number_char c \<longleftrightarrow> (48 \<le> c \<and> c \<le> 57) \<or> c = 43 \<or> c = 45 \<or> c = 46 \<or> c = 101"

definition float_repr :: "pystr \<Rightarrow> bool" where
  "float_repr t \<longleftrightarrow> (\<forall>c \<in> set t. number_char c) \<and> (46 \<in> set t \<or> 101 \<in> set t)"

fun wf_json :: "json \<Rightarrow> bool" where
  "wf_json (JFloat f) = (case f of Finite t \<Rightarrow> float_repr t | _ \<Rightarrow> True)"
| "wf_json (JArr vs) = (\<forall>v \<in> set vs. wf_json v)"
| "wf_json (JObj kvs) = (distinct (map fst kvs) \<and> (\<forall>(k, v) \<in> set kvs. wf_json v))"
| "wf_json _ = True"

fun normalize :: "json \<Rightarrow> json" where
  "normalize (JArr vs) = JArr (map normalize vs)"
| "normalize (JObj kvs) = JObj (sort_key fst (map (\<lambda>(k, v). (k, normalize v)) kvs))"
| "normalize v = v"

lemma insort_key_map_snd:
  "insort_key fst (k, f v) (map (\<lambda>(k, v). (k, f v)) xs) =
     map (\<lambda>(k, v). (k, f v)) (insort_key fst (k, v) xs)"
  by (induction xs) auto

lemma sort_key_map_snd:
  "sort_key fst (map (\<lambda>(k, v). (k, f v)) xs) = map (\<lambda>(k, v). (k, f v)) (sort_key fst xs)"
  by (induction xs) (auto simp: insort_key_map_snd)

lemma json_text_JObj:
  "json_text (JObj kvs) =
     123 # join (map (\<lambda>(k, v). quote k @ 58 # json_text v) (sort_key fst kvs)) @ [125]"
proof -
  have "(\<lambda>(k, t). quote k @ 58 # t) \<circ> (\<lambda>(k, v). (k, json_text v)) =
      (\<lambda>(k, v). quote k @ 58 # json_text v)"
    by auto
  then show ?thesis
    by (simp add: sort_key_map_snd)
qed

lemma normalize_JObj:
  "normalize (JObj kvs) = JObj (map (\<lambda>(k, v). (k, normalize v)) (sort_key fst kvs))"
  by (simp add: sort_key_map_snd)

declare json_text.simps(7) [simp del] and normalize.simps(2) [simp del]

subsection \<open>Decoding a single token\<close>

lemma nat_text_digits: "\<forall>c \<in> set (nat_text n). 48 \<le> c \<and> c \<le> 57"
proof (induction n rule: nat_text.induct)
  case (1 n)
  then show ?case
    by (cases "n < 10") (auto simp: nat_text.simps [of n])
qed

lemma nat_text_not_Nil: "nat_text n \<noteq> []"
  by (subst nat_text.simps) simp

text \<open>Reading decimal digits back.\<close>

definition digits_value :: "pystr \<Rightarrow> nat" where
  "digits_value t = foldl (\<lambda>a c. 10 * a + (c - 48)) 0 t"

lemma digits_value_nat_text [simp]: "digits_value (nat_text n) = n"
proof (induction n rule: nat_text.induct)
  case (1 n)
  then show ?case
    by (cases "n < 10") (simp_all add: nat_text.simps [of n] digits_value_def)
qed

lemma nat_text_inject [simp]: "nat_text m = nat_text n \<longleftrightarrow> m = n"
  by (metis digits_value_nat_text)

lemma nat_text_not_minus: "nat_text n \<noteq> 45 # t"
  using nat_text_digits [of n] by auto

lemma int_text_inject [simp]: "int_text i = int_text j \<longleftrightarrow> i = j"
proof -
  have "45 # t \<noteq> nat_text n" for n t
    using nat_text_not_minus by metis
  then show ?thesis
    by (auto simp: int_text_def nat_text_not_minus)
qed

lemma int_text_chars: "c \<in> set (int_text i) \<Longrightarrow> number_char c \<and> c \<noteq> 46 \<and> c \<noteq> 101"
  using nat_text_digits by (fastforce simp: int_text_def number_char_def split: if_splits)

lemma int_text_not_Nil: "int_text i \<noteq> []"
  by (simp add: int_text_def nat_text_not_Nil)

lemma float_repr_not_int: "float_repr t \<Longrightarrow> t \<noteq> int_text i"
  using int_text_chars by (auto simp: float_repr_def)

text \<open>Escapes are a prefix code: one escape can be read off the front of a text.\<close>

fun unescape :: "pystr \<Rightarrow> (nat \<times> pystr) option" where
  "unescape (c # rest) =
     (if c \<noteq> 92 then Some (c, rest)
      else case rest of
        [] \<Rightarrow> None
      | x # ys \<Rightarrow>
         (if x = 34 then Some (34, ys) else if x = 92 then Some (92, ys)
          else if x = 110 then Some (10, ys) else if x = 114 then Some (13, ys)
          else if x = 116 then Some (9, ys) else if x = 102 then Some (12, ys)
          else if x = 98 then Some (8, ys)
          else Some (16 * the (hex_value (ys ! 2)) + the (hex_value (ys ! 3)), drop 4 ys)))"
| "unescape [] = None"

lemma unescape_escape: "unescape (escape c @ rest) = Some (c, rest)"
proof -
  have "c < 32 \<Longrightarrow> c div 16 < 16 \<and> c mod 16 < 16"
    by auto
  then show ?thesis
    by (auto simp: escape_def numeral_2_eq_2 numeral_3_eq_3)
qed

lemma escape_inject: "escape c @ x = escape d @ y \<longleftrightarrow> c = d \<and> x = y"
  by (metis unescape_escape option.inject prod.inject)

lemma escape_not_quote: "escape c @ x \<noteq> 34 # y"
  by (simp add: escape_def)

lemma quote_body_inject:
  "concat (map escape a) @ 34 # r = concat (map escape b) @ 34 # s \<Longrightarrow> a = b \<and> r = s"
proof (induction a arbitrary: b)
  case Nil
  then show ?case
    using escape_not_quote by (cases b) (auto simp: eq_commute [of "34 # r"])
next
  case (Cons c a)
  show ?case
  proof (cases b)
    case Nil
    with Cons.prems escape_not_quote show ?thesis
      by auto
  next
    case (Cons d b')
    with Cons.prems have "c = d" "concat (map escape a) @ 34 # r = concat (map escape b') @ 34 # s"
      by (simp_all add: escape_inject)
    with Cons.IH Cons show ?thesis by auto
  qed
qed

lemma quote_inject: "quote a @ r = quote b @ s \<Longrightarrow> a = b \<and> r = s"
  using quote_body_inject [of a r b s] by (simp add: quote_def)

subsection \<open>The text determines the value\<close>

text \<open>
  What follows a value inside a larger text: nothing, a comma or a closing bracket. Number tokens
  end there.
\<close>

definition stops :: "pystr \<Rightarrow> bool" where
  "stops r \<longleftrightarrow> r = [] \<or> hd r = 44 \<or> hd r = 93 \<or> hd r = 125"

lemma stops_simps [simp]: "stops []" "stops (44 # r)" "stops (93 # r)" "stops (125 # r)"
  by (simp_all add: stops_def)

lemma number_token:
  assumes "\<forall>c \<in> set t. number_char c" "\<forall>c \<in> set u. number_char c" "stops r" "stops s"
    and "t @ r = u @ s"
  shows "t = u \<and> r = s"
proof -
  have stop: "takeWhile number_char x = []" if "stops x" for x
    using that by (cases x) (auto simp: stops_def number_char_def)
  have "takeWhile number_char (t @ r) = t" "takeWhile number_char (u @ s) = u"
    using assms(1-4) stop by (simp_all add: takeWhile_append2)
  then have "t = u"
    using assms(5) by simp
  with assms(5) show ?thesis by simp
qed

definition decodes :: "('a \<Rightarrow> pystr) \<Rightarrow> ('a \<Rightarrow> 'b) \<Rightarrow> ('a \<Rightarrow> bool) \<Rightarrow> 'a \<Rightarrow> bool" where
  "decodes f g P x \<longleftrightarrow>
     (\<forall>y r s. P y \<longrightarrow> stops r \<longrightarrow> stops s \<longrightarrow> f x @ r = f y @ s \<longrightarrow> g x = g y \<and> r = s)"

lemma decodesD:
  "decodes f g P x \<Longrightarrow> P y \<Longrightarrow> stops r \<Longrightarrow> stops s \<Longrightarrow> f x @ r = f y @ s \<Longrightarrow> g x = g y \<and> r = s"
  by (auto simp: decodes_def)

lemma decodes_items:
  assumes "\<forall>x \<in> set xs. decodes f g P x" "\<forall>y \<in> set ys. P y" "c = 93 \<or> c = 125"
    and "concat (map (\<lambda>x. 44 # f x) xs) @ c # r = concat (map (\<lambda>x. 44 # f x) ys) @ c # s"
  shows "map g xs = map g ys \<and> r = s"
  using assms
proof (induction xs arbitrary: ys)
  case Nil
  then show ?case
    by (cases ys) auto
next
  case (Cons x xs)
  let ?rest = "\<lambda>zs t. concat (map (\<lambda>x. 44 # f x) zs) @ c # t"
  obtain y ys' where ys: "ys = y # ys'"
    using Cons.prems by (cases ys) auto
  have "stops (?rest xs r)" "stops (?rest ys' s)"
    using Cons.prems(3) by (cases xs; cases ys'; auto simp: stops_def)+
  moreover have "f x @ ?rest xs r = f y @ ?rest ys' s"
    using Cons.prems(4) by (simp add: ys)
  ultimately have "g x = g y \<and> ?rest xs r = ?rest ys' s"
    using Cons.prems(1,2) by (intro decodesD [of f g P x y]) (auto simp: ys)
  then show ?case
    using Cons.IH [of ys'] Cons.prems by (auto simp: ys)
qed

lemma decodes_join:
  assumes "\<forall>x \<in> set xs. decodes f g P x" "\<forall>y \<in> set ys. P y" "c = 93 \<or> c = 125"
    and "\<And>x t u. x \<in> set xs \<union> set ys \<Longrightarrow> f x @ t \<noteq> c # u"
    and "join (map f xs) @ c # r = join (map f ys) @ c # s"
  shows "map g xs = map g ys \<and> r = s"
proof (cases xs)
  case Nil
  with assms(4,5) show ?thesis
    by (cases ys) (fastforce simp: eq_commute [of "c # r"])+
next
  case (Cons x xs')
  then obtain y ys' where ys: "ys = y # ys'"
    using assms(4) [of x] assms(5) by (cases ys) auto
  have "44 # join (map f zs) = concat (map (\<lambda>x. 44 # f x) zs)" if "zs \<noteq> []" for zs
    using that by (cases zs) (auto simp: comp_def)
  then show ?thesis
    using decodes_items [OF assms(1-3), of r s] assms(5) Cons ys
    by (metis append_Cons list.distinct(1))
qed

text \<open>The first character of a text gives the kind of the value.\<close>

fun first_char :: "json \<Rightarrow> nat \<Rightarrow> bool" where
  "first_char JNull c = (c = 110)"
| "first_char (JBool b) c = (c = (if b then 116 else 102))"
| "first_char (JInt _) c = number_char c"
| "first_char (JFloat _) c = number_char c"
| "first_char (JStr _) c = (c = 34)"
| "first_char (JArr _) c = (c = 91)"
| "first_char (JObj _) c = (c = 123)"

lemma py_literals:
  "py ''null'' = [110, 117, 108, 108]" "py ''true'' = [116, 114, 117, 101]"
  "py ''false'' = [102, 97, 108, 115, 101]"
  by (simp_all add: py_def)

lemma json_text_first:
  "wf_json v \<Longrightarrow> finite_json v \<Longrightarrow> \<exists>c t. json_text v = c # t \<and> first_char v c"
proof (cases v)
  case (JInt i)
  then show ?thesis
    using int_text_not_Nil [of i] int_text_chars [of "hd (int_text i)" i]
    by (cases "int_text i") auto
next
  case (JFloat f)
  assume "wf_json v" "finite_json v"
  with JFloat obtain t where "f = Finite t" "float_repr t"
    by (auto split: pyfloat.splits)
  with JFloat show ?thesis
    by (cases t) (auto simp: float_text_def float_repr_def)
qed (auto simp: py_literals quote_def json_text_JObj)

lemma first_char_kinds:
  "first_char v c \<Longrightarrow> c \<noteq> 93 \<and> c \<noteq> 125 \<and> c \<noteq> 44"
  by (cases v) (auto simp: number_char_def split: if_splits)

lemma json_text_not_closing:
  "wf_json v \<Longrightarrow> finite_json v \<Longrightarrow> c = 93 \<or> c = 125 \<Longrightarrow> json_text v @ t \<noteq> c # u"
  using json_text_first [of v] first_char_kinds by fastforce

lemma first_char_number:
  "first_char v c \<Longrightarrow> number_char c \<Longrightarrow> (\<exists>i. v = JInt i) \<or> (\<exists>f. v = JFloat f)"
  by (cases v) (auto simp: number_char_def split: if_splits)

lemma json_text_same_first:
  assumes "wf_json v" "finite_json v" "wf_json w" "finite_json w"
    and "json_text v @ r = json_text w @ s"
  shows "\<exists>c. first_char v c \<and> first_char w c"
  using json_text_first [OF assms(1,2)] json_text_first [OF assms(3,4)] assms(5) by auto

definition plain :: "json \<Rightarrow> bool" where
  "plain v \<longleftrightarrow> wf_json v \<and> finite_json v"

lemma plain_JArr [simp]: "plain (JArr vs) \<longleftrightarrow> (\<forall>v \<in> set vs. plain v)"
  by (auto simp: plain_def)

lemma plain_JObj [simp]:
  "plain (JObj kvs) \<longleftrightarrow> distinct (map fst kvs) \<and> (\<forall>(k, v) \<in> set kvs. plain v)"
  by (auto simp: plain_def)

lemma plain_number_text:
  "plain v \<Longrightarrow> v = JInt i \<or> v = JFloat f \<Longrightarrow> \<forall>c \<in> set (json_text v). number_char c"
  by (auto simp: plain_def float_text_def float_repr_def dest: int_text_chars
      split: pyfloat.splits)

lemma decodes_number:
  assumes v: "plain v" "v = JInt i \<or> v = JFloat f" and w: "plain w" and st: "stops r" "stops s"
    and eq: "json_text v @ r = json_text w @ s"
  shows "normalize v = normalize w \<and> r = s"
proof -
  obtain c where c: "first_char v c" "first_char w c"
    using json_text_same_first eq v w by (metis plain_def)
  then have "number_char c"
    using v(2) by auto
  then obtain j g where w': "w = JInt j \<or> w = JFloat g"
    using first_char_number c(2) by blast
  have "json_text v = json_text w \<and> r = s"
    using number_token plain_number_text [OF v] plain_number_text [OF w w'] st eq by blast
  moreover have "v = w" if "json_text v = json_text w"
    using that v w w' float_repr_not_int
    by (auto simp: plain_def float_text_def split: pyfloat.splits)
       (metis float_repr_not_int)+
  ultimately show ?thesis by auto
qed

lemma decodes_literal:
  assumes "v = JNull \<or> v = JBool b \<or> v = JStr t" "plain v" "plain w"
    and eq: "json_text v @ r = json_text w @ s"
  shows "v = w \<and> r = s"
proof -
  obtain c where c: "first_char v c" "first_char w c"
    using json_text_same_first eq assms by (metis plain_def)
  with assms(1) eq show ?thesis
    by (cases w; auto simp: number_char_def py_literals split: if_splits dest: quote_inject)
qed

lemma quote_not_closing: "c = 93 \<or> c = 125 \<Longrightarrow> quote k @ t \<noteq> c # u"
  by (auto simp: quote_def)

lemma decodes_pair:
  assumes "decodes json_text normalize plain v"
  shows "decodes (\<lambda>(k, v). quote k @ 58 # json_text v) (\<lambda>(k, v). (k, normalize v))
           (\<lambda>(k, v). plain v) (k, v)"
  unfolding decodes_def
proof (intro allI impI)
  fix y r s
  assume y: "case y of (k, v) \<Rightarrow> plain v" "stops r" "stops s"
    and eq: "(case (k, v) of (k, v) \<Rightarrow> quote k @ 58 # json_text v) @ r =
      (case y of (k, v) \<Rightarrow> quote k @ 58 # json_text v) @ s"
  obtain k' v' where y': "y = (k', v')" by fastforce
  have "k = k'" "json_text v @ r = json_text v' @ s"
    using quote_inject [of k "58 # json_text v @ r" k' "58 # json_text v' @ s"] eq
    by (simp_all add: y')
  then show "(case (k, v) of (k, v) \<Rightarrow> (k, normalize v)) =
      (case y of (k, v) \<Rightarrow> (k, normalize v)) \<and> r = s"
    using decodesD [OF assms] y by (auto simp: y')
qed

lemma json_text_decodes: "plain v \<Longrightarrow> decodes json_text normalize plain v"
proof (induction v)
  case (JArr vs)
  show ?case
    unfolding decodes_def
  proof (intro allI impI)
    fix w r s
    assume w: "plain w" "stops r" "stops s" and eq: "json_text (JArr vs) @ r = json_text w @ s"
    obtain ws where w': "w = JArr ws"
      using json_text_same_first [OF _ _ _ _ eq] JArr.prems w(1) unfolding plain_def
      by (cases w) (auto simp: number_char_def split: if_splits)
    have "map normalize vs = map normalize ws \<and> r = s"
    proof (rule decodes_join [of vs json_text normalize plain ws 93])
      show "\<forall>x \<in> set vs. decodes json_text normalize plain x"
        using JArr by auto
    qed (use w w' eq json_text_not_closing JArr.prems in \<open>auto simp: plain_def\<close>)
    then show "normalize (JArr vs) = normalize w \<and> r = s"
      by (simp add: w')
  qed
next
  case (JObj kvs)
  show ?case
    unfolding decodes_def
  proof (intro allI impI)
    fix w r s
    assume w: "plain w" "stops r" "stops s" and eq: "json_text (JObj kvs) @ r = json_text w @ s"
    obtain kws where w': "w = JObj kws"
      using json_text_same_first [OF _ _ _ _ eq] JObj.prems w(1) unfolding plain_def
      by (cases w) (auto simp: number_char_def split: if_splits)
    let ?f = "\<lambda>(k, v). quote k @ 58 # json_text v" and ?g = "\<lambda>(k, v). (k, normalize v)"
    have "map ?g (sort_key fst kvs) = map ?g (sort_key fst kws) \<and> r = s"
    proof (rule decodes_join [of _ ?f ?g "\<lambda>(k, v). plain v" _ 125])
      show "\<forall>x \<in> set (sort_key fst kvs). decodes ?f ?g (\<lambda>(k, v). plain v) x"
      proof
        fix x assume "x \<in> set (sort_key fst kvs)"
        then have "x \<in> set kvs" by simp
        then obtain k v where x: "x = (k, v)" "(k, v) \<in> set kvs" by (metis surj_pair)
        with JObj have "decodes json_text normalize plain v"
          by fastforce
        then show "decodes ?f ?g (\<lambda>(k, v). plain v) x"
          unfolding x(1) by (rule decodes_pair)
      qed
    qed (use w w' eq quote_not_closing [of 125] in \<open>auto simp: json_text_JObj split: prod.splits\<close>)
    then show "normalize (JObj kvs) = normalize w \<and> r = s"
      by (simp add: w' normalize_JObj)
  qed
next
  case JNull
  then show ?case
    unfolding decodes_def using decodes_literal by metis
next
  case (JBool b)
  then show ?case
    unfolding decodes_def using decodes_literal by metis
next
  case (JStr t)
  then show ?case
    unfolding decodes_def using decodes_literal by metis
next
  case (JInt i)
  then show ?case
    unfolding decodes_def using decodes_number by metis
next
  case (JFloat f)
  then show ?case
    unfolding decodes_def using decodes_number by metis
qed

lemma json_text_inject:
  assumes "plain v" "plain w" "json_text v = json_text w"
  shows "normalize v = normalize w"
  using decodesD [OF json_text_decodes [OF assms(1)] assms(2), of "[]" "[]"] assms(3) by simp

subsection \<open>UTF-8 is injective\<close>

definition utf8_first :: "nat list \<Rightarrow> nat \<times> nat list" where
  "utf8_first bs =
     (let b = hd bs; c = bs ! 1 - 128; d = bs ! 2 - 128; e = bs ! 3 - 128 in
      if b < 128 then (b, drop 1 bs)
      else if b < 224 then ((b - 192) * 64 + c, drop 2 bs)
      else if b < 240 then ((b - 224) * 4096 + c * 64 + d, drop 3 bs)
      else ((b - 240) * 262144 + c * 4096 + d * 64 + e, drop 4 bs))"

lemma base64_digits:
  "(c::nat) div 64 * 64 + c mod 64 = c"
  "c div 4096 * 4096 + c div 64 mod 64 * 64 + c mod 64 = c"
  "c div 262144 * 262144 + c div 4096 mod 64 * 4096 + c div 64 mod 64 * 64 + c mod 64 = c"
proof -
  show one: "c div 64 * 64 + c mod 64 = c" by simp
  have "c div 4096 = c div 64 div 64" by (simp add: div_mult2_eq [symmetric])
  then show two: "c div 4096 * 4096 + c div 64 mod 64 * 64 + c mod 64 = c"
    using one div_mult_mod_eq [of "c div 64" 64] by linarith
  have "c div 262144 = c div 4096 div 64" by (simp add: div_mult2_eq [symmetric])
  then show "c div 262144 * 262144 + c div 4096 mod 64 * 4096 + c div 64 mod 64 * 64
      + c mod 64 = c"
    using two div_mult_mod_eq [of "c div 4096" 64] by linarith
qed

lemma utf8_first_char:
  assumes "c < 0x110000"
  shows "utf8_first (utf8_char c @ r) = (c, r)"
proof -
  consider "c < 128" | "128 \<le> c" "c < 2048" | "2048 \<le> c" "c < 65536" | "65536 \<le> c"
    by linarith
  then show ?thesis
  proof cases
    case 2
    then have "192 + c div 64 < 224" by auto
    with 2 base64_digits(1) [of c] show ?thesis
      by (simp add: utf8_first_def utf8_char_def)
  next
    case 3
    then have "224 + c div 4096 < 240" by auto
    with 3 base64_digits(2) [of c] show ?thesis
      by (simp add: utf8_first_def utf8_char_def numeral_2_eq_2)
  next
    case 4
    with base64_digits(3) [of c] show ?thesis
      by (simp add: utf8_first_def utf8_char_def numeral_2_eq_2 numeral_3_eq_3)
  qed (simp add: utf8_first_def utf8_char_def)
qed

lemma utf8_char_bound: "c < 0x110000 \<Longrightarrow> b \<in> set (utf8_char c) \<Longrightarrow> b < 256"
  by (auto simp: utf8_char_def split: if_splits)

lemma utf8_chars_inject:
  "\<forall>c \<in> set s. c < 0x110000 \<Longrightarrow> \<forall>c \<in> set t. c < 0x110000 \<Longrightarrow>
     concat (map utf8_char s) = concat (map utf8_char t) \<Longrightarrow> s = t"
proof (induction s arbitrary: t)
  case Nil
  then show ?case
    by (cases t) (auto simp: utf8_char_def split: if_splits)
next
  case (Cons c s)
  then obtain d t' where t: "t = d # t'"
    by (cases t) (auto simp: utf8_char_def split: if_splits)
  let ?S = "concat (map utf8_char s)" and ?T = "concat (map utf8_char t')"
  have "utf8_char c @ ?S = utf8_char d @ ?T"
    using Cons.prems(3) by (simp only: t list.map concat.simps)
  then have "utf8_first (utf8_char c @ ?S) = utf8_first (utf8_char d @ ?T)"
    by (rule arg_cong)
  moreover have "c < 0x110000" "d < 0x110000"
    using Cons.prems(1,2) by (simp_all add: t)
  ultimately have "(c, ?S) = (d, ?T)"
    by (simp only: utf8_first_char)
  with Cons.IH [of t'] Cons.prems(1,2) show ?case by (simp add: t)
qed

lemma utf8_encode_inject:
  assumes "utf8_encode s = Inr b" "utf8_encode t = Inr b"
  shows "s = t"
proof (rule utf8_chars_inject)
  have enc: "\<forall>c \<in> set s. encodable c" "\<forall>c \<in> set t. encodable c"
    using assms by (auto simp: utf8_encode_def split: if_splits)
  then show "\<forall>c \<in> set s. c < 0x110000" "\<forall>c \<in> set t. c < 0x110000"
    by (auto simp: encodable_def)
  then have bound: "x \<in> set (concat (map utf8_char u)) \<Longrightarrow> u \<in> {s, t} \<Longrightarrow> x < 2 ^ LENGTH(8)" for x u
    using utf8_char_bound by auto
  have "map (word_of_nat :: nat \<Rightarrow> 8 word) (concat (map utf8_char s)) =
      map word_of_nat (concat (map utf8_char t))"
    using assms enc by (simp add: utf8_encode_def)
  then have "map (unat \<circ> (word_of_nat :: nat \<Rightarrow> 8 word)) (concat (map utf8_char s)) =
      map (unat \<circ> (word_of_nat :: nat \<Rightarrow> 8 word)) (concat (map utf8_char t))"
    by (simp only: map_map [symmetric])
  moreover have "map (unat \<circ> (word_of_nat :: nat \<Rightarrow> 8 word)) xs = xs"
    if "\<And>x. x \<in> set xs \<Longrightarrow> x < 2 ^ LENGTH(8)" for xs
    using that by (induction xs) (auto simp: unat_of_nat take_bit_nat_eq_self)
  ultimately show "concat (map utf8_char s) = concat (map utf8_char t)"
    using bound by (metis insertI1 insertI2)
qed

subsection \<open>Canonical JSON commits to the value\<close>

lemma canonical_json_Inr:
  "canonical_json v = Inr b \<longleftrightarrow> finite_json v \<and> utf8_encode (json_text v) = Inr b"
  by (auto simp: canonical_json_def dumps_def)

lemma canonical_json_inject:
  assumes "wf_json v" "wf_json w" "canonical_json v = Inr b" "canonical_json w = Inr b"
  shows "normalize v = normalize w"
  using assms json_text_inject utf8_encode_inject
  by (metis canonical_json_Inr plain_def)

text \<open>Key order does not reach the text: normalizing first gives the same bytes.\<close>

lemma sort_key_sorted: "sort_key fst (sort_key fst xs) = sort_key fst xs"
  by (simp add: sort_key_id_if_sorted)

lemma sort_key_normalize:
  "sort_key fst (map (\<lambda>(k, v). (k, f v)) (sort_key fst xs)) =
     map (\<lambda>(k, v). (k, f v)) (sort_key fst xs)"
  by (simp add: sort_key_map_snd sort_key_sorted)

lemma finite_json_normalize: "finite_json (normalize v) = finite_json v"
proof (induction v)
  case (JObj kvs)
  then show ?case
    by (fastforce simp: normalize_JObj)
qed auto

lemma json_text_normalize: "json_text (normalize v) = json_text v"
proof (induction v)
  case (JObj kvs)
  have "json_text (normalize v) = json_text v" if "(k, v) \<in> set kvs" for k v
    using JObj [of "(k, v)" v] that by simp
  then have "map (\<lambda>(k, v). quote k @ 58 # json_text v)
        (map (\<lambda>(k, v). (k, normalize v)) (sort_key fst kvs)) =
      map (\<lambda>(k, v). quote k @ 58 # json_text v) (sort_key fst kvs)"
    by (auto simp: comp_def)
  then show ?case
    by (simp only: normalize_JObj json_text_JObj sort_key_normalize)
next
  case (JArr vs)
  then have "map json_text (map normalize vs) = map json_text vs" by simp
  then show ?case by (simp only: normalize.simps json_text.simps)
qed simp_all

lemma canonical_json_normalize: "canonical_json (normalize v) = canonical_json v"
  by (simp add: canonical_json_def dumps_def finite_json_normalize json_text_normalize)

lemma digest_json_normalize: "digest_json (normalize v) = digest_json v"
  by (simp add: digest_json_def canonical_json_normalize)

text \<open>
  \<open>hash_inputs\<close> collects the byte strings that the digests of two values hash; a collision among
  them is the only way the digests of different values agree.
\<close>

definition canonical_bytes :: "json \<Rightarrow> bytes" where
  "canonical_bytes v = (case canonical_json v of Inr b \<Rightarrow> b | Inl _ \<Rightarrow> [])"

lemma sha256_hex_inject: "sha256_hex a = sha256_hex b \<longleftrightarrow> sha256 a = sha256 b"
  by (simp add: sha256_hex_def)

lemma digest_json_inject:
  assumes "wf_json v" "wf_json w" "digest_json v = Inr d" "digest_json w = Inr d"
    and "\<not> hash_collision {canonical_bytes v, canonical_bytes w}"
  shows "normalize v = normalize w"
proof -
  obtain a b where ab: "canonical_json v = Inr a" "canonical_json w = Inr b"
      "sha256_hex a = d" "sha256_hex b = d"
    using assms(3,4) by (auto simp: digest_json_def result_simps)
  then have "a = b"
    using assms(5) by (auto simp: canonical_bytes_def hash_collision_def sha256_hex_inject)
  then show ?thesis
    using canonical_json_inject assms(1,2) ab by blast
qed

subsection \<open>Which values are rejected\<close>

fun encodable_json :: "json \<Rightarrow> bool" where
  "encodable_json (JStr s) = (\<forall>c \<in> set s. encodable c)"
| "encodable_json (JArr vs) = (\<forall>v \<in> set vs. encodable_json v)"
| "encodable_json (JObj kvs) =
     (\<forall>(k, v) \<in> set kvs. (\<forall>c \<in> set k. encodable c) \<and> encodable_json v)"
| "encodable_json _ = True"

lemma encodable_ascii: "c < 128 \<Longrightarrow> encodable c"
  by (simp add: encodable_def)

lemma encodable_escape: "(\<forall>x \<in> set (escape c). encodable x) \<longleftrightarrow> encodable c"
proof -
  have "hex_digit n < 128" if "n < 16" for n
    using hex_ascii that by (auto simp: hex_digit_def)
  then have "c < 32 \<Longrightarrow> encodable (hex_digit (c div 16)) \<and> encodable (hex_digit (c mod 16))"
    by (auto intro!: encodable_ascii)
  then show ?thesis
    by (auto simp: escape_def encodable_def)
qed

lemma encodable_quote: "(\<forall>x \<in> set (quote s). encodable x) \<longleftrightarrow> (\<forall>c \<in> set s. encodable c)"
  using encodable_escape by (fastforce simp: quote_def encodable_ascii)

lemma encodable_join:
  "(\<forall>x \<in> set (join ts). encodable x) \<longleftrightarrow> (\<forall>t \<in> set ts. \<forall>x \<in> set t. encodable x)"
  by (cases ts) (auto simp: encodable_ascii)

lemma number_char_encodable: "number_char c \<Longrightarrow> encodable c"
  by (auto simp: number_char_def intro: encodable_ascii)

lemma encodable_json_text:
  "plain v \<Longrightarrow> (\<forall>x \<in> set (json_text v). encodable x) \<longleftrightarrow> encodable_json v"
proof (induction v)
  case (JObj kvs)
  have IH: "(\<forall>x \<in> set (json_text v). encodable x) = encodable_json v" if "(k, v) \<in> set kvs" for k v
    using JObj that by fastforce
  have field: "(\<forall>x \<in> set (quote k @ 58 # json_text v). encodable x) \<longleftrightarrow>
      (\<forall>c \<in> set k. encodable c) \<and> encodable_json v" if "(k, v) \<in> set kvs" for k v
    using IH [OF that] encodable_quote [of k] by (auto simp: encodable_ascii)
  have "(\<forall>x \<in> set (json_text (JObj kvs)). encodable x) \<longleftrightarrow>
      (\<forall>(k, v) \<in> set kvs. \<forall>x \<in> set (quote k @ 58 # json_text v). encodable x)"
    unfolding json_text_JObj using encodable_join
    by (simp add: encodable_ascii case_prod_unfold)
  also have "\<dots> \<longleftrightarrow> (\<forall>(k, v) \<in> set kvs. (\<forall>c \<in> set k. encodable c) \<and> encodable_json v)"
    using field by (intro ball_cong) auto
  finally show ?case by simp
next
  case (JInt i)
  then show ?case
    using number_char_encodable int_text_chars by auto
next
  case (JFloat f)
  then show ?case
    using number_char_encodable plain_number_text by auto
qed (auto simp: encodable_join encodable_ascii encodable_quote py_literals)

lemma canonical_json_ok:
  "plain v \<Longrightarrow> encodable_json v \<Longrightarrow> \<exists>b. canonical_json v = Inr b"
  using encodable_json_text [of v]
  by (auto simp: canonical_json_def dumps_def utf8_encode_def plain_def)



text \<open>
  C22: The canonical bytes commit to the value and to nothing else: two values have the same
  canonical bytes exactly when they are the same value up to the order of object keys, so equal
  payloads converge and different payloads (numbers of different type included) never share
  canonical bytes.
\<close>

theorem canonical_json_injective:
  assumes "wf_json v" "wf_json w" "canonical_json v = Inr b"
  shows "canonical_json w = Inr b \<longleftrightarrow> normalize v = normalize w"
  using canonical_json_inject assms canonical_json_normalize by metis

theorem canonical_json_injective_witness:
  "canonical_json (JObj [(py ''b'', JInt 1), (py ''a'', JNull)]) =
     canonical_json (JObj [(py ''a'', JNull), (py ''b'', JInt 1)])
   \<and> canonical_json (JArr [JInt 1]) \<noteq> canonical_json (JArr [JFloat (Finite (py ''1.0''))])"
proof -
  let ?v = "JObj [(py ''b'', JInt 1), (py ''a'', JNull)]"
  let ?w = "JObj [(py ''a'', JNull), (py ''b'', JInt 1)]"
  let ?x = "JArr [JInt 1]" and ?y = "JArr [JFloat (Finite (py ''1.0''))]"
  have "wf_json ?v" "wf_json ?w" "wf_json ?x" "wf_json ?y"
    by (simp_all add: py_def float_repr_def number_char_def)
  moreover have "normalize ?v = normalize ?w" "normalize ?x \<noteq> normalize ?y"
    by (simp_all add: py_def normalize_JObj)
  moreover have "plain ?v" "plain ?x"
    by (simp_all add: plain_def py_def float_repr_def number_char_def)
  moreover have "encodable_json ?v" "encodable_json ?x"
    by (simp_all add: py_def encodable_def)
  moreover obtain b where "canonical_json ?v = Inr b"
    using canonical_json_ok [of ?v] \<open>plain ?v\<close> \<open>encodable_json ?v\<close> by blast
  moreover obtain c where "canonical_json ?x = Inr c"
    using canonical_json_ok [of ?x] \<open>plain ?x\<close> \<open>encodable_json ?x\<close> by blast
  ultimately show ?thesis
    using canonical_json_injective [of ?v ?w b] canonical_json_injective [of ?x ?y c] by auto
qed

end
