(* ===== verification/Calendar.thy ===== *)
theory Calendar
  imports Canonical
begin

section \<open>Timestamps and UUIDs as text\<close>

text \<open>
  The parts of \<open>datetime\<close> and \<open>uuid\<close> the ledger commits to: a timestamp's UTC text with
  microseconds, its parser (\<open>datetime.fromisoformat\<close>, every format the library accepts, digits
  being ASCII digits), and the canonical text of a UUID. Formatting followed by parsing gives the
  instant back, so the committed text determines the instant.
\<close>

subsection \<open>Fixed-width digits\<close>

fun pad_digits :: "nat \<Rightarrow> nat \<Rightarrow> nat \<Rightarrow> nat list" where
  "pad_digits b 0 n = []"
| "pad_digits b (Suc w) n = pad_digits b w (n div b) @ [n mod b]"

definition digits_nat :: "nat \<Rightarrow> nat list \<Rightarrow> nat" where
  "digits_nat b ds = foldl (\<lambda>a d. b * a + d) 0 ds"

lemma length_pad_digits [simp]: "length (pad_digits b w n) = w"
  by (induction w arbitrary: n) simp_all

lemma pad_digits_less: "0 < b \<Longrightarrow> d \<in> set (pad_digits b w n) \<Longrightarrow> d < b"
  by (induction w arbitrary: n) auto

lemma digits_nat_pad: "digits_nat b (pad_digits b w n) = n mod b ^ w"
proof (induction w arbitrary: n)
  case (Suc w)
  then show ?case
    by (simp add: digits_nat_def mod_mult2_eq mult.commute)
qed (simp add: digits_nat_def)

lemma pad_digits_inject:
  "m < b ^ w \<Longrightarrow> n < b ^ w \<Longrightarrow> pad_digits b w m = pad_digits b w n \<Longrightarrow> m = n"
  by (metis digits_nat_pad mod_less)

text \<open>\<open>"%0wd" % n\<close> of a number with at most \<open>w\<close> digits, and \<open>"%032x"\<close>.\<close>

definition pad :: "nat \<Rightarrow> nat \<Rightarrow> pystr" where
  "pad w n = map (\<lambda>d. 48 + d) (pad_digits 10 w n)"

lemma length_pad [simp]: "length (pad w n) = w"
  by (simp add: pad_def)

lemma pad_bounds: "c \<in> set (pad w n) \<Longrightarrow> 48 \<le> c \<and> c \<le> 57"
  using pad_digits_less [of 10] by (fastforce simp: pad_def)

lemma digits_value_pad: "digits_value (pad w n) = n mod 10 ^ w"
proof -
  have "foldl (\<lambda>a c. 10 * a + (c - 48)) z (map (\<lambda>d. 48 + d) ds) = foldl (\<lambda>a d. 10 * a + d) z ds"
    for z :: nat and ds by (induction ds arbitrary: z) simp_all
  then show ?thesis
    using digits_nat_pad [of 10 w n] by (simp add: digits_value_def pad_def digits_nat_def)
qed

subsection \<open>UUIDs\<close>

type_synonym uuid = "128 word"

definition uuid_hex :: "uuid \<Rightarrow> pystr" where
  "uuid_hex u = map hex_digit (pad_digits 16 32 (unat u))"

definition uuid_str :: "uuid \<Rightarrow> pystr" where
  "uuid_str u =
     (let h = uuid_hex u in
      take 8 h @ 45 # take 4 (drop 8 h) @ 45 # take 4 (drop 12 h) @ 45 # take 4 (drop 16 h) @ 45 #
      drop 20 h)"

lemma length_uuid_hex [simp]: "length (uuid_hex u) = 32"
  by (simp add: uuid_hex_def)

lemma map_hex_digit_inject:
  assumes "\<forall>d \<in> set ds. d < 16" "\<forall>e \<in> set es. e < 16" "map hex_digit ds = map hex_digit es"
  shows "ds = es"
proof -
  have "map (\<lambda>d. hex_value (hex_digit d)) ds = map (\<lambda>e. hex_value (hex_digit e)) es"
    using arg_cong [OF assms(3), of "map hex_value"] by (simp add: comp_def)
  moreover have "map (\<lambda>d. hex_value (hex_digit d)) xs = map Some xs"
    if "\<forall>d \<in> set xs. d < 16" for xs
    using that hex_value_digit by (induction xs) auto
  ultimately have "map Some ds = map Some es"
    using assms(1,2) by simp
  then show ?thesis
    by (metis injD inj_Some inj_map)
qed

lemma uuid_hex_inject: "uuid_hex u = uuid_hex v \<longleftrightarrow> u = v"
proof
  assume "uuid_hex u = uuid_hex v"
  then have "pad_digits 16 32 (unat u) = pad_digits 16 32 (unat v)"
    unfolding uuid_hex_def
    by (rule map_hex_digit_inject [rotated 2]) (simp_all add: pad_digits_less)
  moreover have "unat w < 16 ^ 32" for w :: uuid
    using unsigned_less [of w] by simp
  ultimately have "unat u = unat v"
    using pad_digits_inject [of "unat u" 16 32 "unat v"] by blast
  then show "u = v" by (rule unsigned_word_eqI)
qed simp

lemma take_drop_join: "take a (drop b xs) @ drop (a + b) xs = drop b xs"
  by (simp flip: drop_drop)

lemma uuid_str_inject [simp]: "uuid_str u = uuid_str v \<longleftrightarrow> u = v"
proof
  assume eq: "uuid_str u = uuid_str v"
  have parts: "take 8 h @ take 4 (drop 8 h) @ take 4 (drop 12 h) @ take 4 (drop 16 h) @ drop 20 h = h"
    for h :: pystr
    using take_drop_join [of 4 16 h] take_drop_join [of 4 12 h] take_drop_join [of 4 8 h] by simp
  have "take 8 (uuid_hex u) = take 8 (uuid_hex v) \<and>
      take 4 (drop 8 (uuid_hex u)) = take 4 (drop 8 (uuid_hex v)) \<and>
      take 4 (drop 12 (uuid_hex u)) = take 4 (drop 12 (uuid_hex v)) \<and>
      take 4 (drop 16 (uuid_hex u)) = take 4 (drop 16 (uuid_hex v)) \<and>
      drop 20 (uuid_hex u) = drop 20 (uuid_hex v)"
    using eq by (simp add: uuid_str_def Let_def)
  then have "uuid_hex u = uuid_hex v"
    by (subst parts [of "uuid_hex u", symmetric], subst parts [of "uuid_hex v", symmetric])
       (simp only:)
  then show "u = v"
    by (simp add: uuid_hex_inject)
qed simp

lemma uuid_str_encodable: "c \<in> set (uuid_str u) \<Longrightarrow> encodable c"
proof -
  assume "c \<in> set (uuid_str u)"
  then have "c = 45 \<or> c \<in> set (uuid_hex u)"
    by (auto simp: uuid_str_def Let_def dest: in_set_takeD in_set_dropD)
  moreover have "x < 128" if "x \<in> set (uuid_hex u)" for x
    using that pad_digits_less [of 16] hex_digit_bounds
    by (fastforce simp: uuid_hex_def hex_digit_def)
  ultimately show ?thesis
    using encodable_ascii by force
qed

subsection \<open>The proleptic Gregorian calendar\<close>

definition is_leap :: "nat \<Rightarrow> bool" where
  "is_leap y \<longleftrightarrow> y mod 4 = 0 \<and> (y mod 100 \<noteq> 0 \<or> y mod 400 = 0)"

definition month_lengths :: "nat list" where
  "month_lengths = [0, 31, 28, 31, 30, 31, 30, 31, 31, 30, 31, 30, 31]"

definition before_month :: "nat list" where
  "before_month = [0, 0, 31, 59, 90, 120, 151, 181, 212, 243, 273, 304, 334]"

definition days_before_year :: "nat \<Rightarrow> nat" where
  "days_before_year y = (y - 1) * 365 + (y - 1) div 4 - (y - 1) div 100 + (y - 1) div 400"

definition ymd2ord :: "nat \<Rightarrow> nat \<Rightarrow> nat \<Rightarrow> nat" where
  "ymd2ord y m d =
     days_before_year y + (before_month ! m + (if 2 < m \<and> is_leap y then 1 else 0)) + d"

text \<open>Month and day from the day of the year (from zero).\<close>

definition month_day :: "bool \<Rightarrow> nat \<Rightarrow> nat \<times> nat" where
  "month_day leap n =
     (let m = (n + 50) div 32;
          p = before_month ! m + (if 2 < m \<and> leap then 1 else 0) in
      if p > n then
        let m' = m - 1;
            p' = p - (month_lengths ! m' + (if m' = 2 \<and> leap then 1 else 0)) in (m', n - p' + 1)
      else (m, n - p + 1))"

definition ord2ymd :: "nat \<Rightarrow> nat \<times> nat \<times> nat" where
  "ord2ymd ordinal =
     (let n = ordinal - 1;
          n400 = n div 146097; n = n mod 146097;
          n100 = n div 36524; n = n mod 36524;
          n4 = n div 1461; n = n mod 1461;
          n1 = n div 365; n = n mod 365;
          year = n400 * 400 + 1 + n100 * 100 + n4 * 4 + n1 in
      if n1 = 4 \<or> n100 = 4 then (year - 1, 12, 31)
      else
        let leap = (n1 = 3 \<and> (n4 \<noteq> 24 \<or> n100 = 3)) in (year, month_day leap n))"

definition max_ordinal :: nat where
  "max_ordinal = 3652059"

text \<open>Reading a date back: 366 days in two kinds of years, checked one by one.\<close>

definition month_day_ok :: "bool \<Rightarrow> nat \<Rightarrow> bool" where
  "month_day_ok leap n =
     (case month_day leap n of (m, d) \<Rightarrow>
        1 \<le> m \<and> m \<le> 12 \<and> 1 \<le> d \<and> d \<le> month_lengths ! m + (if m = 2 \<and> leap then 1 else 0) \<and>
        before_month ! m + (if 2 < m \<and> leap then 1 else 0) + d = n + 1)"

lemma month_day_ok:
  assumes "n < (if leap then 366 else 365)"
  shows "month_day_ok leap n"
proof -
  define m where "m = (n + 50) div 32"
  have b: "32 * m \<le> n + 50" "n + 50 < 32 * m + 32"
    unfolding m_def by simp_all
  then have "1 \<le> m" "m \<le> 12"
    using assms by (auto split: if_splits)
  then have "m \<in> {1, 2, 3, 4, 5, 6, 7, 8, 9, 10, 11, 12}"
    by (simp add: numeral_eq_Suc le_Suc_eq)
  then show ?thesis
    unfolding month_day_ok_def month_day_def m_def [symmetric] Let_def
    using assms b by (elim insertE; cases leap) (auto simp: before_month_def month_lengths_def)
qed

lemma year_cycles:
  assumes "b \<le> 3" "c \<le> 24" "e \<le> 3"
  shows "(400 * a + 100 * b + 4 * c + e) div 4 = 100 * a + 25 * b + c"
    and "(400 * a + 100 * b + 4 * c + e) div 100 = 4 * a + b"
    and "(400 * a + 100 * b + 4 * c + e) div 400 = (a::nat)"
  using assms by (intro div_nat_eqI; simp)+

lemma days_before_year_cycles:
  assumes "b \<le> 3" "c \<le> 24" "e \<le> 3"
  shows "days_before_year (400 * a + 100 * b + 4 * c + e + 1) =
    146097 * a + 36524 * b + 1461 * c + 365 * e"
  using year_cycles [OF assms, of a] by (simp add: days_before_year_def)

lemma is_leap_cycles:
  assumes "b \<le> 3" "c \<le> 24" "e \<le> 3"
  shows "is_leap (400 * a + 100 * b + 4 * c + e + 1) \<longleftrightarrow> e = 3 \<and> (c \<noteq> 24 \<or> b = 3)"
proof -
  have mod: "x mod k = 0 \<longleftrightarrow> x = k" if "0 < x" "x \<le> k" for x k :: nat
    using that by (cases "x = k") auto
  have "(400 * a + 100 * b + 4 * c + e + 1) mod 4 = (e + 1) mod 4"
    using mod_mult_self2 [of "e + 1" 4 "100 * a + 25 * b + c"] by (simp add: algebra_simps)
  moreover have "(400 * a + 100 * b + 4 * c + e + 1) mod 100 = (4 * c + e + 1) mod 100"
    using mod_mult_self2 [of "4 * c + e + 1" 100 "4 * a + b"] by (simp add: algebra_simps)
  moreover have "(400 * a + 100 * b + 4 * c + e + 1) mod 400 = (100 * b + 4 * c + e + 1) mod 400"
    using mod_mult_self2 [of "100 * b + 4 * c + e + 1" 400 a] by (simp add: algebra_simps)
  moreover have "(e + 1) mod 4 = 0 \<longleftrightarrow> e + 1 = 4" "(4 * c + e + 1) mod 100 = 0 \<longleftrightarrow> 4 * c + e + 1 = 100"
    "(100 * b + 4 * c + e + 1) mod 400 = 0 \<longleftrightarrow> 100 * b + 4 * c + e + 1 = 400"
    by (rule mod; use assms in linarith)+
  moreover have "e + 1 = 4 \<longleftrightarrow> e = 3" "4 * c + e + 1 = 100 \<longleftrightarrow> c = 24 \<and> e = 3"
    "100 * b + 4 * c + e + 1 = 400 \<longleftrightarrow> b = 3 \<and> c = 24 \<and> e = 3"
    using assms by linarith+
  ultimately show ?thesis
    unfolding is_leap_def by metis
qed

lemma ord2ymd_correct:
  assumes "1 \<le> n" "n \<le> max_ordinal" "ord2ymd n = (y, m, d)"
  shows "1 \<le> y \<and> y \<le> 9999 \<and> 1 \<le> m \<and> m \<le> 12 \<and> 1 \<le> d \<and>
    d \<le> month_lengths ! m + (if m = 2 \<and> is_leap y then 1 else 0) \<and> ymd2ord y m d = n"
proof -
  define a where "a = (n - 1) div 146097"
  define r where "r = (n - 1) mod 146097"
  define b where "b = r div 36524"
  define s where "s = r mod 36524"
  define c where "c = s div 1461"
  define t where "t = s mod 1461"
  define e where "e = t div 365"
  define u where "u = t mod 365"
  have r: "r < 146097" "s < 36524" "t < 1461" "u < 365"
    unfolding r_def s_def t_def u_def by simp_all
  have rs: "n - 1 = 146097 * a + r" "r = 36524 * b + s" "s = 1461 * c + t" "t = 365 * e + u"
    unfolding a_def r_def b_def s_def c_def t_def e_def u_def by simp_all
  then have n: "n = 146097 * a + 36524 * b + 1461 * c + 365 * e + u + 1"
    using assms(1) by linarith
  have bounds: "b \<le> 4" "c \<le> 24" "e \<le> 4" "b = 4 \<longrightarrow> s = 0" "e = 4 \<longrightarrow> u = 0"
    using r rs by linarith+
  have a: "a \<le> 24" "a = 24 \<longrightarrow> b \<le> 3"
    using assms(2) rs(2) n by (simp_all add: max_ordinal_def)
  have ord: "ord2ymd n = (if e = 4 \<or> b = 4 then (400 * a + 100 * b + 4 * c + e, 12, 31)
      else (400 * a + 100 * b + 4 * c + e + 1, month_day (e = 3 \<and> (c \<noteq> 24 \<or> b = 3)) u))"
    unfolding ord2ymd_def Let_def a_def [symmetric] r_def [symmetric] b_def [symmetric]
      s_def [symmetric] c_def [symmetric] t_def [symmetric] e_def [symmetric] u_def [symmetric]
    by simp
  consider (century) "b = 4" | (leap) "b \<le> 3" "e = 4" | (common) "b \<le> 3" "e \<le> 3"
    using bounds(1,3) by linarith
  then show ?thesis
  proof cases
    case century
    then have z: "c = 0" "e = 0" "u = 0"
      using bounds(4) rs by auto
    have "days_before_year (400 * a + 399 + 1) = 146097 * a + 36524 * 3 + 1461 * 24 + 365 * 3"
      using days_before_year_cycles [of 3 24 3 a] by (simp add: ac_simps)
    moreover have "is_leap (400 * a + 399 + 1)"
      using is_leap_cycles [of 3 24 3 a] by simp
    ultimately show ?thesis
      using assms(3) ord century z n a
      by (auto simp: ymd2ord_def before_month_def month_lengths_def ac_simps)
  next
    case leap
    then have z: "u = 0" "c \<le> 23"
      using bounds(5) r(2) rs(3,4) by linarith+
    have "days_before_year (400 * a + 100 * b + 4 * c + 3 + 1) =
        146097 * a + 36524 * b + 1461 * c + 365 * 3"
      using days_before_year_cycles [of b c 3 a] leap z by simp
    moreover have "is_leap (400 * a + 100 * b + 4 * c + 3 + 1)"
      using is_leap_cycles [of b c 3 a] leap z by simp
    ultimately show ?thesis
      using assms(3) ord leap z n a
      by (auto simp: ymd2ord_def before_month_def month_lengths_def ac_simps)
  next
    case common
    define leap where "leap \<longleftrightarrow> e = 3 \<and> (c \<noteq> 24 \<or> b = 3)"
    have "month_day_ok leap u"
      using r(4) by (intro month_day_ok) auto
    moreover have "is_leap y \<longleftrightarrow> leap" "days_before_year y = 146097 * a + 36524 * b + 1461 * c + 365 * e"
      and y: "y = 400 * a + 100 * b + 4 * c + e + 1" "month_day leap u = (m, d)"
      using assms(3) ord common bounds(2) days_before_year_cycles [of b c e a]
        is_leap_cycles [of b c e a] by (simp_all add: leap_def)
    moreover have "1 \<le> y" "y \<le> 9999"
      using y(1) a common bounds(2) n assms(2) unfolding max_ordinal_def by linarith+
    ultimately show ?thesis
      using n by (auto simp: ymd2ord_def month_day_ok_def)
  qed
qed

subsection \<open>Timestamps\<close>

text \<open>
  A \<open>datetime\<close>: microseconds of its wall clock since 0001-01-01T00:00:00, and the offset of its
  \<open>tzinfo\<close> in microseconds (\<open>None\<close> for a naive value).
\<close>

record datetime =
  wall :: int
  tz :: "int option"

definition day_us :: int where
  "day_us = 86400000000"

definition max_wall :: int where
  "max_wall = int max_ordinal * day_us"

definition valid_datetime :: "datetime \<Rightarrow> bool" where
  "valid_datetime d \<longleftrightarrow> 0 \<le> wall d \<and> wall d < max_wall"

text \<open>The instant, with a naive value read as UTC.\<close>

definition instant :: "datetime \<Rightarrow> int" where
  "instant d = wall d - (case tz d of None \<Rightarrow> 0 | Some off \<Rightarrow> off)"

text \<open>\<open>isoformat(timespec="microseconds")\<close> of an aware UTC datetime, without its offset.\<close>

definition time_text :: "nat \<Rightarrow> pystr" where
  "time_text us =
     (let secs = us div 1000000 in
      pad 2 (secs div 3600) @ 58 # pad 2 (secs div 60 mod 60) @ 58 # pad 2 (secs mod 60) @ 46 #
      pad 6 (us mod 1000000))"

definition date_text :: "nat \<Rightarrow> pystr" where
  "date_text ordinal = (case ord2ymd ordinal of (y, m, d) \<Rightarrow> pad 4 y @ 45 # pad 2 m @ 45 # pad 2 d)"

definition wall_text :: "int \<Rightarrow> pystr" where
  "wall_text w =
     date_text (nat (w div day_us) + 1) @ 84 # time_text (nat (w mod day_us))"

text \<open>\<open>s.replace(old, new)\<close> for a non-empty \<open>old\<close>.\<close>

function replace_text :: "pystr \<Rightarrow> pystr \<Rightarrow> pystr \<Rightarrow> pystr" where
  "replace_text old new s =
     (if s = [] \<or> old = [] then s
      else if take (length old) s = old then new @ replace_text old new (drop (length old) s)
      else hd s # replace_text old new (tl s))"
  by pat_completeness auto

termination
  by (relation "measure (\<lambda>(old, new, s). length s)") auto

declare replace_text.simps [simp del]

text \<open>
  \<open>isoformat_utc\<close>: a naive value is taken as UTC; converting an aware one overflows at the ends of
  the calendar.
\<close>

definition isoformat_utc :: "datetime \<Rightarrow> pystr result" where
  "isoformat_utc value =
     (if 0 \<le> instant value \<and> instant value < max_wall
      then Inr (replace_text (py ''+00:00'') (py ''Z'') (wall_text (instant value) @ py ''+00:00''))
      else Inl OverflowError)"

lemma replace_text_skip:
  assumes "\<forall>c \<in> set body. c \<noteq> hd old" "old \<noteq> []"
  shows "replace_text old new (body @ rest) = body @ replace_text old new rest"
  using assms
proof (induction body)
  case (Cons c body)
  then have "take (length old) (c # body @ rest) \<noteq> old"
    by (cases old) auto
  with Cons show ?case
    by (subst replace_text.simps) auto
qed simp

lemma replace_text_here: "old \<noteq> [] \<Longrightarrow> replace_text old new (old @ rest) = new @ replace_text old new rest"
  by (subst replace_text.simps) auto

lemma replace_text_Nil [simp]: "replace_text old new [] = []"
  by (subst replace_text.simps) simp

text \<open>Which characters a timestamp's text has.\<close>

definition iso_char :: "nat \<Rightarrow> bool" where
  "iso_char c \<longleftrightarrow> (48 \<le> c \<and> c \<le> 57) \<or> c = 45 \<or> c = 46 \<or> c = 58 \<or> c = 84"

lemma wall_text_chars: "c \<in> set (wall_text w) \<Longrightarrow> iso_char c"
  using pad_bounds
  by (fastforce simp: wall_text_def date_text_def time_text_def Let_def iso_char_def split: prod.splits)

lemma isoformat_utc_eq:
  "isoformat_utc d =
     (if 0 \<le> instant d \<and> instant d < max_wall then Inr (wall_text (instant d) @ [90])
      else Inl OverflowError)"
proof -
  have "c \<noteq> hd (py ''+00:00'')" if "c \<in> set (wall_text w)" for c w
    using wall_text_chars [OF that] by (auto simp: py_def iso_char_def)
  then have "replace_text (py ''+00:00'') (py ''Z'') (wall_text w @ py ''+00:00'') = wall_text w @ [90]" for w
    using replace_text_skip [of "wall_text w" "py ''+00:00''" "py ''Z''" "py ''+00:00''"]
      replace_text_here [of "py ''+00:00''" "py ''Z''" "[]"]
    by (simp add: py_def)
  then show ?thesis
    by (simp add: isoformat_utc_def)
qed

subsection \<open>\<open>datetime.fromisoformat\<close>\<close>

definition is_digit :: "nat \<Rightarrow> bool" where
  "is_digit c \<longleftrightarrow> 48 \<le> c \<and> c \<le> 57"

text \<open>Exactly \<open>n\<close> digits at the front.\<close>

definition digits :: "nat \<Rightarrow> pystr \<Rightarrow> nat result" where
  "digits n s =
     (if n \<le> length s \<and> list_all is_digit (take n s) then Inr (digits_value (take n s))
      else Inl ValueError)"

definition char_is :: "pystr \<Rightarrow> nat \<Rightarrow> nat \<Rightarrow> bool" where
  "char_is s i c \<longleftrightarrow> i < length s \<and> s ! i = c"

definition date_separator :: "pystr \<Rightarrow> nat result" where
  "date_separator s =
     (if length s = 7 then Inr 7
      else if char_is s 4 45 then
        if char_is s 5 87 then
          if 8 < length s \<and> char_is s 8 45 then
            if length s = 9 then Inl ValueError
            else if 10 < length s \<and> is_digit (s ! 10) then Inr 8 else Inr 10
          else Inr 8
        else Inr 10
      else if char_is s 4 87 then
        let pos = 7 + length (takeWhile is_digit (drop 7 s)) in
        if pos < 9 then Inr pos else if even pos then Inr 7 else Inr 8
      else Inr 8)"

definition iso_week_ordinal :: "nat \<Rightarrow> nat \<Rightarrow> nat \<Rightarrow> nat result" where
  "iso_week_ordinal year week day =
     (let first_weekday = ymd2ord year 1 1 mod 7;
          long = first_weekday = 4 \<or> (first_weekday = 3 \<and> is_leap year);
          firstday = ymd2ord year 1 1;
          weekday = (firstday + 6) mod 7;
          monday = (if 3 < weekday then firstday + 7 - weekday else firstday - weekday);
          ordinal = monday + (week - 1) * 7 + (day - 1) in
      if year < 1 \<or> year > 9999 \<or> week < 1 \<or> week > 53 \<or> (week = 53 \<and> \<not> long) \<or> day < 1 \<or> day > 7 \<or>
         ordinal > max_ordinal
      then Inl ValueError else Inr ordinal)"

definition ymd_ordinal :: "nat \<Rightarrow> nat \<Rightarrow> nat \<Rightarrow> nat result" where
  "ymd_ordinal y m d =
     (if 1 \<le> y \<and> y \<le> 9999 \<and> 1 \<le> m \<and> m \<le> 12 \<and> 1 \<le> d \<and>
         d \<le> month_lengths ! m + (if m = 2 \<and> is_leap y then 1 else 0)
      then Inr (ymd2ord y m d) else Inl ValueError)"

definition parse_date :: "pystr \<Rightarrow> nat result" where
  "parse_date s = bind_result (digits 4 s) (\<lambda>year.
     let sep = char_is s 4 45; skip = (if sep then 1 else 0); pos = 4 + skip in
     if char_is s pos 87 then
       bind_result (digits 2 (drop (pos + 1) s)) (\<lambda>week.
         if pos + 3 < length s then
           if char_is s (pos + 3) 45 \<noteq> sep then Inl ValueError
           else bind_result (digits 1 (drop (pos + 3 + skip) s)) (iso_week_ordinal year week)
         else iso_week_ordinal year week 1)
     else
       bind_result (digits 2 (drop pos s)) (\<lambda>month.
         if char_is s (pos + 2) 45 \<noteq> sep then Inl ValueError
         else bind_result (digits 2 (drop (pos + 2 + skip) s)) (ymd_ordinal year month)))"

text \<open>
  \<open>HH[:MM[:SS]]\<close> with or without the separator: the components read (in at most three rounds) and
  the text that is left.
\<close>

fun time_comps :: "nat \<Rightarrow> bool option \<Rightarrow> pystr \<Rightarrow> (nat list \<times> pystr) result" where
  "time_comps 0 sep s = Inr ([], s)"
| "time_comps (Suc k) sep s = bind_result (digits 2 s) (\<lambda>v.
     let rest = drop 2 s;
         sep' = (case sep of None \<Rightarrow> char_is rest 0 58 | Some b \<Rightarrow> b) in
     if rest = [] \<or> k = 0 then Inr ([v], rest)
     else if sep' \<and> \<not> char_is rest 0 58 then Inl ValueError
     else map_result (\<lambda>(vs, r). (v # vs, r))
            (time_comps k (Some sep') (if sep' then tl rest else rest)))"

definition parse_fraction :: "pystr \<Rightarrow> nat result" where
  "parse_fraction s =
     (if s = [] then Inr 0
      else if hd s \<noteq> 46 \<and> hd s \<noteq> 44 then Inl ValueError
      else
        let rem = tl s; n = min 6 (length rem) in
        if n = 0 \<or> \<not> list_all is_digit rem then Inl ValueError
        else Inr (digits_value (take n rem) * 10 ^ (6 - n)))"

definition component :: "nat list \<Rightarrow> nat \<Rightarrow> nat" where
  "component vs i = (if i < length vs then vs ! i else 0)"

text \<open>Hour, minute, second and microsecond.\<close>

definition parse_hms :: "pystr \<Rightarrow> (nat \<times> nat \<times> nat \<times> nat) result" where
  "parse_hms s = bind_result (time_comps 3 None s) (\<lambda>(vs, rest).
     map_result (\<lambda>us. (component vs 0, component vs 1, component vs 2, us)) (parse_fraction rest))"

definition tz_mark :: "nat \<Rightarrow> bool" where
  "tz_mark c \<longleftrightarrow> c = 43 \<or> c = 45 \<or> c = 90"

definition hms_us :: "nat \<times> nat \<times> nat \<times> nat \<Rightarrow> int" where
  "hms_us t = (case t of (h, m, s, us) \<Rightarrow> ((int h * 60 + int m) * 60 + int s) * 1000000 + int us)"

definition parse_offset :: "pystr \<Rightarrow> int option result" where
  "parse_offset mark =
     (if mark = [] then Inr None
      else if hd mark = 90 then if tl mark = [] then Inr (Some 0) else Inl ValueError
      else if length (tl mark) \<in> {0, 1, 3} then Inl ValueError
      else bind_result (parse_hms (tl mark)) (\<lambda>t.
        let off = (if hd mark = 45 then - hms_us t else hms_us t) in
        if - day_us < off \<and> off < day_us then Inr (Some off) else Inl ValueError))"

definition parse_time :: "pystr \<Rightarrow> (int \<times> int option) result" where
  "parse_time s =
     (if length s < 2 then Inl ValueError
      else bind_result (parse_hms (takeWhile (\<lambda>c. \<not> tz_mark c) s)) (\<lambda>t.
        bind_result (parse_offset (dropWhile (\<lambda>c. \<not> tz_mark c) s)) (\<lambda>off.
          case t of (h, m, sec, us) \<Rightarrow>
            if h \<le> 23 \<and> m \<le> 59 \<and> sec \<le> 59 then Inr (hms_us t, off) else Inl ValueError)))"

definition fromisoformat :: "pystr \<Rightarrow> datetime result" where
  "fromisoformat s =
     (if length s < 7 then Inl ValueError
      else bind_result (date_separator s) (\<lambda>loc.
        bind_result (parse_date (take loc s)) (\<lambda>ordinal.
          let tstr = drop (loc + 1) s in
          map_result (\<lambda>(t, off). \<lparr>wall = (int ordinal - 1) * day_us + t, tz = off\<rparr>)
            (if tstr = [] then Inr (0, None) else parse_time tstr))))"

subsection \<open>Parsing what was printed\<close>

lemma is_digit_pad: "list_all is_digit (pad w n)"
  using pad_bounds by (auto simp: list_all_iff is_digit_def)

lemma digits_pad [simp]: "n < 10 ^ w \<Longrightarrow> digits w (pad w n @ r) = Inr n"
  by (simp add: digits_def is_digit_pad digits_value_pad)

lemma digits_pad_only [simp]: "n < 10 ^ w \<Longrightarrow> digits w (pad w n) = Inr n"
  using digits_pad [of n w "[]"] by simp

lemma pad_2: "pad 2 n = [48 + n div 10 mod 10, 48 + n mod 10]"
  by (simp add: pad_def numeral_2_eq_2)

lemma parse_date_text:
  assumes "ymd_ordinal y m d = Inr n" "y < 10000" "m < 100" "d < 100"
  shows "parse_date (pad 4 y @ 45 # pad 2 m @ 45 # pad 2 d) = Inr n"
proof -
  have "\<not> char_is (pad 4 y @ 45 # pad 2 m @ 45 # pad 2 d) 5 87"
    by (simp add: char_is_def nth_append pad_2)
  then show ?thesis
    using assms by (simp add: parse_date_def char_is_def nth_append)
qed

lemma parse_hms_text:
  assumes "h < 100" "m < 100" "s < 100" "us < 1000000"
  shows "parse_hms (pad 2 h @ 58 # pad 2 m @ 58 # pad 2 s @ 46 # pad 6 us) = Inr (h, m, s, us)"
  using assms is_digit_pad
  by (simp add: parse_hms_def numeral_3_eq_3 char_is_def parse_fraction_def component_def
      digits_value_pad)

lemma hms_us_nat:
  "((h * 60 + m) * 60 + s) * 1000000 + us = t \<Longrightarrow> hms_us (h, m, s, us) = int t"
  by (auto simp: hms_us_def)

lemma time_text_comps:
  assumes "us < 86400000000"
  obtains h m sec frac where "time_text us = pad 2 h @ 58 # pad 2 m @ 58 # pad 2 sec @ 46 # pad 6 frac"
    "h \<le> 23" "m \<le> 59" "sec \<le> 59" "frac < 1000000" "hms_us (h, m, sec, frac) = int us"
proof
  let ?s = "us div 1000000"
  show "time_text us = pad 2 (?s div 3600) @ 58 # pad 2 (?s div 60 mod 60) @ 58 # pad 2 (?s mod 60)
      @ 46 # pad 6 (us mod 1000000)"
    by (simp add: time_text_def Let_def)
  show "?s div 3600 \<le> 23"
    using assms by simp
  have "?s div 60 div 60 = ?s div 3600"
    by (simp add: div_mult2_eq [symmetric])
  then have "(?s div 3600 * 60 + ?s div 60 mod 60) * 60 + ?s mod 60 = ?s"
    using div_mult_mod_eq [of "?s div 60" 60] div_mult_mod_eq [of ?s 60] by simp
  then have "((?s div 3600 * 60 + ?s div 60 mod 60) * 60 + ?s mod 60) * 1000000 + us mod 1000000 = us"
    by simp
  then show "hms_us (?s div 3600, ?s div 60 mod 60, ?s mod 60, us mod 1000000) = int us"
    by (rule hms_us_nat)
qed (simp_all add: less_Suc_eq_le [symmetric])

lemma date_separator_text:
  "date_separator (pad 4 y @ 45 # pad 2 m @ 45 # pad 2 d @ r) = Inr 10"
  by (simp add: date_separator_def char_is_def nth_append pad_2)

lemma parse_offset_utc: "parse_offset (py ''+00:00'') = Inr (Some 0)"
  by (simp add: parse_offset_def py_def parse_hms_def numeral_3_eq_3 digits_def is_digit_def
      digits_value_def char_is_def parse_fraction_def component_def hms_us_def day_us_def)

lemma parse_time_text:
  assumes "us < 86400000000"
  shows "parse_time (time_text us @ py ''+00:00'') = Inr (int us, Some 0)"
proof -
  obtain h m sec frac where t: "time_text us = pad 2 h @ 58 # pad 2 m @ 58 # pad 2 sec @ 46 # pad 6 frac"
    "h \<le> 23" "m \<le> 59" "sec \<le> 59" "frac < 1000000" "hms_us (h, m, sec, frac) = int us"
    using assms by (rule time_text_comps)
  have "\<not> tz_mark c" if "c \<in> set (time_text us)" for c
    using that pad_bounds unfolding t(1) tz_mark_def by fastforce
  then have "takeWhile (\<lambda>c. \<not> tz_mark c) (time_text us @ py ''+00:00'') = time_text us"
    "dropWhile (\<lambda>c. \<not> tz_mark c) (time_text us @ py ''+00:00'') = py ''+00:00''"
    by (simp_all add: takeWhile_append2 dropWhile_append2 tz_mark_def py_def)
  moreover have "parse_hms (time_text us) = Inr (h, m, sec, frac)"
    using t by (simp add: parse_hms_text)
  ultimately show ?thesis
    using t by (simp add: parse_time_def parse_offset_utc)
qed

lemma fromisoformat_wall_text:
  assumes "0 \<le> w" "w < max_wall"
  shows "fromisoformat (wall_text w @ py ''+00:00'') = Inr \<lparr>wall = w, tz = Some 0\<rparr>"
proof -
  let ?n = "nat (w div day_us) + 1" and ?us = "nat (w mod day_us)"
  obtain y m d where ymd: "ord2ymd ?n = (y, m, d)"
    by (metis prod_cases3)
  have "w div day_us < int max_ordinal"
    using assms unfolding max_wall_def day_us_def by (simp add: div_less_iff_less_mult)
  then have n: "1 \<le> ?n" "?n \<le> max_ordinal"
    using assms(1) by (auto simp: day_us_def nat_less_iff)
  note ok = ord2ymd_correct [OF n ymd]
  have "month_lengths ! m \<le> 31"
    using ok nth_mem [of m month_lengths] by (auto simp: month_lengths_def)
  then have small: "y < 10000" "m < 100" "d < 100"
    using ok by (auto split: if_splits)
  have ord: "ymd_ordinal y m d = Inr ?n"
    using ok by (simp add: ymd_ordinal_def)
  have us: "?us < 86400000000"
    using pos_mod_bound [of day_us w] by (simp add: day_us_def nat_less_iff)
  have wt: "wall_text w @ r = pad 4 y @ 45 # pad 2 m @ 45 # pad 2 d @ 84 # time_text ?us @ r" for r
    unfolding wall_text_def date_text_def ymd by simp
  let ?s = "wall_text w @ py ''+00:00''"
  have "take 10 ?s = pad 4 y @ 45 # pad 2 m @ 45 # pad 2 d"
    and drop: "drop 11 ?s = time_text ?us @ py ''+00:00''"
    unfolding wt by simp_all
  moreover have "date_separator ?s = Inr 10"
    unfolding wt by (rule date_separator_text)
  moreover have "\<not> length ?s < 7"
    unfolding wt by simp
  moreover have "time_text ?us @ py ''+00:00'' \<noteq> []"
    by (simp add: py_def)
  moreover have "int (nat (w div day_us)) * day_us + int ?us = w"
    using assms(1) div_mult_mod_eq [of w day_us] pos_imp_zdiv_nonneg_iff [of day_us w]
    by (simp add: day_us_def)
  then have "(int ?n - 1) * day_us + int ?us = w" by simp
  moreover have "(10::nat) + 1 = 11" by simp
  ultimately show ?thesis
    unfolding fromisoformat_def Let_def
    by (simp only: if_False bind_result.simps map_result.simps parse_date_text [OF ord small]
        parse_time_text [OF us] prod.case)
qed

lemma replace_Z:
  "replace_text (py ''Z'') (py ''+00:00'') (wall_text w @ [90]) = wall_text w @ py ''+00:00''"
proof -
  have "c \<noteq> hd (py ''Z'')" if "c \<in> set (wall_text w)" for c
    using wall_text_chars [OF that] by (auto simp: py_def iso_char_def)
  then show ?thesis
    using replace_text_skip [of "wall_text w" "py ''Z''" "py ''+00:00''" "[90]"]
      replace_text_here [of "py ''Z''" "py ''+00:00''" "[]"]
    by (simp add: py_def)
qed

text \<open>The parser as the ledger calls it: \<open>datetime.fromisoformat(text.replace("Z", "+00:00"))\<close>.\<close>

definition parse_timestamp :: "pystr \<Rightarrow> datetime result" where
  "parse_timestamp t = fromisoformat (replace_text (py ''Z'') (py ''+00:00'') t)"

lemma parse_timestamp_isoformat:
  "isoformat_utc d = Inr t \<Longrightarrow> parse_timestamp t = Inr \<lparr>wall = instant d, tz = Some 0\<rparr>"
  by (auto simp: isoformat_utc_eq parse_timestamp_def replace_Z fromisoformat_wall_text
      split: if_splits)

lemma isoformat_utc_inject:
  "isoformat_utc d = Inr t \<Longrightarrow> isoformat_utc e = Inr t \<Longrightarrow> instant d = instant e"
  using parse_timestamp_isoformat [of d t] parse_timestamp_isoformat [of e t] by simp

lemma isoformat_utc_cong: "instant d = instant e \<Longrightarrow> isoformat_utc d = isoformat_utc e"
  by (simp add: isoformat_utc_def)

lemma isoformat_utc_encodable: "isoformat_utc d = Inr t \<Longrightarrow> \<forall>c \<in> set t. encodable c"
  using wall_text_chars by (fastforce simp: isoformat_utc_eq iso_char_def encodable_def split: if_splits)

text \<open>
  Timestamps survive the round trip: the text \<open>isoformat_utc\<close> gives is parsed back to the same
  instant in UTC, and formatting that value gives the same text again; so equal texts mean equal
  instants.
\<close>

theorem isoformat_utc_roundtrip:
  assumes "isoformat_utc value = Inr text"
  shows "\<exists>d. parse_timestamp text = Inr d \<and> instant d = instant value \<and> tz d = Some 0 \<and>
    isoformat_utc d = Inr text"
  using parse_timestamp_isoformat [OF assms] assms
    isoformat_utc_cong [of "\<lparr>wall = instant value, tz = Some 0\<rparr>" "value"]
  by (simp add: instant_def)

theorem isoformat_utc_roundtrip_witness:
  "isoformat_utc \<lparr>wall = 63871200000000000, tz = Some 3600000000\<rparr> =
     Inr (wall_text 63871196400000000 @ [90]) \<and>
   (\<exists>d. parse_timestamp (wall_text 63871196400000000 @ [90]) = Inr d \<and>
     instant d = instant \<lparr>wall = 63871200000000000, tz = Some 3600000000\<rparr> \<and> tz d = Some 0 \<and>
     isoformat_utc d = Inr (wall_text 63871196400000000 @ [90]))"
proof -
  have "isoformat_utc \<lparr>wall = 63871200000000000, tz = Some 3600000000\<rparr> =
      Inr (wall_text 63871196400000000 @ [90])"
    by (simp add: isoformat_utc_eq instant_def max_wall_def max_ordinal_def day_us_def)
  with isoformat_utc_roundtrip [OF this] show ?thesis by blast
qed

end
