(* ===== verification/Security.thy ===== *)
theory Security
  imports Canonical
begin

section \<open>Key material and checkpoint signatures\<close>

text \<open>
  \<open>src/ledger/security.py\<close>: decoding a configured secret (\<open>base64.b64decode\<close> with
  \<open>validate=True\<close> is \<open>binascii.a2b_base64\<close> in strict mode, modelled as its state machine), signing
  and verifying with HMAC-SHA-256, and looking a key version up. A keyring is a map from version
  names to keys.
\<close>

subsection \<open>Strict base64\<close>

definition base64_value :: "nat \<Rightarrow> nat option" where
  "base64_value c =
     (if 65 \<le> c \<and> c \<le> 90 then Some (c - 65)
      else if 97 \<le> c \<and> c \<le> 122 then Some (c - 71)
      else if 48 \<le> c \<and> c \<le> 57 then Some (c + 4)
      else if c = 43 then Some 62
      else if c = 47 then Some 63
      else None)"

text \<open>
  \<open>quad\<close> is the position in a group of four, \<open>left\<close> the bits carried over, \<open>pads\<close> the padding
  characters seen since the last data character and \<open>started\<close> whether padding began.
\<close>

fun a2b_base64 :: "nat \<Rightarrow> nat \<Rightarrow> nat \<Rightarrow> bool \<Rightarrow> pystr \<Rightarrow> nat list option" where
  "a2b_base64 quad left pads started [] = (if quad = 0 then Some [] else None)"
| "a2b_base64 quad left pads started (c # cs) =
     (if c = 61 then
        if 2 \<le> quad \<and> quad + (pads + 1) \<ge> 4 then if cs = [] then Some [] else None
        else a2b_base64 quad left (if 2 \<le> quad then pads + 1 else pads) True cs
      else
        case base64_value c of
          None \<Rightarrow> None
        | Some v \<Rightarrow>
           if started then None
           else if quad = 0 then a2b_base64 1 v 0 started cs
           else if quad = 1 then
             map_option (\<lambda>bs. (left * 4 + v div 16) # bs) (a2b_base64 2 (v mod 16) 0 started cs)
           else if quad = 2 then
             map_option (\<lambda>bs. (left * 16 + v div 4) # bs) (a2b_base64 3 (v mod 4) 0 started cs)
           else map_option (\<lambda>bs. (left * 64 + v) # bs) (a2b_base64 0 0 0 started cs))"

definition b64decode :: "pystr \<Rightarrow> bytes result" where
  "b64decode s =
     (if (\<exists>c \<in> set s. 128 \<le> c) \<or> take 1 s = [61] then Inl ValueError
      else case a2b_base64 0 0 0 False s of
          None \<Rightarrow> Inl ValueError
        | Some bs \<Rightarrow> Inr (map word_of_nat bs))"

subsection \<open>The code\<close>

definition decode_secret :: "pystr \<Rightarrow> bytes result" where
  "decode_secret value =
     bind_result
       (if take 7 value = py ''base64:'' then
          case b64decode (drop 7 value) of
            Inl e \<Rightarrow> Inl (if is_value_error e then KeyConfigurationError (py ''invalid base64 HMAC key'') else e)
          | Inr secret \<Rightarrow> Inr secret
        else utf8_encode value)
       (\<lambda>secret. if length secret < 32
          then Inl (KeyConfigurationError (py ''HMAC keys must contain at least 32 bytes''))
          else Inr secret)"

definition sign_checkpoint :: "bytes \<Rightarrow> bytes \<Rightarrow> pystr" where
  "sign_checkpoint payload key = hex (hmac_sha256 key payload)"

definition verify_checkpoint_signature :: "bytes \<Rightarrow> pystr \<Rightarrow> bytes \<Rightarrow> bool result" where
  "verify_checkpoint_signature payload signature key =
     compare_digest (sign_checkpoint payload key) signature"

type_synonym keyring = "pystr \<rightharpoonup> bytes"

definition require_key :: "keyring \<Rightarrow> pystr \<Rightarrow> bytes result" where
  "require_key keyring version =
     (case keyring version of
        Some key \<Rightarrow> Inr key
      | None \<Rightarrow> Inl (KeyConfigurationError (py ''unknown HMAC key version: '' @ version)))"

lemma sign_checkpoint_ascii: "c \<in> set (sign_checkpoint payload key) \<Longrightarrow> c < 128"
  using hex_ascii by (fastforce simp: sign_checkpoint_def)

lemma verify_sign [simp]:
  "verify_checkpoint_signature payload (sign_checkpoint payload key) key = Inr True"
  using sign_checkpoint_ascii by (auto simp: verify_checkpoint_signature_def compare_digest_def)

lemma verify_checkpoint_signature_iff:
  "verify_checkpoint_signature payload signature key = Inr True \<longleftrightarrow>
     signature = sign_checkpoint payload key"
  using sign_checkpoint_ascii by (auto simp: verify_checkpoint_signature_def compare_digest_def)

lemma require_key_Inr: "require_key keyring v = Inr key \<longleftrightarrow> keyring v = Some key"
  by (auto simp: require_key_def split: option.splits)

end
