(* ===== verification/Models.thy ===== *)
theory Models
  imports Calendar
begin

section \<open>The database schema\<close>

text \<open>
  \<open>src/ledger/models.py\<close>: one record per table with the columns of the model classes (a nullable
  column is an option), the \<open>CHECK\<close>, \<open>UNIQUE\<close> and \<open>FOREIGN KEY\<close> constraints as predicates, and
  the insertions, which raise \<open>IntegrityError\<close> when a constraint fails. The enumerations of the
  \<open>CHECK ... IN\<close> constraints are datatypes, so those two constraints hold by typing; column
  lengths are the schemas' concern and are not modelled.
\<close>

subsection \<open>Rows\<close>

datatype event_kind = Report | Revision | Revocation

fun event_kind_text :: "event_kind \<Rightarrow> pystr" where
  "event_kind_text Report = py ''report''"
| "event_kind_text Revision = py ''revision''"
| "event_kind_text Revocation = py ''revocation''"

record event_row =
  ev_sequence :: int
  ev_event_id :: uuid
  ev_record_id :: uuid
  ev_event_type :: event_kind
  ev_business_key :: pystr
  ev_content_fingerprint :: pystr
  ev_instrument_id :: pystr
  ev_operator_id :: pystr
  ev_report_digest :: "pystr option"
  ev_previous_event_id :: "uuid option"
  ev_reason :: "pystr option"
  ev_occurred_at :: datetime
  ev_leaf_hash :: pystr

record checkpoint_row =
  cp_checkpoint_id :: uuid
  cp_leaf_count :: int
  cp_last_event_sequence :: int
  cp_root_hash :: pystr
  cp_previous_checkpoint_id :: "uuid option"
  cp_previous_root_hash :: "pystr option"
  cp_key_version :: pystr
  cp_created_at :: datetime
  cp_signature :: pystr

datatype package_status = Pending | Building | Ready | Failed | Cancelling | Cancelled

fun package_status_text :: "package_status \<Rightarrow> pystr" where
  "package_status_text Pending = py ''pending''"
| "package_status_text Building = py ''building''"
| "package_status_text Ready = py ''ready''"
| "package_status_text Failed = py ''failed''"
| "package_status_text Cancelling = py ''cancelling''"
| "package_status_text Cancelled = py ''cancelled''"

record package_row =
  pk_id :: int
  pk_package_id :: uuid
  pk_idempotency_key :: pystr
  pk_request_fingerprint :: pystr
  pk_instrument_id :: pystr
  pk_checkpoint_id :: uuid
  pk_status :: package_status
  pk_attempt_count :: int
  pk_lease_owner :: "pystr option"
  pk_lease_expires_at :: "datetime option"
  pk_failure_code :: "pystr option"
  pk_failure_reason :: "pystr option"
  pk_artifact_sha256 :: "pystr option"
  pk_artifact_size_bytes :: "int option"
  pk_event_count :: "int option"
  pk_created_at :: datetime
  pk_updated_at :: datetime
  pk_ready_at :: "datetime option"
  pk_failed_at :: "datetime option"
  pk_cancel_requested_at :: "datetime option"
  pk_cancelled_at :: "datetime option"

record consumer_row =
  co_id :: int
  co_consumer_id :: uuid
  co_consumer_name :: pystr
  co_idempotency_key :: pystr
  co_last_checkpoint_id :: "uuid option"
  co_created_at :: datetime
  co_updated_at :: datetime
  co_last_acknowledged_at :: "datetime option"

record artifact_row =
  ar_package_id :: uuid
  ar_zip_content :: bytes
  ar_sha256 :: pystr
  ar_size_bytes :: int
  ar_created_at :: datetime

text \<open>
  The tables as lists in order of insertion, and the autoincrement counters, which a rollback does
  not take back.
\<close>

record ledger_db =
  events :: "event_row list"
  checkpoints :: "checkpoint_row list"
  packages :: "package_row list"
  consumers :: "consumer_row list"
  artifacts :: "artifact_row list"
  next_sequence :: int
  next_package :: int
  next_consumer :: int

definition empty_db :: ledger_db where
  "empty_db = \<lparr>events = [], checkpoints = [], packages = [], consumers = [], artifacts = [],
     next_sequence = 1, next_package = 1, next_consumer = 1\<rparr>"

subsection \<open>\<open>CHECK\<close> constraints\<close>

definition event_payload_shape :: "event_row \<Rightarrow> bool" where [row_defs]:
  "event_payload_shape e \<longleftrightarrow>
     (ev_event_type e = Revocation \<and> ev_report_digest e = None \<and> ev_reason e \<noteq> None) \<or>
     (ev_event_type e \<in> {Report, Revision} \<and> ev_report_digest e \<noteq> None \<and> ev_reason e = None)"

definition checkpoint_leaf_count_positive :: "checkpoint_row \<Rightarrow> bool" where [row_defs]:
  "checkpoint_leaf_count_positive c \<longleftrightarrow> 0 < cp_leaf_count c"

definition package_state_shape :: "package_row \<Rightarrow> bool" where [row_defs]:
  "package_state_shape p \<longleftrightarrow>
     (pk_status p = Ready \<and> pk_ready_at p \<noteq> None \<and> pk_failure_code p = None \<and>
        pk_failure_reason p = None \<and> pk_artifact_sha256 p \<noteq> None \<and>
        pk_artifact_size_bytes p \<noteq> None \<and> pk_event_count p \<noteq> None \<and>
        pk_lease_owner p = None \<and> pk_lease_expires_at p = None \<and>
        pk_cancel_requested_at p = None \<and> pk_cancelled_at p = None) \<or>
     (pk_status p = Failed \<and> pk_failed_at p \<noteq> None \<and> pk_failure_reason p \<noteq> None) \<or>
     (pk_status p = Pending \<and> pk_lease_owner p = None \<and> pk_lease_expires_at p = None \<and>
        pk_ready_at p = None \<and> pk_failed_at p = None \<and>
        pk_failure_code p = None \<and> pk_failure_reason p = None) \<or>
     (pk_status p = Building \<and> pk_lease_owner p \<noteq> None \<and> pk_lease_expires_at p \<noteq> None \<and>
        pk_ready_at p = None \<and> pk_failed_at p = None \<and>
        pk_failure_code p = None \<and> pk_failure_reason p = None \<and>
        pk_cancel_requested_at p = None \<and> pk_cancelled_at p = None) \<or>
     (pk_status p = Cancelling \<and> pk_lease_owner p \<noteq> None \<and> pk_lease_expires_at p \<noteq> None \<and>
        pk_ready_at p = None \<and> pk_failed_at p = None \<and>
        pk_failure_code p = None \<and> pk_failure_reason p = None \<and>
        pk_cancel_requested_at p \<noteq> None \<and> pk_cancelled_at p = None) \<or>
     (pk_status p = Cancelled \<and> pk_lease_owner p = None \<and> pk_lease_expires_at p = None \<and>
        pk_ready_at p = None \<and> pk_failed_at p = None \<and>
        pk_failure_code p = None \<and> pk_failure_reason p = None \<and>
        pk_artifact_sha256 p = None \<and> pk_artifact_size_bytes p = None \<and>
        pk_event_count p = None \<and> pk_cancel_requested_at p \<noteq> None \<and>
        pk_cancelled_at p \<noteq> None)"

definition package_check :: "package_row \<Rightarrow> bool" where [row_defs]:
  "package_check p \<longleftrightarrow> package_state_shape p \<and> 0 \<le> pk_attempt_count p"

subsection \<open>\<open>UNIQUE\<close> and \<open>FOREIGN KEY\<close> constraints\<close>

text \<open>
  What an insertion checks against the rows it finds. A \<open>NULL\<close> never clashes with a \<open>NULL\<close> in a
  unique column, nor does it refer to a row.
\<close>

definition event_fits :: "event_row list \<Rightarrow> event_row \<Rightarrow> bool" where [row_defs]:
  "event_fits es e \<longleftrightarrow>
     event_payload_shape e \<and>
     ev_event_id e \<notin> ev_event_id ` set es \<and>
     ev_business_key e \<notin> ev_business_key ` set es \<and>
     (case ev_previous_event_id e of
        None \<Rightarrow> True
      | Some p \<Rightarrow> Some p \<notin> ev_previous_event_id ` set es \<and>
          p \<in> insert (ev_event_id e) (ev_event_id ` set es))"

definition checkpoint_fits :: "checkpoint_row list \<Rightarrow> checkpoint_row \<Rightarrow> bool" where [row_defs]:
  "checkpoint_fits cs c \<longleftrightarrow>
     checkpoint_leaf_count_positive c \<and>
     cp_checkpoint_id c \<notin> cp_checkpoint_id ` set cs \<and>
     cp_leaf_count c \<notin> cp_leaf_count ` set cs \<and>
     cp_last_event_sequence c \<notin> cp_last_event_sequence ` set cs \<and>
     (case cp_previous_checkpoint_id c of
        None \<Rightarrow> True
      | Some p \<Rightarrow> Some p \<notin> cp_previous_checkpoint_id ` set cs \<and>
          p \<in> insert (cp_checkpoint_id c) (cp_checkpoint_id ` set cs))"

definition package_fits :: "ledger_db \<Rightarrow> package_row \<Rightarrow> bool" where [row_defs]:
  "package_fits d p \<longleftrightarrow>
     package_check p \<and>
     pk_package_id p \<notin> pk_package_id ` set (packages d) \<and>
     pk_idempotency_key p \<notin> pk_idempotency_key ` set (packages d) \<and>
     pk_checkpoint_id p \<in> cp_checkpoint_id ` set (checkpoints d)"

definition cursor_exists :: "ledger_db \<Rightarrow> consumer_row \<Rightarrow> bool" where [row_defs]:
  "cursor_exists d c \<longleftrightarrow>
     (case co_last_checkpoint_id c of
        None \<Rightarrow> True
      | Some p \<Rightarrow> p \<in> cp_checkpoint_id ` set (checkpoints d))"

definition consumer_fits :: "ledger_db \<Rightarrow> consumer_row \<Rightarrow> bool" where [row_defs]:
  "consumer_fits d c \<longleftrightarrow>
     co_consumer_id c \<notin> co_consumer_id ` set (consumers d) \<and>
     co_idempotency_key c \<notin> co_idempotency_key ` set (consumers d) \<and>
     cursor_exists d c"

definition artifact_fits :: "ledger_db \<Rightarrow> artifact_row \<Rightarrow> bool" where [row_defs]:
  "artifact_fits d a \<longleftrightarrow>
     ar_package_id a \<notin> ar_package_id ` set (artifacts d) \<and>
     ar_package_id a \<in> pk_package_id ` set (packages d)"

text \<open>
  A table satisfies its constraints when every row fits the rows before it; that is how the rows
  came in.
\<close>

fun rows_fit :: "('a list \<Rightarrow> 'a \<Rightarrow> bool) \<Rightarrow> 'a list \<Rightarrow> 'a list \<Rightarrow> bool" where
  "rows_fit fits seen [] = True"
| "rows_fit fits seen (r # rs) = (fits seen r \<and> rows_fit fits (seen @ [r]) rs)"

definition event_table :: "event_row list \<Rightarrow> bool" where
  "event_table es \<longleftrightarrow> rows_fit event_fits [] es"

definition checkpoint_table :: "checkpoint_row list \<Rightarrow> bool" where
  "checkpoint_table cs \<longleftrightarrow> rows_fit checkpoint_fits [] cs"

lemma rows_fit_append:
  "rows_fit fits seen (xs @ ys) \<longleftrightarrow> rows_fit fits seen xs \<and> rows_fit fits (seen @ xs) ys"
  by (induction xs arbitrary: seen) auto

lemma event_table_Nil [simp]: "event_table []"
  by (simp add: event_table_def)

lemma event_table_snoc: "event_table (es @ [e]) \<longleftrightarrow> event_table es \<and> event_fits es e"
  by (simp add: event_table_def rows_fit_append)

lemma checkpoint_table_Nil [simp]: "checkpoint_table []"
  by (simp add: checkpoint_table_def)

lemma checkpoint_table_snoc:
  "checkpoint_table (cs @ [c]) \<longleftrightarrow> checkpoint_table cs \<and> checkpoint_fits cs c"
  by (simp add: checkpoint_table_def rows_fit_append)

lemma event_table_distinct:
  "event_table es \<Longrightarrow> distinct (map ev_event_id es) \<and> distinct (map ev_business_key es)"
  by (induction es rule: rev_induct) (auto simp: event_table_snoc event_fits_def)

lemma event_table_shape: "event_table es \<Longrightarrow> e \<in> set es \<Longrightarrow> event_payload_shape e"
  by (induction es rule: rev_induct) (auto simp: event_table_snoc event_fits_def)

lemma event_table_key_inj:
  assumes "event_table es" "e \<in> set es" "f \<in> set es" "ev_business_key e = ev_business_key f"
  shows "e = f"
  using event_table_distinct [OF assms(1)] assms(2-4)
  by (auto simp: distinct_map dest: inj_onD)

lemma event_table_id_inj:
  assumes "event_table es" "e \<in> set es" "f \<in> set es" "ev_event_id e = ev_event_id f"
  shows "e = f"
  using event_table_distinct [OF assms(1)] assms(2-4)
  by (auto simp: distinct_map dest: inj_onD)

lemma event_table_successor_unique:
  assumes "event_table es" "e \<in> set es" "f \<in> set es"
    and "ev_previous_event_id e = Some p" "ev_previous_event_id f = Some p"
  shows "e = f"
  using assms
proof (induction es rule: rev_induct)
  case (snoc x es)
  have fresh: "Some p \<notin> ev_previous_event_id ` set es" if "ev_previous_event_id x = Some p"
    using snoc.prems(1) that by (simp add: event_table_snoc event_fits_def)
  have "g \<in> set es \<Longrightarrow> ev_previous_event_id g = Some p \<Longrightarrow> ev_previous_event_id x \<noteq> Some p" for g
    using fresh by force
  then show ?case
    using snoc by (auto simp: event_table_snoc)
qed simp

subsection \<open>Selecting one row\<close>

text \<open>\<open>session.scalar(select(...).where(...))\<close>: the first row of the result, if any.\<close>

definition scalar :: "('a \<Rightarrow> bool) \<Rightarrow> 'a list \<Rightarrow> 'a option" where
  "scalar P rows = find P rows"

lemma scalar_None: "scalar P rows = None \<longleftrightarrow> (\<forall>r \<in> set rows. \<not> P r)"
  by (auto simp: scalar_def find_None_iff)

lemma scalar_SomeD: "scalar P rows = Some r \<Longrightarrow> r \<in> set rows \<and> P r"
  by (auto simp: scalar_def find_Some_iff)

lemma scalar_unique:
  assumes "x \<in> set xs" "P x" "\<And>y. y \<in> set xs \<Longrightarrow> P y \<Longrightarrow> y = x"
  shows "scalar P xs = Some x"
proof (cases "scalar P xs")
  case None
  then show ?thesis
    using assms(1,2) by (simp add: scalar_None)
next
  case (Some y)
  then show ?thesis
    using scalar_SomeD [OF Some] assms(3) by simp
qed

text \<open>\<open>ORDER BY ... DESC LIMIT 1\<close> on an integer column.\<close>

definition last_by :: "('a \<Rightarrow> int) \<Rightarrow> 'a list \<Rightarrow> 'a option" where
  "last_by f rows = (if rows = [] then None else Some (last (sort_key f rows)))"

lemma last_by_None [simp]: "last_by f rows = None \<longleftrightarrow> rows = []"
  by (simp add: last_by_def)

lemma last_by_Some:
  assumes "last_by f rows = Some r"
  shows "r \<in> set rows \<and> (\<forall>x \<in> set rows. f x \<le> f r)"
proof -
  have ne: "sort_key f rows \<noteq> []" and r: "r = last (sort_key f rows)"
    using assms by (auto simp: last_by_def simp flip: set_empty split: if_splits)
  from ne have "r \<in> set rows"
    using last_in_set r by fastforce
  moreover have "f x \<le> f r" if "x \<in> set rows" for x
  proof -
    have "sorted (map f (butlast (sort_key f rows) @ [r]))"
      using sorted_sort_key [of f rows] ne r by (metis append_butlast_last_id)
    moreover have "x \<in> set (butlast (sort_key f rows) @ [r])"
      using that ne r by (metis append_butlast_last_id set_sort)
    ultimately show ?thesis
      by (auto simp: sorted_append)
  qed
  ultimately show ?thesis by blast
qed

end
