(* ===== verification/Domain.thy ===== *)
theory Domain
  imports Models "HOL-Library.Multiset"
begin

section \<open>What the ledger commits to\<close>

text \<open>
  \<open>src/ledger/domain.py\<close>: the committed form of an event and of a checkpoint (from a row, and
  from the JSON a client sends back), the bytes that are hashed and signed, and the views the API
  returns. The committed form leaves out \<open>sequence\<close> and \<open>leaf_hash\<close>; everything else is bound by
  the canonical bytes.
\<close>

definition opt_json :: "pystr option \<Rightarrow> json" where
  "opt_json s = (case s of None \<Rightarrow> JNull | Some t \<Rightarrow> JStr t)"

definition opt_int :: "int option \<Rightarrow> json" where
  "opt_int i = (case i of None \<Rightarrow> JNull | Some n \<Rightarrow> JInt n)"

definition opt_uuid :: "uuid option \<Rightarrow> json" where
  "opt_uuid u = (case u of None \<Rightarrow> JNull | Some v \<Rightarrow> JStr (uuid_str v))"

lemma opt_json_inject [simp]: "opt_json a = opt_json b \<longleftrightarrow> a = b"
  by (auto simp: opt_json_def split: option.splits)

lemma opt_uuid_inject [simp]: "opt_uuid a = opt_uuid b \<longleftrightarrow> a = b"
  by (auto simp: opt_uuid_def split: option.splits)

lemma opt_wf [simp]: "wf_json (opt_json a)" "wf_json (opt_uuid u)" "wf_json (opt_int i)"
  by (auto simp: opt_json_def opt_uuid_def opt_int_def split: option.splits)

lemma opt_normal [simp]:
  "normalize (opt_json a) = opt_json a" "normalize (opt_uuid u) = opt_uuid u"
  by (auto simp: opt_json_def opt_uuid_def split: option.splits)

subsection \<open>Events\<close>

definition event_commitment :: "event_row \<Rightarrow> pydict result" where
  "event_commitment e = map_result (\<lambda>occurred_text.
     [(py ''schema_version'', JInt 1),
      (py ''event_id'', JStr (uuid_str (ev_event_id e))),
      (py ''record_id'', JStr (uuid_str (ev_record_id e))),
      (py ''event_type'', JStr (event_kind_text (ev_event_type e))),
      (py ''business_key'', JStr (ev_business_key e)),
      (py ''content_fingerprint'', JStr (ev_content_fingerprint e)),
      (py ''instrument_id'', JStr (ev_instrument_id e)),
      (py ''operator_id'', JStr (ev_operator_id e)),
      (py ''report_digest'', opt_json (ev_report_digest e)),
      (py ''previous_event_id'', opt_uuid (ev_previous_event_id e)),
      (py ''reason'', opt_json (ev_reason e)),
      (py ''occurred_at'', JStr occurred_text)])
     (isoformat_utc (ev_occurred_at e))"

definition event_commitment_bytes :: "event_row \<Rightarrow> bytes result" where
  "event_commitment_bytes e = bind_result (event_commitment e) (\<lambda>c. canonical_json (JObj c))"

definition event_view :: "event_row \<Rightarrow> pydict result" where
  "event_view e = map_result (\<lambda>c.
     (py ''sequence'', JInt (ev_sequence e)) #
     filter (\<lambda>(k, v). k \<noteq> py ''schema_version'') c @
     [(py ''leaf_hash'', JStr (ev_leaf_hash e))])
     (event_commitment e)"

subsection \<open>Checkpoints\<close>

definition checkpoint_payload :: "checkpoint_row \<Rightarrow> pydict result" where
  "checkpoint_payload c = map_result (\<lambda>created_text.
     [(py ''schema_version'', JInt 1),
      (py ''checkpoint_id'', JStr (uuid_str (cp_checkpoint_id c))),
      (py ''leaf_count'', JInt (cp_leaf_count c)),
      (py ''last_event_sequence'', JInt (cp_last_event_sequence c)),
      (py ''root_hash'', JStr (cp_root_hash c)),
      (py ''previous_checkpoint_id'', opt_uuid (cp_previous_checkpoint_id c)),
      (py ''previous_root_hash'', opt_json (cp_previous_root_hash c)),
      (py ''key_version'', JStr (cp_key_version c)),
      (py ''created_at'', JStr created_text)])
     (isoformat_utc (cp_created_at c))"

definition checkpoint_signing_bytes :: "checkpoint_row \<Rightarrow> bytes result" where
  "checkpoint_signing_bytes c = bind_result (checkpoint_payload c) (\<lambda>p. canonical_json (JObj p))"

definition checkpoint_view :: "checkpoint_row \<Rightarrow> pydict result" where
  "checkpoint_view c =
     map_result (\<lambda>p. p @ [(py ''signature'', JStr (cp_signature c))]) (checkpoint_payload c)"

subsection \<open>The same from JSON\<close>

text \<open>
  \<open>str(value)\<close> of a JSON value. The representation of a list or a dictionary needs Python's table
  of printable characters and is a parameter, \<open>container_str\<close>.
\<close>

definition py_str :: "(json \<Rightarrow> pystr) \<Rightarrow> json \<Rightarrow> pystr" where
  "py_str container_str v =
     (case v of
        JNull \<Rightarrow> py ''None''
      | JBool b \<Rightarrow> if b then py ''True'' else py ''False''
      | JInt i \<Rightarrow> int_text i
      | JFloat f \<Rightarrow> (case f of Finite t \<Rightarrow> t | NaN \<Rightarrow> py ''nan'' | PosInf \<Rightarrow> py ''inf'' | NegInf \<Rightarrow> py ''-inf'')
      | JStr s \<Rightarrow> s
      | _ \<Rightarrow> container_str v)"

text \<open>
  The timestamp of a dictionary: text is parsed; any other value (a missing key gives \<open>None\<close>)
  reaches \<open>isoformat_utc\<close>, which reads its \<open>tzinfo\<close> and raises \<open>AttributeError\<close>.
\<close>

definition dict_timestamp :: "json \<Rightarrow> pystr result" where
  "dict_timestamp v =
     (case v of
        JStr s \<Rightarrow> bind_result (parse_timestamp s) isoformat_utc
      | _ \<Rightarrow> Inl AttributeError)"

definition str_or_none :: "(json \<Rightarrow> pystr) \<Rightarrow> json \<Rightarrow> json" where
  "str_or_none container_str v = (if v = JNull then JNull else JStr (py_str container_str v))"

definition event_commitment_dict :: "(json \<Rightarrow> pystr) \<Rightarrow> pydict \<Rightarrow> pydict result" where
  "event_commitment_dict container_str d =
     (let get = (\<lambda>k. dict_get d (py k)) in
      map_result (\<lambda>occurred_text.
        [(py ''schema_version'', JInt 1),
         (py ''event_id'', JStr (py_str container_str (get ''event_id''))),
         (py ''record_id'', JStr (py_str container_str (get ''record_id''))),
         (py ''event_type'', get ''event_type''),
         (py ''business_key'', get ''business_key''),
         (py ''content_fingerprint'', get ''content_fingerprint''),
         (py ''instrument_id'', get ''instrument_id''),
         (py ''operator_id'', get ''operator_id''),
         (py ''report_digest'', get ''report_digest''),
         (py ''previous_event_id'', str_or_none container_str (get ''previous_event_id'')),
         (py ''reason'', get ''reason''),
         (py ''occurred_at'', JStr occurred_text)])
        (dict_timestamp (get ''occurred_at'')))"

definition event_dict_bytes :: "(json \<Rightarrow> pystr) \<Rightarrow> pydict \<Rightarrow> bytes result" where
  "event_dict_bytes container_str d =
     bind_result (event_commitment_dict container_str d) (\<lambda>c. canonical_json (JObj c))"

definition checkpoint_payload_dict :: "(json \<Rightarrow> pystr) \<Rightarrow> pydict \<Rightarrow> pydict result" where
  "checkpoint_payload_dict container_str d =
     (let get = (\<lambda>k. dict_get d (py k)) in
      map_result (\<lambda>created_text.
        [(py ''schema_version'', JInt 1),
         (py ''checkpoint_id'', JStr (py_str container_str (get ''checkpoint_id''))),
         (py ''leaf_count'', get ''leaf_count''),
         (py ''last_event_sequence'', get ''last_event_sequence''),
         (py ''root_hash'', get ''root_hash''),
         (py ''previous_checkpoint_id'',
            str_or_none container_str (get ''previous_checkpoint_id'')),
         (py ''previous_root_hash'', get ''previous_root_hash''),
         (py ''key_version'', get ''key_version''),
         (py ''created_at'', JStr created_text)])
        (dict_timestamp (get ''created_at'')))"

definition checkpoint_dict_bytes :: "(json \<Rightarrow> pystr) \<Rightarrow> pydict \<Rightarrow> bytes result" where
  "checkpoint_dict_bytes container_str d =
     bind_result (checkpoint_payload_dict container_str d) (\<lambda>p. canonical_json (JObj p))"

subsection \<open>Views of audit packages and consumers\<close>

definition opt_timestamp :: "datetime option \<Rightarrow> json result" where
  "opt_timestamp t =
     (case t of None \<Rightarrow> Inl AttributeError | Some d \<Rightarrow> map_result JStr (isoformat_utc d))"

definition package_artifact_view :: "package_row \<Rightarrow> json result" where
  "package_artifact_view p =
     (if pk_status p = Ready then
        map_result (\<lambda>ready_at. JObj
          [(py ''sha256'', opt_json (pk_artifact_sha256 p)),
           (py ''size_bytes'', opt_int (pk_artifact_size_bytes p)),
           (py ''event_count'', opt_int (pk_event_count p)),
           (py ''ready_at'', ready_at)])
          (opt_timestamp (pk_ready_at p))
      else Inr JNull)"

definition package_failure_view :: "package_row \<Rightarrow> json result" where
  "package_failure_view p =
     (if pk_status p = Failed then
        map_result (\<lambda>failed_at. JObj
          [(py ''code'', opt_json (pk_failure_code p)),
           (py ''reason'', opt_json (pk_failure_reason p)),
           (py ''failed_at'', failed_at)])
          (opt_timestamp (pk_failed_at p))
      else Inr JNull)"

definition package_cancellation_view :: "package_row \<Rightarrow> json result" where
  "package_cancellation_view p =
     (case pk_cancel_requested_at p of
        None \<Rightarrow> Inr JNull
      | Some _ \<Rightarrow>
         bind_result (opt_timestamp (pk_cancel_requested_at p)) (\<lambda>requested_at.
           map_result (\<lambda>cancelled_at.
             JObj [(py ''requested_at'', requested_at), (py ''cancelled_at'', cancelled_at)])
             (case pk_cancelled_at p of
                None \<Rightarrow> Inr JNull
              | Some d \<Rightarrow> opt_timestamp (Some d))))"

definition audit_package_view :: "package_row \<Rightarrow> pydict result" where
  "audit_package_view p =
     bind_result (package_artifact_view p) (\<lambda>artifact.
     bind_result (package_failure_view p) (\<lambda>failure.
     bind_result (package_cancellation_view p) (\<lambda>cancellation.
     bind_result (isoformat_utc (pk_created_at p)) (\<lambda>created_at.
     map_result (\<lambda>updated_at.
       [(py ''package_id'', JStr (uuid_str (pk_package_id p))),
        (py ''instrument_id'', JStr (pk_instrument_id p)),
        (py ''checkpoint_id'', JStr (uuid_str (pk_checkpoint_id p))),
        (py ''status'', JStr (package_status_text (pk_status p))),
        (py ''attempt_count'', JInt (pk_attempt_count p)),
        (py ''event_count'', opt_int (pk_event_count p)),
        (py ''boundary'', JObj
           [(py ''checkpoint_id'', JStr (uuid_str (pk_checkpoint_id p))),
            (py ''request_fingerprint'', JStr (pk_request_fingerprint p))]),
        (py ''artifact'', artifact),
        (py ''failure'', failure),
        (py ''cancellation'', cancellation),
        (py ''created_at'', JStr created_at),
        (py ''updated_at'', JStr updated_at)])
       (isoformat_utc (pk_updated_at p))))))"

definition audit_consumer_view :: "consumer_row \<Rightarrow> checkpoint_row option \<Rightarrow> pydict result" where
  "audit_consumer_view c checkpoint =
     bind_result
       (case co_last_checkpoint_id c of
          None \<Rightarrow> Inr JNull
        | Some last_id \<Rightarrow>
           map_result (\<lambda>acknowledged_at. JObj
             [(py ''checkpoint_id'', JStr (uuid_str last_id)),
              (py ''leaf_count'', opt_int (map_option cp_leaf_count checkpoint)),
              (py ''last_event_sequence'', opt_int (map_option cp_last_event_sequence checkpoint)),
              (py ''acknowledged_at'', acknowledged_at)])
             (opt_timestamp (co_last_acknowledged_at c)))
       (\<lambda>current.
     bind_result (isoformat_utc (co_created_at c)) (\<lambda>created_at.
     map_result (\<lambda>updated_at.
       [(py ''consumer_id'', JStr (uuid_str (co_consumer_id c))),
        (py ''consumer_name'', JStr (co_consumer_name c)),
        (py ''last_acknowledged_checkpoint'', current),
        (py ''created_at'', JStr created_at),
        (py ''updated_at'', JStr updated_at)])
       (isoformat_utc (co_updated_at c))))"

subsection \<open>Reading an object back\<close>

lemma set_sort_key_map:
  "set (map (\<lambda>(k, v). (k, normalize v)) (sort_key fst kvs)) = (\<lambda>(k, v). (k, normalize v)) ` set kvs"
  by simp

lemma map_of_normalize:
  assumes "distinct (map fst kvs)"
  shows "map_of (map (\<lambda>(k, v). (k, normalize v)) (sort_key fst kvs)) k = map_option normalize (map_of kvs k)"
proof -
  have "mset (map fst (sort_key fst kvs)) = mset (map fst kvs)"
    by simp
  then have d: "distinct (map fst (sort_key fst kvs))"
    using assms by (metis mset_eq_imp_distinct_iff)
  have "map_of (sort_key fst kvs) = map_of kvs"
    using assms d by (intro map_of_inject_set [THEN iffD2]) simp_all
  moreover have "map_of (map (\<lambda>(k, v). (k, normalize v)) xs) k = map_option normalize (map_of xs k)"
    for xs by (induction xs) auto
  ultimately show ?thesis by metis
qed

lemma normalize_get:
  assumes "distinct (map fst a)" "distinct (map fst b)" "normalize (JObj a) = normalize (JObj b)"
  shows "normalize (dict_get a k) = normalize (dict_get b k)"
proof -
  have "map_option normalize (map_of a k) = map_option normalize (map_of b k)"
    using assms map_of_normalize by (metis json.inject(6) normalize_JObj)
  then show ?thesis
    by (auto simp: dict_get_def split: option.splits)
qed

lemma canonical_object_get:
  assumes "wf_json (JObj a)" "wf_json (JObj b)"
    and "canonical_json (JObj a) = Inr t" "canonical_json (JObj b) = Inr t"
  shows "normalize (dict_get a k) = normalize (dict_get b k)"
  using canonical_json_inject [OF assms] assms(1,2) by (intro normalize_get) auto

lemma event_kind_text_inject [simp]: "event_kind_text a = event_kind_text b \<longleftrightarrow> a = b"
  by (cases a; cases b) simp_all

lemma package_status_text_inject [simp]: "package_status_text a = package_status_text b \<longleftrightarrow> a = b"
  by (cases a; cases b) simp_all

lemma event_commitment_wf: "event_commitment e = Inr c \<Longrightarrow> wf_json (JObj c)"
  by (auto simp: event_commitment_def result_simps)

lemma checkpoint_payload_wf: "checkpoint_payload c = Inr p \<Longrightarrow> wf_json (JObj p)"
  by (auto simp: checkpoint_payload_def result_simps)

text \<open>Two events are the same to the ledger when all committed fields agree.\<close>

definition same_commitment :: "event_row \<Rightarrow> event_row \<Rightarrow> bool" where
  "same_commitment e f \<longleftrightarrow>
     ev_event_id e = ev_event_id f \<and> ev_record_id e = ev_record_id f \<and>
     ev_event_type e = ev_event_type f \<and> ev_business_key e = ev_business_key f \<and>
     ev_content_fingerprint e = ev_content_fingerprint f \<and>
     ev_instrument_id e = ev_instrument_id f \<and> ev_operator_id e = ev_operator_id f \<and>
     ev_report_digest e = ev_report_digest f \<and>
     ev_previous_event_id e = ev_previous_event_id f \<and> ev_reason e = ev_reason f \<and>
     instant (ev_occurred_at e) = instant (ev_occurred_at f)"

lemma event_commitment_gets:
  assumes "event_commitment e = Inr c"
  shows "dict_get c (py ''event_id'') = JStr (uuid_str (ev_event_id e))"
    and "dict_get c (py ''record_id'') = JStr (uuid_str (ev_record_id e))"
    and "dict_get c (py ''event_type'') = JStr (event_kind_text (ev_event_type e))"
    and "dict_get c (py ''business_key'') = JStr (ev_business_key e)"
    and "dict_get c (py ''content_fingerprint'') = JStr (ev_content_fingerprint e)"
    and "dict_get c (py ''instrument_id'') = JStr (ev_instrument_id e)"
    and "dict_get c (py ''operator_id'') = JStr (ev_operator_id e)"
    and "dict_get c (py ''report_digest'') = opt_json (ev_report_digest e)"
    and "dict_get c (py ''previous_event_id'') = opt_uuid (ev_previous_event_id e)"
    and "dict_get c (py ''reason'') = opt_json (ev_reason e)"
    and "\<exists>t. dict_get c (py ''occurred_at'') = JStr t \<and> isoformat_utc (ev_occurred_at e) = Inr t"
  using assms by (auto simp: event_commitment_def dict_get_def result_simps)

lemma checkpoint_payload_gets:
  assumes "checkpoint_payload c = Inr p"
  shows "dict_get p (py ''checkpoint_id'') = JStr (uuid_str (cp_checkpoint_id c))"
    and "dict_get p (py ''leaf_count'') = JInt (cp_leaf_count c)"
    and "dict_get p (py ''last_event_sequence'') = JInt (cp_last_event_sequence c)"
    and "dict_get p (py ''root_hash'') = JStr (cp_root_hash c)"
    and "dict_get p (py ''previous_checkpoint_id'') = opt_uuid (cp_previous_checkpoint_id c)"
    and "dict_get p (py ''previous_root_hash'') = opt_json (cp_previous_root_hash c)"
    and "dict_get p (py ''key_version'') = JStr (cp_key_version c)"
    and "\<exists>t. dict_get p (py ''created_at'') = JStr t \<and> isoformat_utc (cp_created_at c) = Inr t"
  using assms by (auto simp: checkpoint_payload_def dict_get_def result_simps)

lemma event_commitment_bytes_inject:
  assumes "event_commitment_bytes e = Inr b" "event_commitment_bytes f = Inr b"
  shows "same_commitment e f"
proof -
  obtain c d where cd: "event_commitment e = Inr c" "canonical_json (JObj c) = Inr b"
      "event_commitment f = Inr d" "canonical_json (JObj d) = Inr b"
    using assms by (auto simp: event_commitment_bytes_def result_simps)
  have get: "normalize (dict_get c (py k)) = normalize (dict_get d (py k))" for k
    using cd event_commitment_wf by (intro canonical_object_get) auto
  note gets = event_commitment_gets [OF cd(1)] event_commitment_gets [OF cd(3)]
  obtain t where "isoformat_utc (ev_occurred_at e) = Inr t" "isoformat_utc (ev_occurred_at f) = Inr t"
    using get [of "''occurred_at''"] gets by auto
  then have "instant (ev_occurred_at e) = instant (ev_occurred_at f)"
    by (rule isoformat_utc_inject)
  then show ?thesis
    using get [of "''event_id''"] get [of "''record_id''"] get [of "''event_type''"]
      get [of "''business_key''"] get [of "''content_fingerprint''"] get [of "''instrument_id''"]
      get [of "''operator_id''"] get [of "''report_digest''"] get [of "''previous_event_id''"]
      get [of "''reason''"]
    by (simp add: gets same_commitment_def)
qed

definition same_payload :: "checkpoint_row \<Rightarrow> checkpoint_row \<Rightarrow> bool" where
  "same_payload c d \<longleftrightarrow>
     cp_checkpoint_id c = cp_checkpoint_id d \<and> cp_leaf_count c = cp_leaf_count d \<and>
     cp_last_event_sequence c = cp_last_event_sequence d \<and> cp_root_hash c = cp_root_hash d \<and>
     cp_previous_checkpoint_id c = cp_previous_checkpoint_id d \<and>
     cp_previous_root_hash c = cp_previous_root_hash d \<and> cp_key_version c = cp_key_version d \<and>
     instant (cp_created_at c) = instant (cp_created_at d)"

lemma checkpoint_signing_bytes_inject:
  assumes "checkpoint_signing_bytes c = Inr b" "checkpoint_signing_bytes d = Inr b"
  shows "same_payload c d"
proof -
  obtain p q where pq: "checkpoint_payload c = Inr p" "canonical_json (JObj p) = Inr b"
      "checkpoint_payload d = Inr q" "canonical_json (JObj q) = Inr b"
    using assms by (auto simp: checkpoint_signing_bytes_def result_simps)
  have get: "normalize (dict_get p (py k)) = normalize (dict_get q (py k))" for k
    using pq checkpoint_payload_wf by (intro canonical_object_get) auto
  note gets = checkpoint_payload_gets [OF pq(1)] checkpoint_payload_gets [OF pq(3)]
  obtain t where "isoformat_utc (cp_created_at c) = Inr t" "isoformat_utc (cp_created_at d) = Inr t"
    using get [of "''created_at''"] gets by auto
  then have "instant (cp_created_at c) = instant (cp_created_at d)"
    by (rule isoformat_utc_inject)
  then show ?thesis
    using get [of "''checkpoint_id''"] get [of "''leaf_count''"] get [of "''last_event_sequence''"]
      get [of "''root_hash''"] get [of "''previous_checkpoint_id''"]
      get [of "''previous_root_hash''"] get [of "''key_version''"]
    by (simp add: gets same_payload_def)
qed

subsection \<open>What a client sends back\<close>

lemma py_str_simps [simp]: "py_str cs (JStr s) = s"
  by (simp add: py_str_def)

lemma str_or_none_opt_uuid [simp]: "str_or_none cs (opt_uuid u) = opt_uuid u"
  by (auto simp: str_or_none_def opt_uuid_def py_str_def split: option.splits)

lemma dict_timestamp_isoformat: "isoformat_utc d = Inr t \<Longrightarrow> dict_timestamp (JStr t) = Inr t"
  using parse_timestamp_isoformat [of d t] isoformat_utc_cong [of "\<lparr>wall = instant d, tz = Some 0\<rparr>" d]
  by (simp add: dict_timestamp_def instant_def)

lemma event_dict_of_view:
  assumes "event_view e = Inr v"
  shows "event_commitment_dict cs v = event_commitment e"
proof -
  obtain t where t: "isoformat_utc (ev_occurred_at e) = Inr t"
    using assms by (auto simp: event_view_def event_commitment_def result_simps)
  then show ?thesis
    using assms dict_timestamp_isoformat [OF t]
    by (auto simp: event_view_def event_commitment_def event_commitment_dict_def dict_get_def)
qed

lemma checkpoint_dict_of_view:
  assumes "checkpoint_view c = Inr v"
  shows "checkpoint_payload_dict cs v = checkpoint_payload c"
proof -
  obtain t where t: "isoformat_utc (cp_created_at c) = Inr t"
    using assms by (auto simp: checkpoint_view_def checkpoint_payload_def result_simps)
  then show ?thesis
    using assms dict_timestamp_isoformat [OF t]
    by (auto simp: checkpoint_view_def checkpoint_payload_def checkpoint_payload_dict_def dict_get_def)
qed


subsection \<open>When a row has committed bytes\<close>

definition text_ok :: "pystr \<Rightarrow> bool" where
  "text_ok s \<longleftrightarrow> (\<forall>c \<in> set s. encodable c)"

definition opt_text_ok :: "pystr option \<Rightarrow> bool" where
  "opt_text_ok s = (case s of None \<Rightarrow> True | Some t \<Rightarrow> text_ok t)"

definition in_calendar :: "datetime \<Rightarrow> bool" where
  "in_calendar d \<longleftrightarrow> 0 \<le> instant d \<and> instant d < max_wall"

definition event_encodable :: "event_row \<Rightarrow> bool" where
  "event_encodable e \<longleftrightarrow>
     in_calendar (ev_occurred_at e) \<and> text_ok (ev_business_key e) \<and>
     text_ok (ev_content_fingerprint e) \<and> text_ok (ev_instrument_id e) \<and>
     text_ok (ev_operator_id e) \<and> opt_text_ok (ev_report_digest e) \<and> opt_text_ok (ev_reason e)"

definition checkpoint_encodable :: "checkpoint_row \<Rightarrow> bool" where
  "checkpoint_encodable c \<longleftrightarrow>
     in_calendar (cp_created_at c) \<and> text_ok (cp_root_hash c) \<and>
     opt_text_ok (cp_previous_root_hash c) \<and> text_ok (cp_key_version c)"

lemma text_ok_py: "(\<forall>c \<in> set s. of_char c < (128 :: nat)) \<Longrightarrow> text_ok (py s)"
  by (auto simp: text_ok_def py_def intro: encodable_ascii)

lemma text_ok_simps [simp]:
  "text_ok []" "text_ok (c # s) \<longleftrightarrow> encodable c \<and> text_ok s" "text_ok (s @ t) \<longleftrightarrow> text_ok s \<and> text_ok t"
  by (auto simp: text_ok_def)

lemma text_ok_hex [simp]: "text_ok (hex bs)"
  using hex_ascii [of bs] by (auto simp: text_ok_def intro!: encodable_ascii)

lemma text_ok_sha256_hex [simp]: "text_ok (sha256_hex bs)"
  by (simp add: sha256_hex_def)

lemma text_ok_uuid_str [simp]: "text_ok (uuid_str u)"
  using uuid_str_encodable by (auto simp: text_ok_def)

lemma encodable_opt [simp]:
  "encodable_json (opt_json s) \<longleftrightarrow> opt_text_ok s" "encodable_json (opt_uuid u)"
  "finite_json (opt_json s)" "finite_json (opt_uuid u)"
  using uuid_str_encodable
  by (auto simp: opt_json_def opt_uuid_def opt_text_ok_def text_ok_def split: option.splits)

lemma encodable_JStr [simp]: "encodable_json (JStr s) \<longleftrightarrow> text_ok s"
  by (simp add: text_ok_def)

declare encodable_json.simps(1) [simp del]

lemma text_ok_event_kind [simp]: "text_ok (event_kind_text k)"
  by (cases k) (simp_all add: text_ok_py)

lemma encodable_obj:
  "encodable_json (JObj kvs) \<longleftrightarrow> (\<forall>(k, v) \<in> set kvs. text_ok k \<and> encodable_json v)"
  by (simp add: text_ok_def)

declare encodable_json.simps(3) [simp del]

lemma isoformat_utc_ok: "in_calendar d \<Longrightarrow> \<exists>t. isoformat_utc d = Inr t \<and> text_ok t"
  using isoformat_utc_encodable [of d] by (auto simp: isoformat_utc_eq in_calendar_def text_ok_def)

lemma event_commitment_bytes_ok:
  assumes "event_encodable e"
  shows "\<exists>b. event_commitment_bytes e = Inr b"
proof -
  obtain t where t: "isoformat_utc (ev_occurred_at e) = Inr t" "text_ok t"
    using assms isoformat_utc_ok by (auto simp: event_encodable_def)
  have "plain (JObj c) \<and> encodable_json (JObj c)" if "event_commitment e = Inr c" for c
    using assms that t
    by (auto simp: event_commitment_def event_encodable_def result_simps plain_def encodable_obj
        text_ok_py)
  then show ?thesis
    using t canonical_json_ok
    by (auto simp: event_commitment_bytes_def result_simps event_commitment_def)
qed

lemma checkpoint_signing_bytes_ok:
  assumes "checkpoint_encodable c"
  shows "\<exists>b. checkpoint_signing_bytes c = Inr b"
proof -
  obtain t where t: "isoformat_utc (cp_created_at c) = Inr t" "text_ok t"
    using assms isoformat_utc_ok by (auto simp: checkpoint_encodable_def)
  have "plain (JObj p) \<and> encodable_json (JObj p)" if "checkpoint_payload c = Inr p" for p
    using assms that t
    by (auto simp: checkpoint_payload_def checkpoint_encodable_def result_simps plain_def
        encodable_obj text_ok_py)
  then show ?thesis
    using t canonical_json_ok
    by (auto simp: checkpoint_signing_bytes_def result_simps checkpoint_payload_def)
qed

lemma event_commitment_bytes_cong:
  "same_commitment e f \<Longrightarrow> event_commitment_bytes e = event_commitment_bytes f"
  using isoformat_utc_cong [of "ev_occurred_at e" "ev_occurred_at f"]
  by (auto simp: same_commitment_def event_commitment_bytes_def event_commitment_def)

lemma checkpoint_signing_bytes_cong:
  "same_payload c d \<Longrightarrow> checkpoint_signing_bytes c = checkpoint_signing_bytes d"
  using isoformat_utc_cong [of "cp_created_at c" "cp_created_at d"]
  by (auto simp: same_payload_def checkpoint_signing_bytes_def checkpoint_payload_def)

subsection \<open>Properties\<close>

definition sample_event :: event_row where
  "sample_event = \<lparr>ev_sequence = 7, ev_event_id = 1, ev_record_id = 1, ev_event_type = Report,
     ev_business_key = py ''cal-1'', ev_content_fingerprint = py ''f'',
     ev_instrument_id = py ''scale'', ev_operator_id = py ''ann'',
     ev_report_digest = Some (py ''d''), ev_previous_event_id = None, ev_reason = None,
     ev_occurred_at = \<lparr>wall = 63871200000000000, tz = Some 0\<rparr>, ev_leaf_hash = py ''''\<rparr>"

definition sample_checkpoint :: checkpoint_row where
  "sample_checkpoint = \<lparr>cp_checkpoint_id = 5, cp_leaf_count = 1, cp_last_event_sequence = 7,
     cp_root_hash = py ''00'', cp_previous_checkpoint_id = None, cp_previous_root_hash = None,
     cp_key_version = py ''v1'', cp_created_at = \<lparr>wall = 63871200000000000, tz = None\<rparr>,
     cp_signature = py ''''\<rparr>"

lemma sample_rows_encodable [simp]: "event_encodable sample_event" "checkpoint_encodable sample_checkpoint"
  by (simp_all add: sample_event_def sample_checkpoint_def event_encodable_def
      checkpoint_encodable_def in_calendar_def instant_def max_wall_def max_ordinal_def day_us_def
      opt_text_ok_def text_ok_py)

text \<open>
  C23: the committed bytes of an event bind every committed field. Two stored events have the same
  committed bytes exactly when their ids, record, type, business key, fingerprint, instrument,
  operator, digest, predecessor and reason are equal and they occurred at the same instant; the
  sequence number and the stored leaf hash are not part of the commitment.
\<close>

theorem event_commitment_binding:
  assumes "event_commitment_bytes e = Inr b"
  shows "event_commitment_bytes f = Inr b \<longleftrightarrow> same_commitment e f"
  using assms event_commitment_bytes_inject event_commitment_bytes_cong by metis

theorem event_commitment_binding_witness:
  "\<exists>b. event_commitment_bytes (sample_event\<lparr>ev_sequence := 8\<rparr>) = Inr b \<and>
     event_commitment_bytes (sample_event\<lparr>ev_operator_id := py ''bob''\<rparr>) \<noteq> Inr b"
proof -
  obtain b where b: "event_commitment_bytes sample_event = Inr b"
    using event_commitment_bytes_ok by fastforce
  then show ?thesis
    using event_commitment_binding [OF b, of "sample_event\<lparr>ev_sequence := 8\<rparr>"]
      event_commitment_binding [OF b, of "sample_event\<lparr>ev_operator_id := py ''bob''\<rparr>"]
    by (auto simp: same_commitment_def sample_event_def)
qed

text \<open>
  The signed bytes of a checkpoint bind its id, size, boundary, root, predecessor, key version
  and creation instant: two checkpoints have the same signed bytes exactly when these agree.
\<close>

theorem checkpoint_signing_binding:
  assumes "checkpoint_signing_bytes c = Inr b"
  shows "checkpoint_signing_bytes d = Inr b \<longleftrightarrow> same_payload c d"
  using assms checkpoint_signing_bytes_inject checkpoint_signing_bytes_cong by metis

theorem checkpoint_signing_binding_witness:
  "\<exists>b. checkpoint_signing_bytes (sample_checkpoint\<lparr>cp_signature := py ''s''\<rparr>) = Inr b \<and>
     checkpoint_signing_bytes (sample_checkpoint\<lparr>cp_leaf_count := 2\<rparr>) \<noteq> Inr b"
proof -
  obtain b where b: "checkpoint_signing_bytes sample_checkpoint = Inr b"
    using checkpoint_signing_bytes_ok by fastforce
  then show ?thesis
    using checkpoint_signing_binding [OF b, of "sample_checkpoint\<lparr>cp_signature := py ''s''\<rparr>"]
      checkpoint_signing_binding [OF b, of "sample_checkpoint\<lparr>cp_leaf_count := 2\<rparr>"]
    by (auto simp: same_payload_def sample_checkpoint_def)
qed

text \<open>
  What the API shows is what was committed. The commitment recomputed from the JSON view of an
  event is the commitment of the stored row, and the payload recomputed from the view of a
  checkpoint is the payload that was signed, whatever \<open>str\<close> does to containers.
\<close>

theorem view_commitment_roundtrip:
  assumes "event_view e = Inr v" "checkpoint_view c = Inr w"
  shows "event_dict_bytes container_str v = event_commitment_bytes e \<and>
    checkpoint_dict_bytes container_str w = checkpoint_signing_bytes c"
  using event_dict_of_view [OF assms(1)] checkpoint_dict_of_view [OF assms(2)]
  by (simp add: event_dict_bytes_def event_commitment_bytes_def checkpoint_dict_bytes_def
      checkpoint_signing_bytes_def)

theorem view_commitment_roundtrip_witness:
  "\<exists>v w. event_view sample_event = Inr v \<and> checkpoint_view sample_checkpoint = Inr w \<and>
     event_dict_bytes (\<lambda>_. []) v = event_commitment_bytes sample_event \<and>
     checkpoint_dict_bytes (\<lambda>_. []) w = checkpoint_signing_bytes sample_checkpoint"
proof -
  obtain v where v: "event_view sample_event = Inr v"
    using event_commitment_bytes_ok [OF sample_rows_encodable(1)]
    by (auto simp: event_view_def event_commitment_bytes_def result_simps)
  moreover obtain w where w: "checkpoint_view sample_checkpoint = Inr w"
    using checkpoint_signing_bytes_ok [OF sample_rows_encodable(2)]
    by (auto simp: checkpoint_view_def checkpoint_signing_bytes_def result_simps)
  ultimately show ?thesis
    using view_commitment_roundtrip [OF v w] by blast
qed

end
