(* ===== verification/Session.thy ===== *)
theory Session
  imports Domain
begin

section \<open>Database sessions\<close>

text \<open>
  How the services use the database (\<open>AsyncSession\<close>, \<open>src/ledger/db.py\<close>): a program is a sequence
  of statements, each of which may raise, run against the rows committed so far and the changes of
  its own open transaction. Other transactions commit between any two statements; an
  \<open>environment\<close> says what they do, what the clock reads and which UUIDs are drawn. Isolation is
  READ COMMITTED: a statement sees what is committed when it starts.
\<close>

subsection \<open>Statements and worlds\<close>

datatype row_change =
    InsertEvent event_row
  | InsertCheckpoint checkpoint_row
  | InsertPackage package_row
  | UpdatePackage package_row
  | InsertArtifact artifact_row
  | InsertConsumer consumer_row
  | UpdateConsumer consumer_row

fun apply_change :: "row_change \<Rightarrow> ledger_db \<Rightarrow> ledger_db" where
  "apply_change (InsertEvent e) d = d\<lparr>events := events d @ [e]\<rparr>"
| "apply_change (InsertCheckpoint c) d = d\<lparr>checkpoints := checkpoints d @ [c]\<rparr>"
| "apply_change (InsertPackage p) d = d\<lparr>packages := packages d @ [p]\<rparr>"
| "apply_change (UpdatePackage p) d =
     d\<lparr>packages := map (\<lambda>q. if pk_id q = pk_id p then p else q) (packages d)\<rparr>"
| "apply_change (InsertArtifact a) d = d\<lparr>artifacts := artifacts d @ [a]\<rparr>"
| "apply_change (InsertConsumer c) d = d\<lparr>consumers := consumers d @ [c]\<rparr>"
| "apply_change (UpdateConsumer c) d =
     d\<lparr>consumers := map (\<lambda>b. if co_id b = co_id c then c else b) (consumers d)\<rparr>"

definition apply_changes :: "row_change list \<Rightarrow> ledger_db \<Rightarrow> ledger_db" where
  "apply_changes ws d = fold apply_change ws d"

text \<open>The trace of statements, for properties about their order.\<close>

datatype trace_entry = Begin | Commit | Rollback | Select | LockShared | LockExclusive | Change row_change

text \<open>What a transaction can hold a lock on until it ends.\<close>

datatype resource = SealerLock | CheckpointLock uuid | PackageLock int | ConsumerLock int

record environment =
  others :: "nat \<Rightarrow> resource list \<Rightarrow> row_change list \<Rightarrow> ledger_db \<Rightarrow> ledger_db"
  clock :: "nat \<Rightarrow> datetime"
  uuid_factory :: "nat \<Rightarrow> uuid"
  postgresql :: bool
  try_lock :: "nat \<Rightarrow> bool"
  row_locked :: "nat \<Rightarrow> resource \<Rightarrow> bool"

record world =
  shared :: ledger_db
  mine :: "row_change list"
  held :: "resource list"
  tick :: nat
  trace :: "trace_entry list"
  written :: "row_change list"

definition visible :: "world \<Rightarrow> ledger_db" where
  "visible w = apply_changes (mine w) (shared w)"

type_synonym 'a op = "environment \<Rightarrow> world \<Rightarrow> 'a result \<times> world"

named_theorems op_defs \<open>the primitive operations of a session\<close>

definition return_op :: "'a \<Rightarrow> 'a op" where [op_defs]:
  "return_op x = (\<lambda>env w. (Inr x, w))"

definition raise_op :: "exn \<Rightarrow> 'a op" where [op_defs]:
  "raise_op e = (\<lambda>env w. (Inl e, w))"

definition lift_op :: "'a result \<Rightarrow> 'a op" where [op_defs]:
  "lift_op r = (\<lambda>env w. (r, w))"

definition bind_op :: "'a op \<Rightarrow> ('a \<Rightarrow> 'b op) \<Rightarrow> 'b op" where [op_defs]:
  "bind_op m f = (\<lambda>env w. case m env w of (Inl e, w') \<Rightarrow> (Inl e, w') | (Inr x, w') \<Rightarrow> f x env w')"

text \<open>Other transactions commit before a statement runs.\<close>

definition interfere :: "environment \<Rightarrow> world \<Rightarrow> world" where
  "interfere env w = w\<lparr>shared := others env (tick w) (held w) (mine w) (shared w), tick := tick w + 1\<rparr>"

definition log_entry :: "trace_entry \<Rightarrow> world \<Rightarrow> world" where
  "log_entry s w = w\<lparr>trace := trace w @ [s]\<rparr>"

definition select_op :: "(ledger_db \<Rightarrow> 'a) \<Rightarrow> 'a op" where
  "select_op f = (\<lambda>env w. let w' = log_entry Select (interfere env w) in (Inr (f (visible w')), w'))"

definition clock_op :: "datetime op" where
  "clock_op = (\<lambda>env w. (Inr (clock env (tick w)), w\<lparr>tick := tick w + 1\<rparr>))"

definition uuid_op :: "uuid op" where
  "uuid_op = (\<lambda>env w. (Inr (uuid_factory env (tick w)), w\<lparr>tick := tick w + 1\<rparr>))"

definition change_op :: "row_change \<Rightarrow> world \<Rightarrow> world" where
  "change_op a w = log_entry (Change a) (w\<lparr>mine := mine w @ [a]\<rparr>)"

text \<open>
  \<open>session.add(row)\<close> and \<open>session.flush()\<close>: the sequence number is drawn whether or not the
  constraints hold.
\<close>

definition insert_event :: "event_row \<Rightarrow> event_row op" where
  "insert_event e = (\<lambda>env w.
     let w' = interfere env w;
         row = e\<lparr>ev_sequence := next_sequence (shared w')\<rparr>;
         w'' = w'\<lparr>shared := (shared w')\<lparr>next_sequence := next_sequence (shared w') + 1\<rparr>\<rparr> in
     if event_fits (events (visible w')) row then (Inr row, change_op (InsertEvent row) w'')
     else (Inl IntegrityError, w''))"

definition insert_checkpoint :: "checkpoint_row \<Rightarrow> checkpoint_row op" where
  "insert_checkpoint c = (\<lambda>env w.
     let w' = interfere env w in
     if checkpoint_fits (checkpoints (visible w')) c
     then (Inr c, change_op (InsertCheckpoint c) w')
     else (Inl IntegrityError, w'))"

definition insert_package :: "package_row \<Rightarrow> package_row op" where
  "insert_package p = (\<lambda>env w.
     let w' = interfere env w;
         row = p\<lparr>pk_id := next_package (shared w')\<rparr>;
         w'' = w'\<lparr>shared := (shared w')\<lparr>next_package := next_package (shared w') + 1\<rparr>\<rparr> in
     if package_fits (visible w') row then (Inr row, change_op (InsertPackage row) w'')
     else (Inl IntegrityError, w''))"

definition insert_consumer :: "consumer_row \<Rightarrow> consumer_row op" where
  "insert_consumer c = (\<lambda>env w.
     let w' = interfere env w;
         row = c\<lparr>co_id := next_consumer (shared w')\<rparr>;
         w'' = w'\<lparr>shared := (shared w')\<lparr>next_consumer := next_consumer (shared w') + 1\<rparr>\<rparr> in
     if consumer_fits (visible w') row then (Inr row, change_op (InsertConsumer row) w'')
     else (Inl IntegrityError, w''))"

definition insert_artifact :: "artifact_row \<Rightarrow> unit op" where
  "insert_artifact a = (\<lambda>env w.
     let w' = interfere env w in
     if artifact_fits (visible w') a then (Inr (), change_op (InsertArtifact a) w')
     else (Inl IntegrityError, w'))"

text \<open>
  \<open>SELECT ... FOR UPDATE\<close> takes the row's lock on PostgreSQL, and \<open>SKIP LOCKED\<close> leaves the rows out
  that others have locked; other databases ignore both.
\<close>

definition hold :: "resource list \<Rightarrow> world \<Rightarrow> world" where
  "hold rs w = w\<lparr>held := held w @ rs\<rparr>"

definition lock_row :: "('a \<Rightarrow> resource) \<Rightarrow> (ledger_db \<Rightarrow> 'a option) \<Rightarrow> 'a option op" where
  "lock_row res f = (\<lambda>env w.
     let w' = log_entry Select (interfere env w); found = f (visible w') in
     (Inr found,
      if postgresql env then hold (case found of None \<Rightarrow> [] | Some x \<Rightarrow> [res x]) w' else w'))"

definition lock_unlocked :: "('a \<Rightarrow> resource) \<Rightarrow> (('a \<Rightarrow> bool) \<Rightarrow> ledger_db \<Rightarrow> 'a list) \<Rightarrow> 'a list op" where
  "lock_unlocked res f = (\<lambda>env w.
     let w' = log_entry Select (interfere env w);
         rows = f (\<lambda>x. \<not> row_locked env (tick w) (res x)) (visible w') in
     (Inr rows, hold (map res rows) w'))"

text \<open>
  Assigning attributes of a loaded row and flushing: the assignment \<open>f\<close> is applied to the stored
  row, and to the object in memory. \<open>UPDATE ... WHERE\<close> assigns to the rows it finds and returns
  their number. A write holds the row's lock on every database.
\<close>

definition update_package :: "package_row \<Rightarrow> (package_row \<Rightarrow> package_row) \<Rightarrow> package_row op" where
  "update_package p f = (\<lambda>env w.
     let w' = interfere env w in
     case scalar (\<lambda>q. pk_id q = pk_id p) (packages (visible w')) of
       None \<Rightarrow> (Inl StaleDataError, w')
     | Some q \<Rightarrow>
         if package_check (f q)
         then (Inr (f p), hold [PackageLock (pk_id p)] (change_op (UpdatePackage (f q)) w'))
         else (Inl IntegrityError, w'))"

definition update_packages_where ::
    "(package_row \<Rightarrow> bool) \<Rightarrow> (package_row \<Rightarrow> package_row) \<Rightarrow> nat op" where
  "update_packages_where P f = (\<lambda>env w.
     let w' = interfere env w; rows = filter P (packages (visible w')) in
     if \<forall>q \<in> set rows. package_check (f q)
     then (Inr (length rows), hold (map (\<lambda>q. PackageLock (pk_id q)) rows)
       (fold change_op (map (\<lambda>q. UpdatePackage (f q)) rows) w'))
     else (Inl IntegrityError, w'))"

definition update_consumers_where ::
    "(consumer_row \<Rightarrow> bool) \<Rightarrow> (consumer_row \<Rightarrow> consumer_row) \<Rightarrow> nat op" where
  "update_consumers_where P f = (\<lambda>env w.
     let w' = interfere env w; rows = filter P (consumers (visible w')) in
     if \<forall>c \<in> set rows. cursor_exists (visible w') (f c)
     then (Inr (length rows), hold (map (\<lambda>c. ConsumerLock (co_id c)) rows)
       (fold change_op (map (\<lambda>c. UpdateConsumer (f c)) rows) w'))
     else (Inl IntegrityError, w'))"

subsection \<open>Transactions\<close>

text \<open>
  \<open>async with session.begin()\<close>: the block commits when it returns and rolls back when it raises.
\<close>

definition commit :: "world \<Rightarrow> world" where
  "commit w = log_entry Commit
     (w\<lparr>shared := visible w, mine := [], held := [], written := written w @ mine w\<rparr>)"

definition roll_back :: "world \<Rightarrow> world" where
  "roll_back w = log_entry Rollback (w\<lparr>mine := [], held := []\<rparr>)"

definition transaction :: "'a op \<Rightarrow> 'a op" where
  "transaction m = (\<lambda>env w.
     case m env (log_entry Begin w) of
       (Inl e, w') \<Rightarrow> (Inl e, roll_back w')
     | (Inr x, w') \<Rightarrow> (Inr x, commit w'))"

text \<open>\<open>except IntegrityError\<close> around a transaction, which has been rolled back by then.\<close>

definition on_integrity_error :: "'a op \<Rightarrow> 'a op \<Rightarrow> 'a op" where
  "on_integrity_error m handler = (\<lambda>env w.
     case m env w of
       (Inl IntegrityError, w') \<Rightarrow> handler env w'
     | r \<Rightarrow> r)"

text \<open>The advisory locks, which only PostgreSQL takes.\<close>

definition lock_shared_op :: "unit op" where
  "lock_shared_op = (\<lambda>env w.
     (Inr (), if postgresql env then log_entry LockShared (interfere env w) else w))"

definition try_lock_op :: "bool op" where
  "try_lock_op = (\<lambda>env w.
     if postgresql env then
       let w' = interfere env w in
       if try_lock env (tick w)
       then (Inr True, hold [SealerLock] (log_entry LockExclusive w'))
       else (Inr False, w')
     else (Inr True, w))"

subsection \<open>Facts about worlds\<close>

lemma apply_changes_simps [simp]:
  "apply_changes [] d = d" "apply_changes (ws @ [a]) d = apply_change a (apply_changes ws d)"
  "apply_changes (a # ws) d = apply_changes ws (apply_change a d)"
  by (simp_all add: apply_changes_def)

definition own_events :: "row_change list \<Rightarrow> event_row list" where
  "own_events ws = concat (map (\<lambda>a. case a of InsertEvent e \<Rightarrow> [e] | _ \<Rightarrow> []) ws)"

lemma own_events_simps [simp]:
  "own_events [] = []" "own_events (ws @ vs) = own_events ws @ own_events vs"
  "own_events (InsertEvent e # ws) = e # own_events ws"
  by (simp_all add: own_events_def)

lemma events_apply_change:
  "events (apply_change a d) = events d @ own_events [a]"
  by (cases a) (simp_all add: own_events_def)

lemma events_apply_changes: "events (apply_changes ws d) = events d @ own_events ws"
  by (induction ws rule: rev_induct) (simp_all add: events_apply_change)

lemma next_sequence_apply_changes [simp]: "next_sequence (apply_changes ws d) = next_sequence d"
proof -
  have "next_sequence (apply_change a d) = next_sequence d" for a d
    by (cases a) simp_all
  then show ?thesis
    by (induction ws rule: rev_induct) simp_all
qed

lemma events_visible: "events (visible w) = events (shared w) @ own_events (mine w)"
  by (simp add: visible_def events_apply_changes)

lemma visible_no_writes [simp]: "mine w = [] \<Longrightarrow> visible w = shared w"
  by (simp add: visible_def)

lemma interfere_simps [simp]:
  "mine (interfere env w) = mine w" "trace (interfere env w) = trace w"
  "written (interfere env w) = written w" "tick (interfere env w) = tick w + 1"
  "shared (interfere env w) = others env (tick w) (held w) (mine w) (shared w)" "held (interfere env w) = held w"
  by (simp_all add: interfere_def)

lemma log_entry_simps [simp]:
  "mine (log_entry s w) = mine w" "shared (log_entry s w) = shared w"
  "written (log_entry s w) = written w" "tick (log_entry s w) = tick w"
  "trace (log_entry s w) = trace w @ [s]" "visible (log_entry s w) = visible w"
  "held (log_entry s w) = held w"
  by (simp_all add: log_entry_def visible_def)

lemma change_op_simps [simp]:
  "mine (change_op a w) = mine w @ [a]" "shared (change_op a w) = shared w"
  "written (change_op a w) = written w" "tick (change_op a w) = tick w"
  "trace (change_op a w) = trace w @ [Change a]" "held (change_op a w) = held w"
  by (simp_all add: change_op_def)

lemma commit_simps [simp]:
  "mine (commit w) = []" "shared (commit w) = visible w" "written (commit w) = written w @ mine w"
  "trace (commit w) = trace w @ [Commit]" "tick (commit w) = tick w" "held (commit w) = []"
  by (simp_all add: commit_def)

lemma hold_simps [simp]:
  "mine (hold rs w) = mine w" "shared (hold rs w) = shared w" "written (hold rs w) = written w"
  "tick (hold rs w) = tick w" "trace (hold rs w) = trace w" "held (hold rs w) = held w @ rs"
  "visible (hold rs w) = visible w"
  by (simp_all add: hold_def visible_def)

lemma roll_back_simps [simp]:
  "mine (roll_back w) = []" "shared (roll_back w) = shared w" "written (roll_back w) = written w"
  "trace (roll_back w) = trace w @ [Rollback]" "tick (roll_back w) = tick w"
  "held (roll_back w) = []"
  by (simp_all add: roll_back_def)

lemma bind_return [simp]: "bind_op (return_op x) f = f x"
  by (simp add: bind_op_def return_op_def)

lemma bind_raise [simp]: "bind_op (raise_op e) f = raise_op e"
  by (simp add: bind_op_def raise_op_def)

lemma bind_lift: "bind_op (lift_op r) f = (case r of Inl e \<Rightarrow> raise_op e | Inr x \<Rightarrow> f x)"
  by (auto simp: bind_op_def lift_op_def raise_op_def split: sum.splits)

subsection \<open>Locks\<close>

text \<open>
  What the locks promise of the other transactions. While the sealer's advisory lock is held no
  other sealer runs, and no append is between its own shared lock and its commit, so neither table
  of the log changes; a locked row is not written by others.
\<close>

definition respects_locks :: "environment \<Rightarrow> bool" where
  "respects_locks env \<longleftrightarrow> (\<forall>n h ws d.
     let d' = others env n h ws d in
     (SealerLock \<in> set h \<longrightarrow> events d' = events d \<and> checkpoints d' = checkpoints d) \<and>
     (\<forall>i. PackageLock i \<in> set h \<longrightarrow>
        filter (\<lambda>p. pk_id p = i) (packages d') = filter (\<lambda>p. pk_id p = i) (packages d)) \<and>
     (\<forall>i. ConsumerLock i \<in> set h \<longrightarrow>
        filter (\<lambda>c. co_id c = i) (consumers d') = filter (\<lambda>c. co_id c = i) (consumers d)))"

subsection \<open>A program logic\<close>

text \<open>
  \<open>valid env P m Q E\<close>: started where \<open>P\<close> holds, \<open>m\<close> returns a value with \<open>Q\<close> or raises with
  \<open>E\<close>. Programs are total, so this is total correctness.
\<close>

definition valid ::
    "environment \<Rightarrow> (world \<Rightarrow> bool) \<Rightarrow> 'a op \<Rightarrow> ('a \<Rightarrow> world \<Rightarrow> bool) \<Rightarrow> (exn \<Rightarrow> world \<Rightarrow> bool) \<Rightarrow> bool" where
  "valid env P m Q E \<longleftrightarrow>
     (\<forall>w. P w \<longrightarrow> (case m env w of (Inl e, w') \<Rightarrow> E e w' | (Inr x, w') \<Rightarrow> Q x w'))"

lemma validI:
  "(\<And>w. P w \<Longrightarrow> case m env w of (Inl e, w') \<Rightarrow> E e w' | (Inr x, w') \<Rightarrow> Q x w') \<Longrightarrow> valid env P m Q E"
  by (simp add: valid_def)

lemma validD:
  "valid env P m Q E \<Longrightarrow> P w \<Longrightarrow> (case m env w of (Inl e, w') \<Rightarrow> E e w' | (Inr x, w') \<Rightarrow> Q x w')"
  by (simp add: valid_def)

lemma valid_Inr: "valid env P m Q E \<Longrightarrow> P w \<Longrightarrow> m env w = (Inr x, w') \<Longrightarrow> Q x w'"
  using validD by fastforce

lemma valid_Inl: "valid env P m Q E \<Longrightarrow> P w \<Longrightarrow> m env w = (Inl e, w') \<Longrightarrow> E e w'"
  using validD by fastforce

lemma valid_weaken:
  assumes "valid env P' m Q' E'" "\<And>w. P w \<Longrightarrow> P' w" "\<And>x w. Q' x w \<Longrightarrow> Q x w" "\<And>e w. E' e w \<Longrightarrow> E e w"
  shows "valid env P m Q E"
proof (rule validI)
  fix w assume "P w"
  then show "case m env w of (Inl e, w') \<Rightarrow> E e w' | (Inr x, w') \<Rightarrow> Q x w'"
    using validD [OF assms(1,2)] assms(3,4) by (fastforce split: prod.splits sum.splits)
qed

lemma valid_any: "valid env P m (\<lambda>_ _. True) (\<lambda>_ _. True)"
  by (simp add: valid_def split: prod.split sum.split)

lemma valid_return: "(\<And>w. P w \<Longrightarrow> Q x w) \<Longrightarrow> valid env P (return_op x) Q E"
  by (simp add: valid_def return_op_def)

lemma valid_raise: "(\<And>w. P w \<Longrightarrow> E e w) \<Longrightarrow> valid env P (raise_op e) Q E"
  by (simp add: valid_def raise_op_def)

lemma valid_lift:
  assumes "\<And>x w. r = Inr x \<Longrightarrow> P w \<Longrightarrow> Q x w" "\<And>e w. r = Inl e \<Longrightarrow> P w \<Longrightarrow> E e w"
  shows "valid env P (lift_op r) Q E"
  using assms by (cases r) (simp_all add: valid_def lift_op_def)

lemma valid_bind:
  assumes "valid env P m R E" "\<And>x. valid env (R x) (f x) Q E"
  shows "valid env P (bind_op m f) Q E"
proof (rule validI)
  fix w assume "P w"
  then show "case bind_op m f env w of (Inl e, w') \<Rightarrow> E e w' | (Inr x, w') \<Rightarrow> Q x w'"
    using validD [OF assms(1)] validD [OF assms(2)]
    by (fastforce simp: bind_op_def split: prod.splits sum.splits)
qed

lemma valid_seq:
  assumes "valid env P' m R E" "\<And>w. P w \<Longrightarrow> P' w" "\<And>x. valid env (R x) (f x) Q E"
  shows "valid env P (bind_op m f) Q E"
  by (rule valid_bind [OF valid_weaken [OF assms(1,2)] assms(3)])

lemma valid_ex:
  assumes "\<And>k. valid env (P k) m Q E"
  shows "valid env (\<lambda>w. \<exists>k. P k w) m Q E"
  by (rule validI, elim exE, rule validD [OF assms])

lemma valid_when:
  assumes "b \<Longrightarrow> valid env P m Q E"
  shows "valid env (\<lambda>w. b \<and> P w) m Q E"
  by (rule validI, elim conjE, rule validD [OF assms])

lemma valid_then:
  assumes "valid env P m R E'" "\<And>e w. E' e w \<Longrightarrow> E e w" "\<And>x. valid env (R x) (f x) Q E"
  shows "valid env P (bind_op m f) Q E"
  by (rule valid_bind [OF valid_weaken [OF assms(1)] assms(3)]) (simp_all add: assms(2))

lemma valid_known:
  assumes "valid env P m (\<lambda>x w. R w \<and> x = v) E" "valid env R (f v) Q E"
  shows "valid env P (bind_op m f) Q E"
proof (rule valid_bind [OF assms(1)])
  show "valid env (\<lambda>w. R w \<and> x = v) (f x) Q E" for x
    using assms(2) by (simp add: valid_def)
qed

lemma valid_transaction:
  assumes "valid env (\<lambda>w. \<exists>v. P v \<and> w = log_entry Begin v) m
      (\<lambda>x w. Q x (commit w)) (\<lambda>e w. E e (roll_back w))"
  shows "valid env P (transaction m) Q E"
proof (rule validI)
  fix w assume "P w"
  then show "case transaction m env w of (Inl e, w') \<Rightarrow> E e w' | (Inr x, w') \<Rightarrow> Q x w'"
    using validD [OF assms, of "log_entry Begin w"]
    by (fastforce simp: transaction_def split: prod.splits sum.splits)
qed

lemma valid_on_integrity_error:
  assumes "valid env P m Q (\<lambda>e w. if e = IntegrityError then R w else E e w)"
    and "valid env R handler Q E"
  shows "valid env P (on_integrity_error m handler) Q E"
proof (rule validI)
  fix w assume "P w"
  then show "case on_integrity_error m handler env w of (Inl e, w') \<Rightarrow> E e w' | (Inr x, w') \<Rightarrow> Q x w'"
    using validD [OF assms(1)] validD [OF assms(2)]
    by (fastforce simp: on_integrity_error_def split: prod.splits sum.splits exn.splits)
qed

subsection \<open>Invariants of a session\<close>

text \<open>
  \<open>stable env I\<close>: the predicate survives the other transactions, the end of a transaction and the
  bookkeeping of statements. Then every statement that only reads keeps it, and so does every
  program whose writes keep it.
\<close>

named_theorems keeps_intros \<open>programs that keep an invariant\<close>

definition stable :: "environment \<Rightarrow> (world \<Rightarrow> bool) \<Rightarrow> bool" where
  "stable env I \<longleftrightarrow>
     (\<forall>w. I w \<longrightarrow> I (interfere env w) \<and> I (commit w) \<and> I (roll_back w)) \<and>
     (\<forall>w t. I (log_entry t w) = I w) \<and> (\<forall>w n. I (w\<lparr>tick := n\<rparr>) = I w) \<and>
     (\<forall>w rs. I (hold rs w) = I w)"

definition keeps :: "environment \<Rightarrow> (world \<Rightarrow> bool) \<Rightarrow> 'a op \<Rightarrow> bool" where
  "keeps env I m \<longleftrightarrow> valid env I m (\<lambda>_. I) (\<lambda>_. I)"

lemma keepsD: "keeps env I m \<Longrightarrow> I w \<Longrightarrow> m env w = (r, w') \<Longrightarrow> I w'"
  unfolding keeps_def by (cases r) (auto dest: valid_Inr valid_Inl)

lemma keepsI: "(\<And>w. I w \<Longrightarrow> I (snd (m env w))) \<Longrightarrow> keeps env I m"
  by (auto simp: keeps_def valid_def split: prod.splits sum.splits) (metis snd_conv)+

lemma keeps_pure [keeps_intros]:
  "keeps env I (return_op x)" "keeps env I (raise_op e)" "keeps env I (lift_op r)"
  by (simp_all add: keepsI return_op_def raise_op_def lift_op_def)

lemma keeps_bind [keeps_intros]:
  "keeps env I m \<Longrightarrow> (\<And>x. keeps env I (f x)) \<Longrightarrow> keeps env I (bind_op m f)"
  unfolding keeps_def by (rule valid_bind)

lemma keeps_if [keeps_intros]:
  "(b \<Longrightarrow> keeps env I m) \<Longrightarrow> (\<not> b \<Longrightarrow> keeps env I n) \<Longrightarrow> keeps env I (if b then m else n)"
  by simp

lemma keeps_option [keeps_intros]:
  "(x = None \<Longrightarrow> keeps env I m) \<Longrightarrow> (\<And>y. x = Some y \<Longrightarrow> keeps env I (f y)) \<Longrightarrow>
     keeps env I (case x of None \<Rightarrow> m | Some y \<Rightarrow> f y)"
  by (cases x) simp_all

lemma keeps_read [keeps_intros]:
  assumes "stable env I"
  shows "keeps env I (select_op f)" "keeps env I (lock_row res g)" "keeps env I (lock_unlocked res h)"
    "keeps env I clock_op" "keeps env I uuid_op" "keeps env I lock_shared_op" "keeps env I try_lock_op"
  using assms
  by (auto intro!: keepsI simp: stable_def select_op_def lock_row_def lock_unlocked_def clock_op_def
      uuid_op_def lock_shared_op_def try_lock_op_def Let_def)

lemma keeps_transaction [keeps_intros]:
  assumes "stable env I" "keeps env I m"
  shows "keeps env I (transaction m)"
  using assms unfolding keeps_def
  by (intro valid_transaction [OF valid_weaken [OF assms(2) [unfolded keeps_def]]])
     (auto simp: stable_def)

lemma keeps_on_integrity_error [keeps_intros]:
  assumes "keeps env I m" "keeps env I handler"
  shows "keeps env I (on_integrity_error m handler)"
  unfolding keeps_def
  by (rule valid_on_integrity_error [where R = I], rule valid_weaken [OF assms(1) [unfolded keeps_def]])
     (use assms(2) in \<open>auto simp: keeps_def\<close>)

end
