(* ===== verification/Event_Service.thy ===== *)
theory Event_Service
  imports Session Merkle
begin

section \<open>Appending events\<close>

text \<open>
  \<open>src/ledger/service.py\<close>: the commands that append reports, batches, revisions and revocations.
  Every command is the code's sequence of statements as a session program, with the branches for
  a business key that is already used, and the re-reads after a lost race.
\<close>

subsection \<open>Requests\<close>

text \<open>\<open>SubmitReport\<close> (and \<open>SubmitRevision\<close>, which has the same fields) and \<open>SubmitRevocation\<close>.\<close>

record submit_report =
  rq_business_key :: pystr
  rq_instrument_id :: pystr
  rq_operator_id :: pystr
  rq_report :: json

record submit_revocation =
  rv_business_key :: pystr
  rv_operator_id :: pystr
  rv_reason :: pystr

record prepared_report =
  pr_request :: submit_report
  pr_report_digest :: pystr
  pr_fingerprint :: pystr

subsection \<open>Fingerprints and idempotency\<close>

definition fingerprint :: "pydict \<Rightarrow> pystr result" where
  "fingerprint payload = map_result sha256_hex (canonical_json (JObj payload))"

definition report_fingerprint :: "submit_report \<Rightarrow> pystr \<Rightarrow> pystr result" where
  "report_fingerprint request report_digest = fingerprint
     [(py ''event_type'', JStr (py ''report'')),
      (py ''business_key'', JStr (rq_business_key request)),
      (py ''instrument_id'', JStr (rq_instrument_id request)),
      (py ''operator_id'', JStr (rq_operator_id request)),
      (py ''report_digest'', JStr report_digest)]"

definition revision_fingerprint :: "uuid \<Rightarrow> submit_report \<Rightarrow> pystr \<Rightarrow> pystr result" where
  "revision_fingerprint previous_event_id request report_digest = fingerprint
     [(py ''event_type'', JStr (py ''revision'')),
      (py ''business_key'', JStr (rq_business_key request)),
      (py ''previous_event_id'', JStr (uuid_str previous_event_id)),
      (py ''instrument_id'', JStr (rq_instrument_id request)),
      (py ''operator_id'', JStr (rq_operator_id request)),
      (py ''report_digest'', JStr report_digest)]"

definition revocation_fingerprint :: "uuid \<Rightarrow> submit_revocation \<Rightarrow> pystr result" where
  "revocation_fingerprint previous_event_id request = fingerprint
     [(py ''event_type'', JStr (py ''revocation'')),
      (py ''business_key'', JStr (rv_business_key request)),
      (py ''previous_event_id'', JStr (uuid_str previous_event_id)),
      (py ''operator_id'', JStr (rv_operator_id request)),
      (py ''reason'', JStr (rv_reason request))]"

definition idempotency_conflict :: "event_row \<Rightarrow> exn" where
  "idempotency_conflict existing =
     ledger_error ''IDEMPOTENCY_CONFLICT'' ''business key was already used with different content'' 409
       [(py ''business_key'', JStr (ev_business_key existing)),
        (py ''event_id'', JStr (uuid_str (ev_event_id existing)))]"

definition check_idempotency :: "event_row \<Rightarrow> pystr \<Rightarrow> event_row result" where
  "check_idempotency existing fp =
     (if ev_content_fingerprint existing \<noteq> fp then Inl (idempotency_conflict existing)
      else Inr existing)"

definition find_existing :: "pystr \<Rightarrow> event_row option op" where
  "find_existing business_key =
     select_op (\<lambda>d. scalar (\<lambda>e. ev_business_key e = business_key) (events d))"

definition coordinate_insert :: "unit op" where
  "coordinate_insert = lock_shared_op"

subsection \<open>A new event\<close>

definition build_event ::
    "uuid \<Rightarrow> datetime \<Rightarrow> event_kind \<Rightarrow> pystr \<Rightarrow> pystr \<Rightarrow> pystr \<Rightarrow> pystr \<Rightarrow> pystr option \<Rightarrow>
     uuid option \<Rightarrow> uuid option \<Rightarrow> pystr option \<Rightarrow> event_row result" where
  "build_event event_id now event_type business_key fp instrument_id operator_id report_digest
     previous_event_id record_id reason =
     (let event = \<lparr>ev_sequence = 0, ev_event_id = event_id,
        ev_record_id = (case record_id of None \<Rightarrow> event_id | Some r \<Rightarrow> r),
        ev_event_type = event_type, ev_business_key = business_key, ev_content_fingerprint = fp,
        ev_instrument_id = instrument_id, ev_operator_id = operator_id,
        ev_report_digest = report_digest, ev_previous_event_id = previous_event_id,
        ev_reason = reason, ev_occurred_at = now, ev_leaf_hash = []\<rparr> in
      map_result (\<lambda>b. event\<lparr>ev_leaf_hash := hex (leaf_hash b)\<rparr>) (event_commitment_bytes event))"

definition new_event ::
    "event_kind \<Rightarrow> pystr \<Rightarrow> pystr \<Rightarrow> pystr \<Rightarrow> pystr \<Rightarrow> pystr option \<Rightarrow> uuid option \<Rightarrow> uuid option \<Rightarrow>
     pystr option \<Rightarrow> event_row op" where
  "new_event event_type business_key fp instrument_id operator_id report_digest previous_event_id
     record_id reason =
     bind_op uuid_op (\<lambda>event_id.
     bind_op clock_op (\<lambda>now.
       lift_op (build_event event_id now event_type business_key fp instrument_id operator_id
         report_digest previous_event_id record_id reason)))"

subsection \<open>One report\<close>

text \<open>\<open>existing\<close> is answered from the stored event: the same content, or a conflict.\<close>

definition answer_existing :: "event_row \<Rightarrow> pystr \<Rightarrow> (event_row \<times> bool) op" where
  "answer_existing existing fp = lift_op (map_result (\<lambda>e. (e, False)) (check_idempotency existing fp))"

definition append_report_tx :: "submit_report \<Rightarrow> pystr \<Rightarrow> pystr \<Rightarrow> (event_row \<times> bool) op" where
  "append_report_tx request report_digest fp =
     bind_op (find_existing (rq_business_key request)) (\<lambda>found.
       case found of
         Some existing \<Rightarrow> answer_existing existing fp
       | None \<Rightarrow>
           bind_op coordinate_insert (\<lambda>_.
           bind_op (new_event Report (rq_business_key request) fp (rq_instrument_id request)
             (rq_operator_id request) (Some report_digest) None None None) (\<lambda>event.
           bind_op (insert_event event) (\<lambda>row. return_op (row, True)))))"

definition append_report :: "submit_report \<Rightarrow> (event_row \<times> bool) op" where
  "append_report request =
     bind_op (lift_op (digest_json (rq_report request))) (\<lambda>report_digest.
     bind_op (lift_op (report_fingerprint request report_digest)) (\<lambda>fp.
       on_integrity_error (transaction (append_report_tx request report_digest fp))
         (bind_op (find_existing (rq_business_key request)) (\<lambda>found.
            case found of
              Some existing \<Rightarrow> answer_existing existing fp
            | None \<Rightarrow> raise_op IntegrityError))))"

subsection \<open>Revisions and revocations\<close>

definition superseded :: "uuid \<Rightarrow> event_row \<Rightarrow> exn" where
  "superseded previous_event_id successor =
     ledger_error ''EVENT_ALREADY_SUPERSEDED'' ''the selected event already has a successor'' 409
       [(py ''event_id'', JStr (uuid_str previous_event_id)),
        (py ''successor_event_id'', JStr (uuid_str (ev_event_id successor)))]"

definition record_revoked :: "uuid \<Rightarrow> exn" where
  "record_revoked previous_event_id =
     ledger_error ''RECORD_REVOKED'' ''a revoked record cannot be revised or revoked again'' 409
       [(py ''event_id'', JStr (uuid_str previous_event_id))]"

definition instrument_mismatch :: "event_row \<Rightarrow> pystr option \<Rightarrow> exn" where
  "instrument_mismatch parent instrument_id =
     ledger_error ''INSTRUMENT_MISMATCH'' ''a revision cannot change the instrument identifier'' 409
       [(py ''expected'', JStr (ev_instrument_id parent)),
        (py ''received'', opt_json instrument_id)]"

definition find_successor :: "uuid \<Rightarrow> event_row option op" where
  "find_successor previous_event_id =
     select_op (\<lambda>d. scalar (\<lambda>e. ev_previous_event_id e = Some previous_event_id) (events d))"

definition append_successor_tx ::
    "uuid \<Rightarrow> event_kind \<Rightarrow> pystr \<Rightarrow> pystr \<Rightarrow> pystr \<Rightarrow> pystr option \<Rightarrow> pystr option \<Rightarrow> pystr option \<Rightarrow>
     (event_row \<times> bool) op" where
  "append_successor_tx previous_event_id event_type business_key fp operator_id instrument_id
     report_digest reason =
     bind_op (find_existing business_key) (\<lambda>found.
       case found of
         Some existing \<Rightarrow> answer_existing existing fp
       | None \<Rightarrow>
           bind_op coordinate_insert (\<lambda>_.
           bind_op (select_op (\<lambda>d. scalar (\<lambda>e. ev_event_id e = previous_event_id) (events d))) (\<lambda>found_parent.
             case found_parent of
               None \<Rightarrow> raise_op (NotFoundError ''event'' (uuid_str previous_event_id))
             | Some parent \<Rightarrow>
                 if ev_event_type parent = Revocation then
                   raise_op (record_revoked previous_event_id)
                 else
                   bind_op (find_successor previous_event_id) (\<lambda>found_successor.
                     case found_successor of
                       Some successor \<Rightarrow> raise_op (superseded previous_event_id successor)
                     | None \<Rightarrow>
                         if instrument_id \<noteq> None \<and> instrument_id \<noteq> Some (ev_instrument_id parent) then
                           raise_op (instrument_mismatch parent instrument_id)
                         else
                           bind_op (new_event event_type business_key fp (ev_instrument_id parent)
                             operator_id report_digest (Some (ev_event_id parent))
                             (Some (ev_record_id parent)) reason) (\<lambda>event.
                           bind_op (insert_event event) (\<lambda>row. return_op (row, True)))))))"

definition append_successor ::
    "uuid \<Rightarrow> event_kind \<Rightarrow> pystr \<Rightarrow> pystr \<Rightarrow> pystr \<Rightarrow> pystr option \<Rightarrow> pystr option \<Rightarrow> pystr option \<Rightarrow>
     (event_row \<times> bool) op" where
  "append_successor previous_event_id event_type business_key fp operator_id instrument_id
     report_digest reason =
     on_integrity_error
       (transaction (append_successor_tx previous_event_id event_type business_key fp operator_id
          instrument_id report_digest reason))
       (bind_op (find_existing business_key) (\<lambda>found.
          case found of
            Some existing \<Rightarrow> answer_existing existing fp
          | None \<Rightarrow>
              bind_op (find_successor previous_event_id) (\<lambda>found_successor.
                case found_successor of
                  Some successor \<Rightarrow> raise_op (superseded previous_event_id successor)
                | None \<Rightarrow> raise_op IntegrityError)))"

definition append_revision :: "uuid \<Rightarrow> submit_report \<Rightarrow> (event_row \<times> bool) op" where
  "append_revision previous_event_id request =
     bind_op (lift_op (digest_json (rq_report request))) (\<lambda>report_digest.
     bind_op (lift_op (revision_fingerprint previous_event_id request report_digest)) (\<lambda>fp.
       append_successor previous_event_id Revision (rq_business_key request) fp
         (rq_operator_id request) (Some (rq_instrument_id request)) (Some report_digest) None))"

definition append_revocation :: "uuid \<Rightarrow> submit_revocation \<Rightarrow> (event_row \<times> bool) op" where
  "append_revocation previous_event_id request =
     bind_op (lift_op (revocation_fingerprint previous_event_id request)) (\<lambda>fp.
       append_successor previous_event_id Revocation (rv_business_key request) fp
         (rv_operator_id request) None None (Some (rv_reason request)))"

subsection \<open>Batches\<close>

definition invalid_report :: "nat \<Rightarrow> submit_report \<Rightarrow> pystr \<Rightarrow> exn" where
  "invalid_report index request text =
     ledger_error ''BATCH_ITEM_INVALID''
       ''a report in the batch failed the single-report validation rules'' 422
       [(py ''index'', JInt (int index)),
        (py ''business_key'', JStr (rq_business_key request)),
        (py ''reason'', JStr (py ''invalid_report'')),
        (py ''message'', JStr text)]"

text \<open>
  The message of the wrapped exception is the library's wording and is a parameter,
  \<open>exception_text\<close>.
\<close>

definition prepare_batch_report ::
    "(exn \<Rightarrow> pystr) \<Rightarrow> nat \<Rightarrow> submit_report \<Rightarrow> prepared_report result" where
  "prepare_batch_report exception_text index request =
     bind_result
       (case digest_json (rq_report request) of
          Inl e \<Rightarrow> Inl (if is_value_error e then invalid_report index request (exception_text e) else e)
        | Inr d \<Rightarrow> Inr d)
       (\<lambda>report_digest. map_result
          (\<lambda>fp. \<lparr>pr_request = request, pr_report_digest = report_digest, pr_fingerprint = fp\<rparr>)
          (report_fingerprint request report_digest))"

definition prepare_batch ::
    "(exn \<Rightarrow> pystr) \<Rightarrow> submit_report list \<Rightarrow> prepared_report list result" where
  "prepare_batch exception_text requests =
     traverse (\<lambda>(index, request). prepare_batch_report exception_text index request)
       (zip [0..<length requests] requests)"

definition pr_key :: "prepared_report \<Rightarrow> pystr" where
  "pr_key item = rq_business_key (pr_request item)"

definition batch_conflict :: "nat \<Rightarrow> nat \<Rightarrow> pystr \<Rightarrow> exn" where
  "batch_conflict index prior business_key =
     ledger_error ''IDEMPOTENCY_CONFLICT''
       ''business key was already used in this batch with different content'' 409
       [(py ''index'', JInt (int index)), (py ''first_index'', JInt (int prior)),
        (py ''business_key'', JStr business_key)]"

text \<open>The loop over the prepared items, with the dictionary of first indices.\<close>

fun check_batch ::
    "prepared_report list \<Rightarrow> (pystr \<rightharpoonup> nat) \<Rightarrow> nat \<Rightarrow> prepared_report list \<Rightarrow> unit result" where
  "check_batch prepared first_index index [] = Inr ()"
| "check_batch prepared first_index index (item # items) =
     (case first_index (pr_key item) of
        None \<Rightarrow> check_batch prepared (first_index(pr_key item \<mapsto> index)) (index + 1) items
      | Some prior \<Rightarrow>
          if pr_fingerprint (prepared ! prior) \<noteq> pr_fingerprint item
          then Inl (batch_conflict index prior (pr_key item))
          else check_batch prepared first_index (index + 1) items)"

text \<open>\<open>{event.business_key: event for event in rows}\<close>: a later row replaces an earlier one.\<close>

definition by_business_key :: "event_row list \<Rightarrow> (pystr \<rightharpoonup> event_row)" where
  "by_business_key rows = map_of (map (\<lambda>e. (ev_business_key e, e)) (rev rows))"

definition select_by_keys :: "pystr list \<Rightarrow> event_row list op" where
  "select_by_keys keys = select_op (\<lambda>d. filter (\<lambda>e. ev_business_key e \<in> set keys) (events d))"

definition with_index :: "nat \<Rightarrow> exn \<Rightarrow> exn" where
  "with_index index e =
     (case e of
        LedgerError le \<Rightarrow> LedgerError (le\<lparr>details := (py ''index'', JInt (int index)) # details le\<rparr>)
      | _ \<Rightarrow> e)"

definition new_report_event :: "prepared_report \<Rightarrow> event_row op" where
  "new_report_event item =
     new_event Report (rq_business_key (pr_request item)) (pr_fingerprint item)
       (rq_instrument_id (pr_request item)) (rq_operator_id (pr_request item))
       (Some (pr_report_digest item)) None None None"

fun insert_items ::
    "(pystr \<rightharpoonup> event_row) \<Rightarrow> (pystr \<rightharpoonup> event_row) \<Rightarrow> nat \<Rightarrow> prepared_report list \<Rightarrow>
     (event_row \<times> bool) list \<Rightarrow> (event_row \<times> bool) list op" where
  "insert_items resolved appended index [] results = return_op results"
| "insert_items resolved appended index (item # items) results =
     (case resolved (pr_key item) of
        Some existing \<Rightarrow>
          (case check_idempotency existing (pr_fingerprint item) of
             Inl e \<Rightarrow> raise_op (with_index index e)
           | Inr event \<Rightarrow> insert_items resolved appended (index + 1) items (results @ [(event, False)]))
      | None \<Rightarrow>
          (case appended (pr_key item) of
             None \<Rightarrow>
               bind_op (new_report_event item) (\<lambda>event.
               bind_op (insert_event event) (\<lambda>row.
                 insert_items (resolved(pr_key item \<mapsto> row)) (appended(pr_key item \<mapsto> row))
                   (index + 1) items (results @ [(row, True)])))
           | Some event \<Rightarrow> insert_items resolved appended (index + 1) items (results @ [(event, False)])))"

definition insert_report_batch :: "prepared_report list \<Rightarrow> (event_row \<times> bool) list op" where
  "insert_report_batch prepared =
     bind_op coordinate_insert (\<lambda>_.
     bind_op (select_by_keys (map pr_key prepared)) (\<lambda>rows.
       insert_items (by_business_key rows) Map.empty 0 prepared []))"

definition batch_row_conflict :: "nat \<Rightarrow> pystr \<Rightarrow> event_row \<Rightarrow> exn" where
  "batch_row_conflict index business_key row =
     ledger_error ''IDEMPOTENCY_CONFLICT'' ''business key was already used with different content'' 409
       [(py ''index'', JInt (int index)), (py ''business_key'', JStr business_key),
        (py ''event_id'', JStr (uuid_str (ev_event_id row)))]"

fun first_conflict ::
    "(pystr \<rightharpoonup> event_row) \<Rightarrow> nat \<Rightarrow> prepared_report list \<Rightarrow> exn option" where
  "first_conflict existing index [] = None"
| "first_conflict existing index (item # items) =
     (case existing (pr_key item) of
        Some row \<Rightarrow>
          if ev_content_fingerprint row \<noteq> pr_fingerprint item
          then Some (batch_row_conflict index (pr_key item) row)
          else first_conflict existing (index + 1) items
      | None \<Rightarrow> first_conflict existing (index + 1) items)"

definition committed_batch_conflict :: "prepared_report list \<Rightarrow> exn option op" where
  "committed_batch_conflict prepared =
     transaction (bind_op (select_by_keys (remdups (map pr_key prepared))) (\<lambda>rows.
       return_op (first_conflict (by_business_key rows) 0 prepared)))"

definition BATCH_INSERT_ATTEMPTS :: nat where
  "BATCH_INSERT_ATTEMPTS = 4"

text \<open>\<open>while True\<close> with the counter of attempts: at most four rounds.\<close>

function batch_loop :: "prepared_report list \<Rightarrow> nat \<Rightarrow> (event_row \<times> bool) list op" where
  "batch_loop prepared attempt =
     on_integrity_error (transaction (insert_report_batch prepared))
       (bind_op (committed_batch_conflict prepared) (\<lambda>conflict.
          case conflict of
            Some e \<Rightarrow> raise_op e
          | None \<Rightarrow>
              if BATCH_INSERT_ATTEMPTS \<le> attempt + 1 then raise_op IntegrityError
              else batch_loop prepared (attempt + 1)))"
  by pat_completeness auto

termination
  by (relation "measure (\<lambda>(prepared, attempt). BATCH_INSERT_ATTEMPTS - attempt)") auto

declare batch_loop.simps [simp del]

definition append_report_batch ::
    "(exn \<Rightarrow> pystr) \<Rightarrow> submit_report list \<Rightarrow> (event_row \<times> bool) list op" where
  "append_report_batch exception_text requests =
     bind_op (lift_op (prepare_batch exception_text requests)) (\<lambda>prepared.
     bind_op (lift_op (check_batch prepared Map.empty 0 prepared)) (\<lambda>_.
       batch_loop prepared 0))"

end
