(* ===== verification/Event_Invariant.thy ===== *)
theory Event_Invariant
  imports Event_Service
begin

section \<open>The invariant of the event log\<close>

text \<open>
  What every command keeps true of the log, whatever other transactions commit in between: the
  schema's constraints, the leaf hash of every row, increasing sequence numbers and the chains of
  revisions. \<open>orderly\<close> is the rely condition on the other transactions: they keep the same
  invariant (they run the same program against the same constraints) and they only add events,
  which the append-only triggers enforce.
\<close>

definition committed :: "event_row \<Rightarrow> bool" where
  "committed e =
     (case event_commitment_bytes e of
        Inl _ \<Rightarrow> False
      | Inr b \<Rightarrow> ev_leaf_hash e = hex (leaf_hash b))"

text \<open>
  A report starts its record; a revision or revocation succeeds an earlier event of the same
  record and instrument that is not a revocation.
\<close>

definition link_ok :: "event_row list \<Rightarrow> event_row \<Rightarrow> bool" where
  "link_ok es e =
     (case ev_previous_event_id e of
        None \<Rightarrow> ev_event_type e = Report \<and> ev_record_id e = ev_event_id e
      | Some p \<Rightarrow> ev_event_type e \<noteq> Report \<and>
          (\<exists>q \<in> set es. ev_event_id q = p \<and> ev_record_id q = ev_record_id e \<and>
             ev_instrument_id q = ev_instrument_id e \<and> ev_event_type q \<noteq> Revocation \<and>
             ev_sequence q < ev_sequence e))"

definition ledger_ok :: "ledger_db \<Rightarrow> bool" where
  "ledger_ok d \<longleftrightarrow>
     event_table (events d) \<and> distinct (map ev_sequence (events d)) \<and> 0 < next_sequence d \<and>
     (\<forall>e \<in> set (events d). committed e \<and> link_ok (events d) e \<and>
        0 < ev_sequence e \<and> ev_sequence e < next_sequence d)"

definition grows :: "ledger_db \<Rightarrow> ledger_db \<Rightarrow> bool" where
  "grows d d' \<longleftrightarrow> (\<exists>new. events d' = events d @ new) \<and> next_sequence d \<le> next_sequence d'"

definition world_ok :: "world \<Rightarrow> bool" where
  "world_ok w \<longleftrightarrow> ledger_ok (shared w) \<and> ledger_ok (visible w)"

definition orderly :: "environment \<Rightarrow> bool" where
  "orderly env \<longleftrightarrow>
     (\<forall>n h ws d. ledger_ok d \<and> ledger_ok (apply_changes ws d) \<longrightarrow>
        ledger_ok (others env n h ws d) \<and> ledger_ok (apply_changes ws (others env n h ws d)) \<and>
        grows d (others env n h ws d))"

text \<open>An environment in which nothing else happens.\<close>

definition quiet :: "environment \<Rightarrow> bool" where
  "quiet env \<longleftrightarrow> others env = (\<lambda>_ _ _ d. d)"

lemma grows_refl [simp]: "grows d d"
  by (simp add: grows_def)

lemma grows_trans: "grows a b \<Longrightarrow> grows b c \<Longrightarrow> grows a c"
  by (auto simp: grows_def)

lemma grows_mem: "grows d d' \<Longrightarrow> e \<in> set (events d) \<Longrightarrow> e \<in> set (events d')"
  by (auto simp: grows_def)

lemma quiet_orderly: "quiet env \<Longrightarrow> orderly env"
  by (simp add: quiet_def orderly_def)

lemma ledger_ok_empty [simp]: "ledger_ok empty_db"
  by (simp add: ledger_ok_def empty_db_def)

lemma ledger_okD:
  assumes "ledger_ok d"
  shows "event_table (events d)" "distinct (map ev_sequence (events d))"
    and "\<And>e. e \<in> set (events d) \<Longrightarrow> committed e \<and> link_ok (events d) e \<and> 0 < ev_sequence e"
  using assms by (auto simp: ledger_ok_def)

lemma committed_cong: "same_commitment e f \<Longrightarrow> ev_leaf_hash e = ev_leaf_hash f \<Longrightarrow> committed e = committed f"
  using event_commitment_bytes_cong [of e f] by (simp add: committed_def split: sum.splits)

lemma committed_sequence [simp]: "committed (e\<lparr>ev_sequence := n\<rparr>) = committed e"
  by (rule committed_cong) (simp_all add: same_commitment_def)

lemma link_ok_mono: "link_ok es e \<Longrightarrow> set es \<subseteq> set fs \<Longrightarrow> link_ok fs e"
  by (auto simp: link_ok_def split: option.splits)

lemma ledger_ok_insert:
  assumes "ledger_ok d" "event_fits (events d) e" "committed e"
    and "link_ok (events d) e" "ev_sequence e = next_sequence d"
  shows "ledger_ok (d\<lparr>events := events d @ [e], next_sequence := next_sequence d + 1\<rparr>)"
proof -
  have "link_ok (events d @ [e]) f" if "f \<in> set (events d) \<or> f = e" for f
    using that assms(1,4) link_ok_mono [of "events d" f "events d @ [e]"]
    by (auto simp: ledger_ok_def)
  moreover have "ev_sequence e \<notin> ev_sequence ` set (events d)"
    using assms(1,5) by (force simp: ledger_ok_def)
  ultimately show ?thesis
    using assms by (auto simp: ledger_ok_def event_table_snoc)
qed

lemma ledger_ok_next: "ledger_ok d \<Longrightarrow> ledger_ok (d\<lparr>next_sequence := next_sequence d + 1\<rparr>)"
  by (auto simp: ledger_ok_def)

lemma apply_changes_next_sequence:
  "apply_changes ws (d\<lparr>next_sequence := n\<rparr>) = (apply_changes ws d)\<lparr>next_sequence := n\<rparr>"
proof -
  have "apply_change a (d\<lparr>next_sequence := n\<rparr>) = (apply_change a d)\<lparr>next_sequence := n\<rparr>" for a d
    by (cases a) simp_all
  then show ?thesis
    by (induction ws rule: rev_induct) simp_all
qed

subsection \<open>States during a command\<close>

text \<open>
  \<open>st w0 dn ms K w\<close>: a command started at \<open>w0\<close> has committed the changes \<open>dn\<close>, has the open
  changes \<open>ms\<close>, and the rows \<open>K\<close> are known to be committed.
\<close>

definition st :: "world \<Rightarrow> row_change list \<Rightarrow> row_change list \<Rightarrow> event_row set \<Rightarrow> world \<Rightarrow> bool" where
  "st w0 dn ms K w \<longleftrightarrow>
     world_ok w \<and> grows (shared w0) (shared w) \<and> written w = written w0 @ dn \<and> mine w = ms \<and>
     K \<subseteq> set (events (shared w))"

lemma st_start: "world_ok w \<Longrightarrow> mine w = [] \<Longrightarrow> K \<subseteq> set (events (shared w)) \<Longrightarrow> st w [] [] K w"
  by (simp add: st_def)

lemma st_known: "st w0 dn ms K w \<Longrightarrow> L \<subseteq> K \<Longrightarrow> st w0 dn ms L w"
  by (auto simp: st_def)

lemma st_add: "st w0 dn ms K w \<Longrightarrow> e \<in> set (events (shared w)) \<Longrightarrow> st w0 dn ms (insert e K) w"
  by (auto simp: st_def)

lemma world_ok_log [simp]: "world_ok (log_entry s w) = world_ok w"
  by (simp add: world_ok_def)

lemma st_log [simp]: "st w0 dn ms K (log_entry s w) = st w0 dn ms K w"
  by (simp add: st_def)

lemma st_tick [simp]: "st w0 dn ms K (w\<lparr>tick := n\<rparr>) = st w0 dn ms K w"
  by (simp add: st_def world_ok_def visible_def)

lemma interfere_st:
  assumes "orderly env" "st w0 dn ms K w"
  shows "st w0 dn ms K (interfere env w)"
proof -
  let ?d = "shared w" and ?d' = "others env (tick w) (held w) (mine w) (shared w)"
  have "ledger_ok ?d' \<and> ledger_ok (apply_changes (mine w) ?d') \<and> grows ?d ?d'"
    using assms by (auto simp: orderly_def st_def world_ok_def visible_def)
  then show ?thesis
    using assms(2) grows_trans grows_mem
    by (fastforce simp: st_def world_ok_def visible_def)
qed

lemma select_valid:
  assumes "orderly env"
  shows "valid env (st w0 dn [] K) (select_op f) (\<lambda>x w. st w0 dn [] K w \<and> x = f (shared w)) E"
proof (rule validI)
  fix w assume "st w0 dn [] K w"
  then have w: "st w0 dn [] K (interfere env w)"
    by (rule interfere_st [OF assms])
  then have "visible (interfere env w) = shared (interfere env w)"
    by (intro visible_no_writes) (simp add: st_def)
  with w show "case select_op f env w of (Inl e, w') \<Rightarrow> E e w'
      | (Inr x, w') \<Rightarrow> st w0 dn [] K w' \<and> x = f (shared w')"
    by (simp add: select_op_def Let_def)
qed

lemma lock_shared_valid:
  assumes "orderly env"
  shows "valid env (st w0 dn ms K) lock_shared_op (\<lambda>_. st w0 dn ms K) E"
  using interfere_st [OF assms] by (auto simp: valid_def lock_shared_op_def)

lemma clock_valid: "valid env (st w0 dn ms K) clock_op (\<lambda>_. st w0 dn ms K) E"
  by (simp add: valid_def clock_op_def)

lemma uuid_valid: "valid env (st w0 dn ms K) uuid_op (\<lambda>_. st w0 dn ms K) E"
  by (simp add: valid_def uuid_op_def)

text \<open>The row an insertion stores, and the parent a successor needs.\<close>

definition linkable :: "event_row set \<Rightarrow> event_row \<Rightarrow> bool" where
  "linkable K e =
     (case ev_previous_event_id e of
        None \<Rightarrow> ev_event_type e = Report \<and> ev_record_id e = ev_event_id e
      | Some p \<Rightarrow> ev_event_type e \<noteq> Report \<and>
          (\<exists>q \<in> K. ev_event_id q = p \<and> ev_record_id q = ev_record_id e \<and>
             ev_instrument_id q = ev_instrument_id e \<and> ev_event_type q \<noteq> Revocation))"

lemma insert_event_valid:
  assumes "orderly env" "committed e" "linkable K e"
  shows "valid env (st w0 dn ms K) (insert_event e)
    (\<lambda>row w. st w0 dn (ms @ [InsertEvent row]) K w \<and> row = e\<lparr>ev_sequence := ev_sequence row\<rparr> \<and>
       row \<notin> set (events (shared w)) \<and>
       ev_business_key row \<notin> ev_business_key ` set (own_events ms))
    (\<lambda>x w. x = IntegrityError \<and> st w0 dn ms K w)"
proof (rule validI)
  fix w assume w: "st w0 dn ms K w"
  define w' where "w' = interfere env w"
  define row where "row = e\<lparr>ev_sequence := next_sequence (shared w')\<rparr>"
  define d where "d = (shared w')\<lparr>next_sequence := next_sequence (shared w') + 1\<rparr>"
  have w': "st w0 dn ms K w'"
    unfolding w'_def using interfere_st [OF assms(1) w] .
  have vis: "visible (w'\<lparr>shared := d\<rparr>) = (visible w')\<lparr>next_sequence := next_sequence (visible w') + 1\<rparr>"
    by (simp add: visible_def d_def apply_changes_next_sequence)
  have d: "ledger_ok d" "grows (shared w0) d" "K \<subseteq> set (events d)"
    using w' ledger_ok_next grows_trans [of "shared w0" "shared w'" d]
    by (auto simp: st_def world_ok_def d_def grows_def)
  have fail: "st w0 dn ms K (w'\<lparr>shared := d\<rparr>)"
    using w' d vis ledger_ok_next by (auto simp: st_def world_ok_def)
  have link: "link_ok (events (visible w')) row"
  proof -
    have "ev_sequence q < next_sequence (shared w') \<and> q \<in> set (events (visible w'))" if "q \<in> K" for q
      using that w' by (auto simp: st_def world_ok_def ledger_ok_def events_visible)
    then show ?thesis
      using assms(3) by (fastforce simp: linkable_def link_ok_def row_def split: option.splits)
  qed
  show "case insert_event e env w of
      (Inl x, w'') \<Rightarrow> x = IntegrityError \<and> st w0 dn ms K w''
    | (Inr r, w'') \<Rightarrow> st w0 dn (ms @ [InsertEvent r]) K w'' \<and> r = e\<lparr>ev_sequence := ev_sequence r\<rparr> \<and>
        r \<notin> set (events (shared w'')) \<and> ev_business_key r \<notin> ev_business_key ` set (own_events ms)"
  proof (cases "event_fits (events (visible w')) row")
    case True
    let ?w = "change_op (InsertEvent row) (w'\<lparr>shared := d\<rparr>)"
    have "visible ?w = (visible w')\<lparr>events := events (visible w') @ [row],
        next_sequence := next_sequence (visible w') + 1\<rparr>"
      using vis by (simp add: change_op_def visible_def)
    moreover have "ledger_ok (visible w')"
      using w' by (simp add: st_def world_ok_def)
    ultimately have "ledger_ok (visible ?w)"
      using ledger_ok_insert [of "visible w'" row] True assms(2) link
      by (simp add: row_def visible_def)
    then have "st w0 dn (ms @ [InsertEvent row]) K ?w"
      using fail by (simp add: st_def world_ok_def)
    moreover have "row \<notin> set (events d) \<and> ev_business_key row \<notin> ev_business_key ` set (own_events ms)"
      using True w' by (auto simp: event_fits_def events_visible d_def st_def)
    moreover have "insert_event e env w = (Inr row, ?w)"
      using True by (simp add: insert_event_def w'_def row_def d_def Let_def)
    ultimately show ?thesis
      by (simp add: row_def)
  next
    case False
    then have "insert_event e env w = (Inl IntegrityError, w'\<lparr>shared := d\<rparr>)"
      by (simp add: insert_event_def w'_def row_def d_def Let_def)
    with fail show ?thesis by simp
  qed
qed

lemma st_commit:
  "st w0 dn ms K w \<Longrightarrow> st w0 (dn @ ms) [] (K \<union> set (own_events ms)) (commit w)"
  by (auto simp: st_def world_ok_def grows_def visible_def events_apply_changes)

lemma st_roll_back: "st w0 dn ms K w \<Longrightarrow> st w0 dn [] K (roll_back w)"
  by (auto simp: st_def world_ok_def)

subsection \<open>Records are chains\<close>

definition succeeds :: "ledger_db \<Rightarrow> (event_row \<times> event_row) set" where
  "succeeds d = {(e, f). e \<in> set (events d) \<and> f \<in> set (events d) \<and>
     ev_previous_event_id f = Some (ev_event_id e)}"

lemma succeeds_single_valued:
  assumes "ledger_ok d"
  shows "single_valued (succeeds d)"
proof (rule single_valuedI)
  fix e f g
  assume "(e, f) \<in> succeeds d" "(e, g) \<in> succeeds d"
  then show "f = g"
    using event_table_successor_unique [OF ledger_okD(1) [OF assms], of f g "ev_event_id e"]
    by (simp add: succeeds_def)
qed

lemma link_successor:
  assumes "ledger_ok d" "e \<in> set (events d)" "ev_previous_event_id e = Some p"
  shows "\<exists>q. (q, e) \<in> succeeds d \<and> ev_record_id q = ev_record_id e \<and>
    ev_instrument_id q = ev_instrument_id e \<and> ev_event_type q \<noteq> Revocation \<and>
    ev_sequence q < ev_sequence e"
proof -
  have "link_ok (events d) e"
    using ledger_okD(3) [OF assms(1,2)] by blast
  then show ?thesis
    using assms(2,3) by (auto simp: link_ok_def succeeds_def)
qed

lemma revocation_terminal:
  assumes "ledger_ok d" "(e, f) \<in> succeeds d"
  shows "ev_event_type e \<noteq> Revocation"
proof -
  have f: "f \<in> set (events d)" "ev_previous_event_id f = Some (ev_event_id e)" "e \<in> set (events d)"
    using assms(2) by (auto simp: succeeds_def)
  obtain q where q: "(q, f) \<in> succeeds d" "ev_event_type q \<noteq> Revocation"
    using link_successor [OF assms(1) f(1,2)] by blast
  then have "q = e"
    using f event_table_id_inj [OF ledger_okD(1) [OF assms(1)], of q e] by (simp add: succeeds_def)
  with q show ?thesis by simp
qed

lemma record_root:
  assumes "ledger_ok d" "e \<in> set (events d)"
  shows "\<exists>root \<in> set (events d). ev_event_type root = Report \<and> ev_event_id root = ev_record_id e \<and>
    ev_instrument_id root = ev_instrument_id e \<and> (root, e) \<in> (succeeds d)\<^sup>*"
  using assms(2)
proof (induction "nat (ev_sequence e)" arbitrary: e rule: less_induct)
  case less
  show ?case
  proof (cases "ev_previous_event_id e")
    case None
    then have "ev_event_type e = Report" "ev_record_id e = ev_event_id e"
      using ledger_okD(3) [OF assms(1) less.prems] by (simp_all add: link_ok_def)
    with less.prems show ?thesis by auto
  next
    case (Some p)
    then obtain q where q: "(q, e) \<in> succeeds d" "ev_record_id q = ev_record_id e"
        "ev_instrument_id q = ev_instrument_id e" "ev_sequence q < ev_sequence e"
      using link_successor [OF assms(1) less.prems] by blast
    moreover have "q \<in> set (events d)" "0 < ev_sequence e"
      using q(1) ledger_okD(3) [OF assms(1) less.prems] by (auto simp: succeeds_def)
    ultimately show ?thesis
      using less.hyps [of q] by (force intro: rtrancl_into_rtrancl)
  qed
qed

subsection \<open>Programs that leave the log alone\<close>

text \<open>The commands of the other services write no events, so they keep the invariant of the log.\<close>

definition log_kept :: "world \<Rightarrow> bool" where
  "log_kept w \<longleftrightarrow> ledger_ok (shared w) \<and> own_events (mine w) = []"

lemma ledger_ok_cong: "events d = events d' \<Longrightarrow> next_sequence d = next_sequence d' \<Longrightarrow> ledger_ok d = ledger_ok d'"
  by (simp add: ledger_ok_def)

lemma ledger_ok_no_events: "own_events ws = [] \<Longrightarrow> ledger_ok (apply_changes ws d) = ledger_ok d"
  by (rule ledger_ok_cong) (simp_all add: events_apply_changes)

lemma stable_log_kept: "orderly env \<Longrightarrow> stable env log_kept"
  by (auto simp: stable_def log_kept_def orderly_def ledger_ok_no_events visible_def)

lemma log_kept_change [simp]: "own_events [a] = [] \<Longrightarrow> log_kept (change_op a w) = log_kept w"
  by (simp add: log_kept_def)

lemma log_kept_fold [simp]:
  "log_kept (fold change_op (map (\<lambda>q. UpdatePackage (f q)) qs) w) = log_kept w"
  "log_kept (fold change_op (map (\<lambda>c. UpdateConsumer (g c)) cs) w) = log_kept w"
  by (induction qs arbitrary: w) (simp_all add: own_events_def,
      induction cs arbitrary: w, simp_all add: own_events_def)

lemma keeps_log_writes [keeps_intros]:
  assumes "orderly env"
  shows "keeps env log_kept (insert_checkpoint c)" "keeps env log_kept (insert_package p)"
    "keeps env log_kept (insert_consumer b)" "keeps env log_kept (insert_artifact a)"
    "keeps env log_kept (update_package p f)" "keeps env log_kept (update_packages_where P f)"
    "keeps env log_kept (update_consumers_where C g)"
proof -
  note st = stable_log_kept [OF assms, unfolded stable_def]
  have seq: "log_kept (w\<lparr>shared := (shared w)\<lparr>next_package := n\<rparr>\<rparr>) = log_kept w"
    "log_kept (w\<lparr>shared := (shared w)\<lparr>next_consumer := n\<rparr>\<rparr>) = log_kept w" for w n
    by (simp_all add: log_kept_def ledger_ok_def)
  show "keeps env log_kept (insert_checkpoint c)" "keeps env log_kept (insert_package p)"
    "keeps env log_kept (insert_consumer b)" "keeps env log_kept (insert_artifact a)"
    using st
    by (auto intro!: keepsI simp: insert_checkpoint_def insert_package_def insert_consumer_def
        insert_artifact_def Let_def own_events_def seq simp del: interfere_simps)
  show "keeps env log_kept (update_package p f)" "keeps env log_kept (update_packages_where P f)"
    "keeps env log_kept (update_consumers_where C g)"
    using st
    by (auto intro!: keepsI simp: update_package_def update_packages_where_def update_consumers_where_def
        Let_def own_events_def simp del: interfere_simps split: option.splits)
qed

end
