(* ===== verification/Sealing.thy ===== *)
theory Sealing
  imports Event_Invariant Security
begin

section \<open>Sealing checkpoints\<close>

text \<open>
  \<open>src/ledger/sealing.py\<close>: \<open>CheckpointSealer.seal_once\<close> takes the exclusive advisory lock, rechecks
  the whole event prefix against the last checkpoint and signs the next one.
\<close>

subsection \<open>The code\<close>

datatype seal_status = Busy | Idle | Sealed

record seal_result =
  sr_status :: seal_status
  sr_checkpoint :: "checkpoint_row option"

record sealer =
  sl_keyring :: keyring
  sl_current_key_version :: pystr
  sl_batch_size :: int

definition make_sealer :: "keyring \<Rightarrow> pystr \<Rightarrow> int \<Rightarrow> sealer result" where
  "make_sealer keyring version batch_size =
     (if batch_size < 1 then Inl ValueError
      else Inr \<lparr>sl_keyring = keyring, sl_current_key_version = version, sl_batch_size = batch_size\<rparr>)"

definition signing_key :: "sealer \<Rightarrow> pystr \<Rightarrow> bytes result" where
  "signing_key s version =
     (case require_key (sl_keyring s) version of
        Inr key \<Rightarrow> Inr key
      | Inl (KeyConfigurationError text) \<Rightarrow>
          Inl (LedgerError \<lparr>code = py ''UNKNOWN_KEY_VERSION'', message = text, status_code = 500,
            details = [(py ''key_version'', JStr version)]\<rparr>)
      | Inl e \<Rightarrow> Inl e)"

text \<open>The queries: the last checkpoint, the next batch, and the whole prefix up to a sequence.\<close>

definition last_checkpoint :: "ledger_db \<Rightarrow> checkpoint_row option" where
  "last_checkpoint d = last_by cp_leaf_count (checkpoints d)"

definition events_up_to :: "int \<Rightarrow> event_row list \<Rightarrow> event_row list" where
  "events_up_to target es = sort_key ev_sequence (filter (\<lambda>e. ev_sequence e \<le> target) es)"

definition next_batch :: "int \<Rightarrow> int \<Rightarrow> event_row list \<Rightarrow> event_row list" where
  "next_batch batch_size last_sequence es =
     take (nat batch_size) (sort_key ev_sequence (filter (\<lambda>e. last_sequence < ev_sequence e) es))"

definition previous_sequence :: "checkpoint_row option \<Rightarrow> int" where
  "previous_sequence previous = (case previous of None \<Rightarrow> 0 | Some c \<Rightarrow> cp_last_event_sequence c)"

definition previous_count :: "checkpoint_row option \<Rightarrow> int" where
  "previous_count previous = (case previous of None \<Rightarrow> 0 | Some c \<Rightarrow> cp_leaf_count c)"

definition sequence_corrupt :: "int \<Rightarrow> int \<Rightarrow> exn" where
  "sequence_corrupt expected actual =
     ledger_error ''EVENT_SEQUENCE_CORRUPT''
       ''event prefix does not match the expected checkpoint boundary'' 500
       [(py ''expected_count'', JInt expected), (py ''actual_count'', JInt actual)]"

definition node_corrupt :: "event_row \<Rightarrow> exn" where
  "node_corrupt e =
     ledger_error ''MERKLE_NODE_CORRUPT''
       ''stored event commitment does not match immutable event fields'' 500
       [(py ''event_id'', JStr (uuid_str (ev_event_id e))), (py ''sequence'', JInt (ev_sequence e))]"

definition checkpoint_error :: "string \<Rightarrow> string \<Rightarrow> checkpoint_row \<Rightarrow> exn" where
  "checkpoint_error c text previous =
     ledger_error c text 500 [(py ''checkpoint_id'', JStr (uuid_str (cp_checkpoint_id previous)))]"

text \<open>One round of the loop over the events.\<close>

definition check_leaf :: "event_row \<Rightarrow> bytes result" where
  "check_leaf e = bind_result (event_commitment_bytes e) (\<lambda>b.
     if hex (leaf_hash b) \<noteq> ev_leaf_hash e then Inl (node_corrupt e) else Inr (leaf_hash b))"

definition check_previous :: "sealer \<Rightarrow> checkpoint_row option \<Rightarrow> bytes list \<Rightarrow> unit result" where
  "check_previous s previous leaves =
     (case previous of
        None \<Rightarrow> Inr ()
      | Some c \<Rightarrow>
          if hex (merkle_root (slice_to (cp_leaf_count c) leaves)) \<noteq> cp_root_hash c then
            Inl (checkpoint_error ''CHECKPOINT_CORRUPT''
              ''last checkpoint no longer matches its immutable event prefix'' c)
          else
            bind_result (signing_key s (cp_key_version c)) (\<lambda>key.
            bind_result (checkpoint_signing_bytes c) (\<lambda>payload.
            bind_result (verify_checkpoint_signature payload (cp_signature c) key) (\<lambda>ok.
              if ok then Inr ()
              else Inl (checkpoint_error ''CHECKPOINT_SIGNATURE_INVALID''
                ''last checkpoint signature failed verification'' c)))))"

definition new_checkpoint ::
    "sealer \<Rightarrow> checkpoint_row option \<Rightarrow> int \<Rightarrow> bytes list \<Rightarrow> uuid \<Rightarrow> datetime \<Rightarrow> checkpoint_row" where
  "new_checkpoint s previous target leaves checkpoint_id now =
     \<lparr>cp_checkpoint_id = checkpoint_id, cp_leaf_count = int (length leaves),
      cp_last_event_sequence = target, cp_root_hash = hex (merkle_root leaves),
      cp_previous_checkpoint_id = map_option cp_checkpoint_id previous,
      cp_previous_root_hash = map_option cp_root_hash previous,
      cp_key_version = sl_current_key_version s, cp_created_at = now, cp_signature = []\<rparr>"

definition sign_new ::
    "sealer \<Rightarrow> checkpoint_row option \<Rightarrow> int \<Rightarrow> bytes list \<Rightarrow> uuid \<Rightarrow> datetime \<Rightarrow> checkpoint_row result" where
  "sign_new s previous target leaves checkpoint_id now =
     (let checkpoint = new_checkpoint s previous target leaves checkpoint_id now in
      bind_result (signing_key s (sl_current_key_version s)) (\<lambda>key.
      map_result (\<lambda>payload. checkpoint\<lparr>cp_signature := sign_checkpoint payload key\<rparr>)
        (checkpoint_signing_bytes checkpoint)))"

definition seal_events :: "sealer \<Rightarrow> checkpoint_row option \<Rightarrow> int \<Rightarrow> event_row list \<Rightarrow> seal_result op" where
  "seal_events s previous target es =
     bind_op (lift_op (traverse check_leaf es)) (\<lambda>leaves.
     bind_op (lift_op (check_previous s previous leaves)) (\<lambda>_.
     bind_op uuid_op (\<lambda>checkpoint_id.
     bind_op clock_op (\<lambda>now.
     bind_op (lift_op (sign_new s previous target leaves checkpoint_id now)) (\<lambda>checkpoint.
     bind_op (insert_checkpoint checkpoint) (\<lambda>row.
       return_op \<lparr>sr_status = Sealed, sr_checkpoint = Some row\<rparr>))))))"

definition seal_batch :: "sealer \<Rightarrow> checkpoint_row option \<Rightarrow> event_row list \<Rightarrow> seal_result op" where
  "seal_batch s previous batch =
     (if batch = [] then return_op \<lparr>sr_status = Idle, sr_checkpoint = None\<rparr>
      else
        let target = ev_sequence (last batch) in
        bind_op (select_op (\<lambda>d. events_up_to target (events d))) (\<lambda>es.
          let expected = previous_count previous + int (length batch) in
          if int (length es) \<noteq> expected then raise_op (sequence_corrupt expected (int (length es)))
          else seal_events s previous target es))"

definition seal_once :: "sealer \<Rightarrow> seal_result op" where
  "seal_once s = transaction (bind_op try_lock_op (\<lambda>acquired.
     if \<not> acquired then return_op \<lparr>sr_status = Busy, sr_checkpoint = None\<rparr>
     else
       bind_op (lock_row (\<lambda>c. CheckpointLock (cp_checkpoint_id c)) last_checkpoint) (\<lambda>previous.
       bind_op (select_op (\<lambda>d. next_batch (sl_batch_size s) (previous_sequence previous) (events d)))
         (seal_batch s previous))))"

text \<open>
  \<open>src/ledger/sealer.py\<close>, \<open>run\<close>: poll until stopped. Ledger and database errors are logged and the
  loop goes on; any other exception ends it. The number of polls before the stop signal is given.
\<close>

definition sealer_poll :: "sealer \<Rightarrow> seal_result option op" where
  "sealer_poll s = (\<lambda>env w.
     case seal_once s env w of
       (Inl x, w') \<Rightarrow> if is_ledger_error x \<or> is_database_error x then (Inr None, w') else (Inl x, w')
     | (Inr r, w') \<Rightarrow> (Inr (Some r), w'))"

fun sealer_run :: "sealer \<Rightarrow> nat \<Rightarrow> unit op" where
  "sealer_run s 0 = return_op ()"
| "sealer_run s (Suc n) = bind_op (sealer_poll s) (\<lambda>_. sealer_run s n)"

subsection \<open>Facts about the steps\<close>

lemma signing_key_Inr [simp]: "signing_key s v = Inr key \<longleftrightarrow> sl_keyring s v = Some key"
  by (auto simp: signing_key_def require_key_def split: option.splits)

definition unknown_key :: "pystr \<Rightarrow> exn" where
  "unknown_key version =
     LedgerError \<lparr>code = py ''UNKNOWN_KEY_VERSION'',
       message = py ''unknown HMAC key version: '' @ version, status_code = 500,
       details = [(py ''key_version'', JStr version)]\<rparr>"

lemma signing_key_Inl: "signing_key s v = Inl x \<longleftrightarrow> sl_keyring s v = None \<and> x = unknown_key v"
  by (auto simp: signing_key_def require_key_def unknown_key_def split: option.splits)

text \<open>The leaf of a stored event, and the leaves of the prefix up to a sequence.\<close>

definition leaf_of :: "event_row \<Rightarrow> bytes" where
  "leaf_of e = leaf_hash (projr (event_commitment_bytes e))"

definition prefix_leaves :: "event_row list \<Rightarrow> int \<Rightarrow> bytes list" where
  "prefix_leaves es target = map leaf_of (events_up_to target es)"

lemma check_leaf_Inr: "check_leaf e = Inr l \<longleftrightarrow> committed e \<and> l = leaf_of e"
  by (auto simp: check_leaf_def committed_def leaf_of_def result_simps split: sum.splits)

lemma traverse_check_leaf:
  "traverse check_leaf es = Inr leaves \<longleftrightarrow> (\<forall>e \<in> set es. committed e) \<and> leaves = map leaf_of es"
proof -
  have "traverse check_leaf es = Inr leaves \<longleftrightarrow> list_all2 (\<lambda>e l. committed e \<and> l = leaf_of e) es leaves"
    by (simp add: traverse_Inr_iff check_leaf_Inr)
  also have "\<dots> \<longleftrightarrow> (\<forall>e \<in> set es. committed e) \<and> leaves = map leaf_of es"
    by (induction es arbitrary: leaves) (auto simp: list_all2_Cons1)
  finally show ?thesis .
qed

definition signed :: "keyring \<Rightarrow> checkpoint_row \<Rightarrow> bool" where
  "signed keyring c =
     (case (keyring (cp_key_version c), checkpoint_signing_bytes c) of
        (Some key, Inr payload) \<Rightarrow> cp_signature c = sign_checkpoint payload key
      | _ \<Rightarrow> False)"

lemma check_previous_Some:
  "check_previous s (Some c) leaves = Inr () \<longleftrightarrow>
     hex (merkle_root (slice_to (cp_leaf_count c) leaves)) = cp_root_hash c \<and> signed (sl_keyring s) c"
  by (auto simp: check_previous_def signed_def result_simps verify_checkpoint_signature_iff
      split: option.splits sum.splits)

lemma sign_new_Inr:
  assumes "sign_new s previous target leaves i now = Inr c"
  shows "signed (sl_keyring s) c \<and> cp_checkpoint_id c = i \<and> cp_leaf_count c = int (length leaves) \<and>
    cp_last_event_sequence c = target \<and> cp_root_hash c = hex (merkle_root leaves) \<and>
    cp_previous_checkpoint_id c = map_option cp_checkpoint_id previous \<and>
    cp_previous_root_hash c = map_option cp_root_hash previous \<and>
    cp_key_version c = sl_current_key_version s \<and> cp_created_at c = now"
proof -
  define c0 where "c0 = new_checkpoint s previous target leaves i now"
  obtain key payload where k: "sl_keyring s (sl_current_key_version s) = Some key"
      "checkpoint_signing_bytes c0 = Inr payload" and c: "c = c0\<lparr>cp_signature := sign_checkpoint payload key\<rparr>"
    using assms unfolding sign_new_def Let_def c0_def [symmetric] bind_result_Inr_iff map_result_Inr_iff
    by auto
  have "checkpoint_signing_bytes c = checkpoint_signing_bytes c0"
    unfolding c by (rule checkpoint_signing_bytes_cong) (simp add: same_payload_def)
  moreover have "cp_key_version c = sl_current_key_version s"
    by (simp add: c c0_def new_checkpoint_def)
  ultimately have "signed (sl_keyring s) c"
    using k by (simp add: signed_def c)
  then show ?thesis
    unfolding c by (simp add: c0_def new_checkpoint_def)
qed

subsection \<open>The abstract sealer\<close>

text \<open>
  What sealing does to one snapshot of the ledger: no checkpoint when there is nothing to seal,
  otherwise the next checkpoint, or the error the snapshot deserves.
\<close>

definition seal_spec :: "sealer \<Rightarrow> ledger_db \<Rightarrow> uuid \<Rightarrow> datetime \<Rightarrow> checkpoint_row option result" where
  "seal_spec s d i now =
     (let previous = last_checkpoint d;
          batch = next_batch (sl_batch_size s) (previous_sequence previous) (events d);
          target = ev_sequence (last batch);
          es = events_up_to target (events d);
          expected = previous_count previous + int (length batch) in
      if batch = [] then Inr None
      else if int (length es) \<noteq> expected then Inl (sequence_corrupt expected (int (length es)))
      else bind_result (traverse check_leaf es) (\<lambda>leaves.
        bind_result (check_previous s previous leaves) (\<lambda>_.
        map_result Some (sign_new s previous target leaves i now))))"

text \<open>While the lock is held, the log stays as it was when the lock was granted.\<close>

definition fenced :: "nat \<Rightarrow> ledger_db \<Rightarrow> row_change list \<Rightarrow> row_change list \<Rightarrow> world \<Rightarrow> bool" where
  "fenced t d dn ms w \<longleftrightarrow>
     events (shared w) = events d \<and> checkpoints (shared w) = checkpoints d \<and>
     written w = dn \<and> mine w = ms \<and> SealerLock \<in> set (held w) \<and> t \<le> tick w"

lemma interfere_fenced:
  assumes "respects_locks env" "fenced t d dn ms w"
  shows "fenced t d dn ms (interfere env w)"
  using assms by (simp add: fenced_def respects_locks_def Let_def)

lemma fenced_visible:
  "fenced t d dn [] w \<Longrightarrow> events (visible w) = events d \<and> checkpoints (visible w) = checkpoints d"
  by (simp add: fenced_def)

lemma fenced_log [simp]: "fenced t d dn ms (log_entry e w) = fenced t d dn ms w"
  by (simp add: fenced_def)

lemma fenced_hold: "fenced t d dn ms w \<Longrightarrow> fenced t d dn ms (hold rs w)"
  by (simp add: fenced_def)

lemma fenced_change: "fenced t d dn [] w \<Longrightarrow> fenced t d dn [a] (change_op a w)"
  by (auto simp: fenced_def)

lemma fenced_interfere_visible:
  assumes "respects_locks env" "fenced t d dn [] w"
    and "\<And>d'. events d' = events d \<Longrightarrow> checkpoints d' = checkpoints d \<Longrightarrow> f d' = f d"
  shows "f (visible (interfere env w)) = f d \<and> fenced t d dn [] (interfere env w)"
  using interfere_fenced [OF assms(1,2)] fenced_visible assms(3) by blast

lemma fenced_select:
  assumes "respects_locks env"
    and "\<And>d'. events d' = events d \<Longrightarrow> checkpoints d' = checkpoints d \<Longrightarrow> f d' = f d"
  shows "valid env (fenced t d dn []) (select_op f) (\<lambda>x w. fenced t d dn [] w \<and> x = f d) E"
proof (rule validI)
  fix w assume "fenced t d dn [] w"
  note v = fenced_interfere_visible [where f = f, OF assms(1) this assms(2)]
  show "case select_op f env w of (Inl e, w') \<Rightarrow> E e w' | (Inr x, w') \<Rightarrow> fenced t d dn [] w' \<and> x = f d"
    using v by (simp add: select_op_def Let_def)
qed

lemma fenced_lock_row:
  assumes "respects_locks env"
    and "\<And>d'. events d' = events d \<Longrightarrow> checkpoints d' = checkpoints d \<Longrightarrow> f d' = f d"
  shows "valid env (fenced t d dn []) (lock_row res f) (\<lambda>x w. fenced t d dn [] w \<and> x = f d) E"
proof (rule validI)
  fix w assume "fenced t d dn [] w"
  note v = fenced_interfere_visible [where f = f, OF assms(1) this assms(2)]
  show "case lock_row res f env w of (Inl e, w') \<Rightarrow> E e w' | (Inr x, w') \<Rightarrow> fenced t d dn [] w' \<and> x = f d"
    using v by (simp add: lock_row_def Let_def fenced_hold)
qed

lemma fenced_uuid:
  "valid env (fenced t d dn ms) uuid_op
     (\<lambda>i w. \<exists>k \<ge> t. i = uuid_factory env k \<and> fenced (Suc k) d dn ms w) E"
  by (auto simp: valid_def uuid_op_def fenced_def)

lemma fenced_clock:
  "valid env (fenced t d dn ms) clock_op (\<lambda>now w. now \<in> range (clock env) \<and> fenced t d dn ms w) E"
  by (auto simp: valid_def clock_op_def fenced_def)

lemma fenced_insert_checkpoint:
  assumes "respects_locks env"
  shows "valid env (fenced t d dn []) (insert_checkpoint c)
    (\<lambda>row w. row = c \<and> fenced t d dn [InsertCheckpoint c] w \<and> checkpoint_fits (checkpoints d) c)
    (\<lambda>x w. x = IntegrityError \<and> \<not> checkpoint_fits (checkpoints d) c \<and> fenced t d dn [] w)"
proof (rule validI)
  fix w assume "fenced t d dn [] w"
  then have w: "fenced t d dn [] (interfere env w)"
    by (rule interfere_fenced [OF assms])
  then have "checkpoints (visible (interfere env w)) = checkpoints d"
    using fenced_visible by blast
  then show "case insert_checkpoint c env w of
      (Inl x, w') \<Rightarrow> x = IntegrityError \<and> \<not> checkpoint_fits (checkpoints d) c \<and> fenced t d dn [] w'
    | (Inr row, w') \<Rightarrow> row = c \<and> fenced t d dn [InsertCheckpoint c] w' \<and> checkpoint_fits (checkpoints d) c"
    using w fenced_change [OF w] by (simp add: insert_checkpoint_def Let_def)
qed

text \<open>
  The session program computes the specification, with an id drawn since the lock was granted and
  a reading of the clock. \<open>spec\<close> is a function of both.
\<close>

definition sealed_as ::
    "environment \<Rightarrow> nat \<Rightarrow> (uuid \<Rightarrow> datetime \<Rightarrow> checkpoint_row option result) \<Rightarrow> ledger_db \<Rightarrow> row_change list \<Rightarrow>
     seal_result \<Rightarrow> world \<Rightarrow> bool" where
  "sealed_as env t spec d dn r w \<longleftrightarrow>
     (\<exists>k \<ge> t. \<exists>now \<in> range (clock env).
       case spec (uuid_factory env k) now of
         Inr None \<Rightarrow> r = \<lparr>sr_status = Idle, sr_checkpoint = None\<rparr> \<and> fenced t d dn [] w
       | Inr (Some c) \<Rightarrow> r = \<lparr>sr_status = Sealed, sr_checkpoint = Some c\<rparr> \<and>
           fenced (Suc k) d dn [InsertCheckpoint c] w \<and> checkpoint_fits (checkpoints d) c
       | Inl _ \<Rightarrow> False)"

definition seal_failed ::
    "environment \<Rightarrow> nat \<Rightarrow> (uuid \<Rightarrow> datetime \<Rightarrow> checkpoint_row option result) \<Rightarrow> ledger_db \<Rightarrow> row_change list \<Rightarrow>
     exn \<Rightarrow> world \<Rightarrow> bool" where
  "seal_failed env t spec d dn x w \<longleftrightarrow> fenced t d dn [] w \<and>
     (\<exists>k \<ge> t. \<exists>now \<in> range (clock env).
       spec (uuid_factory env k) now = Inl x \<or>
       x = IntegrityError \<and> k < tick w \<and>
         (\<exists>c. spec (uuid_factory env k) now = Inr (Some c) \<and> \<not> checkpoint_fits (checkpoints d) c))"

lemma seal_failedI:
  "fenced t d dn [] w \<Longrightarrow> (\<And>i now. spec i now = Inl x) \<Longrightarrow> seal_failed env t spec d dn x w"
  by (auto simp: seal_failed_def)

text \<open>Drawing an id, signing and inserting.\<close>

lemma seal_signed_valid:
  assumes "respects_locks env"
  shows "valid env (fenced t d dn []) (bind_op uuid_op (\<lambda>i. bind_op clock_op (\<lambda>now.
      bind_op (lift_op (new i now)) (\<lambda>checkpoint.
      bind_op (insert_checkpoint checkpoint) (\<lambda>row.
        return_op \<lparr>sr_status = Sealed, sr_checkpoint = Some row\<rparr>)))))
    (sealed_as env t (\<lambda>i now. map_result Some (new i now)) d dn)
    (seal_failed env t (\<lambda>i now. map_result Some (new i now)) d dn)"
proof (rule valid_bind [OF fenced_uuid])
  fix i
  let ?spec = "\<lambda>i now. map_result Some (new i now)"
  let ?rest = "\<lambda>now. bind_op (lift_op (new i now)) (\<lambda>checkpoint.
      bind_op (insert_checkpoint checkpoint) (\<lambda>row.
        return_op \<lparr>sr_status = Sealed, sr_checkpoint = Some row\<rparr>))"
  have "valid env (fenced (Suc k) d dn []) (bind_op clock_op ?rest)
      (sealed_as env t ?spec d dn) (seal_failed env t ?spec d dn)"
    if k: "t \<le> k" "i = uuid_factory env k" for k
  proof (rule valid_bind [OF fenced_clock])
    fix now
    have low: "fenced (Suc k) d dn [] w \<Longrightarrow> fenced t d dn [] w" for w
      using k by (simp add: fenced_def)
    have "valid env (fenced (Suc k) d dn []) (?rest now)
        (sealed_as env t ?spec d dn) (seal_failed env t ?spec d dn)"
      if now: "now \<in> range (clock env)"
    proof (cases "new i now")
      case (Inl x)
        have "?spec (uuid_factory env k) now = Inl x"
          using Inl k by simp
        then have "seal_failed env t ?spec d dn x w" if "fenced (Suc k) d dn [] w" for w
          using low [OF that] k(1) now unfolding seal_failed_def by blast
        then show ?thesis
          by (simp add: bind_lift Inl valid_raise)
    next
      case (Inr c)
      have spec: "?spec (uuid_factory env k) now = Inr (Some c)"
        using Inr k by simp
      have ok: "sealed_as env t ?spec d dn \<lparr>sr_status = Sealed, sr_checkpoint = Some c\<rparr> w"
        if "fenced (Suc k) d dn [InsertCheckpoint c] w" "checkpoint_fits (checkpoints d) c" for w
        unfolding sealed_as_def by (rule exI [of _ k], intro conjI k(1) bexI [OF _ now]) (simp add: spec that)
      have bad: "seal_failed env t ?spec d dn IntegrityError w"
        if "fenced (Suc k) d dn [] w" "\<not> checkpoint_fits (checkpoints d) c" for w
      proof -
        have "k < tick w"
          using that(1) by (simp add: fenced_def)
        then show ?thesis
          using low [OF that(1)] that(2) k(1) now spec unfolding seal_failed_def by blast
      qed
      have "valid env (fenced (Suc k) d dn []) (bind_op (insert_checkpoint c) (\<lambda>row.
           return_op \<lparr>sr_status = Sealed, sr_checkpoint = Some row\<rparr>))
        (sealed_as env t ?spec d dn) (seal_failed env t ?spec d dn)"
      proof (rule valid_then [OF fenced_insert_checkpoint [OF assms, where c = c]])
        fix row
        show "valid env (\<lambda>w. row = c \<and> fenced (Suc k) d dn [InsertCheckpoint c] w \<and>
              checkpoint_fits (checkpoints d) c)
            (return_op \<lparr>sr_status = Sealed, sr_checkpoint = Some row\<rparr>)
            (sealed_as env t ?spec d dn) (seal_failed env t ?spec d dn)"
          using ok by (intro valid_return) blast
      qed (use bad in blast)
      then show ?thesis
        by (simp add: bind_lift Inr)
    qed
    then show "valid env (\<lambda>w. now \<in> range (clock env) \<and> fenced (Suc k) d dn [] w) (?rest now)
        (sealed_as env t ?spec d dn) (seal_failed env t ?spec d dn)"
      by (simp add: valid_def)
  qed
  then show "valid env (\<lambda>w. \<exists>k \<ge> t. i = uuid_factory env k \<and> fenced (Suc k) d dn [] w)
      (bind_op clock_op ?rest) (sealed_as env t ?spec d dn) (seal_failed env t ?spec d dn)"
    by (intro valid_ex valid_when)
qed

lemma seal_events_valid:
  assumes "respects_locks env"
    and spec: "spec = (\<lambda>i now. bind_result (traverse check_leaf es) (\<lambda>leaves.
        bind_result (check_previous s previous leaves) (\<lambda>_.
        map_result Some (sign_new s previous target leaves i now))))"
  shows "valid env (fenced t d dn []) (seal_events s previous target es)
    (sealed_as env t spec d dn) (seal_failed env t spec d dn)"
proof (cases "traverse check_leaf es")
  case (Inl x)
  then show ?thesis
    by (auto simp: seal_events_def bind_lift spec intro!: valid_raise seal_failedI)
next
  case (Inr leaves)
  show ?thesis
  proof (cases "check_previous s previous leaves")
    case (Inl x)
    with Inr show ?thesis
      by (auto simp: seal_events_def bind_lift spec intro!: valid_raise seal_failedI)
  next
    case (Inr u)
    then show ?thesis
      using seal_signed_valid [OF assms(1), of t d dn "sign_new s previous target leaves"]
        \<open>traverse check_leaf es = Inr leaves\<close>
      by (simp add: seal_events_def bind_lift spec)
  qed
qed

lemma seal_batch_valid:
  assumes "respects_locks env" "previous = last_checkpoint d"
    and "batch = next_batch (sl_batch_size s) (previous_sequence previous) (events d)"
  shows "valid env (fenced t d dn []) (seal_batch s previous batch)
    (sealed_as env t (seal_spec s d) d dn) (seal_failed env t (seal_spec s d) d dn)"
proof (cases "batch = []")
  case True
  then have "seal_spec s d i now = Inr None" for i now
    using assms(2,3) by (simp add: seal_spec_def Let_def)
  with True show ?thesis
    by (auto simp: seal_batch_def sealed_as_def intro!: valid_return)
next
  case False
  let ?target = "ev_sequence (last batch)"
  let ?es = "events_up_to ?target (events d)"
  let ?expected = "previous_count previous + int (length batch)"
  let ?run = "if int (length ?es) \<noteq> ?expected then raise_op (sequence_corrupt ?expected (int (length ?es)))
    else seal_events s previous ?target ?es"
  have "valid env (fenced t d dn []) ?run
    (sealed_as env t (seal_spec s d) d dn) (seal_failed env t (seal_spec s d) d dn)"
  proof (cases "int (length ?es) = ?expected")
    case True
    have "seal_spec s d = (\<lambda>i now. bind_result (traverse check_leaf ?es) (\<lambda>leaves.
        bind_result (check_previous s previous leaves) (\<lambda>_.
        map_result Some (sign_new s previous ?target leaves i now))))"
      using False True assms(2,3) by (simp add: seal_spec_def Let_def fun_eq_iff)
    then show ?thesis
      using True seal_events_valid [OF assms(1)] by simp
  next
    case diff: False
    have "seal_spec s d i now = Inl (sequence_corrupt ?expected (int (length ?es)))" for i now
      using False diff assms(2,3) by (simp add: seal_spec_def Let_def)
    then show ?thesis
      using diff by (simp add: valid_raise seal_failedI)
  qed
  then show ?thesis
    unfolding seal_batch_def Let_def if_not_P [OF False]
    by (rule valid_known [OF fenced_select [OF assms(1)], rotated]) simp
qed

lemma seal_locked_valid:
  assumes "respects_locks env"
  shows "valid env (fenced t d dn [])
    (bind_op (lock_row (\<lambda>c. CheckpointLock (cp_checkpoint_id c)) last_checkpoint) (\<lambda>previous.
       bind_op (select_op (\<lambda>d. next_batch (sl_batch_size s) (previous_sequence previous) (events d)))
         (seal_batch s previous)))
    (sealed_as env t (seal_spec s d) d dn) (seal_failed env t (seal_spec s d) d dn)"
  by (rule valid_known [OF fenced_lock_row [OF assms]],
      simp add: last_checkpoint_def,
      rule valid_known [OF fenced_select [OF assms]], simp,
      rule seal_batch_valid [OF assms refl refl])

end
