(* ===== verification/Seal_Invariant.thy ===== *)
theory Seal_Invariant
  imports Sealing
begin

section \<open>The invariant of the checkpoints\<close>

text \<open>
  Every checkpoint covers a prefix of the events, commits to it with its root, is signed, and
  names its predecessor; the abstract sealer keeps that, and on a ledger that has it none of the
  corruption errors is raised.
\<close>

subsection \<open>Prefixes of the log\<close>

lemma sorted_filter_split:
  assumes "sorted (map f xs)"
  shows "xs = filter (\<lambda>x. f x \<le> (t :: int)) xs @ filter (\<lambda>x. t < f x) xs"
  using assms
proof (induction xs)
  case (Cons x xs)
  show ?case
  proof (cases "f x \<le> t")
    case False
    then have "t < f y" if "y \<in> set (x # xs)" for y
      using that Cons.prems by fastforce
    then have "filter (\<lambda>x. f x \<le> t) (x # xs) = []" "filter (\<lambda>x. t < f x) (x # xs) = x # xs"
      by (force simp: filter_empty_conv, simp)
    then show ?thesis by simp
  qed (use Cons in simp)
qed simp

lemma sorted_distinct_append:
  assumes "sorted (map f (xs @ ys))" "distinct (map f (xs @ ys))" "x \<in> set xs" "y \<in> set ys"
  shows "f x < (f y :: int)"
proof -
  have "f x \<le> f y" "f x \<noteq> f y"
    using assms by (auto simp: sorted_append)
  then show ?thesis by simp
qed

lemma filter_upto_last_take:
  assumes "sorted (map f xs)" "distinct (map f xs)" "take n xs \<noteq> []"
  shows "filter (\<lambda>x. f x \<le> (f (last (take n xs)) :: int)) xs = take n xs"
proof -
  let ?a = "take n xs" and ?b = "drop n xs"
  have split: "sorted (map f (?a @ ?b))" "distinct (map f (?a @ ?b))"
    using assms by simp_all
  have "f x \<le> f (last ?a)" if "x \<in> set ?a" for x
  proof (cases "x = last ?a")
    case False
    have eq: "butlast ?a @ [last ?a] = ?a"
      using assms(3) by simp
    have "x \<in> set (butlast ?a @ [last ?a])"
      unfolding eq by (rule that)
    then have "x \<in> set (butlast ?a)"
      using False by simp
    moreover have "sorted (map f (butlast ?a @ [last ?a]))"
      unfolding eq using split(1) unfolding map_append sorted_append by blast
    ultimately show ?thesis
      by (auto simp: sorted_append)
  qed simp
  then have "filter (\<lambda>x. f x \<le> f (last ?a)) ?a = ?a"
    by simp
  moreover have "filter (\<lambda>x. f x \<le> f (last ?a)) ?b = []"
    using sorted_distinct_append [OF split last_in_set [OF assms(3)]]
    by (force simp: filter_empty_conv)
  ultimately have "filter (\<lambda>x. f x \<le> f (last ?a)) (?a @ ?b) = ?a"
    by (simp only: filter_append append_Nil2)
  then show ?thesis
    by simp
qed

lemma filter_sort_key: "filter P (sort_key f xs) = sort_key f (filter P xs)"
  by (rule filter_sort)

text \<open>The batch after a boundary extends the prefix up to the boundary.\<close>

lemma events_up_to_extend:
  assumes "distinct (map ev_sequence es)" "next_batch n l es = batch" "batch \<noteq> []"
  shows "events_up_to (ev_sequence (last batch)) es = events_up_to l es @ batch"
    and "l < ev_sequence (last batch)" "last batch \<in> set es"
proof -
  define S where "S = sort_key ev_sequence es"
  define A where "A = filter (\<lambda>e. ev_sequence e \<le> l) S"
  define B where "B = filter (\<lambda>e. l < ev_sequence e) S"
  have S: "sorted (map ev_sequence S)" "distinct (map ev_sequence S)"
  proof -
    show "distinct (map ev_sequence S)"
      using assms(1) by (simp add: S_def distinct_map distinct_sort)
  qed (simp add: S_def)
  have SAB: "S = A @ B"
    unfolding A_def B_def by (rule sorted_filter_split [OF S(1)])
  have B: "sorted (map ev_sequence B)" "distinct (map ev_sequence B)"
    using S unfolding SAB by (simp_all add: sorted_append)
  have batch: "batch = take (nat n) B"
    using assms(2) by (simp add: next_batch_def B_def S_def filter_sort)
  have last: "last batch \<in> set B"
    using last_in_set [OF assms(3)] in_set_takeD [of "last batch" "nat n" B]
    by (simp only: batch [symmetric])
  then show "l < ev_sequence (last batch)" "last batch \<in> set es"
    by (auto simp: B_def S_def)
  have "filter (\<lambda>e. ev_sequence e \<le> ev_sequence (last batch)) A = A"
    using \<open>l < _\<close> by (subst filter_id_conv) (auto simp: A_def)
  moreover have "filter (\<lambda>e. ev_sequence e \<le> ev_sequence (last batch)) B = batch"
    using filter_upto_last_take [OF B, of "nat n"] assms(3) by (simp add: batch)
  ultimately have "filter (\<lambda>e. ev_sequence e \<le> ev_sequence (last batch)) S = A @ batch"
    unfolding SAB by simp
  then show "events_up_to (ev_sequence (last batch)) es = events_up_to l es @ batch"
    by (simp add: events_up_to_def S_def A_def filter_sort)
qed

lemma events_up_to_grow:
  "(\<And>e. e \<in> set new \<Longrightarrow> t < ev_sequence e) \<Longrightarrow> events_up_to t (es @ new) = events_up_to t es"
  by (auto simp: events_up_to_def filter_empty_conv not_le)

lemma set_events_up_to: "set (events_up_to t es) = {e \<in> set es. ev_sequence e \<le> t}"
  by (auto simp: events_up_to_def)

lemma events_up_to_0: "(\<And>e. e \<in> set es \<Longrightarrow> 0 < ev_sequence e) \<Longrightarrow> events_up_to 0 es = []"
  unfolding events_up_to_def by (subst filter_False) (simp_all add: not_le)

subsection \<open>The invariant\<close>

definition sealed_ok :: "keyring \<Rightarrow> event_row list \<Rightarrow> checkpoint_row \<Rightarrow> bool" where
  "sealed_ok keyring es c \<longleftrightarrow>
     cp_leaf_count c = int (length (events_up_to (cp_last_event_sequence c) es)) \<and>
     cp_root_hash c = hex (merkle_root (prefix_leaves es (cp_last_event_sequence c))) \<and>
     cp_last_event_sequence c \<in> ev_sequence ` set es \<and> signed keyring c"

definition follows :: "checkpoint_row option \<Rightarrow> checkpoint_row \<Rightarrow> bool" where
  "follows previous c \<longleftrightarrow>
     cp_previous_checkpoint_id c = map_option cp_checkpoint_id previous \<and>
     cp_previous_root_hash c = map_option cp_root_hash previous \<and>
     previous_count previous < cp_leaf_count c \<and>
     previous_sequence previous < cp_last_event_sequence c"

fun chained :: "checkpoint_row option \<Rightarrow> checkpoint_row list \<Rightarrow> bool" where
  "chained previous [] = True"
| "chained previous (c # cs) = (follows previous c \<and> chained (Some c) cs)"

definition seals_ok :: "keyring \<Rightarrow> ledger_db \<Rightarrow> bool" where
  "seals_ok keyring d \<longleftrightarrow>
     checkpoint_table (checkpoints d) \<and> chained None (checkpoints d) \<and>
     (\<forall>c \<in> set (checkpoints d). sealed_ok keyring (events d) c)"

lemma seals_ok_empty [simp]: "seals_ok keyring empty_db"
  by (simp add: seals_ok_def empty_db_def)

lemma chained_snoc:
  "chained p (cs @ [c]) \<longleftrightarrow> chained p cs \<and> follows (if cs = [] then p else Some (last cs)) c"
  by (induction cs arbitrary: p) auto

lemma chained_above: "chained p cs \<Longrightarrow> c \<in> set cs \<Longrightarrow> previous_count p < cp_leaf_count c"
proof (induction cs arbitrary: p)
  case (Cons x cs)
  then have "previous_count p < cp_leaf_count x" by (simp add: follows_def)
  moreover have "c \<in> set cs \<Longrightarrow> cp_leaf_count x < cp_leaf_count c"
    using Cons.IH [of "Some x"] Cons.prems by (simp add: previous_count_def)
  ultimately show ?case
    using Cons.prems by auto
qed simp

lemma chained_sorted: "chained p cs \<Longrightarrow> sorted (map cp_leaf_count cs)"
proof (induction cs arbitrary: p)
  case (Cons x cs)
  then have "cp_leaf_count x < cp_leaf_count c" if "c \<in> set cs" for c
    using that chained_above [of "Some x" cs c] by (simp add: previous_count_def)
  then show ?case
    using Cons by (fastforce simp: less_imp_le)
qed simp

lemma last_checkpoint_chained:
  assumes "chained None (checkpoints d)"
  shows "last_checkpoint d = (if checkpoints d = [] then None else Some (last (checkpoints d)))"
  using chained_sorted [OF assms] by (simp add: last_checkpoint_def last_by_def sort_key_id_if_sorted)

lemma sealed_ok_grow:
  assumes "sealed_ok keyring es c" "\<And>e. e \<in> set new \<Longrightarrow> cp_last_event_sequence c < ev_sequence e"
  shows "sealed_ok keyring (es @ new) c"
  using assms(1) events_up_to_grow [of new "cp_last_event_sequence c" es] assms(2)
  by (auto simp: sealed_ok_def prefix_leaves_def)

lemma chained_last_max:
  assumes "chained p cs" "c \<in> set cs"
  shows "cp_last_event_sequence c \<le> cp_last_event_sequence (last cs)"
  using assms
proof (induction cs rule: rev_induct)
  case (snoc x cs)
  then show ?case
    by (cases "cs = []") (auto simp: chained_snoc follows_def previous_sequence_def)
qed simp

text \<open>New events above the last boundary leave every checkpoint as it is.\<close>

lemma seals_ok_append_events:
  assumes "seals_ok keyring d" "checkpoints d' = checkpoints d" "events d' = events d @ new"
    and "\<And>e. e \<in> set new \<Longrightarrow> previous_sequence (last_checkpoint d) < ev_sequence e"
  shows "seals_ok keyring d'"
proof -
  have chain: "chained None (checkpoints d)"
    using assms(1) by (simp add: seals_ok_def)
  have "cp_last_event_sequence c < ev_sequence e" if "c \<in> set (checkpoints d)" "e \<in> set new" for c e
  proof -
    have "checkpoints d \<noteq> []" using that(1) by auto
    then have "cp_last_event_sequence c \<le> previous_sequence (last_checkpoint d)"
      using chained_last_max [OF chain that(1)]
      by (simp add: last_checkpoint_chained [OF chain] previous_sequence_def)
    with assms(4) [OF that(2)] show ?thesis by simp
  qed
  then show ?thesis
    using assms(1) sealed_ok_grow by (auto simp: seals_ok_def assms(2,3))
qed

subsection \<open>Sealing keeps the invariant\<close>

lemma length_prefix_leaves: "length (prefix_leaves es t) = length (events_up_to t es)"
  by (simp add: prefix_leaves_def)

lemma seal_spec_Some:
  assumes "seal_spec s d i now = Inr (Some c)"
  obtains batch :: "event_row list" and previous where "previous = last_checkpoint d"
    and "cp_last_event_sequence c = ev_sequence (last batch)"
    and "\<forall>e \<in> set (events_up_to (ev_sequence (last batch)) (events d)). committed e"
    and "check_previous s previous (prefix_leaves (events d) (ev_sequence (last batch))) = Inr ()"
    and "sign_new s previous (ev_sequence (last batch))
      (prefix_leaves (events d) (ev_sequence (last batch))) i now = Inr c"
proof -
  let ?previous = "last_checkpoint d"
  let ?batch = "next_batch (sl_batch_size s) (previous_sequence ?previous) (events d)"
  let ?t = "ev_sequence (last ?batch)"
  let ?es = "events_up_to ?t (events d)"
  have ne: "?batch \<noteq> []"
    using assms by (auto simp: seal_spec_def Let_def split: if_splits)
  have len: "int (length ?es) = previous_count ?previous + int (length ?batch)"
    using assms ne by (simp add: seal_spec_def Let_def split: if_splits)
  obtain leaves u where "traverse check_leaf ?es = Inr leaves"
    "check_previous s ?previous leaves = Inr u" "sign_new s ?previous ?t leaves i now = Inr c"
    using assms ne len by (auto simp: seal_spec_def Let_def result_simps)
  then show thesis
    using that [OF refl, of ?batch] sign_new_Inr
    by (auto simp: traverse_check_leaf prefix_leaves_def)
qed

text \<open>On a sound ledger the sealer's checks pass, so sealing is just signing the next prefix.\<close>

lemma last_checkpoint_sealed:
  assumes "seals_ok keyring d" "last_checkpoint d = Some c"
  shows "sealed_ok keyring (events d) c" "c \<in> set (checkpoints d)"
proof -
  show "c \<in> set (checkpoints d)"
    using last_by_Some [of cp_leaf_count "checkpoints d" c] assms(2) by (simp add: last_checkpoint_def)
  then show "sealed_ok keyring (events d) c"
    using assms(1) by (simp add: seals_ok_def)
qed

lemma previous_prefix:
  assumes "ledger_ok d" "seals_ok keyring d"
  shows "previous_count (last_checkpoint d) =
    int (length (events_up_to (previous_sequence (last_checkpoint d)) (events d)))"
proof (cases "last_checkpoint d")
  case None
  then show ?thesis
    using ledger_okD(3) [OF assms(1)] by (simp add: previous_count_def previous_sequence_def events_up_to_0)
next
  case (Some c)
  then show ?thesis
    using last_checkpoint_sealed [OF assms(2) Some]
    by (simp add: previous_count_def previous_sequence_def sealed_ok_def)
qed

lemma extended_prefix:
  assumes "ledger_ok d" "next_batch n l (events d) \<noteq> []"
  shows "events_up_to (ev_sequence (last (next_batch n l (events d)))) (events d) =
    events_up_to l (events d) @ next_batch n l (events d)"
  by (rule events_up_to_extend(1) [OF ledger_okD(2) [OF assms(1)] refl assms(2)])

lemma previous_checked:
  assumes "ledger_ok d" "seals_ok (sl_keyring s) d"
    and "leaves = prefix_leaves (events d) (previous_sequence (last_checkpoint d)) @ rest"
  shows "check_previous s (last_checkpoint d) leaves = Inr ()"
proof (cases "last_checkpoint d")
  case None
  then show ?thesis by (simp add: check_previous_def)
next
  case (Some c)
  note c = last_checkpoint_sealed [OF assms(2) Some]
  have count: "cp_leaf_count c = int (length (prefix_leaves (events d) (cp_last_event_sequence c)))"
    using c(1) by (simp add: sealed_ok_def length_prefix_leaves)
  have "slice_to (cp_leaf_count c) leaves = prefix_leaves (events d) (cp_last_event_sequence c)"
    by (simp add: count assms(3) Some previous_sequence_def)
  then show ?thesis
    using c(1) by (simp add: Some check_previous_Some sealed_ok_def)
qed

lemma seal_spec_sound:
  assumes "ledger_ok d" "seals_ok (sl_keyring s) d"
    and "batch = next_batch (sl_batch_size s) (previous_sequence (last_checkpoint d)) (events d)"
  shows "seal_spec s d i now =
    (if batch = [] then Inr None
     else map_result Some (sign_new s (last_checkpoint d) (ev_sequence (last batch))
       (prefix_leaves (events d) (ev_sequence (last batch))) i now))"
proof (cases "batch = []")
  case False
  let ?l = "previous_sequence (last_checkpoint d)"
  let ?t = "ev_sequence (last batch)"
  have ext: "events_up_to ?t (events d) = events_up_to ?l (events d) @ batch"
    using extended_prefix [OF assms(1)] False assms(3) by simp
  have "traverse check_leaf (events_up_to ?t (events d)) = Inr (prefix_leaves (events d) ?t)"
    using ledger_okD(3) [OF assms(1)] by (simp add: traverse_check_leaf prefix_leaves_def set_events_up_to)
  moreover have "check_previous s (last_checkpoint d) (prefix_leaves (events d) ?t) = Inr ()"
    by (rule previous_checked [OF assms(1,2), where rest = "map leaf_of batch"])
       (simp add: prefix_leaves_def ext)
  moreover have "int (length (events_up_to ?t (events d))) =
      previous_count (last_checkpoint d) + int (length batch)"
    by (simp add: ext previous_prefix [OF assms(1,2)])
  ultimately show ?thesis
    using False by (simp add: seal_spec_def assms(3) [symmetric] Let_def)
qed (simp add: seal_spec_def assms(3) [symmetric] Let_def)

lemma seal_spec_keeps:
  assumes "ledger_ok d" "seals_ok (sl_keyring s) d" "seal_spec s d i now = Inr (Some c)"
    and "checkpoint_fits (checkpoints d) c"
    and "events d' = events d" "checkpoints d' = checkpoints d @ [c]"
  shows "seals_ok (sl_keyring s) d' \<and> follows (last_checkpoint d) c \<and>
    cp_leaf_count c \<le> previous_count (last_checkpoint d) + max 0 (sl_batch_size s)"
proof -
  let ?l = "previous_sequence (last_checkpoint d)"
  define batch where "batch = next_batch (sl_batch_size s) ?l (events d)"
  let ?t = "ev_sequence (last batch)"
  have ne: "batch \<noteq> []" and new: "sign_new s (last_checkpoint d) ?t (prefix_leaves (events d) ?t) i now = Inr c"
    using assms(3) seal_spec_sound [OF assms(1,2) batch_def, of i now]
    by (auto simp: map_result_Inr_iff split: if_splits)
  have ext: "events_up_to ?t (events d) = events_up_to ?l (events d) @ batch"
    using extended_prefix [OF assms(1)] ne batch_def by simp
  have above: "?l < ?t" "last batch \<in> set (events d)"
    using events_up_to_extend(2,3) [OF ledger_okD(2) [OF assms(1)] batch_def [symmetric] ne] by auto
  note fields = sign_new_Inr [OF new]
  have count: "cp_leaf_count c = previous_count (last_checkpoint d) + int (length batch)"
    using fields ext previous_prefix [OF assms(1,2)] by (simp add: length_prefix_leaves)
  then have follows: "follows (last_checkpoint d) c"
    using fields above ne by (simp add: follows_def)
  have "sealed_ok (sl_keyring s) (events d) c"
    using fields above by (simp add: sealed_ok_def length_prefix_leaves)
  moreover have chain: "chained None (checkpoints d)"
    using assms(2) by (simp add: seals_ok_def)
  then have "chained None (checkpoints d @ [c])"
    using follows by (simp add: chained_snoc last_checkpoint_chained)
  ultimately have "seals_ok (sl_keyring s) d'"
    using assms(2,4-6) by (simp add: seals_ok_def checkpoint_table_snoc)
  moreover have "length batch \<le> nat (sl_batch_size s)"
    by (simp add: batch_def next_batch_def)
  ultimately show ?thesis
    using follows count by simp
qed

text \<open>The only errors a sound ledger allows: the sealer's own key, and a checkpoint that has no bytes.\<close>

lemma sign_new_Inl:
  assumes "sign_new s previous target leaves i now = Inl x"
  shows "(sl_keyring s (sl_current_key_version s) = None \<and> x = unknown_key (sl_current_key_version s)) \<or>
    checkpoint_signing_bytes (new_checkpoint s previous target leaves i now) = Inl x"
  using assms by (auto simp: sign_new_def Let_def result_simps signing_key_Inl)

subsection \<open>Sealing makes progress\<close>

lemma chained_previous_ids:
  "chained p cs \<Longrightarrow> c \<in> set cs \<Longrightarrow> cp_previous_checkpoint_id c = Some x \<Longrightarrow>
     Some x = map_option cp_checkpoint_id p \<or> x \<in> cp_checkpoint_id ` set (butlast cs)"
proof (induction cs rule: rev_induct)
  case (snoc b cs)
  show ?case
  proof (cases "c \<in> set cs")
    case True
    then show ?thesis
      using snoc by (auto simp: chained_snoc dest: in_set_butlastD)
  next
    case False
    then show ?thesis
      using snoc.prems by (cases "cs = []") (auto simp: chained_snoc follows_def)
  qed
qed simp

lemma checkpoint_table_ids: "checkpoint_table cs \<Longrightarrow> distinct (map cp_checkpoint_id cs)"
  by (induction cs rule: rev_induct) (auto simp: checkpoint_table_snoc checkpoint_fits_def)

lemma chained_fits:
  assumes "checkpoint_table cs" "chained None cs" "cp_checkpoint_id c \<notin> cp_checkpoint_id ` set cs"
    and "follows (if cs = [] then None else Some (last cs)) c"
  shows "checkpoint_fits cs c"
proof (cases "cs = []")
  case True
  then show ?thesis
    using assms(4) by (simp add: checkpoint_fits_def follows_def checkpoint_leaf_count_positive_def previous_count_def)
next
  case False
  then have f: "cp_previous_checkpoint_id c = Some (cp_checkpoint_id (last cs))"
      "cp_leaf_count (last cs) < cp_leaf_count c" "cp_last_event_sequence (last cs) < cp_last_event_sequence c"
    using assms(4) by (simp_all add: follows_def previous_count_def previous_sequence_def)
  have counts: "0 < cp_leaf_count b \<and> cp_leaf_count b \<le> cp_leaf_count (last cs)" if "b \<in> set cs" for b
  proof -
    obtain bs l where cs: "cs = bs @ [l]"
      using False by (metis rev_exhaust)
    have "sorted (map cp_leaf_count cs)"
      by (rule chained_sorted [OF assms(2)])
    then show ?thesis
      using that chained_above [OF assms(2) that] by (auto simp: cs sorted_append previous_count_def)
  qed
  have "Some (cp_checkpoint_id (last cs)) \<notin> cp_previous_checkpoint_id ` set cs"
  proof
    assume "Some (cp_checkpoint_id (last cs)) \<in> cp_previous_checkpoint_id ` set cs"
    then obtain b where "b \<in> set cs" "cp_previous_checkpoint_id b = Some (cp_checkpoint_id (last cs))"
      by force
    then have "cp_checkpoint_id (last cs) \<in> cp_checkpoint_id ` set (butlast cs)"
      using chained_previous_ids [OF assms(2)] by fastforce
    moreover have "distinct (map cp_checkpoint_id (butlast cs @ [last cs]))"
      using checkpoint_table_ids [OF assms(1)] False by simp
    ultimately show False by auto
  qed
  moreover have "cp_leaf_count c \<notin> cp_leaf_count ` set cs"
    using counts f(2) by force
  moreover have "0 < cp_leaf_count c"
    using counts [OF last_in_set [OF False]] f(2) by linarith
  moreover have "cp_last_event_sequence c \<notin> cp_last_event_sequence ` set cs"
    using chained_last_max [OF assms(2)] f(3) by force
  ultimately show ?thesis
    using assms(3) f(1) False by (simp add: checkpoint_fits_def checkpoint_leaf_count_positive_def)
qed

lemma length_next_batch:
  assumes "ledger_ok d" "seals_ok keyring d"
  shows "int (length (next_batch n (previous_sequence (last_checkpoint d)) (events d))) =
    min (max 0 n) (int (length (events d)) - previous_count (last_checkpoint d))"
proof -
  let ?l = "previous_sequence (last_checkpoint d)"
  have "length (filter (\<lambda>e. ev_sequence e \<le> ?l) (events d)) + length (filter (\<lambda>e. ?l < ev_sequence e) (events d))
      = length (events d)"
    using sum_length_filter_compl [of "\<lambda>e. ev_sequence e \<le> ?l" "events d"] by (simp add: not_le)
  then have "int (length (filter (\<lambda>e. ?l < ev_sequence e) (events d))) =
      int (length (events d)) - previous_count (last_checkpoint d)"
    using previous_prefix [OF assms] by (simp add: events_up_to_def)
  then show ?thesis
    by (simp add: next_batch_def)
qed

lemma seal_spec_enabled:
  assumes "ledger_ok d" "seals_ok (sl_keyring s) d" "previous_count (last_checkpoint d) < int (length (events d))"
    and "0 < sl_batch_size s" "sl_keyring s (sl_current_key_version s) \<noteq> None"
    and "text_ok (sl_current_key_version s)" "in_calendar now"
  shows "\<exists>c. seal_spec s d i now = Inr (Some c) \<and> follows (last_checkpoint d) c \<and>
    cp_checkpoint_id c = i \<and>
    cp_leaf_count c = min (previous_count (last_checkpoint d) + sl_batch_size s) (int (length (events d)))"
proof -
  let ?l = "previous_sequence (last_checkpoint d)"
  define batch where "batch = next_batch (sl_batch_size s) ?l (events d)"
  let ?t = "ev_sequence (last batch)"
  let ?leaves = "prefix_leaves (events d) ?t"
  have len: "int (length batch) =
      min (sl_batch_size s) (int (length (events d)) - previous_count (last_checkpoint d))"
    unfolding batch_def length_next_batch [OF assms(1,2)] using assms(4) by simp
  then have ne: "batch \<noteq> []"
    using assms(3,4) by auto
  let ?c = "new_checkpoint s (last_checkpoint d) ?t ?leaves i now"
  have "opt_text_ok (map_option cp_root_hash (last_checkpoint d))"
    using last_checkpoint_sealed(1) [OF assms(2)]
    by (cases "last_checkpoint d") (auto simp: opt_text_ok_def sealed_ok_def)
  then have "checkpoint_encodable ?c"
    using assms(6,7) by (simp add: new_checkpoint_def checkpoint_encodable_def)
  then obtain b where "checkpoint_signing_bytes ?c = Inr b"
    using checkpoint_signing_bytes_ok by blast
  then obtain c where new: "sign_new s (last_checkpoint d) ?t ?leaves i now = Inr c"
    using assms(5) by (auto simp: sign_new_def Let_def result_simps)
  then have spec: "seal_spec s d i now = Inr (Some c)"
    using seal_spec_sound [OF assms(1,2) batch_def, of i now] ne by simp
  note fields = sign_new_Inr [OF new]
  have ext: "events_up_to ?t (events d) = events_up_to ?l (events d) @ batch"
    using extended_prefix [OF assms(1)] ne batch_def by simp
  have count: "cp_leaf_count c = previous_count (last_checkpoint d) + int (length batch)"
    using fields ext previous_prefix [OF assms(1,2)] by (simp add: length_prefix_leaves)
  have "follows (last_checkpoint d) c"
    unfolding follows_def count
    using fields ne events_up_to_extend(2) [OF ledger_okD(2) [OF assms(1)] batch_def [symmetric] ne]
    by simp
  then show ?thesis
    using spec fields count len by (auto simp: min_def)
qed

lemma seal_spec_progress:
  assumes "ledger_ok d" "seals_ok (sl_keyring s) d" "previous_count (last_checkpoint d) < int (length (events d))"
    and "0 < sl_batch_size s" "sl_keyring s (sl_current_key_version s) \<noteq> None"
    and "text_ok (sl_current_key_version s)" "in_calendar now"
    and "i \<notin> cp_checkpoint_id ` set (checkpoints d)"
  shows "\<exists>c. seal_spec s d i now = Inr (Some c) \<and> checkpoint_fits (checkpoints d) c \<and>
    cp_checkpoint_id c = i \<and>
    cp_leaf_count c = min (previous_count (last_checkpoint d) + sl_batch_size s) (int (length (events d)))"
proof -
  obtain c where c: "seal_spec s d i now = Inr (Some c)" "follows (last_checkpoint d) c" "cp_checkpoint_id c = i"
    "cp_leaf_count c = min (previous_count (last_checkpoint d) + sl_batch_size s) (int (length (events d)))"
    using seal_spec_enabled [OF assms(1-7)] by blast
  have chain: "chained None (checkpoints d)" "checkpoint_table (checkpoints d)"
    using assms(2) by (simp_all add: seals_ok_def)
  then have "checkpoint_fits (checkpoints d) c"
    using chained_fits [OF chain(2,1), of c] c assms(8) by (simp add: last_checkpoint_chained)
  with c show ?thesis by blast
qed

end
