(* ===== verification/Event_Properties.thy ===== *)
theory Event_Properties
  imports Event_Invariant
begin

section \<open>Correctness of the append commands\<close>

text \<open>
  What each command of the event service guarantees in every environment that keeps the log's
  invariant: how a row it reports relates to the request, what it writes, and which errors it
  raises.
\<close>

subsection \<open>The steps of a command\<close>

definition encoding_error :: "exn \<Rightarrow> bool" where
  "encoding_error x \<longleftrightarrow> x \<in> {CanonicalizationError, UnicodeEncodeError, OverflowError}"

lemma canonical_json_Inl: "canonical_json v = Inl x \<Longrightarrow> encoding_error x"
  by (auto simp: canonical_json_def dumps_def utf8_encode_def encoding_error_def split: if_splits)

lemma digest_json_Inl: "digest_json v = Inl x \<Longrightarrow> encoding_error x"
  using canonical_json_Inl by (auto simp: digest_json_def result_simps)

lemma fingerprint_Inl: "fingerprint p = Inl x \<Longrightarrow> encoding_error x"
  using canonical_json_Inl by (auto simp: fingerprint_def result_simps)

lemma event_commitment_bytes_Inl: "event_commitment_bytes e = Inl x \<Longrightarrow> encoding_error x"
  using canonical_json_Inl
  by (auto simp: event_commitment_bytes_def event_commitment_def result_simps isoformat_utc_eq
      encoding_error_def split: if_splits)

lemma build_event_Inr:
  assumes "build_event i now ty key fp ins oper dig prev rec rea = Inr e"
  shows "committed e \<and> ev_event_id e = i \<and> ev_occurred_at e = now \<and> ev_event_type e = ty \<and>
    ev_business_key e = key \<and> ev_content_fingerprint e = fp \<and> ev_instrument_id e = ins \<and>
    ev_operator_id e = oper \<and> ev_report_digest e = dig \<and> ev_previous_event_id e = prev \<and>
    ev_record_id e = (case rec of None \<Rightarrow> i | Some r \<Rightarrow> r) \<and> ev_reason e = rea"
proof -
  define e0 where "e0 = \<lparr>ev_sequence = 0, ev_event_id = i,
    ev_record_id = (case rec of None \<Rightarrow> i | Some r \<Rightarrow> r), ev_event_type = ty,
    ev_business_key = key, ev_content_fingerprint = fp, ev_instrument_id = ins,
    ev_operator_id = oper, ev_report_digest = dig, ev_previous_event_id = prev,
    ev_reason = rea, ev_occurred_at = now, ev_leaf_hash = []\<rparr>"
  obtain b where b: "event_commitment_bytes e0 = Inr b" and e: "e = e0\<lparr>ev_leaf_hash := hex (leaf_hash b)\<rparr>"
    using assms unfolding build_event_def Let_def e0_def [symmetric] map_result_Inr_iff by blast
  have "event_commitment_bytes e = event_commitment_bytes e0"
    unfolding e by (rule event_commitment_bytes_cong) (simp add: same_commitment_def)
  then have "committed e"
    using b by (simp add: committed_def e)
  then show ?thesis
    unfolding e by (simp add: e0_def)
qed

lemma build_event_Inl:
  "build_event i now ty key fp ins oper dig prev rec rea = Inl x \<Longrightarrow> encoding_error x"
  using event_commitment_bytes_Inl by (auto simp: build_event_def result_simps Let_def)

lemma new_event_valid:
  "valid env (st w0 dn ms K) (new_event ty key fp ins oper dig prev rec rea)
     (\<lambda>e w. st w0 dn ms K w \<and> committed e \<and> ev_event_type e = ty \<and>
        ev_business_key e = key \<and> ev_content_fingerprint e = fp \<and> ev_instrument_id e = ins \<and>
        ev_operator_id e = oper \<and> ev_report_digest e = dig \<and> ev_previous_event_id e = prev \<and>
        ev_record_id e = (case rec of None \<Rightarrow> ev_event_id e | Some r \<Rightarrow> r) \<and> ev_reason e = rea)
     (\<lambda>x w. st w0 dn ms K w \<and> encoding_error x)"
  unfolding new_event_def
  by (rule valid_bind [OF uuid_valid], rule valid_bind [OF clock_valid], rule valid_lift)
     (auto dest: build_event_Inr build_event_Inl)

lemma find_valid:
  assumes "orderly env"
  shows "valid env (st w0 dn [] K) (select_op (\<lambda>d. scalar P (events d)))
    (\<lambda>found w. case found of
        None \<Rightarrow> st w0 dn [] K w
      | Some e \<Rightarrow> st w0 dn [] (insert e K) w \<and> P e) E"
proof (rule valid_weaken [OF select_valid [OF assms]])
  fix x w
  assume "st w0 dn [] K w \<and> x = scalar P (events (shared w))"
  then show "case x of None \<Rightarrow> st w0 dn [] K w | Some e \<Rightarrow> st w0 dn [] (insert e K) w \<and> P e"
    using st_add [of w0 dn "[]" K w] by (auto split: option.splits dest!: scalar_SomeD)
qed auto

text \<open>
  How a request that finds a row with its business key ends: with the row, or with the conflict
  that names it.
\<close>

definition same_content :: "event_row \<Rightarrow> pystr \<Rightarrow> bool" where
  "same_content e fp \<longleftrightarrow> ev_content_fingerprint e = fp"

lemma answer_existing_valid:
  "valid env (\<lambda>w. st w0 dn [] (insert e K) w \<and> ev_business_key e = key) (answer_existing e fp)
     (\<lambda>(r, created) w. st w0 dn [] (insert r K) w \<and> \<not> created \<and> ev_business_key r = key \<and>
        ev_content_fingerprint r = fp)
     (\<lambda>x w. \<exists>r. st w0 dn [] (insert r K) w \<and> ev_business_key r = key \<and>
        ev_content_fingerprint r \<noteq> fp \<and> x = idempotency_conflict r)"
  unfolding answer_existing_def
  by (rule valid_lift) (auto simp: check_idempotency_def result_simps split: if_splits)

subsection \<open>Outcomes\<close>

text \<open>
  The successful end of a command: the row is stored, holds the request's key and content, and is
  the only row the command wrote if it is reported as created; otherwise nothing was written.
\<close>

definition appended :: "world \<Rightarrow> pystr \<Rightarrow> pystr \<Rightarrow> event_row \<Rightarrow> bool \<Rightarrow> world \<Rightarrow> bool" where
  "appended w0 key fp row created w \<longleftrightarrow>
     st w0 (if created then [InsertEvent row] else []) [] {row} w \<and>
     ev_business_key row = key \<and> ev_content_fingerprint row = fp \<and>
     (created \<longrightarrow> row \<notin> set (events (shared w0)))"

definition conflicting :: "pystr \<Rightarrow> pystr \<Rightarrow> exn \<Rightarrow> ledger_db \<Rightarrow> bool" where
  "conflicting key fp x d \<longleftrightarrow>
     (\<exists>r \<in> set (events d). ev_business_key r = key \<and> ev_content_fingerprint r \<noteq> fp \<and>
        x = idempotency_conflict r)"

lemma answer_existing_appended:
  "valid env (\<lambda>w. st w0 [] [] (insert e K) w \<and> ev_business_key e = key) (answer_existing e fp)
     (\<lambda>(r, created). appended w0 key fp r created)
     (\<lambda>x w. st w0 [] [] {} w \<and> conflicting key fp x (shared w))"
  by (rule valid_weaken [OF answer_existing_valid [where key = key]])
     (auto simp: appended_def conflicting_def st_def)

text \<open>A transaction that inserted one row.\<close>

definition inserted :: "world \<Rightarrow> pystr \<Rightarrow> pystr \<Rightarrow> event_row set \<Rightarrow> event_row \<times> bool \<Rightarrow> world \<Rightarrow> bool" where
  "inserted w0 key fp K p w \<longleftrightarrow>
     (case p of (row, created) \<Rightarrow>
        st w0 [] (if created then [InsertEvent row] else []) (if created then K else insert row K) w \<and>
        ev_business_key row = key \<and> ev_content_fingerprint row = fp \<and>
        (created \<longrightarrow> row \<notin> set (events (shared w))))"

lemma inserted_commit: "inserted w0 key fp K (row, created) w \<Longrightarrow> appended w0 key fp row created (commit w)"
  using st_commit [of w0 "[]" "if created then [InsertEvent row] else []" "if created then K else insert row K" w]
  by (cases created) (auto simp: inserted_def appended_def elim: st_known dest: grows_mem simp: st_def)

lemma insert_new_valid:
  assumes "orderly env"
    and "case rec of
        None \<Rightarrow> ty = Report \<and> prev = None
      | Some r \<Rightarrow> ty \<noteq> Report \<and> (\<exists>q \<in> K. prev = Some (ev_event_id q) \<and> r = ev_record_id q \<and>
          ins = ev_instrument_id q \<and> ev_event_type q \<noteq> Revocation)"
  shows "valid env (st w0 [] [] K)
    (bind_op (new_event ty key fp ins oper dig prev rec rea) (\<lambda>event.
       bind_op (insert_event event) (\<lambda>row. return_op (row, True))))
    (inserted w0 key fp K) (\<lambda>x w. st w0 [] [] K w \<and> (x = IntegrityError \<or> encoding_error x))"
proof -
  let ?R = "\<lambda>e. committed e \<and> linkable K e \<and> ev_business_key e = key \<and> ev_content_fingerprint e = fp"
  have step: "valid env (\<lambda>w. st w0 [] [] K w \<and> ?R e)
      (bind_op (insert_event e) (\<lambda>row. return_op (row, True)))
      (inserted w0 key fp K) (\<lambda>x w. st w0 [] [] K w \<and> (x = IntegrityError \<or> encoding_error x))" for e
  proof (cases "?R e")
    case True
    show ?thesis
    proof (rule valid_bind)
      show "valid env (\<lambda>w. st w0 [] [] K w \<and> ?R e) (insert_event e)
          (\<lambda>row w. st w0 [] [InsertEvent row] K w \<and> row = e\<lparr>ev_sequence := ev_sequence row\<rparr> \<and>
             row \<notin> set (events (shared w)))
          (\<lambda>x w. st w0 [] [] K w \<and> (x = IntegrityError \<or> encoding_error x))"
        using True by (intro valid_weaken [OF insert_event_valid [OF assms(1)]]) auto
      fix row
      have "inserted w0 key fp K (row, True) w"
        if w: "st w0 [] [InsertEvent row] K w" and r: "row = e\<lparr>ev_sequence := ev_sequence row\<rparr>"
          and "row \<notin> set (events (shared w))" for w
      proof -
        have "ev_business_key row = key" "ev_content_fingerprint row = fp"
          using True by (subst r, simp)+
        with that show ?thesis by (simp add: inserted_def)
      qed
      then show "valid env (\<lambda>w. st w0 [] [InsertEvent row] K w \<and>
            row = e\<lparr>ev_sequence := ev_sequence row\<rparr> \<and> row \<notin> set (events (shared w)))
          (return_op (row, True)) (inserted w0 key fp K)
          (\<lambda>x w. st w0 [] [] K w \<and> (x = IntegrityError \<or> encoding_error x))"
        by (intro valid_return) blast
    qed
  qed (auto simp: valid_def)
  show ?thesis
  proof (rule valid_bind [OF _ step], rule valid_weaken [OF new_event_valid])
    fix e w
    assume "st w0 [] [] K w \<and> committed e \<and> ev_event_type e = ty \<and> ev_business_key e = key \<and>
      ev_content_fingerprint e = fp \<and> ev_instrument_id e = ins \<and> ev_operator_id e = oper \<and>
      ev_report_digest e = dig \<and> ev_previous_event_id e = prev \<and>
      ev_record_id e = (case rec of None \<Rightarrow> ev_event_id e | Some r \<Rightarrow> r) \<and> ev_reason e = rea"
    then show "st w0 [] [] K w \<and> ?R e"
      using assms(2) by (auto simp: linkable_def split: option.splits)
  qed auto
qed

lemma inserted_known: "inserted w0 key fp K p w \<Longrightarrow> inserted w0 key fp {} p w"
  by (auto simp: inserted_def elim: st_known split: prod.splits if_splits)

lemma answer_existing_inserted:
  "valid env (\<lambda>w. st w0 [] [] (insert e K) w \<and> ev_business_key e = key) (answer_existing e fp)
     (inserted w0 key fp K)
     (\<lambda>x w. st w0 [] [] {} w \<and> conflicting key fp x (shared w))"
  by (rule valid_weaken [OF answer_existing_valid [where key = key and K = K]])
     (auto simp: inserted_def conflicting_def st_def)

lemma transaction_inserted:
  assumes "valid env (st w0 [] [] {}) m (inserted w0 key fp {}) (\<lambda>x w. st w0 [] [] {} w \<and> F x (shared w))"
  shows "valid env (st w0 [] [] {}) (transaction m) (\<lambda>(r, created). appended w0 key fp r created)
    (\<lambda>x w. st w0 [] [] {} w \<and> F x (shared w))"
  by (rule valid_transaction, rule valid_weaken [OF assms])
     (auto intro: inserted_commit st_roll_back)

text \<open>The errors a command may raise besides a conflict.\<close>

definition command_error :: "pystr \<Rightarrow> pystr \<Rightarrow> exn \<Rightarrow> ledger_db \<Rightarrow> bool" where
  "command_error key fp x d \<longleftrightarrow> conflicting key fp x d \<or> x = IntegrityError \<or> encoding_error x"

lemma append_report_tx_valid:
  assumes "orderly env"
  shows "valid env (st w0 [] [] {}) (append_report_tx request dg fp)
    (inserted w0 (rq_business_key request) fp {})
    (\<lambda>x w. st w0 [] [] {} w \<and> command_error (rq_business_key request) fp x (shared w))"
  unfolding append_report_tx_def find_existing_def coordinate_insert_def
proof (rule valid_bind [OF find_valid [OF assms]])
  fix found
  show "valid env (\<lambda>w. case found of None \<Rightarrow> st w0 [] [] {} w
        | Some e \<Rightarrow> st w0 [] [] {e} w \<and> ev_business_key e = rq_business_key request)
      (case found of
         None \<Rightarrow> bind_op lock_shared_op (\<lambda>_.
           bind_op (new_event Report (rq_business_key request) fp (rq_instrument_id request)
             (rq_operator_id request) (Some dg) None None None) (\<lambda>event.
           bind_op (insert_event event) (\<lambda>row. return_op (row, True))))
       | Some existing \<Rightarrow> answer_existing existing fp)
      (inserted w0 (rq_business_key request) fp {})
      (\<lambda>x w. st w0 [] [] {} w \<and> command_error (rq_business_key request) fp x (shared w))"
  proof (cases found)
    case None
    then show ?thesis
      by (simp, intro valid_bind [OF lock_shared_valid [OF assms]])
         (rule valid_weaken [OF insert_new_valid [OF assms]], auto simp: command_error_def)
  next
    case (Some e)
    then show ?thesis
      by (simp, intro valid_weaken [OF answer_existing_inserted]) (auto simp: command_error_def)
  qed
qed

text \<open>The re-read after a lost race.\<close>

lemma reread_valid:
  assumes "orderly env"
    and "valid env (st w0 [] [] {}) otherwise (\<lambda>(r, created). appended w0 key fp r created)
      (\<lambda>x w. st w0 [] [] {} w \<and> F x (shared w))"
    and "\<And>x d. conflicting key fp x d \<Longrightarrow> F x d"
  shows "valid env (st w0 [] [] {})
    (bind_op (find_existing key) (\<lambda>found.
       case found of Some existing \<Rightarrow> answer_existing existing fp | None \<Rightarrow> otherwise))
    (\<lambda>(r, created). appended w0 key fp r created) (\<lambda>x w. st w0 [] [] {} w \<and> F x (shared w))"
  unfolding find_existing_def
proof (rule valid_bind [OF find_valid [OF assms(1)]])
  fix found
  show "valid env (\<lambda>w. case found of None \<Rightarrow> st w0 [] [] {} w
        | Some e \<Rightarrow> st w0 [] [] {e} w \<and> ev_business_key e = key)
      (case found of None \<Rightarrow> otherwise | Some existing \<Rightarrow> answer_existing existing fp)
      (\<lambda>(r, created). appended w0 key fp r created) (\<lambda>x w. st w0 [] [] {} w \<and> F x (shared w))"
    using assms(2,3)
    by (cases found) (auto intro!: valid_weaken [OF answer_existing_appended [where key = key]])
qed

definition report_content :: "submit_report \<Rightarrow> pystr result" where
  "report_content request = bind_result (digest_json (rq_report request)) (report_fingerprint request)"

lemma append_report_eq:
  "append_report request =
     (case digest_json (rq_report request) of
        Inl e \<Rightarrow> raise_op e
      | Inr dg \<Rightarrow>
          (case report_fingerprint request dg of
             Inl e \<Rightarrow> raise_op e
           | Inr fp \<Rightarrow> on_integrity_error (transaction (append_report_tx request dg fp))
               (bind_op (find_existing (rq_business_key request)) (\<lambda>found.
                  case found of
                    Some existing \<Rightarrow> answer_existing existing fp
                  | None \<Rightarrow> raise_op IntegrityError))))"
  by (simp add: append_report_def bind_lift cong: sum.case_cong)

lemma append_report_valid:
  assumes "orderly env"
  shows "valid env (st w0 [] [] {}) (append_report request)
    (\<lambda>(r, created) w. \<exists>fp. report_content request = Inr fp \<and>
       appended w0 (rq_business_key request) fp r created w)
    (\<lambda>x w. st w0 [] [] {} w \<and> (report_content request = Inl x \<and> encoding_error x \<or>
       (\<exists>fp. report_content request = Inr fp \<and> command_error (rq_business_key request) fp x (shared w))))"
proof (cases "report_content request")
  case (Inl e)
  then have "append_report request = raise_op e \<and> encoding_error e"
    by (auto simp: append_report_eq report_content_def report_fingerprint_def result_simps
        split: sum.splits dest: digest_json_Inl fingerprint_Inl)
  then show ?thesis
    using Inl by (auto intro: valid_raise)
next
  case (Inr fp)
  then obtain dg where dg: "digest_json (rq_report request) = Inr dg" "report_fingerprint request dg = Inr fp"
    by (auto simp: report_content_def result_simps)
  have "valid env (st w0 [] [] {})
      (on_integrity_error (transaction (append_report_tx request dg fp))
        (bind_op (find_existing (rq_business_key request)) (\<lambda>found.
          case found of Some existing \<Rightarrow> answer_existing existing fp | None \<Rightarrow> raise_op IntegrityError)))
      (\<lambda>(r, created). appended w0 (rq_business_key request) fp r created)
      (\<lambda>x w. st w0 [] [] {} w \<and> command_error (rq_business_key request) fp x (shared w))"
    by (rule valid_on_integrity_error [OF valid_weaken
          [OF transaction_inserted [OF append_report_tx_valid [OF assms]]]
          reread_valid [OF assms valid_raise]])
       (auto simp: command_error_def)
  then show ?thesis
    using Inr dg by (simp add: append_report_eq)
qed

subsection \<open>Revisions and revocations\<close>

definition successor_error ::
    "uuid \<Rightarrow> pystr option \<Rightarrow> pystr \<Rightarrow> pystr \<Rightarrow> exn \<Rightarrow> ledger_db \<Rightarrow> bool" where
  "successor_error p ins key fp x d \<longleftrightarrow>
     command_error key fp x d \<or> x = NotFoundError ''event'' (uuid_str p) \<or>
     (\<exists>q \<in> set (events d). ev_event_id q = p \<and> ev_event_type q = Revocation \<and> x = record_revoked p) \<or>
     (\<exists>q \<in> set (events d). ev_previous_event_id q = Some p \<and> x = superseded p q) \<or>
     (\<exists>q \<in> set (events d). ev_event_id q = p \<and> ins \<noteq> None \<and> ins \<noteq> Some (ev_instrument_id q) \<and>
        x = instrument_mismatch q ins)"

text \<open>Branching on the row a query found.\<close>

lemma find_bind_valid:
  assumes "orderly env"
    and "valid env (st w0 dn [] K) none Q E"
    and "\<And>e. P e \<Longrightarrow> valid env (st w0 dn [] (insert e K)) (some e) Q E"
  shows "valid env (st w0 dn [] K)
    (bind_op (select_op (\<lambda>d. scalar P (events d))) (\<lambda>found.
       case found of None \<Rightarrow> none | Some e \<Rightarrow> some e)) Q E"
proof (rule valid_bind [OF find_valid [OF assms(1)]])
  fix found
  show "valid env (\<lambda>w. case found of None \<Rightarrow> st w0 dn [] K w
        | Some e \<Rightarrow> st w0 dn [] (insert e K) w \<and> P e)
      (case found of None \<Rightarrow> none | Some e \<Rightarrow> some e) Q E"
  proof (cases found)
    case (Some e)
    then show ?thesis
      using assms(3) [of e] by (cases "P e") (auto simp: valid_def)
  qed (use assms(2) in simp)
qed

lemma raise_known:
  assumes "e \<in> K" "\<And>d. e \<in> set (events d) \<Longrightarrow> F x d"
  shows "valid env (st w0 [] [] K) (raise_op x) Q (\<lambda>x w. st w0 [] [] {} w \<and> F x (shared w))"
  by (rule valid_raise) (use assms in \<open>auto simp: st_def\<close>)

lemma raise_superseded:
  assumes "s \<in> K" "ev_previous_event_id s = Some p"
  shows "valid env (st w0 [] [] K) (raise_op (superseded p s)) Q
    (\<lambda>x w. st w0 [] [] {} w \<and> successor_error p ins key fp x (shared w))"
  by (rule raise_known [OF assms(1)]) (use assms(2) in \<open>auto simp: successor_error_def\<close>)

lemma append_successor_tx_valid:
  assumes "orderly env" "ty \<noteq> Report"
  shows "valid env (st w0 [] [] {}) (append_successor_tx p ty key fp oper ins dg rea)
    (inserted w0 key fp {})
    (\<lambda>x w. st w0 [] [] {} w \<and> successor_error p ins key fp x (shared w))"
  unfolding append_successor_tx_def find_existing_def coordinate_insert_def find_successor_def
proof (rule find_bind_valid [OF assms(1)])
  fix e :: event_row
  assume "ev_business_key e = key"
  then show "valid env (st w0 [] [] {e}) (answer_existing e fp) (inserted w0 key fp {})
      (\<lambda>x w. st w0 [] [] {} w \<and> successor_error p ins key fp x (shared w))"
    by (intro valid_weaken [OF answer_existing_inserted [where key = key]])
       (auto simp: successor_error_def command_error_def)
next
  let ?E = "\<lambda>x w. st w0 [] [] {} w \<and> successor_error p ins key fp x (shared w)"
  let ?create = "\<lambda>parent. bind_op (new_event ty key fp (ev_instrument_id parent) oper dg
      (Some (ev_event_id parent)) (Some (ev_record_id parent)) rea) (\<lambda>event.
    bind_op (insert_event event) (\<lambda>row. return_op (row, True)))"
  let ?check = "\<lambda>parent. if ins \<noteq> None \<and> ins \<noteq> Some (ev_instrument_id parent)
    then raise_op (instrument_mismatch parent ins) else ?create parent"
  have create: "valid env (st w0 [] [] {parent}) (?create parent) (inserted w0 key fp {}) ?E"
    if "ev_event_type parent \<noteq> Revocation" for parent
    by (rule valid_weaken [OF insert_new_valid [OF assms(1), where K = "{parent}"]])
       (use that assms(2) in \<open>auto simp: successor_error_def command_error_def
          intro: inserted_known elim: st_known\<close>)
  have check: "valid env (st w0 [] [] {parent}) (?check parent) (inserted w0 key fp {}) ?E"
    if "ev_event_type parent \<noteq> Revocation" "ev_event_id parent = p" for parent
    using create [OF that(1)] that(2)
    by (auto intro!: raise_known [of parent] simp: successor_error_def)
  show "valid env (st w0 [] [] {})
      (bind_op lock_shared_op (\<lambda>_. bind_op (select_op (\<lambda>d. scalar (\<lambda>e. ev_event_id e = p) (events d)))
        (\<lambda>found_parent. case found_parent of
             None \<Rightarrow> raise_op (NotFoundError ''event'' (uuid_str p))
           | Some parent \<Rightarrow>
               if ev_event_type parent = Revocation then raise_op (record_revoked p)
               else bind_op (select_op (\<lambda>d. scalar (\<lambda>e. ev_previous_event_id e = Some p) (events d)))
                 (\<lambda>found_successor. case found_successor of
                      None \<Rightarrow> ?check parent
                    | Some successor \<Rightarrow> raise_op (superseded p successor)))))
      (inserted w0 key fp {}) ?E"
  proof (rule valid_bind [OF lock_shared_valid [OF assms(1)]], rule find_bind_valid [OF assms(1)])
    show "valid env (st w0 [] [] {}) (raise_op (NotFoundError ''event'' (uuid_str p)))
        (inserted w0 key fp {}) ?E"
      by (rule valid_raise) (simp add: successor_error_def)
    fix parent :: event_row
    assume p: "ev_event_id parent = p"
    show "valid env (st w0 [] [] {parent})
        (if ev_event_type parent = Revocation then raise_op (record_revoked p)
         else bind_op (select_op (\<lambda>d. scalar (\<lambda>e. ev_previous_event_id e = Some p) (events d)))
           (\<lambda>found_successor. case found_successor of
                None \<Rightarrow> ?check parent
              | Some successor \<Rightarrow> raise_op (superseded p successor)))
        (inserted w0 key fp {}) ?E"
    proof (cases "ev_event_type parent = Revocation")
      case True
      then show ?thesis
        using p by (auto intro!: raise_known [of parent] simp: successor_error_def)
    next
      case False
      then show ?thesis
        using check [OF False p]
        by (auto intro!: find_bind_valid [OF assms(1)] raise_superseded)
    qed
  qed
qed

lemma append_successor_valid:
  assumes "orderly env" "ty \<noteq> Report"
  shows "valid env (st w0 [] [] {}) (append_successor p ty key fp oper ins dg rea)
    (\<lambda>(r, created). appended w0 key fp r created)
    (\<lambda>x w. st w0 [] [] {} w \<and> successor_error p ins key fp x (shared w))"
proof -
  let ?E = "\<lambda>x w. st w0 [] [] {} w \<and> successor_error p ins key fp x (shared w)"
  let ?Q = "\<lambda>(r, created). appended w0 key fp r created"
  let ?otherwise = "bind_op (find_successor p) (\<lambda>found_successor. case found_successor of
      Some successor \<Rightarrow> raise_op (superseded p successor) | None \<Rightarrow> raise_op IntegrityError)"
  have "valid env (st w0 [] [] {}) ?otherwise ?Q ?E"
    unfolding find_successor_def
  proof (rule find_bind_valid [OF assms(1)])
    show "valid env (st w0 [] [] {}) (raise_op IntegrityError) ?Q ?E"
      by (rule valid_raise) (simp add: successor_error_def command_error_def)
  qed (auto intro: raise_superseded)
  then have reread: "valid env (st w0 [] [] {})
      (bind_op (find_existing key) (\<lambda>found.
         case found of Some existing \<Rightarrow> answer_existing existing fp | None \<Rightarrow> ?otherwise)) ?Q ?E"
    by (rule reread_valid [OF assms(1)]) (simp add: successor_error_def command_error_def)
  show ?thesis
    unfolding append_successor_def
    by (rule valid_on_integrity_error
          [OF valid_weaken [OF transaction_inserted [OF append_successor_tx_valid [OF assms]]] reread])
       auto
qed

subsection \<open>A key that is already used\<close>

lemma st_unique_key:
  assumes "st w0 dn ms K w" "e \<in> K" "f \<in> set (events (shared w))"
    and "ev_business_key f = ev_business_key e"
  shows "f = e"
  using assms event_table_key_inj [of "events (shared w)" f e]
  by (auto simp: st_def world_ok_def ledger_ok_def)

lemma find_known:
  assumes "orderly env" "e \<in> K" "ev_business_key e = key"
  shows "valid env (st w0 dn [] K) (find_existing key) (\<lambda>found w. found = Some e \<and> st w0 dn [] K w) E"
  unfolding find_existing_def
proof (rule valid_weaken [OF select_valid [OF assms(1)]])
  fix x w
  assume w: "st w0 dn [] K w \<and> x = scalar (\<lambda>e. ev_business_key e = key) (events (shared w))"
  then have "e \<in> set (events (shared w))"
    using assms(2) by (auto simp: st_def)
  then have "scalar (\<lambda>e. ev_business_key e = key) (events (shared w)) \<noteq> None"
    unfolding scalar_None using assms(3) by blast
  then obtain f where "x = Some f"
    using w by auto
  moreover from this have "f = e"
    using w assms(2,3) st_unique_key [of w0 dn "[]" K w e f] by (auto dest!: scalar_SomeD)
  ultimately show "x = Some e \<and> st w0 dn [] K w"
    using w by simp
qed auto

text \<open>How every command answers when the key's row \<open>e\<close> is stored.\<close>

definition answered :: "world \<Rightarrow> event_row \<Rightarrow> pystr \<Rightarrow> event_row \<times> bool \<Rightarrow> world \<Rightarrow> bool" where
  "answered w0 e fp p w \<longleftrightarrow> ev_content_fingerprint e = fp \<and> p = (e, False) \<and> st w0 [] [] {e} w"

definition refused_key :: "world \<Rightarrow> event_row \<Rightarrow> pystr \<Rightarrow> exn \<Rightarrow> world \<Rightarrow> bool" where
  "refused_key w0 e fp x w \<longleftrightarrow>
     ev_content_fingerprint e \<noteq> fp \<and> x = idempotency_conflict e \<and> st w0 [] [] {e} w"

lemma known_key_valid:
  assumes "orderly env" "ev_business_key e = key"
  shows "valid env (st w0 [] [] {e})
    (on_integrity_error
      (transaction (bind_op (find_existing key) (\<lambda>found.
         case found of None \<Rightarrow> none | Some existing \<Rightarrow> answer_existing existing fp))) handler)
    (answered w0 e fp) (refused_key w0 e fp)"
proof (rule valid_on_integrity_error [where R = "\<lambda>_. False"], rule valid_transaction)
  have commit: "st w0 [] [] {e} (commit w)" if "st w0 [] [] {e} w" for w
    using st_commit [OF that] by simp
  have neq: "idempotency_conflict f \<noteq> IntegrityError" for f
    by (simp add: idempotency_conflict_def ledger_error_def)
  show "valid env (\<lambda>w. \<exists>v. st w0 [] [] {e} v \<and> w = log_entry Begin v)
      (bind_op (find_existing key) (\<lambda>found.
         case found of None \<Rightarrow> none | Some existing \<Rightarrow> answer_existing existing fp))
      (\<lambda>x w. answered w0 e fp x (commit w))
      (\<lambda>x w. if x = IntegrityError then False else refused_key w0 e fp x (roll_back w))"
  proof (rule valid_seq [OF find_known [OF assms(1) _ assms(2), of "{e}"]])
    fix found
    show "valid env (\<lambda>w. found = Some e \<and> st w0 [] [] {e} w)
        (case found of None \<Rightarrow> none | Some existing \<Rightarrow> answer_existing existing fp)
        (\<lambda>x w. answered w0 e fp x (commit w))
        (\<lambda>x w. if x = IntegrityError then False else refused_key w0 e fp x (roll_back w))"
      using neq commit st_roll_back
      by (cases "found = Some e")
         (auto simp: answer_existing_def check_idempotency_def answered_def refused_key_def
            valid_def lift_op_def)
  qed auto
qed (simp add: valid_def)

subsection \<open>The contract of an idempotent command\<close>

text \<open>
  A command with a business key and a content fingerprint: it ends as \<open>appended\<close> or with an error
  that leaves nothing behind, and it answers from the stored row once the key is used. Clients
  that retry rely on \<open>replay\<close>: repeating a command that succeeded gives the same row and writes
  nothing, however much time and traffic lies between.
\<close>

definition later :: "world \<Rightarrow> world \<Rightarrow> bool" where
  "later w w' \<longleftrightarrow> world_ok w' \<and> mine w' = [] \<and> grows (shared w) (shared w')"

locale event_command =
  fixes run :: "'r \<Rightarrow> (event_row \<times> bool) op"
    and key :: "'r \<Rightarrow> pystr"
    and content :: "'r \<Rightarrow> pystr result"
    and refused :: "'r \<Rightarrow> exn \<Rightarrow> ledger_db \<Rightarrow> bool"
  assumes outcome: "orderly env \<Longrightarrow> valid env (st w0 [] [] {}) (run r)
      (\<lambda>(row, created) w. \<exists>fp. content r = Inr fp \<and> appended w0 (key r) fp row created w)
      (\<lambda>x w. st w0 [] [] {} w \<and> refused r x (shared w))"
    and known: "orderly env \<Longrightarrow> content r = Inr fp \<Longrightarrow> ev_business_key e = key r \<Longrightarrow>
      valid env (st w0 [] [] {e}) (run r) (answered w0 e fp) (refused_key w0 e fp)"
begin

lemma run_Inr:
  assumes "orderly env" "world_ok w" "mine w = []" "run r env w = (Inr (row, created), w')"
  shows "\<exists>fp. content r = Inr fp \<and> appended w (key r) fp row created w'"
  using valid_Inr [OF outcome [OF assms(1)] st_start [OF assms(2,3)] assms(4)] by simp

lemma run_Inl:
  assumes "orderly env" "world_ok w" "mine w = []" "run r env w = (Inl x, w')"
  shows "st w [] [] {} w' \<and> refused r x (shared w')"
  using valid_Inl [OF outcome [OF assms(1)] st_start [OF assms(2,3)] assms(4)] by simp

lemma stored:
  assumes "orderly env" "world_ok w" "mine w = []" "run r env w = (Inr (row, created), w')" "later w' v"
  shows "st v [] [] {row} v"
proof -
  have "row \<in> set (events (shared w'))"
    using run_Inr [OF assms(1-4)] by (auto simp: appended_def st_def)
  then have "row \<in> set (events (shared v))"
    using assms(5) grows_mem by (auto simp: later_def)
  then show ?thesis
    using assms(5) by (auto simp: later_def intro: st_start)
qed

lemma replay:
  assumes "orderly env" "world_ok w" "mine w = []" "run r env w = (Inr (row, created), w')"
    and "later w' v" "orderly env'"
  shows "\<exists>v'. run r env' v = (Inr (row, False), v') \<and> written v' = written v"
proof -
  obtain fp where fp: "content r = Inr fp" "appended w (key r) fp row created w'"
    using run_Inr [OF assms(1-4)] by blast
  have v: "valid env' (st v [] [] {row}) (run r) (answered v row fp) (refused_key v row fp)"
    using fp by (intro known assms(6)) (simp_all add: appended_def)
  obtain res v' where run: "run r env' v = (res, v')" by fastforce
  show ?thesis
  proof (cases res)
    case (Inl x)
    then have "refused_key v row fp x v'"
      using valid_Inl [OF v stored [OF assms(1-5)]] run by simp
    with fp show ?thesis
      by (simp add: refused_key_def appended_def)
  next
    case (Inr p)
    then have "answered v row fp p v'"
      using valid_Inr [OF v stored [OF assms(1-5)]] run by simp
    with run Inr show ?thesis
      by (simp add: answered_def st_def)
  qed
qed

lemma reuse:
  assumes "orderly env" "world_ok w" "mine w = []" "run r env w = (Inr (row, created), w')"
    and "later w' v" "orderly env'"
    and "key r' = key r" "content r' = Inr fp'" "content r \<noteq> Inr fp'"
  shows "\<exists>v'. run r' env' v = (Inl (idempotency_conflict row), v') \<and> written v' = written v"
proof -
  obtain fp where fp: "content r = Inr fp" "appended w (key r) fp row created w'"
    using run_Inr [OF assms(1-4)] by blast
  have v: "valid env' (st v [] [] {row}) (run r') (answered v row fp') (refused_key v row fp')"
    using fp assms(7,8) by (intro known assms(6)) (simp_all add: appended_def)
  obtain res v' where run: "run r' env' v = (res, v')" by fastforce
  show ?thesis
  proof (cases res)
    case (Inl x)
    then have "refused_key v row fp' x v'"
      using valid_Inl [OF v stored [OF assms(1-5)]] run by simp
    with run Inl show ?thesis
      by (simp add: refused_key_def st_def)
  next
    case (Inr p)
    then have "answered v row fp' p v'"
      using valid_Inr [OF v stored [OF assms(1-5)]] run by simp
    with fp assms(9) show ?thesis
      by (simp add: answered_def appended_def)
  qed
qed

end

subsection \<open>The three commands keep the contract\<close>

definition revision_content :: "uuid \<Rightarrow> submit_report \<Rightarrow> pystr result" where
  "revision_content p request = bind_result (digest_json (rq_report request)) (revision_fingerprint p request)"

definition report_refused :: "submit_report \<Rightarrow> exn \<Rightarrow> ledger_db \<Rightarrow> bool" where
  "report_refused request x d \<longleftrightarrow>
     report_content request = Inl x \<and> encoding_error x \<or>
     (\<exists>fp. report_content request = Inr fp \<and> command_error (rq_business_key request) fp x d)"

definition successor_refused ::
    "pystr result \<Rightarrow> uuid \<Rightarrow> pystr option \<Rightarrow> pystr \<Rightarrow> exn \<Rightarrow> ledger_db \<Rightarrow> bool" where
  "successor_refused content p ins key x d \<longleftrightarrow>
     content = Inl x \<and> encoding_error x \<or>
     (\<exists>fp. content = Inr fp \<and> successor_error p ins key fp x d)"

interpretation report: event_command append_report rq_business_key report_content report_refused
proof
  show "orderly env \<Longrightarrow> valid env (st w0 [] [] {}) (append_report r)
      (\<lambda>(row, created) w. \<exists>fp. report_content r = Inr fp \<and> appended w0 (rq_business_key r) fp row created w)
      (\<lambda>x w. st w0 [] [] {} w \<and> report_refused r x (shared w))" for env w0 r
    using append_report_valid by (simp add: report_refused_def)
  show "valid env (st w0 [] [] {e}) (append_report r) (answered w0 e fp) (refused_key w0 e fp)"
    if "orderly env" "report_content r = Inr fp" "ev_business_key e = rq_business_key r"
    for env r fp e w0
    using that known_key_valid [OF that(1,3)]
    by (auto simp: append_report_eq report_content_def append_report_tx_def result_simps)
qed

lemma append_revision_eq:
  "append_revision p request =
     (case digest_json (rq_report request) of
        Inl e \<Rightarrow> raise_op e
      | Inr dg \<Rightarrow>
          (case revision_fingerprint p request dg of
             Inl e \<Rightarrow> raise_op e
           | Inr fp \<Rightarrow> append_successor p Revision (rq_business_key request) fp
               (rq_operator_id request) (Some (rq_instrument_id request)) (Some dg) None))"
  by (simp add: append_revision_def bind_lift cong: sum.case_cong)

lemma append_revocation_eq:
  "append_revocation p request =
     (case revocation_fingerprint p request of
        Inl e \<Rightarrow> raise_op e
      | Inr fp \<Rightarrow> append_successor p Revocation (rv_business_key request) fp
          (rv_operator_id request) None None (Some (rv_reason request)))"
  by (simp add: append_revocation_def bind_lift cong: sum.case_cong)

lemma successor_known:
  assumes "orderly env" "ev_business_key e = key"
  shows "valid env (st w0 [] [] {e}) (append_successor p ty key fp oper ins dg rea)
    (answered w0 e fp) (refused_key w0 e fp)"
  unfolding append_successor_def append_successor_tx_def by (rule known_key_valid [OF assms])

interpretation revision: event_command "append_revision p" rq_business_key "revision_content p"
    "\<lambda>r. successor_refused (revision_content p r) p (Some (rq_instrument_id r)) (rq_business_key r)" for p
proof
  show "valid env (st w0 [] [] {}) (append_revision p r)
      (\<lambda>(row, created) w. \<exists>fp. revision_content p r = Inr fp \<and> appended w0 (rq_business_key r) fp row created w)
      (\<lambda>x w. st w0 [] [] {} w \<and> successor_refused (revision_content p r) p (Some (rq_instrument_id r))
         (rq_business_key r) x (shared w))" if "orderly env" for env w0 r
  proof (cases "revision_content p r")
    case (Inl e)
    then have "append_revision p r = raise_op e \<and> encoding_error e"
      by (auto simp: append_revision_eq revision_content_def revision_fingerprint_def result_simps
          split: sum.splits dest: digest_json_Inl fingerprint_Inl)
    with Inl show ?thesis
      by (auto intro: valid_raise simp: successor_refused_def)
  next
    case (Inr fp)
    then show ?thesis
      using append_successor_valid [OF that, of Revision]
      by (auto simp: append_revision_eq revision_content_def result_simps successor_refused_def)
  qed
  show "valid env (st w0 [] [] {e}) (append_revision p r) (answered w0 e fp) (refused_key w0 e fp)"
    if "orderly env" "revision_content p r = Inr fp" "ev_business_key e = rq_business_key r"
    for env r fp e w0
    using that successor_known [OF that(1,3)]
    by (auto simp: append_revision_eq revision_content_def result_simps)
qed

interpretation revocation: event_command "append_revocation p" rv_business_key "revocation_fingerprint p"
    "\<lambda>r. successor_refused (revocation_fingerprint p r) p None (rv_business_key r)" for p
proof
  show "valid env (st w0 [] [] {}) (append_revocation p r)
      (\<lambda>(row, created) w. \<exists>fp. revocation_fingerprint p r = Inr fp \<and>
         appended w0 (rv_business_key r) fp row created w)
      (\<lambda>x w. st w0 [] [] {} w \<and> successor_refused (revocation_fingerprint p r) p None
         (rv_business_key r) x (shared w))" if "orderly env" for env w0 r
  proof (cases "revocation_fingerprint p r")
    case (Inl e)
    then have "append_revocation p r = raise_op e \<and> encoding_error e"
      using fingerprint_Inl by (auto simp: append_revocation_eq revocation_fingerprint_def)
    with Inl show ?thesis
      by (auto intro: valid_raise simp: successor_refused_def)
  next
    case (Inr fp)
    then show ?thesis
      using append_successor_valid [OF that, of Revocation]
      by (auto simp: append_revocation_eq successor_refused_def)
  qed
  show "valid env (st w0 [] [] {e}) (append_revocation p r) (answered w0 e fp) (refused_key w0 e fp)"
    if "orderly env" "revocation_fingerprint p r = Inr fp" "ev_business_key e = rv_business_key r"
    for env r fp e w0
    using that successor_known [OF that(1,3)] by (auto simp: append_revocation_eq)
qed

end
