(* ===== verification/Batch_Properties.thy ===== *)
theory Batch_Properties
  imports Event_Properties
begin

section \<open>Correctness of the batch command\<close>

text \<open>
  \<open>append_report_batch\<close> is all or nothing: its result lists one stored row per request, in order,
  with the request's key and content, or nothing was written; and repeating a batch that
  succeeded writes nothing.
\<close>

text \<open>The changes a list of results stands for.\<close>

definition created_rows :: "(event_row \<times> bool) list \<Rightarrow> event_row list" where
  "created_rows rs = map fst (filter snd rs)"

definition changes_of :: "(event_row \<times> bool) list \<Rightarrow> row_change list" where
  "changes_of rs = map InsertEvent (created_rows rs)"

definition item_match :: "prepared_report \<Rightarrow> event_row \<times> bool \<Rightarrow> bool" where
  "item_match item p \<longleftrightarrow>
     ev_business_key (fst p) = pr_key item \<and> ev_content_fingerprint (fst p) = pr_fingerprint item"

lemma own_events_map [simp]: "own_events (map InsertEvent es) = es"
  by (induction es) simp_all

lemma own_events_changes_of [simp]: "own_events (changes_of rs) = created_rows rs"
  by (simp add: changes_of_def)

lemma created_rows_simps [simp]:
  "created_rows [] = []" "created_rows (rs @ [(row, True)]) = created_rows rs @ [row]"
  "created_rows (rs @ [(row, False)]) = created_rows rs"
  by (simp_all add: created_rows_def)

lemma changes_of_simps [simp]:
  "changes_of [] = []" "changes_of (rs @ [(row, True)]) = changes_of rs @ [InsertEvent row]"
  "changes_of (rs @ [(row, False)]) = changes_of rs"
  by (simp_all add: changes_of_def)

definition batch_error :: "exn \<Rightarrow> bool" where
  "batch_error x \<longleftrightarrow> x = IntegrityError \<or> encoding_error x \<or>
     (\<exists>i row. x = with_index i (idempotency_conflict row))"

lemma new_report_event_valid:
  "valid env (st w0 dn ms K) (new_report_event item)
     (\<lambda>e w. st w0 dn ms K w \<and> committed e \<and> linkable K e \<and>
        ev_business_key e = pr_key item \<and> ev_content_fingerprint e = pr_fingerprint item)
     (\<lambda>x w. st w0 dn ms K w \<and> encoding_error x)"
  unfolding new_report_event_def
  by (rule valid_weaken [OF new_event_valid]) (auto simp: pr_key_def linkable_def)

text \<open>What the loop over the items returns, extending the results \<open>rs\<close> it starts with.\<close>

definition items_done ::
    "world \<Rightarrow> event_row set \<Rightarrow> (event_row \<times> bool) list \<Rightarrow> prepared_report list \<Rightarrow>
     (event_row \<times> bool) list \<Rightarrow> world \<Rightarrow> bool" where
  "items_done w0 K rs items out w \<longleftrightarrow>
     st w0 [] (changes_of out) K w \<and> (\<exists>ps. out = rs @ ps \<and> list_all2 item_match items ps) \<and>
     (\<forall>p \<in> set out. fst p \<in> K \<union> set (created_rows out)) \<and>
     (\<forall>row \<in> set (created_rows out). row \<notin> set (events (shared w0)))"

lemma items_done_Cons:
  "items_done w0 K (rs @ [p]) items out w \<Longrightarrow> item_match item p \<Longrightarrow> items_done w0 K rs (item # items) out w"
  by (auto simp: items_done_def)

lemma insert_items_valid:
  assumes "orderly env"
    and "\<And>k row. resolved k = Some row \<Longrightarrow> ev_business_key row = k \<and> row \<in> K \<union> set (created_rows rs)"
    and "\<And>k. resolved k = None \<Longrightarrow> added k = None"
    and "\<forall>p \<in> set rs. fst p \<in> K \<union> set (created_rows rs)"
    and "\<forall>row \<in> set (created_rows rs). row \<notin> set (events (shared w0))"
  shows "valid env (st w0 [] (changes_of rs) K) (insert_items resolved added index items rs)
    (items_done w0 K rs items) (\<lambda>x w. (\<exists>ms. st w0 [] ms K w) \<and> batch_error x)"
  using assms(2-)
proof (induction items arbitrary: resolved added index rs)
  case Nil
  then show ?case
    by (auto intro!: valid_return simp: items_done_def)
next
  case (Cons item items)
  let ?E = "\<lambda>x w. (\<exists>ms. st w0 [] ms K w) \<and> batch_error x"
  show ?case
  proof (cases "resolved (pr_key item)")
    case (Some existing)
    note known = Cons.prems(1) [OF Some]
    show ?thesis
    proof (cases "ev_content_fingerprint existing = pr_fingerprint item")
      case True
      have "valid env (st w0 [] (changes_of (rs @ [(existing, False)])) K)
          (insert_items resolved added (index + 1) items (rs @ [(existing, False)]))
          (items_done w0 K (rs @ [(existing, False)]) items) ?E"
        using Cons.prems known by (intro Cons.IH) auto
      then show ?thesis
        using Some True known
        by (auto simp: check_idempotency_def item_match_def elim!: valid_weaken
            intro: items_done_Cons)
    next
      case False
      with Some show ?thesis
        by (auto intro!: valid_raise simp: check_idempotency_def batch_error_def)
    qed
  next
    case None
    let ?next = "\<lambda>row. insert_items (resolved(pr_key item \<mapsto> row)) (added(pr_key item \<mapsto> row))
        (index + 1) items (rs @ [(row, True)])"
    have rest: "valid env (\<lambda>w. st w0 [] (changes_of (rs @ [(row, True)])) K w \<and>
          item_match item (row, True) \<and> row \<notin> set (events (shared w0)))
        (?next row) (items_done w0 K rs (item # items)) ?E" for row
    proof (cases "item_match item (row, True) \<and> row \<notin> set (events (shared w0))")
      case True
      have "valid env (st w0 [] (changes_of (rs @ [(row, True)])) K) (?next row)
          (items_done w0 K (rs @ [(row, True)]) items) ?E"
        using Cons.prems True by (intro Cons.IH) (auto simp: item_match_def split: if_splits)
      with True show ?thesis
        by (auto elim!: valid_weaken intro: items_done_Cons)
    qed (auto simp: valid_def)
    have store: "valid env (\<lambda>w. st w0 [] (changes_of rs) K w \<and> committed e \<and> linkable K e \<and>
          ev_business_key e = pr_key item \<and> ev_content_fingerprint e = pr_fingerprint item)
        (bind_op (insert_event e) ?next) (items_done w0 K rs (item # items)) ?E" for e
    proof (cases "committed e \<and> linkable K e \<and> item_match item (e, True)")
      case True
      then have e: "committed e" "linkable K e" by auto
      show ?thesis
      proof (rule valid_bind [OF _ rest], rule valid_weaken [OF insert_event_valid [OF assms(1) e]])
        fix row w
        assume row: "st w0 [] (changes_of rs @ [InsertEvent row]) K w \<and>
          row = e\<lparr>ev_sequence := ev_sequence row\<rparr> \<and> row \<notin> set (events (shared w)) \<and>
          ev_business_key row \<notin> ev_business_key ` set (own_events (changes_of rs))"
        then have "item_match item (row, True)"
          using True by (metis (no_types, lifting) event_row.select_convs(5,6) event_row.surjective
              event_row.update_convs(1) fst_conv item_match_def)
        with row show "st w0 [] (changes_of (rs @ [(row, True)])) K w \<and>
            item_match item (row, True) \<and> row \<notin> set (events (shared w0))"
          by (auto simp: st_def dest: grows_mem)
      qed (auto simp: batch_error_def)
    qed (auto simp: valid_def item_match_def)
    have "valid env (st w0 [] (changes_of rs) K)
        (bind_op (new_report_event item) (\<lambda>event. bind_op (insert_event event) ?next))
        (items_done w0 K rs (item # items)) ?E"
      by (rule valid_bind [OF valid_weaken [OF new_report_event_valid] store])
         (auto simp: batch_error_def)
    then show ?thesis
      using None Cons.prems(2) [OF None] by simp
  qed
qed

subsection \<open>The transaction and its retries\<close>

lemma by_business_key_Some:
  "by_business_key rows k = Some row \<Longrightarrow> ev_business_key row = k \<and> row \<in> set rows"
  by (auto simp: by_business_key_def dest!: map_of_SomeD)

lemma by_business_key_None:
  "by_business_key rows k = None \<longleftrightarrow> (\<forall>row \<in> set rows. ev_business_key row \<noteq> k)"
  by (force simp: by_business_key_def map_of_eq_None_iff)

lemma select_by_keys_valid:
  assumes "orderly env"
  shows "valid env (st w0 dn [] K) (select_by_keys keys)
    (\<lambda>rows w. st w0 dn [] (K \<union> set rows) w \<and>
       rows = filter (\<lambda>e. ev_business_key e \<in> set keys) (events (shared w))) E"
  unfolding select_by_keys_def
  by (rule valid_weaken [OF select_valid [OF assms]]) (auto simp: st_def)

text \<open>A committed batch.\<close>

definition batch_done :: "world \<Rightarrow> prepared_report list \<Rightarrow> (event_row \<times> bool) list \<Rightarrow> world \<Rightarrow> bool" where
  "batch_done w0 prepared rs w \<longleftrightarrow>
     st w0 (changes_of rs) [] (set (map fst rs)) w \<and> list_all2 item_match prepared rs \<and>
     (\<forall>row \<in> set (created_rows rs). row \<notin> set (events (shared w0)))"

lemma insert_report_batch_valid:
  assumes "orderly env"
  shows "valid env (st w0 [] [] {}) (insert_report_batch prepared)
    (\<lambda>rs w. batch_done w0 prepared rs (commit w))
    (\<lambda>x w. st w0 [] [] {} (roll_back w) \<and> batch_error x)"
  unfolding insert_report_batch_def coordinate_insert_def
proof (rule valid_bind [OF lock_shared_valid [OF assms]],
    rule valid_bind [OF select_by_keys_valid [OF assms]])
  fix rows
  have "valid env (st w0 [] (changes_of []) (set rows))
      (insert_items (by_business_key rows) Map.empty 0 prepared [])
      (items_done w0 (set rows) [] prepared) (\<lambda>x w. (\<exists>ms. st w0 [] ms (set rows) w) \<and> batch_error x)"
    by (rule insert_items_valid [OF assms]) (auto dest: by_business_key_Some)
  moreover have "batch_done w0 prepared rs (commit w)" if "items_done w0 (set rows) [] prepared rs w" for rs w
    using that st_commit [of w0 "[]" "changes_of rs" "set rows" w]
    by (auto simp: items_done_def batch_done_def elim!: st_known)
  moreover have "st w0 [] [] {} (roll_back w)" if "st w0 [] ms (set rows) w" for ms w
    using st_roll_back [OF that] by (auto elim: st_known)
  ultimately show "valid env (\<lambda>w. st w0 [] [] ({} \<union> set rows) w \<and>
        rows = filter (\<lambda>e. ev_business_key e \<in> set (map pr_key prepared)) (events (shared w)))
      (insert_items (by_business_key rows) Map.empty 0 prepared [])
      (\<lambda>rs w. batch_done w0 prepared rs (commit w))
      (\<lambda>x w. st w0 [] [] {} (roll_back w) \<and> batch_error x)"
    by (auto elim!: valid_weaken)
qed

definition batch_refused :: "exn \<Rightarrow> bool" where
  "batch_refused x \<longleftrightarrow> batch_error x \<or> (\<exists>i k row. x = batch_row_conflict i k row)"

lemma first_conflict_Some:
  "first_conflict existing index items = Some x \<Longrightarrow> \<exists>i k row. x = batch_row_conflict i k row"
  by (induction items arbitrary: index) (auto split: option.splits if_splits)

lemma committed_batch_conflict_valid:
  assumes "orderly env"
  shows "valid env (st w0 [] [] {}) (committed_batch_conflict prepared)
    (\<lambda>c w. st w0 [] [] {} w \<and> (\<forall>x. c = Some x \<longrightarrow> batch_refused x)) E"
  unfolding committed_batch_conflict_def
proof (rule valid_transaction, rule valid_seq [OF select_by_keys_valid [OF assms, of w0 "[]" "{}"]])
  fix rows
  show "valid env (\<lambda>w. st w0 [] [] ({} \<union> set rows) w \<and>
        rows = filter (\<lambda>e. ev_business_key e \<in> set (remdups (map pr_key prepared))) (events (shared w)))
      (return_op (first_conflict (by_business_key rows) 0 prepared))
      (\<lambda>c w. st w0 [] [] {} (commit w) \<and> (\<forall>x. c = Some x \<longrightarrow> batch_refused x))
      (\<lambda>e w. E e (roll_back w))"
  proof (rule valid_return)
    fix w
    assume "st w0 [] [] ({} \<union> set rows) w \<and>
      rows = filter (\<lambda>e. ev_business_key e \<in> set (remdups (map pr_key prepared))) (events (shared w))"
    then have "st w0 [] [] {} w"
      by (auto elim: st_known)
    then show "st w0 [] [] {} (commit w) \<and>
        (\<forall>x. first_conflict (by_business_key rows) 0 prepared = Some x \<longrightarrow> batch_refused x)"
      using st_commit [of w0 "[]" "[]" "{}" w] by (auto simp: batch_refused_def dest: first_conflict_Some)
  qed
qed auto

lemma batch_loop_valid:
  assumes "orderly env"
  shows "valid env (st w0 [] [] {}) (batch_loop prepared attempt) (batch_done w0 prepared)
    (\<lambda>x w. st w0 [] [] {} w \<and> batch_refused x)"
proof (induction prepared attempt rule: batch_loop.induct)
  case (1 prepared attempt)
  let ?Q = "batch_done w0 prepared" and ?E = "\<lambda>x w. st w0 [] [] {} w \<and> batch_refused x"
  have tx: "valid env (st w0 [] [] {}) (transaction (insert_report_batch prepared)) ?Q
      (\<lambda>x w. if x = IntegrityError then st w0 [] [] {} w else ?E x w)"
    by (rule valid_transaction, rule valid_weaken [OF insert_report_batch_valid [OF assms]])
       (auto simp: batch_refused_def)
  have "valid env (st w0 [] [] {})
      (bind_op (committed_batch_conflict prepared) (\<lambda>conflict. case conflict of
           Some e \<Rightarrow> raise_op e
         | None \<Rightarrow> if BATCH_INSERT_ATTEMPTS \<le> attempt + 1 then raise_op IntegrityError
             else batch_loop prepared (attempt + 1))) ?Q ?E"
  proof (rule valid_bind [OF committed_batch_conflict_valid [OF assms]])
    fix conflict
    show "valid env (\<lambda>w. st w0 [] [] {} w \<and> (\<forall>x. conflict = Some x \<longrightarrow> batch_refused x))
        (case conflict of
           Some e \<Rightarrow> raise_op e
         | None \<Rightarrow> if BATCH_INSERT_ATTEMPTS \<le> attempt + 1 then raise_op IntegrityError
             else batch_loop prepared (attempt + 1)) ?Q ?E"
    proof (cases conflict)
      case None
      have ie: "valid env (st w0 [] [] {}) (raise_op IntegrityError) ?Q ?E"
        by (rule valid_raise) (simp add: batch_refused_def batch_error_def)
      show ?thesis
        using None 1 ie by simp
    qed (auto intro: valid_raise)
  qed
  then show ?case
    by (subst batch_loop.simps) (rule valid_on_integrity_error [OF tx])
qed

subsection \<open>Preparing the items\<close>

lemma prepare_batch_report_Inr:
  "prepare_batch_report txt i r = Inr item \<Longrightarrow>
     pr_request item = r \<and> report_content r = Inr (pr_fingerprint item)"
  by (auto simp: prepare_batch_report_def report_content_def result_simps split: sum.splits)

lemma prepare_batch_Inr:
  assumes "prepare_batch txt requests = Inr prepared"
  shows "list_all2 (\<lambda>r item. pr_request item = r \<and> report_content r = Inr (pr_fingerprint item))
    requests prepared"
proof -
  have "list_all2 (\<lambda>(i, r) item. prepare_batch_report txt i r = Inr item)
      (zip [0..<length requests] requests) prepared"
    using assms by (simp add: prepare_batch_def traverse_Inr_iff case_prod_unfold)
  then show ?thesis
    by (auto simp: list_all2_conv_all_nth dest!: prepare_batch_report_Inr)
qed

lemma append_report_batch_eq:
  "append_report_batch txt requests =
     (case prepare_batch txt requests of
        Inl e \<Rightarrow> raise_op e
      | Inr prepared \<Rightarrow>
          (case check_batch prepared Map.empty 0 prepared of
             Inl e \<Rightarrow> raise_op e
           | Inr _ \<Rightarrow> batch_loop prepared 0))"
  by (simp add: append_report_batch_def bind_lift cong: sum.case_cong)

lemma append_report_batch_valid:
  assumes "orderly env"
  shows "valid env (st w0 [] [] {}) (append_report_batch txt requests)
    (\<lambda>rs w. \<exists>prepared. prepare_batch txt requests = Inr prepared \<and> batch_done w0 prepared rs w)
    (\<lambda>x w. st w0 [] [] {} w)"
proof -
  have "valid env (st w0 [] [] {}) (batch_loop prepared 0) (batch_done w0 prepared) (\<lambda>x w. st w0 [] [] {} w)"
    for prepared by (rule valid_weaken [OF batch_loop_valid [OF assms]]) auto
  then show ?thesis
    by (auto simp: append_report_batch_eq split: sum.splits intro!: valid_raise elim!: valid_weaken)
qed

lemma item_match_request:
  assumes "prepare_batch txt requests = Inr prepared" "list_all2 item_match prepared rs"
  shows "list_all2 (\<lambda>r p. ev_business_key (fst p) = rq_business_key r \<and>
    report_content r = Inr (ev_content_fingerprint (fst p))) requests rs"
  using prepare_batch_Inr [OF assms(1)] assms(2)
  by (auto simp: list_all2_conv_all_nth item_match_def pr_key_def)

subsection \<open>Collisions inside a batch\<close>

text \<open>The reference for the first loop: where a key first occurs, and the first item that clashes.\<close>

definition first_of :: "prepared_report list \<Rightarrow> nat \<Rightarrow> pystr \<Rightarrow> nat option" where
  "first_of items n k = find (\<lambda>i. pr_key (items ! i) = k) [0..<n]"

definition clashes :: "prepared_report list \<Rightarrow> nat \<Rightarrow> bool" where
  "clashes items j \<longleftrightarrow>
     (case first_of items j (pr_key (items ! j)) of
        None \<Rightarrow> False
      | Some i \<Rightarrow> pr_fingerprint (items ! i) \<noteq> pr_fingerprint (items ! j))"

definition batch_check_spec :: "prepared_report list \<Rightarrow> unit result" where
  "batch_check_spec items =
     (case find (clashes items) [0..<length items] of
        None \<Rightarrow> Inr ()
      | Some j \<Rightarrow> Inl (batch_conflict j (the (first_of items j (pr_key (items ! j)))) (pr_key (items ! j))))"

lemma find_append: "find P (xs @ ys) = (case find P xs of None \<Rightarrow> find P ys | Some x \<Rightarrow> Some x)"
  by (induction xs) auto

lemma first_of_Suc:
  "first_of items (Suc n) = (if first_of items n (pr_key (items ! n)) = None
     then (first_of items n)(pr_key (items ! n) \<mapsto> n) else first_of items n)"
  by (rule ext) (auto simp: first_of_def find_append split: option.splits)

lemma check_batch_spec_aux:
  assumes "n \<le> length items"
  shows "check_batch items (first_of items n) n (drop n items) =
    (case find (clashes items) [n..<length items] of
       None \<Rightarrow> Inr ()
     | Some j \<Rightarrow> Inl (batch_conflict j (the (first_of items j (pr_key (items ! j)))) (pr_key (items ! j))))"
  using assms
proof (induction "length items - n" arbitrary: n)
  case 0
  then show ?case by simp
next
  case (Suc m)
  then have n: "n < length items" by simp
  then have IH: "check_batch items (first_of items (Suc n)) (Suc n) (drop (Suc n) items) =
    (case find (clashes items) [Suc n..<length items] of
       None \<Rightarrow> Inr ()
     | Some j \<Rightarrow> Inl (batch_conflict j (the (first_of items j (pr_key (items ! j)))) (pr_key (items ! j))))"
    using Suc by simp
  have "drop n items = items ! n # drop (Suc n) items" "[n..<length items] = n # [Suc n..<length items]"
    using n by (simp_all add: Cons_nth_drop_Suc upt_conv_Cons)
  then show ?case
    using IH
    by (cases "first_of items n (pr_key (items ! n))") (auto simp: clashes_def first_of_Suc)
qed

lemma check_batch_spec: "check_batch items Map.empty 0 items = batch_check_spec items"
proof -
  have "first_of items 0 = Map.empty"
    by (rule ext) (simp add: first_of_def)
  then show ?thesis
    using check_batch_spec_aux [of 0 items] by (simp add: batch_check_spec_def)
qed

lemma first_of_Some_iff:
  "first_of items n k = Some i \<longleftrightarrow>
     i < n \<and> pr_key (items ! i) = k \<and> (\<forall>h < i. pr_key (items ! h) \<noteq> k)"
  by (auto simp: first_of_def find_Some_iff)

lemma first_of_None_iff: "first_of items n k = None \<longleftrightarrow> (\<forall>i < n. pr_key (items ! i) \<noteq> k)"
  by (auto simp: first_of_def find_None_iff)

lemma first_of_earlier:
  assumes "i < n" "pr_key (items ! i) = k"
  shows "\<exists>f \<le> i. first_of items n k = Some f"
proof -
  obtain f where f: "first_of items n k = Some f"
    using assms by (cases "first_of items n k") (auto simp: first_of_None_iff)
  then have "f \<le> i"
    using assms(2) by (meson first_of_Some_iff linorder_not_less)
  with f show ?thesis by blast
qed

lemma no_clash:
  "\<not> clashes items j \<Longrightarrow> first_of items j (pr_key (items ! j)) = Some f \<Longrightarrow>
     pr_fingerprint (items ! f) = pr_fingerprint (items ! j)"
  by (simp add: clashes_def)

lemma no_clash_equal:
  assumes "\<forall>j < length items. \<not> clashes items j" "j < length items" "i < j"
    and "pr_key (items ! i) = pr_key (items ! j)"
  shows "pr_fingerprint (items ! i) = pr_fingerprint (items ! j)"
proof -
  obtain f where f: "f \<le> i" "first_of items j (pr_key (items ! j)) = Some f"
    using first_of_earlier [OF assms(3,4)] by blast
  then have "pr_fingerprint (items ! f) = pr_fingerprint (items ! j)"
    using assms(1,2) by (intro no_clash) auto
  moreover have "pr_fingerprint (items ! f) = pr_fingerprint (items ! i)"
  proof (cases "f = i")
    case False
    then have "first_of items i (pr_key (items ! i)) = Some f"
      using f assms(3,4) by (auto simp: first_of_Some_iff)
    then show ?thesis
      using assms(1-3) by (intro no_clash) auto
  qed simp
  ultimately show ?thesis by simp
qed

lemma batch_check_ok:
  "batch_check_spec items = Inr () \<longleftrightarrow>
     (\<forall>i < length items. \<forall>j < length items. pr_key (items ! i) = pr_key (items ! j) \<longrightarrow>
        pr_fingerprint (items ! i) = pr_fingerprint (items ! j))"
proof
  assume "batch_check_spec items = Inr ()"
  then have L: "\<forall>j < length items. \<not> clashes items j"
    by (auto simp: batch_check_spec_def find_None_iff split: option.splits)
  show "\<forall>i < length items. \<forall>j < length items. pr_key (items ! i) = pr_key (items ! j) \<longrightarrow>
      pr_fingerprint (items ! i) = pr_fingerprint (items ! j)"
  proof (intro allI impI)
    fix i j
    assume ij: "i < length items" "j < length items" "pr_key (items ! i) = pr_key (items ! j)"
    consider "i < j" | "i = j" | "j < i" by linarith
    then show "pr_fingerprint (items ! i) = pr_fingerprint (items ! j)"
    proof cases
      case 1
      then show ?thesis by (rule no_clash_equal [OF L ij(2) _ ij(3)])
    next
      case 2
      then show ?thesis by (rule arg_cong)
    next
      case 3
      then show ?thesis by (rule no_clash_equal [OF L ij(1) _ ij(3) [symmetric], symmetric])
    qed
  qed
next
  assume R: "\<forall>i < length items. \<forall>j < length items. pr_key (items ! i) = pr_key (items ! j) \<longrightarrow>
      pr_fingerprint (items ! i) = pr_fingerprint (items ! j)"
  have "\<not> clashes items j" if "j < length items" for j
  proof (cases "first_of items j (pr_key (items ! j))")
    case None
    then show ?thesis by (simp add: clashes_def)
  next
    case (Some i)
    then have "i < length items" "pr_key (items ! i) = pr_key (items ! j)"
      using that unfolding first_of_Some_iff by simp_all
    then have "pr_fingerprint (items ! i) = pr_fingerprint (items ! j)"
      using R that by blast
    with Some show ?thesis by (simp add: clashes_def)
  qed
  then have "find (clashes items) [0..<length items] = None"
    by (auto simp: find_None_iff)
  then show "batch_check_spec items = Inr ()"
    by (simp add: batch_check_spec_def)
qed

subsection \<open>Repeating a batch\<close>

lemma insert_items_known:
  assumes "list_all2 (\<lambda>item p. resolved (pr_key item) = Some (fst p) \<and>
    ev_content_fingerprint (fst p) = pr_fingerprint item) items ps"
  shows "insert_items resolved added index items rs = return_op (rs @ map (\<lambda>p. (fst p, False)) ps)"
  using assms
  by (induction items ps arbitrary: index rs rule: list_all2_induct) (auto simp: check_idempotency_def)

lemma by_business_key_known:
  assumes "st w0 dn ms K w" "e \<in> K" "ev_business_key e \<in> set keys"
  shows "by_business_key (filter (\<lambda>e. ev_business_key e \<in> set keys) (events (shared w)))
    (ev_business_key e) = Some e"
proof -
  let ?rows = "filter (\<lambda>e. ev_business_key e \<in> set keys) (events (shared w))"
  have "e \<in> set ?rows"
    using assms by (auto simp: st_def)
  then obtain f where f: "by_business_key ?rows (ev_business_key e) = Some f"
    using by_business_key_None [of ?rows "ev_business_key e"] by fastforce
  then have "f \<in> set (events (shared w))" "ev_business_key f = ev_business_key e"
    by (auto dest: by_business_key_Some)
  then have "f = e"
    using st_unique_key [OF assms(1,2)] by simp
  with f show ?thesis by simp
qed

lemma insert_report_batch_known:
  assumes "orderly env" "list_all2 item_match prepared rs"
  shows "valid env (st w0 [] [] (set (map fst rs))) (insert_report_batch prepared)
    (\<lambda>out w. st w0 [] [] (set (map fst rs)) w \<and> out = map (\<lambda>p. (fst p, False)) rs) (\<lambda>_ _. False)"
  unfolding insert_report_batch_def coordinate_insert_def
proof (rule valid_bind [OF lock_shared_valid [OF assms(1)]],
    rule valid_bind [OF select_by_keys_valid [OF assms(1)]], rule validI)
  let ?K = "set (map fst rs)"
  fix rows w
  assume w: "st w0 [] [] (?K \<union> set rows) w \<and>
    rows = filter (\<lambda>e. ev_business_key e \<in> set (map pr_key prepared)) (events (shared w))"
  then have st: "st w0 [] [] ?K w"
    by (auto elim: st_known)
  have "list_all2 (\<lambda>item p. by_business_key rows (pr_key item) = Some (fst p) \<and>
      ev_content_fingerprint (fst p) = pr_fingerprint item) prepared rs"
  proof (rule list_all2_all_nthI)
    fix i assume i: "i < length prepared"
    then have m: "item_match (prepared ! i) (rs ! i)" "fst (rs ! i) \<in> ?K"
      using assms(2) by (auto simp: list_all2_conv_all_nth)
    then have "by_business_key rows (ev_business_key (fst (rs ! i))) = Some (fst (rs ! i))"
      using by_business_key_known [OF st m(2), of "map pr_key prepared"] w i
      by (auto simp: item_match_def)
    with m show "by_business_key rows (pr_key (prepared ! i)) = Some (fst (rs ! i)) \<and>
        ev_content_fingerprint (fst (rs ! i)) = pr_fingerprint (prepared ! i)"
      by (simp add: item_match_def)
  qed (use assms(2) in \<open>auto dest: list_all2_lengthD\<close>)
  then show "case insert_items (by_business_key rows) Map.empty 0 prepared [] env w of
      (Inl e, w') \<Rightarrow> False
    | (Inr out, w') \<Rightarrow> st w0 [] [] ?K w' \<and> out = map (\<lambda>p. (fst p, False)) rs"
    using insert_items_known [of "by_business_key rows" prepared rs Map.empty 0 "[]"] st
    by (simp add: return_op_def)
qed

lemma append_report_batch_known:
  assumes "orderly env" "prepare_batch txt requests = Inr prepared"
    and "check_batch prepared Map.empty 0 prepared = Inr ()" "list_all2 item_match prepared rs"
  shows "valid env (st w0 [] [] (set (map fst rs))) (append_report_batch txt requests)
    (\<lambda>out w. st w0 [] [] (set (map fst rs)) w \<and> out = map (\<lambda>p. (fst p, False)) rs) (\<lambda>_ _. False)"
proof -
  let ?K = "set (map fst rs)"
  have "valid env (st w0 [] [] ?K) (transaction (insert_report_batch prepared))
      (\<lambda>out w. st w0 [] [] ?K w \<and> out = map (\<lambda>p. (fst p, False)) rs) (\<lambda>_ _. False)"
    by (rule valid_transaction, rule valid_weaken [OF insert_report_batch_known [OF assms(1,4)]])
       (auto dest: st_commit)
  then have "valid env (st w0 [] [] ?K) (batch_loop prepared 0)
      (\<lambda>out w. st w0 [] [] ?K w \<and> out = map (\<lambda>p. (fst p, False)) rs) (\<lambda>_ _. False)"
    by (subst batch_loop.simps)
       (rule valid_on_integrity_error [where R = "\<lambda>_. False"], auto elim: valid_weaken simp: valid_def)
  then show ?thesis
    using assms(2,3) by (simp add: append_report_batch_eq)
qed

end
