(* ===== verification/Event_Claims.thy ===== *)
theory Event_Claims
  imports Batch_Properties
begin

section \<open>Properties of the event service\<close>

text \<open>
  The statements about the append commands, each over an arbitrary environment that keeps the
  log's invariant, with witnesses in a small world: an empty database and an environment in which
  nothing else happens.
\<close>

definition quiet_env :: environment where
  "quiet_env = \<lparr>others = (\<lambda>_ _ _ d. d), clock = (\<lambda>n. \<lparr>wall = 63871200000000000 + int n, tz = Some 0\<rparr>),
     uuid_factory = (\<lambda>n. word_of_nat (n + 1)), postgresql = True, try_lock = (\<lambda>_. True), row_locked = (\<lambda>_ _. False)\<rparr>"

definition start_world :: world where
  "start_world = \<lparr>shared = empty_db, mine = [], held = [], tick = 0, trace = [], written = []\<rparr>"

definition sample_report :: submit_report where
  "sample_report = \<lparr>rq_business_key = py ''cal-1'', rq_instrument_id = py ''scale'',
     rq_operator_id = py ''ann'', rq_report = JObj [(py ''offset'', JInt 3)]\<rparr>"

definition sample_revocation :: submit_revocation where
  "sample_revocation = \<lparr>rv_business_key = py ''cal-2'', rv_operator_id = py ''ann'',
     rv_reason = py ''drift''\<rparr>"

lemma quiet_env [simp]: "quiet quiet_env" "orderly quiet_env"
  using quiet_orderly by (simp_all add: quiet_def quiet_env_def)

lemma start_world [simp]: "world_ok start_world" "mine start_world = []" "shared start_world = empty_db"
  by (simp_all add: start_world_def world_ok_def visible_def)

text \<open>The text of a request can be encoded, and so can its content.\<close>

definition request_encodable :: "submit_report \<Rightarrow> bool" where
  "request_encodable r \<longleftrightarrow>
     text_ok (rq_business_key r) \<and> text_ok (rq_instrument_id r) \<and> text_ok (rq_operator_id r) \<and>
     plain (rq_report r) \<and> encodable_json (rq_report r)"

lemma digest_json_ok: "plain v \<Longrightarrow> encodable_json v \<Longrightarrow> \<exists>d. digest_json v = Inr d \<and> text_ok d"
  using canonical_json_ok [of v] by (auto simp: digest_json_def)

lemma report_fingerprint_ok:
  assumes "request_encodable r" "text_ok dg"
  shows "\<exists>fp. report_fingerprint r dg = Inr fp \<and> text_ok fp"
proof -
  let ?p = "[(py ''event_type'', JStr (py ''report'')), (py ''business_key'', JStr (rq_business_key r)),
    (py ''instrument_id'', JStr (rq_instrument_id r)), (py ''operator_id'', JStr (rq_operator_id r)),
    (py ''report_digest'', JStr dg)]"
  have "plain (JObj ?p)" "encodable_json (JObj ?p)"
    using assms by (simp_all add: plain_def encodable_obj text_ok_py request_encodable_def)
  then show ?thesis
    using canonical_json_ok [of "JObj ?p"] by (auto simp: report_fingerprint_def fingerprint_def)
qed

lemma build_report_ok:
  assumes "request_encodable r" "text_ok dg" "text_ok fp" "in_calendar now"
  shows "\<exists>e. build_event i now Report (rq_business_key r) fp (rq_instrument_id r) (rq_operator_id r)
    (Some dg) None None None = Inr e"
proof -
  let ?e = "\<lparr>ev_sequence = 0, ev_event_id = i, ev_record_id = i, ev_event_type = Report,
    ev_business_key = rq_business_key r, ev_content_fingerprint = fp,
    ev_instrument_id = rq_instrument_id r, ev_operator_id = rq_operator_id r,
    ev_report_digest = Some dg, ev_previous_event_id = None, ev_reason = None,
    ev_occurred_at = now, ev_leaf_hash = []\<rparr>"
  have "event_encodable ?e"
    using assms by (simp add: event_encodable_def request_encodable_def opt_text_ok_def)
  then show ?thesis
    using event_commitment_bytes_ok [of ?e] by (auto simp: build_event_def Let_def)
qed

text \<open>A session that meets no other traffic, step by step.\<close>

definition at_db :: "ledger_db \<Rightarrow> world \<Rightarrow> bool" where
  "at_db d w \<longleftrightarrow> shared w = d \<and> mine w = []"

lemma quiet_interfere: "quiet env \<Longrightarrow> interfere env w = w\<lparr>tick := tick w + 1\<rparr>"
  by (simp add: quiet_def interfere_def)

lemma quiet_select:
  "quiet env \<Longrightarrow> valid env (at_db d) (select_op f) (\<lambda>x w. at_db d w \<and> x = f d) E"
  by (auto simp: valid_def select_op_def Let_def quiet_interfere quiet_def at_db_def visible_def)

lemma quiet_lock: "quiet env \<Longrightarrow> valid env (at_db d) lock_shared_op (\<lambda>_. at_db d) E"
  by (auto simp: valid_def lock_shared_op_def quiet_interfere at_db_def)

lemma quiet_insert_event:
  assumes "quiet env" "event_fits (events d) (e\<lparr>ev_sequence := next_sequence d\<rparr>)"
  shows "valid env (at_db d) (insert_event e)
    (\<lambda>row w. events (shared w) = events d \<and> mine w = [InsertEvent row] \<and>
       row = e\<lparr>ev_sequence := next_sequence d\<rparr>) E"
  using assms
  by (auto simp: valid_def insert_event_def Let_def quiet_interfere quiet_def at_db_def visible_def)

lemma quiet_new_report:
  assumes "\<And>i now. in_calendar now \<Longrightarrow>
      \<exists>e. build_event i now Report key fp ins oper dig None None None = Inr e"
    and "\<And>n. in_calendar (clock env n)" "\<And>n. uuid_factory env n \<notin> ids"
  shows "valid env (at_db d) (new_event Report key fp ins oper dig None None None)
    (\<lambda>e w. at_db d w \<and> ev_event_id e \<notin> ids \<and> ev_business_key e = key \<and> ev_event_type e = Report \<and>
       ev_report_digest e = dig \<and> ev_previous_event_id e = None \<and> ev_reason e = None) E"
  unfolding new_event_def
proof (rule valid_bind [where R = "\<lambda>i w. at_db d w \<and> i \<notin> ids"])
  show "valid env (at_db d) uuid_op (\<lambda>i w. at_db d w \<and> i \<notin> ids) E"
    using assms(3) by (simp add: valid_def uuid_op_def at_db_def)
  fix i
  show "valid env (\<lambda>w. at_db d w \<and> i \<notin> ids)
      (bind_op clock_op (\<lambda>now. lift_op (build_event i now Report key fp ins oper dig None None None)))
      (\<lambda>e w. at_db d w \<and> ev_event_id e \<notin> ids \<and> ev_business_key e = key \<and> ev_event_type e = Report \<and>
         ev_report_digest e = dig \<and> ev_previous_event_id e = None \<and> ev_reason e = None) E"
  proof (rule valid_bind [where R = "\<lambda>now w. at_db d w \<and> i \<notin> ids \<and> in_calendar now"])
    show "valid env (\<lambda>w. at_db d w \<and> i \<notin> ids) clock_op
        (\<lambda>now w. at_db d w \<and> i \<notin> ids \<and> in_calendar now) E"
      using assms(2) by (simp add: valid_def clock_op_def at_db_def)
    fix now
    show "valid env (\<lambda>w. at_db d w \<and> i \<notin> ids \<and> in_calendar now)
        (lift_op (build_event i now Report key fp ins oper dig None None None))
        (\<lambda>e w. at_db d w \<and> ev_event_id e \<notin> ids \<and> ev_business_key e = key \<and> ev_event_type e = Report \<and>
           ev_report_digest e = dig \<and> ev_previous_event_id e = None \<and> ev_reason e = None) E"
      by (rule valid_lift) (use assms(1) [of now i] in \<open>auto dest!: build_event_Inr\<close>)
  qed
qed

lemma quiet_append_report_tx:
  assumes "quiet env" "request_encodable r" "text_ok dg" "text_ok fp"
    and "\<And>n. in_calendar (clock env n)" "\<And>n. uuid_factory env n \<notin> ev_event_id ` set (events d)"
    and "rq_business_key r \<notin> ev_business_key ` set (events d)"
  shows "valid env (at_db d) (append_report_tx r dg fp)
    (\<lambda>p w. snd p \<and> events (visible w) = events d @ [fst p]) (\<lambda>_ _. False)"
  unfolding append_report_tx_def find_existing_def coordinate_insert_def
proof (rule valid_bind [OF quiet_select [OF assms(1)]])
  fix found
  have "scalar (\<lambda>e. ev_business_key e = rq_business_key r) (events d) = None"
    using assms(7) by (force simp: scalar_None)
  moreover have "valid env (at_db d) (bind_op lock_shared_op (\<lambda>_.
      bind_op (new_event Report (rq_business_key r) fp (rq_instrument_id r) (rq_operator_id r)
        (Some dg) None None None) (\<lambda>event.
      bind_op (insert_event event) (\<lambda>row. return_op (row, True)))))
    (\<lambda>p w. snd p \<and> events (visible w) = events d @ [fst p]) (\<lambda>_ _. False)"
  proof (rule valid_bind [OF quiet_lock [OF assms(1)]], rule valid_bind [OF quiet_new_report])
    fix e
    let ?fits = "event_fits (events d) (e\<lparr>ev_sequence := next_sequence d\<rparr>)"
    have "valid env (at_db d) (bind_op (insert_event e) (\<lambda>row. return_op (row, True)))
        (\<lambda>p w. snd p \<and> events (visible w) = events d @ [fst p]) (\<lambda>_ _. False)" if ?fits
      by (rule valid_bind [OF quiet_insert_event [OF assms(1) that]], rule valid_return)
         (simp add: events_visible)
    then show "valid env (\<lambda>w. at_db d w \<and> ev_event_id e \<notin> ev_event_id ` set (events d) \<and>
          ev_business_key e = rq_business_key r \<and> ev_event_type e = Report \<and>
          ev_report_digest e = Some dg \<and> ev_previous_event_id e = None \<and> ev_reason e = None)
        (bind_op (insert_event e) (\<lambda>row. return_op (row, True)))
        (\<lambda>p w. snd p \<and> events (visible w) = events d @ [fst p]) (\<lambda>_ _. False)"
      using assms(7) by (cases ?fits) (auto simp: valid_def event_fits_def event_payload_shape_def)
  qed (use assms build_report_ok in auto)
  ultimately show "valid env (\<lambda>w. at_db d w \<and>
        found = scalar (\<lambda>e. ev_business_key e = rq_business_key r) (events d))
      (case found of
         None \<Rightarrow> bind_op lock_shared_op (\<lambda>_.
           bind_op (new_event Report (rq_business_key r) fp (rq_instrument_id r) (rq_operator_id r)
             (Some dg) None None None) (\<lambda>event.
           bind_op (insert_event event) (\<lambda>row. return_op (row, True))))
       | Some existing \<Rightarrow> answer_existing existing fp)
      (\<lambda>p w. snd p \<and> events (visible w) = events d @ [fst p]) (\<lambda>_ _. False)"
    by (cases found) (auto simp: valid_def)
qed

lemma quiet_append_report:
  assumes "quiet env" "request_encodable r" "\<And>n. in_calendar (clock env n)"
    and "\<And>n. uuid_factory env n \<notin> ev_event_id ` set (events d)"
    and "rq_business_key r \<notin> ev_business_key ` set (events d)"
  shows "valid env (at_db d) (append_report r)
    (\<lambda>p w. snd p \<and> events (shared w) = events d @ [fst p]) (\<lambda>_ _. False)"
proof -
  obtain dg fp where dg: "digest_json (rq_report r) = Inr dg" "text_ok dg"
    and fp: "report_fingerprint r dg = Inr fp" "text_ok fp"
    using digest_json_ok report_fingerprint_ok [OF assms(2)] assms(2)
    by (metis request_encodable_def)
  have "valid env (at_db d) (transaction (append_report_tx r dg fp))
      (\<lambda>p w. snd p \<and> events (shared w) = events d @ [fst p]) (\<lambda>_ _. False)"
    by (rule valid_transaction,
        rule valid_weaken [OF quiet_append_report_tx [OF assms(1,2) dg(2) fp(2) assms(3-5)]])
       (auto simp: at_db_def)
  then have "valid env (at_db d)
      (on_integrity_error (transaction (append_report_tx r dg fp))
        (bind_op (find_existing (rq_business_key r)) (\<lambda>found.
          case found of Some existing \<Rightarrow> answer_existing existing fp | None \<Rightarrow> raise_op IntegrityError)))
      (\<lambda>p w. snd p \<and> events (shared w) = events d @ [fst p]) (\<lambda>_ _. False)"
    by (intro valid_on_integrity_error [where R = "\<lambda>_. False"]) (auto elim: valid_weaken simp: valid_def)
  with dg fp show ?thesis
    by (simp add: append_report_eq)
qed

lemma valid_created:
  assumes "valid env P m (\<lambda>p w. snd p \<and> F (fst p) w) (\<lambda>_ _. False)" "P w"
  shows "\<exists>row w'. m env w = (Inr (row, True), w') \<and> F row w'"
proof -
  obtain res w' where run: "m env w = (res, w')" by fastforce
  then show ?thesis
    using validD [OF assms] by (cases res) (auto simp: split_paired_all)
qed

subsection \<open>Statements\<close>

text \<open>
  What \<open>append_report\<close> does, whatever other transactions do. If it returns, the returned row
  is stored, carries the request's business key and content fingerprint, and is the only row the
  command wrote if it is reported as created (then it was not there before), otherwise the
  command wrote nothing; the log's invariant holds and the log only grew. If it raises, it wrote
  nothing, and the error is the request's own encoding error, the conflict with the row stored
  under the key, or an \<open>IntegrityError\<close>.
\<close>

theorem append_report_outcome:
  assumes "orderly env" "world_ok w" "mine w = []"
  shows "case append_report request env w of
      (Inr (row, created), w') \<Rightarrow> \<exists>fp. report_content request = Inr fp \<and>
        appended w (rq_business_key request) fp row created w'
    | (Inl x, w') \<Rightarrow> st w [] [] {} w' \<and> report_refused request x (shared w')"
  using validD [OF report.outcome [OF assms(1)] st_start [OF assms(2,3)]]
  by (fastforce split: prod.splits sum.splits)

theorem append_report_outcome_witness:
  "case append_report sample_report quiet_env start_world of
      (Inr (row, created), w') \<Rightarrow> \<exists>fp. report_content sample_report = Inr fp \<and>
        appended start_world (rq_business_key sample_report) fp row created w'
    | (Inl x, w') \<Rightarrow> st start_world [] [] {} w' \<and> report_refused sample_report x (shared w')"
  by (rule append_report_outcome) simp_all

text \<open>
  A new report is accepted. When nothing else happens, the business key and the drawn ids are
  unused and the request and the clock can be encoded, \<open>append_report\<close> stores exactly one new row
  and reports it as created.
\<close>

theorem append_report_creates:
  assumes "quiet env" "mine w = []" "request_encodable request"
    and "\<And>n. in_calendar (clock env n)"
    and "\<And>n. uuid_factory env n \<notin> ev_event_id ` set (events (shared w))"
    and "rq_business_key request \<notin> ev_business_key ` set (events (shared w))"
  shows "\<exists>row w'. append_report request env w = (Inr (row, True), w') \<and>
    events (shared w') = events (shared w) @ [row]"
proof -
  have "at_db (shared w) w"
    using assms(2) by (simp add: at_db_def)
  moreover have "valid env (at_db (shared w)) (append_report request)
      (\<lambda>p w'. snd p \<and> events (shared w') = events (shared w) @ [fst p]) (\<lambda>_ _. False)"
    by (rule quiet_append_report [OF assms(1,3-6)])
  ultimately show ?thesis
    by (rule valid_created [rotated])
qed

lemma sample_report_ok: "request_encodable sample_report"
  by (simp add: request_encodable_def sample_report_def text_ok_py plain_def encodable_obj)

lemma quiet_env_clock: "clock quiet_env n = \<lparr>wall = 63871200000000000 + int n, tz = Some 0\<rparr>"
  by (simp add: quiet_env_def)

definition fixed_env :: environment where
  "fixed_env = quiet_env\<lparr>clock := (\<lambda>_. \<lparr>wall = 63871200000000000, tz = Some 0\<rparr>)\<rparr>"

lemma fixed_env [simp]: "quiet fixed_env" "orderly fixed_env" "in_calendar (clock fixed_env n)"
  using quiet_orderly [of fixed_env]
  by (simp_all add: fixed_env_def quiet_env_def quiet_def in_calendar_def instant_def max_wall_def
      max_ordinal_def day_us_def)

theorem append_report_creates_witness:
  "\<exists>row w'. append_report sample_report fixed_env start_world = (Inr (row, True), w') \<and>
     events (shared w') = events (shared start_world) @ [row]"
  by (rule append_report_creates) (simp_all add: sample_report_ok empty_db_def)



text \<open>
  C25: retries are safe. Once \<open>append_report\<close> has returned a row, repeating the same request in any
  later state of the ledger returns the same row, not created, and writes nothing; a request that
  reuses the business key with different content is refused with the conflict that names the row,
  and writes nothing.
\<close>

theorem append_report_idempotent:
  assumes "orderly env" "world_ok w" "mine w = []"
    and "append_report request env w = (Inr (row, created), w')" "later w' v" "orderly env'"
  shows "(\<exists>v'. append_report request env' v = (Inr (row, False), v') \<and> written v' = written v) \<and>
    (\<forall>other fp. rq_business_key other = rq_business_key request \<and> report_content other = Inr fp \<and>
       report_content request \<noteq> Inr fp \<longrightarrow>
       (\<exists>v'. append_report other env' v = (Inl (idempotency_conflict row), v') \<and> written v' = written v))"
  using report.replay [OF assms] report.reuse [OF assms] by blast

lemma sample_appended:
  obtains row w' where "append_report sample_report fixed_env start_world = (Inr (row, True), w')"
    "later w' w'"
proof -
  have "valid fixed_env (at_db empty_db) (append_report sample_report)
      (\<lambda>p w. snd p \<and> events (shared w) = events empty_db @ [fst p]) (\<lambda>_ _. False)"
    by (rule quiet_append_report) (simp_all add: sample_report_ok empty_db_def)
  moreover have "at_db empty_db start_world"
    by (simp add: at_db_def)
  ultimately obtain row w' where run: "append_report sample_report fixed_env start_world = (Inr (row, True), w')"
    using valid_created [of fixed_env "at_db empty_db" "append_report sample_report"
        "\<lambda>row w. events (shared w) = events empty_db @ [row]" start_world] by blast
  then have "later w' w'"
    using report.run_Inr [of fixed_env start_world sample_report row True w']
    by (auto simp: appended_def st_def later_def)
  with run that show ?thesis by blast
qed

theorem append_report_idempotent_witness:
  "\<exists>row w' v'. append_report sample_report fixed_env start_world = (Inr (row, True), w') \<and>
     append_report sample_report fixed_env w' = (Inr (row, False), v') \<and> written v' = written w'"
proof -
  obtain row w' where run: "append_report sample_report fixed_env start_world = (Inr (row, True), w')"
      "later w' w'"
    by (rule sample_appended)
  then show ?thesis
    using append_report_idempotent [of fixed_env start_world sample_report row True w' w' fixed_env]
    by auto
qed

text \<open>
  C16: a batch is atomic. If \<open>append_report_batch\<close> returns, it has committed exactly the rows it
  reports as created, and its results match the requests one by one in key and content, every row
  being stored; if it raises, whatever the number of attempts, it has written nothing.
\<close>

theorem append_report_batch_atomic:
  assumes "orderly env" "world_ok w" "mine w = []"
  shows "case append_report_batch exception_text requests env w of
      (Inr rs, w') \<Rightarrow> st w (changes_of rs) [] (set (map fst rs)) w' \<and>
        list_all2 (\<lambda>r p. ev_business_key (fst p) = rq_business_key r \<and>
          report_content r = Inr (ev_content_fingerprint (fst p))) requests rs \<and>
        (\<forall>row \<in> set (created_rows rs). row \<notin> set (events (shared w)))
    | (Inl x, w') \<Rightarrow> st w [] [] {} w'"
proof -
  obtain res w' where run: "append_report_batch exception_text requests env w = (res, w')"
    by fastforce
  have "valid env (st w [] [] {}) (append_report_batch exception_text requests)
      (\<lambda>rs w'. \<exists>prepared. prepare_batch exception_text requests = Inr prepared \<and>
         batch_done w prepared rs w')
      (\<lambda>x w'. st w [] [] {} w')"
    by (rule append_report_batch_valid [OF assms(1)])
  from validD [OF this st_start [OF assms(2,3) empty_subsetI]] show ?thesis
    using item_match_request unfolding run by (cases res) (auto simp: batch_done_def)
qed

theorem append_report_batch_atomic_witness:
  "case append_report_batch (\<lambda>_. []) [sample_report, sample_report] quiet_env start_world of
      (Inr rs, w') \<Rightarrow> st start_world (changes_of rs) [] (set (map fst rs)) w' \<and>
        list_all2 (\<lambda>r p. ev_business_key (fst p) = rq_business_key r \<and>
          report_content r = Inr (ev_content_fingerprint (fst p))) [sample_report, sample_report] rs \<and>
        (\<forall>row \<in> set (created_rows rs). row \<notin> set (events (shared start_world)))
    | (Inl x, w') \<Rightarrow> st start_world [] [] {} w'"
  by (rule append_report_batch_atomic) simp_all

text \<open>
  A retried batch is safe: once a batch has returned its results, repeating it in any later
  state returns the same rows in the same order, none of them created, and writes nothing.
\<close>

theorem append_report_batch_idempotent:
  assumes "orderly env" "world_ok w" "mine w = []"
    and "append_report_batch exception_text requests env w = (Inr rs, w')" "later w' v" "orderly env'"
  shows "\<exists>v'. append_report_batch exception_text requests env' v =
      (Inr (map (\<lambda>p. (fst p, False)) rs), v') \<and> written v' = written v"
proof -
  have "valid env (st w [] [] {}) (append_report_batch exception_text requests)
      (\<lambda>rs w'. \<exists>prepared. prepare_batch exception_text requests = Inr prepared \<and>
         batch_done w prepared rs w')
      (\<lambda>x w'. st w [] [] {} w')"
    by (rule append_report_batch_valid [OF assms(1)])
  from valid_Inr [OF this st_start [OF assms(2,3) empty_subsetI] assms(4)] obtain prepared
    where p: "prepare_batch exception_text requests = Inr prepared" "batch_done w prepared rs w'"
    by blast
  then have c: "check_batch prepared Map.empty 0 prepared = Inr ()"
    using assms(4) by (auto simp: append_report_batch_eq raise_op_def split: sum.splits)
  have "st v [] [] (set (map fst rs)) v"
    using p(2) assms(5) grows_mem
    by (intro st_start) (auto simp: later_def batch_done_def st_def)
  moreover note known = append_report_batch_known [OF assms(6) p(1) c]
  ultimately show ?thesis
    using validD [OF known, of rs v v] p(2)
    by (auto simp: batch_done_def st_def split: prod.splits sum.splits)
qed

text \<open>A batch of one report on an empty ledger.\<close>

lemma quiet_single_batch:
  assumes "request_encodable r" "text_ok dg" "text_ok fp"
    and "item = \<lparr>pr_request = r, pr_report_digest = dg, pr_fingerprint = fp\<rparr>"
  shows "valid fixed_env (at_db empty_db) (insert_report_batch [item])
    (\<lambda>rs w. \<exists>row. rs = [(row, True)]) (\<lambda>_ _. False)"
  unfolding insert_report_batch_def coordinate_insert_def select_by_keys_def
proof (rule valid_bind [OF quiet_lock], simp, rule valid_bind [OF quiet_select], simp)
  fix rows
  have "valid fixed_env (at_db empty_db)
      (bind_op (new_report_event item) (\<lambda>event. bind_op (insert_event event) (\<lambda>row. return_op [(row, True)])))
      (\<lambda>rs w. \<exists>row. rs = [(row, True)]) (\<lambda>_ _. False)"
    unfolding new_report_event_def
  proof (rule valid_bind [OF quiet_new_report [where ids = "{}"]])
    fix e
    let ?fits = "event_fits (events empty_db) (e\<lparr>ev_sequence := next_sequence empty_db\<rparr>)"
    have "valid fixed_env (at_db empty_db) (bind_op (insert_event e) (\<lambda>row. return_op [(row, True)]))
        (\<lambda>rs w. \<exists>row. rs = [(row, True)]) (\<lambda>_ _. False)" if ?fits
      by (rule valid_bind [OF quiet_insert_event [OF _ that]], simp, rule valid_return) simp
    then show "valid fixed_env (\<lambda>w. at_db empty_db w \<and> ev_event_id e \<notin> {} \<and>
          ev_business_key e = rq_business_key (pr_request item) \<and> ev_event_type e = Report \<and>
          ev_report_digest e = Some (pr_report_digest item) \<and> ev_previous_event_id e = None \<and>
          ev_reason e = None)
        (bind_op (insert_event e) (\<lambda>row. return_op [(row, True)]))
        (\<lambda>rs w. \<exists>row. rs = [(row, True)]) (\<lambda>_ _. False)"
      by (cases ?fits) (auto simp: valid_def event_fits_def event_payload_shape_def empty_db_def)
  qed (use assms build_report_ok in auto)
  moreover have "by_business_key [] = Map.empty"
    by (simp add: by_business_key_def)
  ultimately show "valid fixed_env (\<lambda>w. at_db empty_db w \<and>
        rows = filter (\<lambda>e. ev_business_key e \<in> set (map pr_key [item])) (events empty_db))
      (insert_items (by_business_key rows) Map.empty 0 [item] [])
      (\<lambda>rs w. \<exists>row. rs = [(row, True)]) (\<lambda>_ _. False)"
    by (cases "rows = []") (auto simp: valid_def empty_db_def)
qed

lemma single_batch_run:
  obtains row w' where
    "append_report_batch (\<lambda>_. []) [sample_report] fixed_env start_world = (Inr [(row, True)], w')"
    "later w' w'"
proof -
  obtain dg fp where dg: "digest_json (rq_report sample_report) = Inr dg" "text_ok dg"
    and fp: "report_fingerprint sample_report dg = Inr fp" "text_ok fp"
    using digest_json_ok report_fingerprint_ok sample_report_ok by (metis request_encodable_def)
  let ?item = "\<lparr>pr_request = sample_report, pr_report_digest = dg, pr_fingerprint = fp\<rparr>"
  have "append_report_batch (\<lambda>_. []) [sample_report] = batch_loop [?item] 0"
    using dg(1) fp(1) by (simp add: append_report_batch_eq prepare_batch_def prepare_batch_report_def)
  moreover have "valid fixed_env (at_db empty_db) (transaction (insert_report_batch [?item]))
      (\<lambda>rs w. \<exists>row. rs = [(row, True)]) (\<lambda>_ _. False)"
    by (rule valid_transaction, rule valid_weaken
          [OF quiet_single_batch [OF sample_report_ok dg(2) fp(2) refl]]) (auto simp: at_db_def)
  then have "valid fixed_env (at_db empty_db) (batch_loop [?item] 0)
      (\<lambda>rs w. \<exists>row. rs = [(row, True)]) (\<lambda>_ _. False)"
    by (subst batch_loop.simps)
       (rule valid_on_integrity_error [where R = "\<lambda>_. False"], auto elim: valid_weaken simp: valid_def)
  moreover have "at_db empty_db start_world"
    by (simp add: at_db_def)
  moreover obtain res w' where run: "append_report_batch (\<lambda>_. []) [sample_report] fixed_env start_world = (res, w')"
    by fastforce
  ultimately obtain row where "res = Inr [(row, True)]"
    by (cases res) (auto dest!: validD)
  moreover have "later w' w'"
    using validD [OF append_report_batch_valid [of fixed_env start_world "\<lambda>_. []" "[sample_report]"],
        of start_world] run st_start [of start_world "{}"]
    by (cases res) (auto simp: batch_done_def st_def later_def)
  ultimately show ?thesis
    using run that by blast
qed

theorem append_report_batch_idempotent_witness:
  "\<exists>row w' v'. append_report_batch (\<lambda>_. []) [sample_report] fixed_env start_world = (Inr [(row, True)], w') \<and>
     append_report_batch (\<lambda>_. []) [sample_report] fixed_env w' = (Inr [(row, False)], v') \<and>
     written v' = written w'"
proof -
  obtain row w' where run:
      "append_report_batch (\<lambda>_. []) [sample_report] fixed_env start_world = (Inr [(row, True)], w')"
      "later w' w'"
    by (rule single_batch_run)
  then show ?thesis
    using append_report_batch_idempotent
      [of fixed_env start_world "\<lambda>_. []" "[sample_report]" "[(row, True)]" w' w' fixed_env] by auto
qed

text \<open>
  Collisions inside a batch. The loop with the dictionary of first indices computes the
  specification: it accepts exactly the batches in which equal business keys have equal
  fingerprints, and otherwise names the first clashing item and the first item with its key.
\<close>

theorem check_batch_correct:
  "check_batch items Map.empty 0 items = batch_check_spec items \<and>
   (batch_check_spec items = Inr () \<longleftrightarrow>
     (\<forall>i \<in> {..< length items}. \<forall>j \<in> {..< length items}. pr_key (items ! i) = pr_key (items ! j) \<longrightarrow>
        pr_fingerprint (items ! i) = pr_fingerprint (items ! j)))"
  using check_batch_spec batch_check_ok by auto

theorem check_batch_correct_witness:
  "let a = \<lparr>pr_request = sample_report, pr_report_digest = [], pr_fingerprint = [1]\<rparr>;
       items = [a, a\<lparr>pr_fingerprint := [2]\<rparr>] in
   check_batch items Map.empty 0 items = Inl (batch_conflict 1 0 (py ''cal-1''))"
proof -
  let ?a = "\<lparr>pr_request = sample_report, pr_report_digest = [], pr_fingerprint = [1]\<rparr>"
  let ?items = "[?a, ?a\<lparr>pr_fingerprint := [2]\<rparr>]"
  have "check_batch ?items Map.empty 0 ?items = batch_check_spec ?items"
    using check_batch_correct [of ?items] by blast
  also have "\<dots> = Inl (batch_conflict 1 0 (py ''cal-1''))"
    by (simp add: batch_check_spec_def clashes_def first_of_def pr_key_def sample_report_def upt_rec)
  finally show ?thesis by (simp only: Let_def)
qed

text \<open>
  A record's history is a chain. In a ledger that keeps the invariant, the events of one
  record are linearly ordered by the successor relation, all descend from the one report whose
  event id is the record id, concern one instrument, and nothing succeeds a revocation.
\<close>

theorem record_chain:
  assumes "ledger_ok d" "e \<in> set (events d)" "f \<in> set (events d)" "ev_record_id e = ev_record_id f"
  shows "((e, f) \<in> (succeeds d)\<^sup>* \<or> (f, e) \<in> (succeeds d)\<^sup>*) \<and> ev_instrument_id e = ev_instrument_id f \<and>
    (ev_event_type e = Revocation \<longrightarrow> (e, f) \<notin> succeeds d) \<and>
    (\<exists>root \<in> set (events d). ev_event_type root = Report \<and> ev_event_id root = ev_record_id e \<and>
       (root, e) \<in> (succeeds d)\<^sup>* \<and> (root, f) \<in> (succeeds d)\<^sup>*)"
proof -
  obtain r where r: "r \<in> set (events d)" "ev_event_type r = Report" "ev_event_id r = ev_record_id e"
      "ev_instrument_id r = ev_instrument_id e" "(r, e) \<in> (succeeds d)\<^sup>*"
    using record_root [OF assms(1,2)] by blast
  obtain s where s: "s \<in> set (events d)" "ev_event_id s = ev_record_id f"
      "ev_instrument_id s = ev_instrument_id f" "(s, f) \<in> (succeeds d)\<^sup>*"
    using record_root [OF assms(1,3)] by blast
  have "s = r"
    using event_table_id_inj [OF ledger_okD(1) [OF assms(1)]] r s assms(4) by metis
  then show ?thesis
    using r s single_valued_confluent [OF succeeds_single_valued [OF assms(1)], of r e f]
      revocation_terminal [OF assms(1), of e f] by auto
qed

theorem record_chain_witness:
  "\<exists>d e root. ledger_ok d \<and> e \<in> set (events d) \<and> root \<in> set (events d) \<and>
     ev_event_type root = Report \<and> (root, e) \<in> (succeeds d)\<^sup>*"
proof -
  obtain row w' where "append_report sample_report fixed_env start_world = (Inr (row, True), w')"
      "later w' w'"
    by (rule sample_appended)
  then have "ledger_ok (shared w')" "row \<in> set (events (shared w'))"
    using report.run_Inr [of fixed_env start_world sample_report row True w']
    by (auto simp: appended_def st_def world_ok_def)
  with record_chain [of "shared w'" row row] show ?thesis by blast
qed

end
