(* ===== verification/Seal_Claims.thy ===== *)
theory Seal_Claims
  imports Seal_Invariant Event_Claims
begin

section \<open>Properties of the sealer\<close>

text \<open>
  \<open>seal_once\<close> refines the abstract sealer on the snapshot at which its lock was granted, keeps the
  invariant of the checkpoints, refuses tampered prefixes, and catches up with the log; a sealed
  root fixes the commitments of the sealed events.
\<close>

subsection \<open>One run of the sealer\<close>

text \<open>The ledger at the moment the lock is granted.\<close>

definition lock_point :: "environment \<Rightarrow> world \<Rightarrow> ledger_db" where
  "lock_point env w = others env (tick w) (held w) (mine w) (shared w)"

definition log_is :: "ledger_db \<Rightarrow> checkpoint_row list \<Rightarrow> world \<Rightarrow> bool" where
  "log_is d cs w \<longleftrightarrow> mine w = [] \<and> events (shared w) = events d \<and> checkpoints (shared w) = cs"

definition seal_reply ::
    "ledger_db \<Rightarrow> world \<Rightarrow> checkpoint_row option result \<Rightarrow> seal_result result \<Rightarrow> world \<Rightarrow> bool" where
  "seal_reply d w spec res w' \<longleftrightarrow>
     (case spec of
       Inl x \<Rightarrow> res = Inl x \<and> written w' = written w \<and> log_is d (checkpoints d) w'
     | Inr None \<Rightarrow> res = Inr \<lparr>sr_status = Idle, sr_checkpoint = None\<rparr> \<and>
         written w' = written w \<and> log_is d (checkpoints d) w'
     | Inr (Some c) \<Rightarrow>
         if checkpoint_fits (checkpoints d) c
         then res = Inr \<lparr>sr_status = Sealed, sr_checkpoint = Some c\<rparr> \<and>
           written w' = written w @ [InsertCheckpoint c] \<and> log_is d (checkpoints d @ [c]) w'
         else res = Inl IntegrityError \<and> written w' = written w \<and> log_is d (checkpoints d) w')"

definition seal_outcome ::
    "environment \<Rightarrow> sealer \<Rightarrow> ledger_db \<Rightarrow> world \<Rightarrow> seal_result result \<Rightarrow> world \<Rightarrow> bool" where
  "seal_outcome env s d w res w' \<longleftrightarrow> (\<exists>k \<ge> tick w. \<exists>now \<in> range (clock env).
     seal_reply d w (seal_spec s d (uuid_factory env k) now) res w' \<and>
     (\<forall>c. seal_spec s d (uuid_factory env k) now = Inr (Some c) \<longrightarrow> k < tick w'))"

lemma sealed_as_outcome:
  assumes "sealed_as env t (seal_spec s d) d (written w) r v" "tick w \<le> t"
  shows "seal_outcome env s d w (Inr r) (commit v)"
proof -
  obtain k now where k: "t \<le> k" "now \<in> range (clock env)"
    and c: "case seal_spec s d (uuid_factory env k) now of
         Inr None \<Rightarrow> r = \<lparr>sr_status = Idle, sr_checkpoint = None\<rparr> \<and> fenced t d (written w) [] v
       | Inr (Some c) \<Rightarrow> r = \<lparr>sr_status = Sealed, sr_checkpoint = Some c\<rparr> \<and>
           fenced (Suc k) d (written w) [InsertCheckpoint c] v \<and> checkpoint_fits (checkpoints d) c
       | Inl _ \<Rightarrow> False"
    using assms(1) unfolding sealed_as_def by blast
  then show ?thesis
    using assms(2) unfolding seal_outcome_def seal_reply_def
    by (intro exI [of _ k] bexI [of _ now] conjI)
       (auto simp: fenced_def log_is_def visible_def split: sum.splits option.splits)
qed

lemma seal_failed_outcome:
  assumes "seal_failed env t (seal_spec s d) d (written w) x v" "tick w \<le> t"
  shows "seal_outcome env s d w (Inl x) (roll_back v)"
proof -
  have "written (roll_back v) = written w \<and> log_is d (checkpoints d) (roll_back v)"
    using assms(1) by (simp add: seal_failed_def fenced_def log_is_def)
  moreover obtain k now where "t \<le> k" "now \<in> range (clock env)"
    "seal_spec s d (uuid_factory env k) now = Inl x \<or> x = IntegrityError \<and> k < tick v \<and>
       (\<exists>c. seal_spec s d (uuid_factory env k) now = Inr (Some c) \<and> \<not> checkpoint_fits (checkpoints d) c)"
    using assms(1) unfolding seal_failed_def by blast
  ultimately show ?thesis
    using assms(2) unfolding seal_outcome_def seal_reply_def
    by (intro exI [of _ k] bexI [of _ now] conjI) auto
qed

lemma seal_once_eq:
  "seal_once s = transaction (bind_op try_lock_op (\<lambda>acquired.
     if acquired then
       bind_op (lock_row (\<lambda>c. CheckpointLock (cp_checkpoint_id c)) last_checkpoint) (\<lambda>previous.
       bind_op (select_op (\<lambda>d. next_batch (sl_batch_size s) (previous_sequence previous) (events d)))
         (seal_batch s previous))
     else return_op \<lparr>sr_status = Busy, sr_checkpoint = None\<rparr>))"
  unfolding seal_once_def
  by (intro arg_cong [where f = transaction] arg_cong [where f = "bind_op try_lock_op"] ext) simp

lemma bind_Inr: "m env w = (Inr x, v) \<Longrightarrow> bind_op m f env w = f x env v"
  by (simp add: bind_op_def)

lemma seal_once_run:
  assumes "respects_locks env" "postgresql env" "mine w = []" "seal_once s env w = (res, w')"
  shows "if try_lock env (tick w) then seal_outcome env s (lock_point env w) w res w'
    else res = Inr \<lparr>sr_status = Busy, sr_checkpoint = None\<rparr> \<and> written w' = written w \<and>
      mine w' = [] \<and> shared w' = lock_point env w"
proof (cases "try_lock env (tick w)")
  case False
  then show ?thesis
    using assms by (auto simp: seal_once_eq transaction_def bind_op_def try_lock_op_def return_op_def
        lock_point_def Let_def)
next
  case True
  let ?d = "lock_point env w"
  let ?v = "hold [SealerLock] (log_entry LockExclusive (interfere env (log_entry Begin w)))"
  let ?body = "bind_op (lock_row (\<lambda>c. CheckpointLock (cp_checkpoint_id c)) last_checkpoint) (\<lambda>previous.
       bind_op (select_op (\<lambda>d. next_batch (sl_batch_size s) (previous_sequence previous) (events d)))
         (seal_batch s previous))"
  have start: "fenced (tick w) ?d (written w) [] ?v"
    using assms(3) by (simp add: fenced_def lock_point_def)
  obtain r v where run: "?body env ?v = (r, v)" by fastforce
  have "try_lock_op env (log_entry Begin w) = (Inr True, ?v)"
    using True assms(2) by (simp add: try_lock_op_def Let_def)
  then have "seal_once s env w = (case r of Inl x \<Rightarrow> (Inl x, roll_back v) | Inr y \<Rightarrow> (Inr y, commit v))"
    using run by (simp add: seal_once_eq transaction_def bind_Inr split: sum.splits)
  moreover have "case r of
      Inl x \<Rightarrow> seal_failed env (tick w) (seal_spec s ?d) ?d (written w) x v
    | Inr y \<Rightarrow> sealed_as env (tick w) (seal_spec s ?d) ?d (written w) y v"
    using validD [OF seal_locked_valid [OF assms(1)] start, of s] run by (cases r) auto
  ultimately show ?thesis
    using True assms(4) sealed_as_outcome [OF _ order_refl] seal_failed_outcome [OF _ order_refl]
    by (cases r) auto
qed

lemma seal_once_sealed:
  assumes "respects_locks env" "postgresql env" "mine w = []"
    and "seal_once s env w = (Inr \<lparr>sr_status = Sealed, sr_checkpoint = Some c\<rparr>, w')"
  obtains d i now where "seal_spec s d i now = Inr (Some c)" "log_is d (checkpoints d @ [c]) w'"
proof -
  have "seal_outcome env s (lock_point env w) w (Inr \<lparr>sr_status = Sealed, sr_checkpoint = Some c\<rparr>) w'"
    using seal_once_run [OF assms] by (auto split: if_splits)
  then obtain i now where "seal_reply (lock_point env w) w (seal_spec s (lock_point env w) i now)
      (Inr \<lparr>sr_status = Sealed, sr_checkpoint = Some c\<rparr>) w'"
    unfolding seal_outcome_def by blast
  then show thesis
    using that by (auto simp: seal_reply_def split: sum.splits option.splits if_splits)
qed

text \<open>The other transactions keep the invariant of the checkpoints.\<close>

definition keeps_seals :: "keyring \<Rightarrow> environment \<Rightarrow> bool" where
  "keeps_seals keyring env \<longleftrightarrow>
     (\<forall>n h ws d. ledger_ok d \<and> seals_ok keyring d \<longrightarrow> seals_ok keyring (others env n h ws d))"

lemma seal_once_keeps_log: "orderly env \<Longrightarrow> keeps env log_kept (seal_once s)"
  unfolding seal_once_eq seal_batch_def seal_events_def Let_def
  by (intro keeps_intros stable_log_kept)

lemma seals_ok_cong:
  "events d = events d' \<Longrightarrow> checkpoints d = checkpoints d' \<Longrightarrow> seals_ok keyring d = seals_ok keyring d'"
  by (simp add: seals_ok_def)

text \<open>What a run leaves behind when it starts from a sound ledger.\<close>

definition sound_seal :: "sealer \<Rightarrow> world \<Rightarrow> seal_result result \<Rightarrow> world \<Rightarrow> bool" where
  "sound_seal s w res w' \<longleftrightarrow>
     ledger_ok (shared w') \<and> seals_ok (sl_keyring s) (shared w') \<and>
     (case res of
        Inl x \<Rightarrow> written w' = written w \<and>
          (x = IntegrityError \<or> x = unknown_key (sl_current_key_version s) \<or>
           (\<exists>c. cp_key_version c = sl_current_key_version s \<and> checkpoint_signing_bytes c = Inl x))
      | Inr r \<Rightarrow>
          (case sr_checkpoint r of
             None \<Rightarrow> sr_status r \<in> {Busy, Idle} \<and> written w' = written w
           | Some c \<Rightarrow> sr_status r = Sealed \<and> written w' = written w @ [InsertCheckpoint c] \<and>
               last_checkpoint (shared w') = Some c))"

lemma sound_seal_outcome:
  assumes "ledger_ok d" "seals_ok (sl_keyring s) d" "ledger_ok (shared w')"
    and "seal_outcome env s d w res w'"
  shows "sound_seal s w res w'"
proof -
  obtain i now where "seal_reply d w (seal_spec s d i now) res w'"
    using assms(4) unfolding seal_outcome_def by blast
  note outcome = this [unfolded seal_reply_def]
  have same: "seals_ok (sl_keyring s) (shared w')" if "log_is d (checkpoints d) w'"
    using that assms(2) seals_ok_cong [of "shared w'" d] by (simp add: log_is_def)
  show ?thesis
  proof (cases "seal_spec s d i now")
    case (Inl x)
    define batch where "batch = next_batch (sl_batch_size s) (previous_sequence (last_checkpoint d)) (events d)"
    have "sign_new s (last_checkpoint d) (ev_sequence (last batch))
        (prefix_leaves (events d) (ev_sequence (last batch))) i now = Inl x"
      using Inl seal_spec_sound [OF assms(1,2) batch_def, of i now]
      by (auto simp: map_result_Inl_iff split: if_splits)
    then have "x = unknown_key (sl_current_key_version s) \<or>
        (\<exists>c. cp_key_version c = sl_current_key_version s \<and> checkpoint_signing_bytes c = Inl x)"
      using sign_new_Inl by (fastforce simp: new_checkpoint_def)
    then show ?thesis
      using outcome Inl same assms(3) by (simp add: sound_seal_def)
  next
    case (Inr found)
    show ?thesis
    proof (cases found)
      case None
      then show ?thesis
        using outcome Inr same assms(3) by (simp add: sound_seal_def)
    next
      case (Some c)
      show ?thesis
      proof (cases "checkpoint_fits (checkpoints d) c")
        case True
        then have w': "log_is d (checkpoints d @ [c]) w'"
          using outcome Inr Some by simp
        then have "seals_ok (sl_keyring s) (shared w')"
          using seal_spec_keeps [OF assms(1,2) Inr [unfolded Some] True, of "shared w'"]
          by (simp add: log_is_def)
        moreover from this have "last_checkpoint (shared w') = Some c"
          using w' by (simp add: last_checkpoint_chained seals_ok_def log_is_def)
        ultimately show ?thesis
          using outcome Inr Some True assms(3) by (simp add: sound_seal_def)
      next
        case False
        then show ?thesis
          using outcome Inr Some same assms(3) by (simp add: sound_seal_def)
      qed
    qed
  qed
qed

lemma quiet_locks [simp]: "quiet env \<Longrightarrow> respects_locks env" "quiet env \<Longrightarrow> keeps_seals keyring env"
  by (simp_all add: quiet_def respects_locks_def keeps_seals_def)

lemma seal_once_sound:
  assumes "orderly env" "respects_locks env" "keeps_seals (sl_keyring s) env" "postgresql env"
    and "mine w = []" "ledger_ok (shared w)" "seals_ok (sl_keyring s) (shared w)"
    and "seal_once s env w = (res, w')"
  shows "sound_seal s w res w'"
proof -
  let ?d = "lock_point env w"
  have d: "ledger_ok ?d" "seals_ok (sl_keyring s) ?d"
    using assms(1,3,5-7) by (simp_all add: lock_point_def orderly_def keeps_seals_def)
  have "log_kept w"
    using assms(5,6) by (simp add: log_kept_def)
  then have ok: "ledger_ok (shared w')"
    using keepsD [OF seal_once_keeps_log [OF assms(1)] _ assms(8)] by (simp add: log_kept_def)
  show ?thesis
  proof (cases "try_lock env (tick w)")
    case True
    then show ?thesis
      using seal_once_run [OF assms(2,4,5,8)] sound_seal_outcome [OF d ok] by simp
  next
    case False
    then show ?thesis
      using seal_once_run [OF assms(2,4,5,8)] d by (simp add: sound_seal_def)
  qed
qed

subsection \<open>Polling\<close>

text \<open>How many ticks a program uses at most, so that the ids it draws can be told apart.\<close>

definition ticks :: "environment \<Rightarrow> nat \<Rightarrow> 'a op \<Rightarrow> bool" where
  "ticks env n m \<longleftrightarrow> (\<forall>w. tick w \<le> tick (snd (m env w)) \<and> tick (snd (m env w)) \<le> tick w + n)"

lemma ticks_pure: "ticks env n (return_op x)" "ticks env n (raise_op e)" "ticks env n (lift_op r)"
  by (simp_all add: ticks_def op_defs)

lemma ticks_statement:
  "ticks env 1 (select_op f)" "ticks env 1 (lock_row res g)" "ticks env 1 clock_op"
  "ticks env 1 uuid_op" "ticks env 1 try_lock_op" "ticks env 1 (insert_checkpoint c)"
  by (simp_all add: ticks_def select_op_def lock_row_def clock_op_def uuid_op_def
      try_lock_op_def insert_checkpoint_def Let_def)

lemma ticks_bind:
  assumes "ticks env j m" "\<And>x. ticks env n (f x)"
  shows "ticks env (j + n) (bind_op m f)"
  unfolding ticks_def
proof
  fix w
  obtain r v where v: "m env w = (r, v)" by fastforce
  then have m: "tick w \<le> tick v" "tick v \<le> tick w + j"
    using assms(1) unfolding ticks_def by (metis snd_conv)+
  have f: "tick v \<le> tick (snd (f x env v)) \<and> tick (snd (f x env v)) \<le> tick v + n" for x
    using assms(2) by (simp add: ticks_def)
  show "tick w \<le> tick (snd (bind_op m f env w)) \<and> tick (snd (bind_op m f env w)) \<le> tick w + (j + n)"
  proof (cases r)
    case (Inl e)
    then show ?thesis
      using v m by (simp add: bind_op_def)
  next
    case (Inr x)
    then show ?thesis
      using v m f [of x] by (simp add: bind_op_def)
  qed
qed

lemma ticks_if: "ticks env n m \<Longrightarrow> ticks env n m' \<Longrightarrow> ticks env n (if b then m else m')"
  by simp

lemma ticks_transaction: "ticks env n m \<Longrightarrow> ticks env n (transaction m)"
  unfolding ticks_def
proof
  fix w
  assume "\<forall>w. tick w \<le> tick (snd (m env w)) \<and> tick (snd (m env w)) \<le> tick w + n"
  then have "tick w \<le> tick (snd (m env (log_entry Begin w)))"
    "tick (snd (m env (log_entry Begin w))) \<le> tick w + n"
    using log_entry_simps(4) by metis+
  then show "tick w \<le> tick (snd (transaction m env w)) \<and> tick (snd (transaction m env w)) \<le> tick w + n"
    by (auto simp: transaction_def split: prod.splits sum.splits)
qed

lemma seal_once_ticks: "ticks env 7 (seal_once s)"
proof -
  have signed: "ticks env (1 + (1 + (0 + (1 + 0)))) (bind_op uuid_op (\<lambda>i. bind_op clock_op (\<lambda>now.
      bind_op (lift_op (new i now)) (\<lambda>c. bind_op (insert_checkpoint c) (\<lambda>row. return_op (g row))))))"
    for new and g :: "checkpoint_row \<Rightarrow> seal_result"
    by (intro ticks_bind ticks_pure ticks_statement)
  have "ticks env (0 + (0 + (1 + (1 + (0 + (1 + 0)))))) (seal_events s previous target es)" for previous target es
    unfolding seal_events_def by (intro ticks_bind [OF ticks_pure(3)] signed)
  then have "ticks env (1 + 3) (seal_batch s previous batch)" for previous batch
    unfolding seal_batch_def Let_def
    by (intro ticks_if ticks_bind ticks_statement ticks_pure) (simp add: numeral_3_eq_3)
  then have "ticks env (1 + (1 + (1 + (1 + 3)))) (seal_once s)"
    unfolding seal_once_eq
    by (intro ticks_transaction ticks_bind ticks_if ticks_statement ticks_pure)
  then show ?thesis by simp
qed

text \<open>A sealer that nothing disturbs, with a working key and fresh ids for the next \<open>n\<close> polls.\<close>

definition sealer_ready :: "environment \<Rightarrow> sealer \<Rightarrow> bool" where
  "sealer_ready env s \<longleftrightarrow> quiet env \<and> postgresql env \<and> (\<forall>n. try_lock env n) \<and>
     (\<forall>n. in_calendar (clock env n)) \<and> 0 < sl_batch_size s \<and>
     sl_keyring s (sl_current_key_version s) \<noteq> None \<and> text_ok (sl_current_key_version s)"

definition fresh_ids :: "environment \<Rightarrow> nat \<Rightarrow> world \<Rightarrow> bool" where
  "fresh_ids env n w \<longleftrightarrow> inj_on (uuid_factory env) {tick w ..< tick w + 7 * n} \<and>
     uuid_factory env ` {tick w ..< tick w + 7 * n} \<inter> cp_checkpoint_id ` set (checkpoints (shared w)) = {}"

definition sound_world :: "sealer \<Rightarrow> world \<Rightarrow> bool" where
  "sound_world s w \<longleftrightarrow> mine w = [] \<and> ledger_ok (shared w) \<and> seals_ok (sl_keyring s) (shared w)"

definition sealed_count :: "ledger_db \<Rightarrow> int" where
  "sealed_count d = previous_count (last_checkpoint d)"

lemma sealed_count_le:
  assumes "ledger_ok d" "seals_ok keyring d"
  shows "sealed_count d \<le> int (length (events d))"
proof -
  have "length (filter (\<lambda>e. ev_sequence e \<le> previous_sequence (last_checkpoint d)) (events d)) \<le> length (events d)"
    by (rule length_filter_le)
  then show ?thesis
    using previous_prefix [OF assms] by (simp add: sealed_count_def events_up_to_def)
qed

lemma seal_once_ready:
  assumes "sealer_ready env s" "sound_world s w" "fresh_ids env (Suc n) w" "seal_once s env w = (res, w')"
  shows "is_ok res \<and> sound_world s w' \<and> fresh_ids env n w' \<and> events (shared w') = events (shared w) \<and>
    sealed_count (shared w') = min (sealed_count (shared w) + sl_batch_size s) (int (length (events (shared w))))"
proof -
  let ?d = "shared w"
  have env: "quiet env" "postgresql env" "try_lock env n" "in_calendar (clock env n)" for n
    using assms(1) by (simp_all add: sealer_ready_def)
  have w: "mine w = []" "ledger_ok ?d" "seals_ok (sl_keyring s) ?d"
    using assms(2) by (simp_all add: sound_world_def)
  have "lock_point env w = ?d"
    using env(1) by (simp add: lock_point_def quiet_def)
  then have out: "seal_outcome env s ?d w res w'"
    using seal_once_run [OF quiet_locks(1) [OF env(1)] env(2) w(1) assms(4)] env(3) by simp
  have "log_kept w"
    using w by (simp add: log_kept_def)
  then have ok: "ledger_ok (shared w')"
    using keepsD [OF seal_once_keeps_log [OF quiet_orderly [OF env(1)]] _ assms(4)] by (simp add: log_kept_def)
  have sound: "seals_ok (sl_keyring s) (shared w')"
    using sound_seal_outcome [OF w(2,3) ok out] by (simp add: sound_seal_def)
  have late: "tick w \<le> tick w'" "tick w' \<le> tick w + 7"
    using seal_once_ticks [of env s] assms(4) unfolding ticks_def by (metis snd_conv)+
  obtain k now where k: "tick w \<le> k" "now \<in> range (clock env)"
    "seal_reply ?d w (seal_spec s ?d (uuid_factory env k) now) res w'" "\<forall>c. seal_spec s ?d (uuid_factory env k) now = Inr (Some c) \<longrightarrow> k < tick w'"
    using out unfolding seal_outcome_def by blast
  have range: "{tick w' ..< tick w' + 7 * n} \<subseteq> {tick w ..< tick w + 7 * Suc n}"
    using late by auto
  have inj: "inj_on (uuid_factory env) {tick w ..< tick w + 7 * Suc n}"
    and fresh: "uuid_factory env ` {tick w ..< tick w + 7 * Suc n} \<inter> cp_checkpoint_id ` set (checkpoints ?d) = {}"
    using assms(3) by (simp_all add: fresh_ids_def)
  show ?thesis
  proof (cases "sealed_count ?d < int (length (events ?d))")
    case True
    have key: "sl_keyring s (sl_current_key_version s) \<noteq> None" "text_ok (sl_current_key_version s)"
      "0 < sl_batch_size s" "in_calendar now"
      using assms(1) k(2) by (auto simp: sealer_ready_def)
    obtain b where "seal_spec s ?d (uuid_factory env k) now = Inr (Some b)"
      using seal_spec_enabled [OF w(2,3) _ key(3,1,2,4)] True unfolding sealed_count_def by blast
    then have clean: "k < tick w'"
      using k(4) by blast
    then have draws: "k \<in> {tick w ..< tick w + 7 * Suc n}"
      using k(1) late by simp
    have new: "uuid_factory env k \<notin> cp_checkpoint_id ` set (checkpoints ?d)"
      using fresh draws by blast
    obtain c where c: "seal_spec s ?d (uuid_factory env k) now = Inr (Some c)"
        "checkpoint_fits (checkpoints ?d) c" "cp_checkpoint_id c = uuid_factory env k"
        "cp_leaf_count c = min (sealed_count ?d + sl_batch_size s) (int (length (events ?d)))"
      using seal_spec_progress [OF w(2,3) _ key(3,1,2,4) new] True unfolding sealed_count_def by blast
    then have res: "res = Inr \<lparr>sr_status = Sealed, sr_checkpoint = Some c\<rparr>" "log_is ?d (checkpoints ?d @ [c]) w'"
      using k(3) by (simp_all add: seal_reply_def)
    then have "last_checkpoint (shared w') = Some c"
      using sound by (simp add: last_checkpoint_chained seals_ok_def log_is_def)
    moreover have "uuid_factory env k \<notin> uuid_factory env ` {tick w' ..< tick w' + 7 * n}"
    proof
      assume "uuid_factory env k \<in> uuid_factory env ` {tick w' ..< tick w' + 7 * n}"
      then obtain j where j: "j \<in> {tick w' ..< tick w' + 7 * n}" "uuid_factory env k = uuid_factory env j"
        by blast
      then have "k = j"
        using inj_onD [OF inj j(2)] draws clean range by blast
      with j clean show False by simp
    qed
    moreover have "uuid_factory env ` {tick w' ..< tick w' + 7 * n} \<inter> cp_checkpoint_id ` set (checkpoints ?d) = {}"
      using fresh image_mono [OF range, of "uuid_factory env"] by blast
    ultimately show ?thesis
      using ok sound res c inj_on_subset [OF inj range]
      by (auto simp: is_ok_def sound_world_def log_is_def fresh_ids_def sealed_count_def previous_count_def)
  next
    case False
    then have full: "sealed_count ?d = int (length (events ?d))"
      using sealed_count_le [OF w(2,3)] by simp
    have "seal_spec s ?d (uuid_factory env k) now = Inr None"
      using seal_spec_sound [OF w(2,3) refl] length_next_batch [OF w(2,3), of "sl_batch_size s"] full
      by (simp add: sealed_count_def)
    then have "res = Inr \<lparr>sr_status = Idle, sr_checkpoint = None\<rparr>" "log_is ?d (checkpoints ?d) w'"
      using k(3) by (simp_all add: seal_reply_def)
    moreover have "uuid_factory env ` {tick w' ..< tick w' + 7 * n} \<inter> cp_checkpoint_id ` set (checkpoints ?d) = {}"
      using fresh image_mono [OF range, of "uuid_factory env"] by blast
    ultimately show ?thesis
      using ok sound inj_on_subset [OF inj range] full assms(1)
      by (auto simp: is_ok_def sound_world_def log_is_def fresh_ids_def sealed_count_def last_checkpoint_def
          sealer_ready_def)
  qed
qed

subsection \<open>Statements\<close>

definition sample_sealer :: sealer where
  "sample_sealer = \<lparr>sl_keyring = [py ''v1'' \<mapsto> replicate 32 0], sl_current_key_version = py ''v1'',
     sl_batch_size = 2\<rparr>"

lemma fixed_env_fields [simp]: "postgresql fixed_env" "try_lock fixed_env n"
  by (simp_all add: fixed_env_def quiet_env_def)

text \<open>
  C2: \<open>seal_once\<close> refines the abstract sealer. Whatever other transactions do outside the lock, a
  run that gets the lock behaves as \<open>seal_spec\<close> on the ledger at that moment, with an id drawn and a
  time read during the run: it reports idle, or stores exactly the specified checkpoint, or raises
  the specified error and writes nothing. A run that does not get the lock reports busy.
\<close>

theorem seal_once_refines:
  assumes "respects_locks env" "postgresql env" "mine w = []" "seal_once s env w = (res, w')"
  shows "if try_lock env (tick w) then seal_outcome env s (lock_point env w) w res w'
    else res = Inr \<lparr>sr_status = Busy, sr_checkpoint = None\<rparr> \<and> written w' = written w \<and>
      mine w' = [] \<and> shared w' = lock_point env w"
  by (rule seal_once_run [OF assms])

theorem seal_once_refines_witness:
  "seal_outcome fixed_env sample_sealer empty_db start_world
     (fst (seal_once sample_sealer fixed_env start_world))
     (snd (seal_once sample_sealer fixed_env start_world))"
  using seal_once_refines [of fixed_env start_world sample_sealer
      "fst (seal_once sample_sealer fixed_env start_world)"
      "snd (seal_once sample_sealer fixed_env start_world)"]
  by (simp add: lock_point_def quiet_def [THEN iffD1, OF fixed_env(1)])

text \<open>
  C18: sealing keeps the ledger sound. If the log and the chain of checkpoints satisfy their
  invariants, and the other transactions keep them, they hold after \<open>seal_once\<close>; a new checkpoint
  is then the last one. On such a ledger none of the corruption errors is raised: what remains is
  a clash of constraints, the sealer's own key being unknown, or a checkpoint without bytes.
\<close>

theorem seal_once_keeps_invariant:
  assumes "orderly env" "respects_locks env" "keeps_seals (sl_keyring s) env" "postgresql env"
    and "mine w = []" "ledger_ok (shared w)" "seals_ok (sl_keyring s) (shared w)"
    and "seal_once s env w = (res, w')"
  shows "sound_seal s w res w'"
  by (rule seal_once_sound [OF assms])

theorem seal_once_keeps_invariant_witness:
  "sound_seal sample_sealer start_world (fst (seal_once sample_sealer fixed_env start_world))
     (snd (seal_once sample_sealer fixed_env start_world))"
  by (rule seal_once_keeps_invariant [of fixed_env]) simp_all

lemma sealer_run_ready:
  assumes "sealer_ready env s" "sound_world s w" "fresh_ids env n w"
  shows "\<exists>w'. sealer_run s n env w = (Inr (), w') \<and> sound_world s w' \<and>
    events (shared w') = events (shared w) \<and>
    sealed_count (shared w') =
      min (sealed_count (shared w) + int n * sl_batch_size s) (int (length (events (shared w))))"
  using assms(2,3)
proof (induction n arbitrary: w)
  case 0
  then show ?case
    using sealed_count_le [of "shared w" "sl_keyring s"]
    by (simp add: sound_world_def return_op_def)
next
  case (Suc n)
  obtain res v where run: "seal_once s env w = (res, v)" by fastforce
  note poll = seal_once_ready [OF assms(1) Suc.prems run]
  then obtain r where "res = Inr r"
    by (cases res) (auto simp: is_ok_def)
  then have "sealer_poll s env w = (Inr (Some r), v)"
    using run by (simp add: sealer_poll_def)
  then have step: "sealer_run s (Suc n) env w = sealer_run s n env v"
    by (simp add: bind_Inr)
  obtain w' where "sealer_run s n env v = (Inr (), w')" "sound_world s w'" "events (shared w') = events (shared v)"
    "sealed_count (shared w') = min (sealed_count (shared v) + int n * sl_batch_size s) (int (length (events (shared v))))"
    using Suc.IH [of v] poll by blast
  moreover have "min (min (a + b) l + int n * b) l = min (a + int (Suc n) * b) l" if "0 < b" for a b l
  proof -
    have "0 \<le> int n * b" using that by simp
    moreover have "a + int (Suc n) * b = (a + b) + int n * b" by (simp add: algebra_simps)
    ultimately show ?thesis
      by linarith
  qed
  ultimately show ?case
    using step poll assms(1) by (auto simp: sealer_ready_def)
qed

lemma fixed_env_ready [simp]: "sealer_ready fixed_env sample_sealer"
  by (simp add: sealer_ready_def sample_sealer_def text_ok_py)

lemma fixed_env_fresh:
  assumes "tick w + 7 * n < 2 ^ 100" "checkpoints (shared w) = []"
  shows "fresh_ids fixed_env n w"
proof -
  have "inj_on (uuid_factory fixed_env) {tick w ..< tick w + 7 * n}"
  proof (rule inj_onI)
    fix i j assume ij: "i \<in> {tick w ..< tick w + 7 * n}" "j \<in> {tick w ..< tick w + 7 * n}"
      "uuid_factory fixed_env i = uuid_factory fixed_env j"
    then have "(word_of_nat (i + 1) :: uuid) = word_of_nat (j + 1)"
      by (simp add: fixed_env_def quiet_env_def)
    moreover have "i + 1 < 2 ^ LENGTH(128)" "j + 1 < 2 ^ LENGTH(128)"
      using ij(1,2) assms(1) by auto
    ultimately have "i + 1 = j + 1"
      by (simp only: word_of_nat_eq_iff take_bit_nat_eq_self)
    then show "i = j" by simp
  qed
  then show ?thesis
    by (simp add: fresh_ids_def assms(2))
qed

text \<open>A ledger with one report and no checkpoint.\<close>

lemma no_checkpoint_count: "checkpoints d = [] \<Longrightarrow> sealed_count d = 0"
  by (simp add: sealed_count_def last_checkpoint_def last_by_def previous_count_def)

lemma sample_sealer_batch: "sl_batch_size sample_sealer = 2"
  by (simp add: sample_sealer_def)

lemma sample_log:
  obtains w where "sound_world sample_sealer w" "fresh_ids fixed_env 1 w" "events (shared w) \<noteq> []"
    "checkpoints (shared w) = []"
proof -
  obtain row v where run: "append_report sample_report fixed_env start_world = (Inr (row, True), v)" "later v v"
    by (rule sample_appended)
  have "row \<in> set (events (shared v))" "ledger_ok (shared v)" "mine v = []"
    using report.run_Inr [of fixed_env start_world sample_report row True v] run
    by (auto simp: appended_def st_def world_ok_def later_def)
  moreover let ?w = "v\<lparr>shared := (shared v)\<lparr>checkpoints := []\<rparr>, tick := 0\<rparr>"
  have "fresh_ids fixed_env 1 ?w"
    by (rule fixed_env_fresh) simp_all
  ultimately show thesis
    using that [of ?w] ledger_ok_cong [of "shared ?w" "shared v"]
    by (cases "events (shared v)") (auto simp: sound_world_def seals_ok_def)
qed

lemma sample_sealed:
  assumes "sound_world sample_sealer w" "fresh_ids fixed_env 1 w" "events (shared w) \<noteq> []"
    "checkpoints (shared w) = []"
  obtains c w' where "seal_once sample_sealer fixed_env w =
      (Inr \<lparr>sr_status = Sealed, sr_checkpoint = Some c\<rparr>, w')" "sound_world sample_sealer w'"
    "last_checkpoint (shared w') = Some c" "events (shared w') = events (shared w)"
proof -
  obtain res w' where run: "seal_once sample_sealer fixed_env w = (res, w')" by fastforce
  have ready: "is_ok res" "sound_world sample_sealer w'" "0 < sealed_count (shared w')"
      "events (shared w') = events (shared w)"
    using seal_once_ready [OF fixed_env_ready assms(1) _ run, of 0] assms(2-4)
    by (simp_all add: no_checkpoint_count sample_sealer_batch)
  have w: "mine w = []" "lock_point fixed_env w = shared w"
    using assms(1) fixed_env(1) by (simp_all add: sound_world_def lock_point_def quiet_def)
  then have "seal_outcome fixed_env sample_sealer (shared w) w res w'"
    using seal_once_run [OF _ _ w(1) run] by simp
  then obtain i now where reply: "seal_reply (shared w) w (seal_spec sample_sealer (shared w) i now) res w'"
    unfolding seal_outcome_def by blast
  have "checkpoints (shared w') \<noteq> []"
    using ready(3) no_checkpoint_count by force
  then obtain c where c: "res = Inr \<lparr>sr_status = Sealed, sr_checkpoint = Some c\<rparr>"
      "checkpoints (shared w') = [c]"
    using reply ready(1) assms(4)
    by (auto simp: seal_reply_def log_is_def is_ok_def split: sum.splits option.splits if_splits)
  then have "last_checkpoint (shared w') = Some c"
    using ready(2) by (simp add: last_checkpoint_chained sound_world_def seals_ok_def)
  then show thesis
    using that c run ready by blast
qed

text \<open>
  C27: the sealer catches up. Left alone with a working key and ids that do not repeat, \<open>n\<close> polls of
  the loop seal \<open>n\<close> batches, or everything when there is less: after as many polls as there are
  batches every event is covered by the last checkpoint. The loop does not fail, changes no event
  and keeps the ledger sound.
\<close>

theorem sealer_catches_up:
  assumes "sealer_ready env s" "sound_world s w" "fresh_ids env n w"
  shows "\<exists>w'. sealer_run s n env w = (Inr (), w') \<and> sound_world s w' \<and>
    events (shared w') = events (shared w) \<and>
    sealed_count (shared w') =
      min (sealed_count (shared w) + int n * sl_batch_size s) (int (length (events (shared w))))"
  by (rule sealer_run_ready [OF assms])

theorem sealer_catches_up_witness:
  "\<exists>w w'. events (shared w) \<noteq> [] \<and> sealer_run sample_sealer 1 fixed_env w = (Inr (), w') \<and>
     0 < sealed_count (shared w')"
proof -
  obtain w where w: "sound_world sample_sealer w" "fresh_ids fixed_env 1 w" "events (shared w) \<noteq> []"
      "checkpoints (shared w) = []"
    by (rule sample_log)
  then show ?thesis
    using sealer_catches_up [OF fixed_env_ready w(1,2)]
    by (auto simp: no_checkpoint_count sample_sealer_batch)
qed

text \<open>
  C3: tampering with a sealed prefix is detected. Nothing is assumed of the stored rows: whenever
  \<open>seal_once\<close> seals, every event it covers still has the leaf hash of its own fields, the new root
  is the root of exactly these leaves, the events the last checkpoint covers still have that
  checkpoint's root, and its signature is genuine.
\<close>

theorem sealing_detects_tampering:
  assumes "respects_locks env" "postgresql env" "mine w = []"
    and "seal_once s env w = (Inr \<lparr>sr_status = Sealed, sr_checkpoint = Some c\<rparr>, w')"
  shows "(\<forall>e \<in> set (events (shared w')). ev_sequence e \<le> cp_last_event_sequence c \<longrightarrow> committed e) \<and>
    cp_root_hash c = hex (merkle_root (prefix_leaves (events (shared w')) (cp_last_event_sequence c))) \<and>
    signed (sl_keyring s) c \<and>
    (\<forall>p. last_by cp_leaf_count (butlast (checkpoints (shared w'))) = Some p \<longrightarrow>
       cp_root_hash p = hex (merkle_root (slice_to (cp_leaf_count p)
         (prefix_leaves (events (shared w')) (cp_last_event_sequence c)))) \<and>
       signed (sl_keyring s) p \<and> cp_previous_checkpoint_id c = Some (cp_checkpoint_id p))"
proof -
  obtain d i now where spec: "seal_spec s d i now = Inr (Some c)" and w': "log_is d (checkpoints d @ [c]) w'"
    by (rule seal_once_sealed [OF assms])
  obtain batch :: "event_row list" and previous where parts: "previous = last_checkpoint d"
    "cp_last_event_sequence c = ev_sequence (last batch)"
    "\<forall>e \<in> set (events_up_to (ev_sequence (last batch)) (events d)). committed e"
    "check_previous s previous (prefix_leaves (events d) (ev_sequence (last batch))) = Inr ()"
    "sign_new s previous (ev_sequence (last batch))
      (prefix_leaves (events d) (ev_sequence (last batch))) i now = Inr c"
    by (rule seal_spec_Some [OF spec])
  have "\<forall>e \<in> set (events d). ev_sequence e \<le> cp_last_event_sequence c \<longrightarrow> committed e"
    using parts(2,3) by (simp add: set_events_up_to)
  moreover have "cp_root_hash p = hex (merkle_root (slice_to (cp_leaf_count p)
         (prefix_leaves (events d) (cp_last_event_sequence c)))) \<and>
       signed (sl_keyring s) p \<and> cp_previous_checkpoint_id c = Some (cp_checkpoint_id p)"
    if "last_checkpoint d = Some p" for p
    using that parts sign_new_Inr [OF parts(5)] by (simp add: check_previous_Some)
  ultimately show ?thesis
    using w' parts(2) sign_new_Inr [OF parts(5)] by (simp add: log_is_def last_checkpoint_def)
qed

theorem sealing_detects_tampering_witness:
  "\<exists>w c w'. seal_once sample_sealer fixed_env w = (Inr \<lparr>sr_status = Sealed, sr_checkpoint = Some c\<rparr>, w') \<and>
     (\<forall>e \<in> set (events (shared w')). ev_sequence e \<le> cp_last_event_sequence c \<longrightarrow> committed e) \<and>
     signed (sl_keyring sample_sealer) c"
proof -
  obtain w where w: "sound_world sample_sealer w" "fresh_ids fixed_env 1 w" "events (shared w) \<noteq> []"
      "checkpoints (shared w) = []"
    by (rule sample_log)
  obtain c w' where run: "seal_once sample_sealer fixed_env w =
      (Inr \<lparr>sr_status = Sealed, sr_checkpoint = Some c\<rparr>, w')"
    by (rule sample_sealed [OF w])
  have "mine w = []"
    using w(1) by (simp add: sound_world_def)
  then show ?thesis
    using run sealing_detects_tampering [OF _ _ _ run] by auto
qed

definition leaf_inputs :: "event_row list \<Rightarrow> bytes set" where
  "leaf_inputs es = (\<lambda>e. 0 # projr (event_commitment_bytes e)) ` set es"

lemma leaves_bind:
  assumes "map leaf_of es = map leaf_of fs" "\<forall>e \<in> set es. committed e" "\<forall>f \<in> set fs. committed f"
  shows "list_all2 same_commitment es fs \<or> hash_collision (leaf_inputs es \<union> leaf_inputs fs)"
proof (cases "hash_collision (leaf_inputs es \<union> leaf_inputs fs)")
  case False
  have "same_commitment e f" if "(e, f) \<in> set (zip es fs)" for e f
  proof -
    have mem: "e \<in> set es" "f \<in> set fs"
      using that by (auto dest: set_zip_leftD set_zip_rightD)
    obtain b c where bytes: "event_commitment_bytes e = Inr b" "event_commitment_bytes f = Inr c"
      using mem assms(2,3) by (fastforce simp: committed_def split: sum.splits)
    have "leaf_of e = leaf_of f"
      using that assms(1) by (auto simp: in_set_zip list_eq_iff_nth_eq)
    then have "sha256 (0 # b) = sha256 (0 # c)"
      by (simp add: leaf_of_def bytes leaf_hash_def)
    moreover have "0 # b \<in> leaf_inputs es \<union> leaf_inputs fs" "0 # c \<in> leaf_inputs es \<union> leaf_inputs fs"
      using mem bytes by (force simp: leaf_inputs_def)+
    ultimately have "0 # b = 0 # c"
      using no_collisionD [OF False] by blast
    then show ?thesis
      using event_commitment_bytes_inject bytes by simp
  qed
  then show ?thesis
    using assms(1) map_eq_imp_length_eq by (auto simp: list_all2_iff)
qed simp

lemma hashes_prefix [simp]: "hashes (prefix_leaves es t)"
  by (simp add: prefix_leaves_def leaf_of_def hashes_def leaf_hash_def)

lemma sealed_leaves:
  assumes "seal_spec s d i now = Inr (Some c)"
  shows "cp_root_hash c = hex (merkle_root (prefix_leaves (events d) (cp_last_event_sequence c)))"
    "cp_leaf_count c = int (length (prefix_leaves (events d) (cp_last_event_sequence c)))"
    "\<forall>e \<in> set (events_up_to (cp_last_event_sequence c) (events d)). committed e"
proof -
  obtain batch :: "event_row list" and previous where "previous = last_checkpoint d"
    "cp_last_event_sequence c = ev_sequence (last batch)"
    "\<forall>e \<in> set (events_up_to (ev_sequence (last batch)) (events d)). committed e"
    "check_previous s previous (prefix_leaves (events d) (ev_sequence (last batch))) = Inr ()"
    "sign_new s previous (ev_sequence (last batch))
      (prefix_leaves (events d) (ev_sequence (last batch))) i now = Inr c"
    by (rule seal_spec_Some [OF assms])
  then show "cp_root_hash c = hex (merkle_root (prefix_leaves (events d) (cp_last_event_sequence c)))"
    "cp_leaf_count c = int (length (prefix_leaves (events d) (cp_last_event_sequence c)))"
    "\<forall>e \<in> set (events_up_to (cp_last_event_sequence c) (events d)). committed e"
    using sign_new_Inr by metis+
qed

text \<open>
  C29: a sealed root fixes history. If two runs of the sealer, on any two ledgers, sealed checkpoints
  with the same number of events and the same root, then the two sealed prefixes agree, event by
  event, in every committed field, or the hashes that were computed exhibit a SHA-256 collision.
\<close>

theorem sealed_root_binds_events:
  assumes "respects_locks env" "postgresql env" "mine w = []"
    and "seal_once s env w = (Inr \<lparr>sr_status = Sealed, sr_checkpoint = Some c\<rparr>, w')"
    and "respects_locks env'" "postgresql env'" "mine v = []"
    and "seal_once s' env' v = (Inr \<lparr>sr_status = Sealed, sr_checkpoint = Some c'\<rparr>, v')"
    and "cp_root_hash c = cp_root_hash c'" "cp_leaf_count c = cp_leaf_count c'"
    and "es = events_up_to (cp_last_event_sequence c) (events (shared w'))"
    and "fs = events_up_to (cp_last_event_sequence c') (events (shared v'))"
  shows "list_all2 same_commitment es fs \<or>
    hash_collision (leaf_inputs es \<union> leaf_inputs fs \<union>
      tree_inputs (map leaf_of es) \<union> tree_inputs (map leaf_of fs))"
proof -
  obtain d i now where d: "seal_spec s d i now = Inr (Some c)" "events (shared w') = events d"
    using seal_once_sealed [OF assms(1-4)] by (metis log_is_def)
  obtain d' i' now' where d': "seal_spec s' d' i' now' = Inr (Some c')" "events (shared v') = events d'"
    using seal_once_sealed [OF assms(5-8)] by (metis log_is_def)
  have leaves: "map leaf_of es = prefix_leaves (events d) (cp_last_event_sequence c)"
      "map leaf_of fs = prefix_leaves (events d') (cp_last_event_sequence c')"
    by (simp_all add: assms(11,12) d d' prefix_leaves_def)
  have "merkle_root (map leaf_of es) = merkle_root (map leaf_of fs)"
    using sealed_leaves(1) [OF d(1)] sealed_leaves(1) [OF d'(1)] assms(9) leaves by simp
  moreover have "length (map leaf_of es) = length (map leaf_of fs)"
    using sealed_leaves(2) [OF d(1)] sealed_leaves(2) [OF d'(1)] assms(10) leaves by simp
  moreover have "hashes (map leaf_of es)" "hashes (map leaf_of fs)"
    by (simp_all add: leaves)
  ultimately have "map leaf_of es = map leaf_of fs \<or>
      hash_collision (tree_inputs (map leaf_of es) \<union> tree_inputs (map leaf_of fs))"
    using merkle_root_binding_aux [of "map leaf_of es" "map leaf_of fs"] by blast
  moreover have "\<forall>e \<in> set es. committed e" "\<forall>f \<in> set fs. committed f"
    using sealed_leaves(3) [OF d(1)] sealed_leaves(3) [OF d'(1)] by (simp_all add: assms(11,12) d d')
  then have "map leaf_of es = map leaf_of fs \<Longrightarrow>
      list_all2 same_commitment es fs \<or> hash_collision (leaf_inputs es \<union> leaf_inputs fs)"
    using leaves_bind by blast
  ultimately show ?thesis
    using hash_collision_mono by (metis Un_assoc Un_upper1 Un_upper2)
qed

theorem sealed_root_binds_events_witness:
  "\<exists>w c w'. seal_once sample_sealer fixed_env w = (Inr \<lparr>sr_status = Sealed, sr_checkpoint = Some c\<rparr>, w') \<and>
     (let es = events_up_to (cp_last_event_sequence c) (events (shared w')) in
      list_all2 same_commitment es es \<or>
      hash_collision (leaf_inputs es \<union> leaf_inputs es \<union>
        tree_inputs (map leaf_of es) \<union> tree_inputs (map leaf_of es)))"
proof -
  obtain w where w: "sound_world sample_sealer w" "fresh_ids fixed_env 1 w" "events (shared w) \<noteq> []"
      "checkpoints (shared w) = []"
    by (rule sample_log)
  obtain c w' where run: "seal_once sample_sealer fixed_env w =
      (Inr \<lparr>sr_status = Sealed, sr_checkpoint = Some c\<rparr>, w')"
    by (rule sample_sealed [OF w])
  have "mine w = []"
    using w(1) by (simp add: sound_world_def)
  then show ?thesis
    using run sealed_root_binds_events [OF _ _ _ run _ _ _ run _ _ refl refl] unfolding Let_def by fastforce
qed

end
