(* ===== verification/Receipt.thy ===== *)
theory Receipt
  imports Domain Security Merkle_Properties
begin

section \<open>Offline verification of receipts\<close>

text \<open>
  \<open>verify_receipt\<close> of \<open>src/ledger/proofs.py\<close>, the part an auditor runs without the service, on the
  JSON that was received: every subscript, conversion and comparison is the dynamic one, so a
  malformed receipt takes the path it takes in the code.
\<close>

subsection \<open>Dynamic values\<close>

text \<open>
  What the model leaves to the interpreter: \<open>str\<close> of a list or dictionary, \<open>int\<close> of a finite float
  (given by its \<open>repr\<close>), the ASCII form of a non-ASCII digit or space in \<open>int(text)\<close>, and equality
  of values of which at most one is a text.
\<close>

record python =
  container_str :: "json \<Rightarrow> pystr"
  float_trunc :: "pystr \<Rightarrow> int"
  fold_char :: "nat \<Rightarrow> nat"
  same_value :: "json \<Rightarrow> json \<Rightarrow> bool"

definition to_str :: "python \<Rightarrow> json \<Rightarrow> pystr" where
  "to_str rt v = py_str (container_str rt) v"

text \<open>\<open>value[key]\<close> and \<open>value.get(key)\<close> for a text key.\<close>

definition subscript :: "json \<Rightarrow> string \<Rightarrow> json result" where
  "subscript v key =
     (case v of
        JObj d \<Rightarrow> (case map_of d (py key) of None \<Rightarrow> Inl KeyError | Some x \<Rightarrow> Inr x)
      | _ \<Rightarrow> Inl TypeError)"

definition get_or :: "json \<Rightarrow> string \<Rightarrow> json \<Rightarrow> json result" where
  "get_or v key other =
     (case v of
        JObj d \<Rightarrow> Inr (case map_of d (py key) of None \<Rightarrow> other | Some x \<Rightarrow> x)
      | _ \<Rightarrow> Inl AttributeError)"

text \<open>Iteration over a list, over the keys of a dictionary, or over the characters of a text.\<close>

definition iterate :: "json \<Rightarrow> json list result" where
  "iterate v =
     (case v of
        JArr vs \<Rightarrow> Inr vs
      | JObj d \<Rightarrow> Inr (map (\<lambda>(k, _). JStr k) d)
      | JStr s \<Rightarrow> Inr (map (\<lambda>c. JStr [c]) s)
      | _ \<Rightarrow> Inl TypeError)"

text \<open>\<open>int(text)\<close>: spaces around an optional sign and digits, single underscores between digits.\<close>

fun int_digits :: "bool \<Rightarrow> nat list \<Rightarrow> pystr \<Rightarrow> nat list option" where
  "int_digits after_digit ds [] = (if after_digit then Some ds else None)"
| "int_digits after_digit ds (c # cs) =
     (if is_digit c then int_digits True (ds @ [c - 48]) cs
      else if c = 95 \<and> after_digit then int_digits False ds cs
      else if after_digit \<and> list_all is_ascii_space (c # cs) then Some ds
      else None)"

definition max_int_digits :: nat where
  "max_int_digits = 4300"

definition int_of_text :: "python \<Rightarrow> pystr \<Rightarrow> int result" where
  "int_of_text rt s =
     (let t = dropWhile is_ascii_space (map (\<lambda>c. if c < 127 then c else fold_char rt c) s);
          (sign, body) = (if take 1 t = [45] then (-1, drop 1 t)
            else if take 1 t = [43] then (1, drop 1 t) else (1, t)) in
      case int_digits False [] body of
        None \<Rightarrow> Inl ValueError
      | Some ds \<Rightarrow>
          if max_int_digits < length ds then Inl ValueError
          else Inr (sign * int (digits_nat 10 ds)))"

definition to_int :: "python \<Rightarrow> json \<Rightarrow> int result" where
  "to_int rt v =
     (case v of
        JInt i \<Rightarrow> Inr i
      | JBool b \<Rightarrow> Inr (if b then 1 else 0)
      | JFloat (Finite t) \<Rightarrow> Inr (float_trunc rt t)
      | JFloat NaN \<Rightarrow> Inl ValueError
      | JFloat _ \<Rightarrow> Inl OverflowError
      | JStr s \<Rightarrow> int_of_text rt s
      | _ \<Rightarrow> Inl TypeError)"

definition equal_values :: "python \<Rightarrow> json \<Rightarrow> json \<Rightarrow> bool" where
  "equal_values rt v w =
     (case (v, w) of
        (JStr s, JStr t) \<Rightarrow> s = t
      | (JStr _, _) \<Rightarrow> False
      | (_, JStr _) \<Rightarrow> False
      | (JNull, JNull) \<Rightarrow> True
      | (JNull, _) \<Rightarrow> False
      | (_, JNull) \<Rightarrow> False
      | _ \<Rightarrow> same_value rt v w)"

subsection \<open>Errors\<close>

definition invalid_proof :: "pystr \<Rightarrow> pydict \<Rightarrow> exn" where
  "invalid_proof reason d =
     LedgerError \<lparr>code = py ''INVALID_PROOF'', message = reason, status_code = 422, details = d\<rparr>"

lemma InvalidProofError_eq: "InvalidProofError reason d = invalid_proof (py reason) d"
  by (simp add: InvalidProofError_def invalid_proof_def ledger_error_def)

definition reject :: "string \<Rightarrow> 'a result" where
  "reject reason = Inl (InvalidProofError reason [])"

text \<open>
  The three \<open>try\<close> blocks: proof and key errors pass, \<open>KeyError\<close>, \<open>TypeError\<close> and \<open>ValueError\<close> become
  a proof error, anything else passes.
\<close>

definition malformed :: "string \<Rightarrow> 'a result \<Rightarrow> 'a result" where
  "malformed reason r =
     (case r of
        Inr x \<Rightarrow> Inr x
      | Inl (KeyConfigurationError text) \<Rightarrow> Inl (KeyConfigurationError text)
      | Inl e \<Rightarrow>
          if e = KeyError \<or> e = TypeError \<or> is_value_error e then reject reason else Inl e)"

lemma malformed_Inr [simp, result_simps]: "malformed reason r = Inr x \<longleftrightarrow> r = Inr x"
  by (auto simp: malformed_def reject_def split: sum.splits exn.splits)

subsection \<open>The code\<close>

definition hash_field :: "string \<Rightarrow> nat \<Rightarrow> string \<Rightarrow> pystr" where
  "hash_field before i after = py before @ int_text (int i) @ py after"

definition decode_hash :: "json \<Rightarrow> pystr \<Rightarrow> bytes result" where
  "decode_hash value field =
     (let bad = (\<lambda>text. Inl (invalid_proof (field @ py text) [(py ''field'', JStr field)])) in
      case value of
        JStr s \<Rightarrow>
          (case fromhex s of
             Inl e \<Rightarrow> if is_value_error e then bad '' is not valid hexadecimal'' else Inl e
           | Inr decoded \<Rightarrow>
               if length decoded \<noteq> 32 then bad '' must encode 32 bytes'' else Inr decoded)
      | _ \<Rightarrow> bad '' must be a hexadecimal string'')"

definition event_json_bytes :: "python \<Rightarrow> json \<Rightarrow> bytes result" where
  "event_json_bytes rt v =
     (case v of JObj d \<Rightarrow> event_dict_bytes (container_str rt) d | _ \<Rightarrow> Inl AttributeError)"

definition checkpoint_json_bytes :: "python \<Rightarrow> json \<Rightarrow> bytes result" where
  "checkpoint_json_bytes rt v =
     (case v of JObj d \<Rightarrow> checkpoint_dict_bytes (container_str rt) d | _ \<Rightarrow> Inl AttributeError)"

definition verify_signed_checkpoint :: "python \<Rightarrow> json \<Rightarrow> keyring \<Rightarrow> unit result" where
  "verify_signed_checkpoint rt data keyring =
     bind_result
       (malformed ''checkpoint fields are malformed''
         (bind_result (subscript data ''key_version'') (\<lambda>version.
          bind_result (subscript data ''signature'') (\<lambda>signature.
          bind_result (require_key keyring (to_str rt version)) (\<lambda>key.
          map_result (\<lambda>payload. (payload, to_str rt signature, key))
            (checkpoint_json_bytes rt data))))))
       (\<lambda>(payload, signature, key).
          bind_result (verify_checkpoint_signature payload signature key) (\<lambda>ok.
            if ok then Inr ()
            else bind_result (get_or data ''checkpoint_id'' (JStr (py ''unknown''))) (\<lambda>i.
              Inl (InvalidProofError ''checkpoint HMAC signature does not match''
                [(py ''checkpoint_id'', JStr (to_str rt i))]))))"

definition receipt_event :: "python \<Rightarrow> pydict \<Rightarrow> (json \<times> bytes \<times> bytes) result" where
  "receipt_event rt receipt =
     malformed ''event commitment fields are malformed''
       (bind_result (subscript (JObj receipt) ''event'') (\<lambda>event.
        bind_result (subscript (JObj receipt) ''witness_status'') (\<lambda>status.
        bind_result (subscript event ''leaf_hash'') (\<lambda>text.
        bind_result (decode_hash text (py ''event.leaf_hash'')) (\<lambda>claimed.
        map_result (\<lambda>b. (status, claimed, leaf_hash b)) (event_json_bytes rt event))))))"

text \<open>The steps of the path with the sides as received, and the test of the sides.\<close>

definition receipt_step :: "nat \<times> json \<Rightarrow> (json \<times> bytes) result" where
  "receipt_step entry =
     (case entry of (index, item) \<Rightarrow>
        bind_result (subscript item ''side'') (\<lambda>side.
        bind_result (subscript item ''hash'') (\<lambda>text.
        map_result (\<lambda>h. (side, h)) (decode_hash text (hash_field ''inclusion_proof.path['' index ''].hash'')))))"

definition side_name :: "side \<Rightarrow> pystr" where
  "side_name s = (case s of LeftSide \<Rightarrow> py ''left'' | RightSide \<Rightarrow> py ''right'')"

fun checked_steps :: "(json \<times> bytes) list \<Rightarrow> inclusion_step list result" where
  "checked_steps [] = Inr []"
| "checked_steps ((side, h) # steps) =
     (case side of
        JStr s \<Rightarrow>
          if s = side_name LeftSide then
            map_result (\<lambda>rest. \<lparr>side_of = LeftSide, hash_of = h\<rparr> # rest) (checked_steps steps)
          else if s = side_name RightSide then
            map_result (\<lambda>rest. \<lparr>side_of = RightSide, hash_of = h\<rparr> # rest) (checked_steps steps)
          else reject ''inclusion proof contains an invalid side''
      | JArr _ \<Rightarrow> Inl TypeError
      | JObj _ \<Rightarrow> Inl TypeError
      | _ \<Rightarrow> reject ''inclusion proof contains an invalid side'')"

definition receipt_inclusion ::
    "python \<Rightarrow> pydict \<Rightarrow> bytes \<Rightarrow> keyring \<Rightarrow> (json \<times> bytes \<times> bool) result" where
  "receipt_inclusion rt receipt calculated_leaf keyring =
     malformed ''inclusion proof fields are malformed''
       (bind_result (subscript (JObj receipt) ''checkpoint'') (\<lambda>checkpoint.
        bind_result (subscript (JObj receipt) ''inclusion_proof'') (\<lambda>proof.
        bind_result (verify_signed_checkpoint rt checkpoint keyring) (\<lambda>_.
        bind_result (subscript checkpoint ''root_hash'') (\<lambda>text.
        bind_result (decode_hash text (py ''checkpoint.root_hash'')) (\<lambda>expected_root.
        bind_result (subscript proof ''path'') (\<lambda>path.
        bind_result (iterate path) (\<lambda>items.
        bind_result (traverse receipt_step (enumerate 0 items)) (\<lambda>raw_steps.
        bind_result (checked_steps raw_steps) (\<lambda>steps.
        bind_result (subscript proof ''tree_size'') (\<lambda>size_json.
        bind_result (to_int rt size_json) (\<lambda>tree_size.
        bind_result (subscript checkpoint ''leaf_count'') (\<lambda>count_json.
        bind_result (to_int rt count_json) (\<lambda>leaf_count.
          if tree_size \<noteq> leaf_count then
            reject ''inclusion proof tree size does not match checkpoint''
          else
            bind_result (subscript proof ''leaf_index'') (\<lambda>index_json.
            map_result (\<lambda>index.
              (checkpoint, expected_root,
               verify_inclusion calculated_leaf index tree_size steps expected_root))
              (to_int rt index_json))))))))))))))))"

definition receipt_hash :: "nat \<times> json \<Rightarrow> bytes result" where
  "receipt_hash entry = (case entry of (index, item) \<Rightarrow>
     decode_hash item (hash_field ''consistency_proof.hashes['' index '']''))"

definition consistency_fields ::
    "python \<Rightarrow> json \<Rightarrow> json \<Rightarrow> json \<Rightarrow> bytes \<Rightarrow> keyring \<Rightarrow> bool result" where
  "consistency_fields rt checkpoint consistency previous_id expected_root keyring =
     bind_result (subscript consistency ''old_checkpoint'') (\<lambda>old_checkpoint.
     bind_result (verify_signed_checkpoint rt old_checkpoint keyring) (\<lambda>_.
     bind_result (subscript old_checkpoint ''checkpoint_id'') (\<lambda>old_id.
     if to_str rt old_id \<noteq> to_str rt previous_id then
       reject ''consistency proof is not for the adjacent checkpoint''
     else
     bind_result (get_or checkpoint ''previous_root_hash'' JNull) (\<lambda>linked_root.
     bind_result (get_or old_checkpoint ''root_hash'' JNull) (\<lambda>old_root.
     if \<not> equal_values rt linked_root old_root then
       reject ''checkpoint predecessor root linkage is broken''
     else
     bind_result (subscript consistency ''new_checkpoint_id'') (\<lambda>new_id.
     bind_result (subscript checkpoint ''checkpoint_id'') (\<lambda>own_id.
     if to_str rt new_id \<noteq> to_str rt own_id then
       reject ''consistency proof target checkpoint does not match''
     else
     bind_result (subscript consistency ''hashes'') (\<lambda>hashes_json.
     bind_result (iterate hashes_json) (\<lambda>items.
     bind_result (traverse receipt_hash (enumerate 0 items)) (\<lambda>hashes.
     bind_result (bind_result (subscript consistency ''old_size'') (to_int rt)) (\<lambda>old_size.
     bind_result (bind_result (subscript consistency ''new_size'') (to_int rt)) (\<lambda>new_size.
     bind_result (bind_result (subscript old_checkpoint ''leaf_count'') (to_int rt)) (\<lambda>old_count.
     if old_size \<noteq> old_count then
       reject ''old consistency size does not match predecessor''
     else
     bind_result (bind_result (subscript checkpoint ''leaf_count'') (to_int rt)) (\<lambda>new_count.
     if new_size \<noteq> new_count then
       reject ''new consistency size does not match checkpoint''
     else
     bind_result (subscript old_checkpoint ''root_hash'') (\<lambda>root_json.
     map_result (\<lambda>root. verify_consistency old_size new_size root expected_root hashes)
       (decode_hash root_json (py ''old_checkpoint.root_hash'')))))))))))))))))"

definition receipt_consistency ::
    "python \<Rightarrow> pydict \<Rightarrow> json \<Rightarrow> bytes \<Rightarrow> keyring \<Rightarrow> unit result" where
  "receipt_consistency rt receipt checkpoint expected_root keyring =
     bind_result (get_or checkpoint ''previous_checkpoint_id'' JNull) (\<lambda>previous_id.
     let consistency = dict_get receipt (py ''consistency_proof'') in
     if previous_id = JNull then
       bind_result (get_or checkpoint ''previous_root_hash'' JNull) (\<lambda>previous_root.
       if previous_root \<noteq> JNull then reject ''first checkpoint cannot contain a predecessor root''
       else if consistency \<noteq> JNull then reject ''first checkpoint cannot have a consistency predecessor''
       else Inr ())
     else
       (case consistency of
          JObj _ \<Rightarrow>
            bind_result
              (malformed ''consistency proof fields are malformed''
                (consistency_fields rt checkpoint consistency previous_id expected_root keyring))
              (\<lambda>consistent. if consistent then Inr ()
                else reject ''checkpoint roots are not append-only consistent'')
        | _ \<Rightarrow> reject ''adjacent checkpoint consistency proof is missing''))"

definition pending_reply :: pydict where
  "pending_reply = [(py ''valid'', JBool True), (py ''witnessed'', JBool False)]"

definition witnessed_reply :: "pystr \<Rightarrow> pydict" where
  "witnessed_reply checkpoint_id = [(py ''valid'', JBool True), (py ''witnessed'', JBool True),
     (py ''checkpoint_id'', JStr checkpoint_id)]"

definition verify_receipt :: "python \<Rightarrow> pydict \<Rightarrow> keyring \<Rightarrow> pydict result" where
  "verify_receipt rt receipt keyring =
     bind_result (receipt_event rt receipt) (\<lambda>(status, claimed_leaf, calculated_leaf).
     if claimed_leaf \<noteq> calculated_leaf then
       reject ''event commitment hash does not match its public fields''
     else if status = JStr (py ''pending'') then
       if dict_get receipt (py ''checkpoint'') \<noteq> JNull \<or> dict_get receipt (py ''inclusion_proof'') \<noteq> JNull
       then reject ''a pending receipt cannot contain a checkpoint proof''
       else Inr pending_reply
     else if status \<noteq> JStr (py ''sealed'') then
       Inl (InvalidProofError ''unknown witness status'' [(py ''witness_status'', status)])
     else
       bind_result (receipt_inclusion rt receipt calculated_leaf keyring)
         (\<lambda>(checkpoint, expected_root, included).
       if \<not> included then reject ''event is not included in the checkpoint root''
       else
         bind_result (receipt_consistency rt receipt checkpoint expected_root keyring) (\<lambda>_.
         map_result (\<lambda>i. witnessed_reply (to_str rt i)) (subscript checkpoint ''checkpoint_id''))))"

end
