(* ===== verification/Proofs.thy ===== *)
theory Proofs
  imports Seal_Claims Receipt
begin

section \<open>Building receipts\<close>

text \<open>
  The server's half of \<open>src/ledger/proofs.py\<close>: every receipt, checkpoint view and page of events is
  cut from a prefix that has just been rehashed and compared with a signed checkpoint. The readers
  run outside a transaction, one statement after the other.
\<close>

subsection \<open>The validated prefix\<close>

definition corrupt_checkpoint :: "string \<Rightarrow> checkpoint_row \<Rightarrow> exn" where
  "corrupt_checkpoint text c =
     ledger_error ''CHECKPOINT_CORRUPT'' text 500
       [(py ''checkpoint_id'', JStr (uuid_str (cp_checkpoint_id c)))]"

definition chain_broken :: "string \<Rightarrow> checkpoint_row \<Rightarrow> exn" where
  "chain_broken text c =
     ledger_error ''CHECKPOINT_CHAIN_BROKEN'' text 500
       [(py ''checkpoint_id'', JStr (uuid_str (cp_checkpoint_id c)))]"

definition checkpoint_key :: "keyring \<Rightarrow> pystr \<Rightarrow> bytes result" where
  "checkpoint_key keyring version =
     (case require_key keyring version of
        Inr key \<Rightarrow> Inr key
      | Inl (KeyConfigurationError text) \<Rightarrow>
          Inl (LedgerError \<lparr>code = py ''UNKNOWN_KEY_VERSION'', message = text, status_code = 500,
            details = [(py ''key_version'', JStr version)]\<rparr>)
      | Inl e \<Rightarrow> Inl e)"

definition check_prefix ::
    "keyring \<Rightarrow> checkpoint_row \<Rightarrow> event_row list \<Rightarrow> (event_row list \<times> bytes list) result" where
  "check_prefix keyring c es =
     (if int (length es) \<noteq> cp_leaf_count c \<or> es = [] then
        Inl (corrupt_checkpoint ''checkpoint boundary does not match the event prefix'' c)
      else
        bind_result (traverse check_leaf es) (\<lambda>leaves.
        if hex (merkle_root leaves) \<noteq> cp_root_hash c then
          Inl (corrupt_checkpoint ''recomputed Merkle root does not match checkpoint'' c)
        else
          bind_result (checkpoint_key keyring (cp_key_version c)) (\<lambda>key.
          bind_result (checkpoint_signing_bytes c) (\<lambda>payload.
          bind_result (verify_checkpoint_signature payload (cp_signature c) key) (\<lambda>ok.
            if ok then Inr (es, leaves)
            else Inl (checkpoint_error ''CHECKPOINT_SIGNATURE_INVALID''
              ''stored checkpoint signature failed verification'' c))))))"

definition validated_prefix :: "keyring \<Rightarrow> checkpoint_row \<Rightarrow> (event_row list \<times> bytes list) op" where
  "validated_prefix keyring c =
     bind_op (select_op (\<lambda>d. events_up_to (cp_last_event_sequence c) (events d)))
       (\<lambda>es. lift_op (check_prefix keyring c es))"

subsection \<open>Receipts\<close>

definition find_checkpoint :: "uuid \<Rightarrow> checkpoint_row option op" where
  "find_checkpoint i = select_op (\<lambda>d. scalar (\<lambda>c. cp_checkpoint_id c = i) (checkpoints d))"

definition consistency_bundle ::
    "checkpoint_row \<Rightarrow> checkpoint_row \<Rightarrow> bytes list \<Rightarrow> json result" where
  "consistency_bundle c previous leaves =
     bind_result (checkpoint_view previous) (\<lambda>old.
     map_result (\<lambda>hashes. JObj
       [(py ''old_checkpoint'', JObj old),
        (py ''new_checkpoint_id'', JStr (uuid_str (cp_checkpoint_id c))),
        (py ''old_size'', JInt (cp_leaf_count previous)),
        (py ''new_size'', JInt (cp_leaf_count c)),
        (py ''hashes'', JArr (map (\<lambda>h. JStr (hex h)) hashes))])
       (consistency_proof leaves (cp_leaf_count previous)))"

definition build_consistency_bundle ::
    "keyring \<Rightarrow> checkpoint_row \<Rightarrow> bytes list \<Rightarrow> json op" where
  "build_consistency_bundle keyring c leaves =
     (case cp_previous_checkpoint_id c of
        None \<Rightarrow> return_op JNull
      | Some p \<Rightarrow>
          bind_op (find_checkpoint p) (\<lambda>found.
            case found of
              None \<Rightarrow> raise_op (chain_broken ''adjacent checkpoint record is missing'' c)
            | Some previous \<Rightarrow>
                bind_op (validated_prefix keyring previous) (\<lambda>_.
                if Some (cp_root_hash previous) \<noteq> cp_previous_root_hash c then
                  raise_op (chain_broken ''adjacent checkpoint root linkage is inconsistent'' c)
                else lift_op (consistency_bundle c previous leaves))))"

definition path_json :: "inclusion_step list \<Rightarrow> json" where
  "path_json path = JArr (map (\<lambda>step. JObj
     [(py ''side'', JStr (side_name (side_of step))), (py ''hash'', JStr (hex (hash_of step)))]) path)"

definition sealed_receipt ::
    "event_row \<Rightarrow> int \<Rightarrow> checkpoint_row \<Rightarrow> bytes list \<Rightarrow> json \<Rightarrow> pydict result" where
  "sealed_receipt e index c leaves bundle =
     bind_result (inclusion_proof leaves index) (\<lambda>path.
     bind_result (event_view e) (\<lambda>event.
     map_result (\<lambda>checkpoint.
       [(py ''event'', JObj event),
        (py ''witness_status'', JStr (py ''sealed'')),
        (py ''checkpoint'', JObj checkpoint),
        (py ''inclusion_proof'', JObj
           [(py ''leaf_index'', JInt index),
            (py ''tree_size'', JInt (cp_leaf_count c)),
            (py ''path'', path_json path)]),
        (py ''consistency_proof'', bundle)])
       (checkpoint_view c)))"

definition position_of :: "uuid \<Rightarrow> event_row list \<Rightarrow> nat option" where
  "position_of i es = find (\<lambda>k. ev_event_id (es ! k) = i) [0..<length es]"

definition missing_event :: "checkpoint_row \<Rightarrow> event_row \<Rightarrow> exn" where
  "missing_event c e =
     ledger_error ''CHECKPOINT_CORRUPT'' ''checkpoint boundary does not contain the event'' 500
       [(py ''checkpoint_id'', JStr (uuid_str (cp_checkpoint_id c))),
        (py ''event_id'', JStr (uuid_str (ev_event_id e)))]"

definition build_receipt_at_checkpoint ::
    "keyring \<Rightarrow> event_row \<Rightarrow> checkpoint_row \<Rightarrow> pydict op" where
  "build_receipt_at_checkpoint keyring e c =
     bind_op (validated_prefix keyring c) (\<lambda>(es, leaves).
       case position_of (ev_event_id e) es of
         None \<Rightarrow> raise_op (missing_event c e)
       | Some index \<Rightarrow>
           bind_op (build_consistency_bundle keyring c leaves) (\<lambda>bundle.
             lift_op (sealed_receipt e (int index) c leaves bundle)))"

definition pending_receipt :: "event_row \<Rightarrow> pydict result" where
  "pending_receipt e = map_result (\<lambda>event.
     [(py ''event'', JObj event),
      (py ''witness_status'', JStr (py ''pending'')),
      (py ''checkpoint'', JNull),
      (py ''inclusion_proof'', JNull),
      (py ''consistency_proof'', JNull)]) (event_view e)"

definition build_receipt :: "keyring \<Rightarrow> uuid \<Rightarrow> pydict op" where
  "build_receipt keyring event_id =
     bind_op (select_op (\<lambda>d. scalar (\<lambda>e. ev_event_id e = event_id) (events d))) (\<lambda>found.
       case found of
         None \<Rightarrow> raise_op (NotFoundError ''event'' (uuid_str event_id))
       | Some e \<Rightarrow>
           bind_op (lift_op (check_leaf e)) (\<lambda>_.
           bind_op (select_op (\<lambda>d. last_by cp_leaf_count
             (filter (\<lambda>c. ev_sequence e \<le> cp_last_event_sequence c) (checkpoints d)))) (\<lambda>chosen.
             case chosen of
               None \<Rightarrow> lift_op (pending_receipt e)
             | Some c \<Rightarrow> build_receipt_at_checkpoint keyring e c)))"

subsection \<open>Checkpoints and pages\<close>

definition build_checkpoint_view :: "keyring \<Rightarrow> uuid \<Rightarrow> pydict op" where
  "build_checkpoint_view keyring checkpoint_id =
     bind_op (find_checkpoint checkpoint_id) (\<lambda>found.
       case found of
         None \<Rightarrow> raise_op (NotFoundError ''checkpoint'' (uuid_str checkpoint_id))
       | Some c \<Rightarrow>
           bind_op (validated_prefix keyring c) (\<lambda>(es, leaves).
           bind_op (build_consistency_bundle keyring c leaves) (\<lambda>bundle.
             lift_op (map_result (\<lambda>view.
               [(py ''checkpoint'', JObj view), (py ''consistency_proof'', bundle)])
               (checkpoint_view c)))))"

definition invalid_cursor :: "string \<Rightarrow> checkpoint_row \<Rightarrow> int \<Rightarrow> int \<Rightarrow> exn" where
  "invalid_cursor text c cursor increment_start =
     ledger_error ''INVALID_CURSOR'' text 422
       [(py ''checkpoint_id'', JStr (uuid_str (cp_checkpoint_id c))),
        (py ''after_sequence'', JInt cursor),
        (py ''increment_start'', JInt increment_start),
        (py ''upper_bound'', JInt (cp_last_event_sequence c))]"

text \<open>The page of the prefix after a cursor, with the positions in the tree.\<close>

definition candidates :: "int \<Rightarrow> event_row list \<Rightarrow> (nat \<times> event_row) list" where
  "candidates cursor es = filter (\<lambda>(_, e). cursor < ev_sequence e) (enumerate 0 es)"

definition render_page ::
    "checkpoint_row \<Rightarrow> bytes list \<Rightarrow> json \<Rightarrow> int \<Rightarrow> (nat \<times> event_row) list \<Rightarrow> pydict result" where
  "render_page c leaves bundle limit cands =
     (let has_more = limit < int (length cands); page = slice_to limit cands in
      bind_result (traverse (\<lambda>(index, e). map_result JObj (sealed_receipt e (int index) c leaves bundle)) page)
        (\<lambda>items.
      if has_more \<and> page = [] then Inl IndexError
      else Inr
        [(py ''checkpoint_id'', JStr (uuid_str (cp_checkpoint_id c))),
         (py ''items'', JArr items),
         (py ''next_after_sequence'', if has_more then JInt (ev_sequence (snd (last page))) else JNull),
         (py ''has_more'', JBool has_more)]))"

definition increment_start_op :: "checkpoint_row \<Rightarrow> int op" where
  "increment_start_op c =
     (case cp_previous_checkpoint_id c of
        None \<Rightarrow> return_op 0
      | Some p \<Rightarrow>
          bind_op (find_checkpoint p) (\<lambda>found.
            case found of
              None \<Rightarrow> raise_op (chain_broken ''adjacent checkpoint record is missing'' c)
            | Some previous \<Rightarrow> return_op (cp_last_event_sequence previous)))"

definition build_checkpoint_event_page ::
    "keyring \<Rightarrow> uuid \<Rightarrow> int option \<Rightarrow> int \<Rightarrow> pydict op" where
  "build_checkpoint_event_page keyring checkpoint_id after_sequence limit =
     bind_op (find_checkpoint checkpoint_id) (\<lambda>found.
       case found of
         None \<Rightarrow> raise_op (NotFoundError ''checkpoint'' (uuid_str checkpoint_id))
       | Some c \<Rightarrow>
           bind_op (increment_start_op c) (\<lambda>increment_start.
           let cursor = (case after_sequence of None \<Rightarrow> increment_start | Some n \<Rightarrow> n) in
           if cursor < increment_start then
             raise_op (invalid_cursor ''after_sequence is before the checkpoint's increment start''
               c cursor increment_start)
           else if cp_last_event_sequence c < cursor then
             raise_op (invalid_cursor ''after_sequence is beyond the checkpoint's fixed upper bound''
               c cursor increment_start)
           else
             bind_op (validated_prefix keyring c) (\<lambda>(es, leaves).
             bind_op (build_consistency_bundle keyring c leaves) (\<lambda>bundle.
               lift_op (render_page c leaves bundle limit (candidates cursor es))))))"

end
