(* ===== verification/Receipt_Claims.thy ===== *)
theory Receipt_Claims
  imports Receipt
begin

section \<open>Properties of receipt verification\<close>

text \<open>
  What an accepted receipt proves about the tree behind the signed root, and which exceptions a
  rejected one can raise.
\<close>

subsection \<open>Accepted parts\<close>

text \<open>A checkpoint as received is genuine when its signature is the MAC of its payload.\<close>

definition genuine :: "python \<Rightarrow> keyring \<Rightarrow> json \<Rightarrow> bool" where
  "genuine rt keyring v \<longleftrightarrow>
     (\<exists>version signature key payload. subscript v ''key_version'' = Inr version \<and>
        subscript v ''signature'' = Inr signature \<and> keyring (to_str rt version) = Some key \<and>
        checkpoint_json_bytes rt v = Inr payload \<and> to_str rt signature = sign_checkpoint payload key)"

lemma verify_signed_checkpoint_Inr:
  "verify_signed_checkpoint rt v keyring = Inr u \<longleftrightarrow> genuine rt keyring v"
proof -
  have "verify_signed_checkpoint rt v keyring = Inr () \<longleftrightarrow> genuine rt keyring v"
    by (auto simp: verify_signed_checkpoint_def genuine_def result_simps require_key_Inr
        verify_checkpoint_signature_iff split: if_splits) (metis+)?
  then show ?thesis by simp
qed

text \<open>The size and the root a checkpoint states, and the position an inclusion proof claims.\<close>

definition states_root :: "python \<Rightarrow> json \<Rightarrow> int \<Rightarrow> bytes \<Rightarrow> bool" where
  "states_root rt v n root \<longleftrightarrow>
     bind_result (subscript v ''leaf_count'') (to_int rt) = Inr n \<and>
     (\<exists>s. subscript v ''root_hash'' = Inr (JStr s) \<and> fromhex s = Inr root \<and> length root = 32)"

definition claims_index :: "python \<Rightarrow> pydict \<Rightarrow> int \<Rightarrow> bool" where
  "claims_index rt receipt i \<longleftrightarrow>
     (\<exists>proof. subscript (JObj receipt) ''inclusion_proof'' = Inr proof \<and>
        bind_result (subscript proof ''leaf_index'') (to_int rt) = Inr i)"

lemma decode_hash_Inr:
  "decode_hash v field = Inr h \<longleftrightarrow> (\<exists>s. v = JStr s \<and> fromhex s = Inr h \<and> length h = 32)"
  by (auto simp: decode_hash_def Let_def split: json.splits sum.splits if_splits)

lemma reject_not_Inr [simp]: "reject reason = Inr x \<longleftrightarrow> False" "Inr x = reject reason \<longleftrightarrow> False"
  by (simp_all add: reject_def)

text \<open>The path and the hashes a receipt carries, as the verifier decodes them.\<close>

definition receipt_path :: "pydict \<Rightarrow> inclusion_step list result" where
  "receipt_path receipt =
     bind_result (subscript (JObj receipt) ''inclusion_proof'') (\<lambda>proof.
     bind_result (subscript proof ''path'') (\<lambda>path.
     bind_result (iterate path) (\<lambda>items.
     bind_result (traverse receipt_step (enumerate 0 items)) checked_steps)))"

definition receipt_hashes :: "pydict \<Rightarrow> bytes list result" where
  "receipt_hashes receipt =
     bind_result (subscript (dict_get receipt (py ''consistency_proof'')) ''hashes'') (\<lambda>v.
     bind_result (iterate v) (\<lambda>items. traverse receipt_hash (enumerate 0 items)))"

definition steps_of :: "pydict \<Rightarrow> inclusion_step list" where
  "steps_of receipt = projr (receipt_path receipt)"

definition hashes_of :: "pydict \<Rightarrow> bytes list" where
  "hashes_of receipt = projr (receipt_hashes receipt)"

lemma receipt_inclusion_Inr:
  assumes "receipt_inclusion rt receipt leaf keyring = Inr (checkpoint, root, included)"
  shows "subscript (JObj receipt) ''checkpoint'' = Inr checkpoint \<and> genuine rt keyring checkpoint \<and>
    (\<exists>n i. states_root rt checkpoint n root \<and> claims_index rt receipt i \<and>
       included = verify_inclusion leaf i n (steps_of receipt) root)"
proof -
  obtain proof_json path items raw steps where path: "subscript (JObj receipt) ''inclusion_proof'' = Inr proof_json"
      "subscript proof_json ''path'' = Inr path" "iterate path = Inr items"
      "traverse receipt_step (enumerate 0 items) = Inr raw" "checked_steps raw = Inr steps"
    using assms by (auto simp: receipt_inclusion_def result_simps split: if_splits)
  then have "steps_of receipt = steps"
    by (simp add: steps_of_def receipt_path_def)
  then show ?thesis
    using assms path
    by (fastforce simp: receipt_inclusion_def result_simps verify_signed_checkpoint_Inr decode_hash_Inr
        states_root_def claims_index_def split: if_splits)
qed

lemma consistency_fields_Inr:
  assumes "consistency_fields rt checkpoint consistency previous_id root keyring = Inr True"
    and "consistency = dict_get receipt (py ''consistency_proof'')"
  shows "\<exists>old old_id m n old_root. subscript consistency ''old_checkpoint'' = Inr old \<and>
    genuine rt keyring old \<and> subscript old ''checkpoint_id'' = Inr old_id \<and>
    to_str rt old_id = to_str rt previous_id \<and> states_root rt old m old_root \<and>
    bind_result (subscript checkpoint ''leaf_count'') (to_int rt) = Inr n \<and>
    verify_consistency m n old_root root (hashes_of receipt)"
proof -
  obtain v items hs where hs: "subscript consistency ''hashes'' = Inr v" "iterate v = Inr items"
      "traverse receipt_hash (enumerate 0 items) = Inr hs"
    using assms(1) by (auto simp: consistency_fields_def result_simps split: if_splits)
  then have "hashes_of receipt = hs"
    using assms(2) by (simp add: hashes_of_def receipt_hashes_def)
  then show ?thesis
    using assms(1) hs
    by (fastforce simp: consistency_fields_def result_simps verify_signed_checkpoint_Inr decode_hash_Inr
        states_root_def split: if_splits)
qed

lemma receipt_event_Inr:
  "receipt_event rt receipt = Inr (status, claimed, calculated) \<longleftrightarrow>
     (\<exists>event b s. subscript (JObj receipt) ''event'' = Inr event \<and>
        subscript (JObj receipt) ''witness_status'' = Inr status \<and>
        subscript event ''leaf_hash'' = Inr (JStr s) \<and> fromhex s = Inr claimed \<and> length claimed = 32 \<and>
        event_json_bytes rt event = Inr b \<and> calculated = leaf_hash b)"
  by (fastforce simp: receipt_event_def result_simps decode_hash_Inr)

subsection \<open>What an accepted receipt shows\<close>

text \<open>
  About any tree of 32-byte leaves with the size and root the checkpoint states: the leaf at the
  claimed index is the hash of the event's committed bytes, or hashing the tree and walking the
  receipt's path exhibits a collision.
\<close>

definition shows_inclusion :: "pydict \<Rightarrow> bytes \<Rightarrow> int \<Rightarrow> int \<Rightarrow> bytes \<Rightarrow> bool" where
  "shows_inclusion receipt b i n root \<longleftrightarrow> 0 \<le> i \<and> i < n \<and>
     (\<forall>leaves. hashes leaves \<and> int (length leaves) = n \<and> merkle_root leaves = root \<longrightarrow>
        leaf_hash b = leaves ! nat i \<or>
        hash_collision (tree_inputs leaves \<union> path_inputs (leaf_hash b) (steps_of receipt)))"

text \<open>The tree extends one with the predecessor's size and root, or exhibits a collision.\<close>

definition shows_extension :: "pydict \<Rightarrow> int \<Rightarrow> bytes \<Rightarrow> int \<Rightarrow> bytes \<Rightarrow> bool" where
  "shows_extension receipt m old_root n root \<longleftrightarrow> 1 \<le> m \<and> m \<le> n \<and>
     (\<forall>leaves. hashes leaves \<and> int (length leaves) = n \<and> merkle_root leaves = root \<longrightarrow>
        old_root = merkle_root (take (nat m) leaves) \<or>
        hash_collision (tree_inputs leaves \<union>
          consistency_inputs (nat m) (length leaves) old_root (hashes_of receipt)))"

lemma verify_inclusion_shows:
  assumes "verify_inclusion (leaf_hash b) i n (steps_of receipt) root"
  shows "shows_inclusion receipt b i n root"
proof -
  have range: "0 \<le> i \<and> i < n"
    using assms by (simp add: verify_inclusion_def split: if_splits)
  have "leaf_hash b = leaves ! nat i \<or>
      hash_collision (tree_inputs leaves \<union> path_inputs (leaf_hash b) (steps_of receipt))"
    if "hashes leaves" "int (length leaves) = n" "merkle_root leaves = root" for leaves
    using tree.sound [OF that(1), of "leaf_hash b" "nat i" "steps_of receipt"] assms that(2,3) range
    by (auto simp: inclusion_breach_def)
  with range show ?thesis
    by (simp add: shows_inclusion_def)
qed

lemma verify_consistency_shows:
  assumes "verify_consistency m n old_root root (hashes_of receipt)"
  shows "shows_extension receipt m old_root n root"
proof -
  have range: "1 \<le> m \<and> m \<le> n"
    using assms by (auto simp: verify_consistency_def split: if_splits)
  have "old_root = merkle_root (take (nat m) leaves) \<or>
      hash_collision (tree_inputs leaves \<union>
        consistency_inputs (nat m) (length leaves) old_root (hashes_of receipt))"
    if "hashes leaves" "int (length leaves) = n" "merkle_root leaves = root" for leaves
    using tree.prefix_sound [OF that(1), of "nat m" old_root "hashes_of receipt"] assms that(2,3) range
    by (auto simp: consistency_breach_def)
  with range show ?thesis
    by (simp add: shows_extension_def)
qed

definition receipt_proves :: "python \<Rightarrow> keyring \<Rightarrow> pydict \<Rightarrow> bool" where
  "receipt_proves rt keyring receipt \<longleftrightarrow>
     (\<exists>event b checkpoint i n root.
        subscript (JObj receipt) ''event'' = Inr event \<and> event_json_bytes rt event = Inr b \<and>
        subscript (JObj receipt) ''checkpoint'' = Inr checkpoint \<and> genuine rt keyring checkpoint \<and>
        states_root rt checkpoint n root \<and> claims_index rt receipt i \<and>
        shows_inclusion receipt b i n root \<and>
        (\<exists>previous. get_or checkpoint ''previous_checkpoint_id'' JNull = Inr previous \<and>
          (previous \<noteq> JNull \<longrightarrow> (\<exists>old old_id m old_root. genuine rt keyring old \<and>
             subscript old ''checkpoint_id'' = Inr old_id \<and> to_str rt old_id = to_str rt previous \<and>
             states_root rt old m old_root \<and> shows_extension receipt m old_root n root))))"

lemma receipt_consistency_Inr:
  assumes "receipt_consistency rt receipt checkpoint root keyring = Inr u" "states_root rt checkpoint n root"
  shows "\<exists>previous. get_or checkpoint ''previous_checkpoint_id'' JNull = Inr previous \<and>
    (previous \<noteq> JNull \<longrightarrow> (\<exists>old old_id m old_root. genuine rt keyring old \<and>
       subscript old ''checkpoint_id'' = Inr old_id \<and> to_str rt old_id = to_str rt previous \<and>
       states_root rt old m old_root \<and> shows_extension receipt m old_root n root))"
proof -
  obtain previous where previous: "get_or checkpoint ''previous_checkpoint_id'' JNull = Inr previous"
    using assms(1) by (auto simp: receipt_consistency_def result_simps)
  show ?thesis
  proof (cases "previous = JNull")
    case False
    let ?c = "dict_get receipt (py ''consistency_proof'')"
    have "consistency_fields rt checkpoint ?c previous root keyring = Inr True"
      using assms(1) previous False
      by (auto simp: receipt_consistency_def result_simps Let_def split: json.splits if_splits)
    from consistency_fields_Inr [OF this refl] show ?thesis
      using previous assms(2) verify_consistency_shows by (fastforce simp: states_root_def)
  qed (use previous in simp)
qed

lemma verify_receipt_witnessed:
  assumes "verify_receipt rt receipt keyring = Inr reply" "reply \<noteq> pending_reply"
  shows "receipt_proves rt keyring receipt"
proof -
  obtain status claimed b event where event: "receipt_event rt receipt = Inr (status, claimed, leaf_hash b)"
      "subscript (JObj receipt) ''event'' = Inr event" "event_json_bytes rt event = Inr b"
  proof -
    obtain status claimed calculated where e: "receipt_event rt receipt = Inr (status, claimed, calculated)"
      using assms(1) by (auto simp: verify_receipt_def result_simps)
    then obtain event b where "subscript (JObj receipt) ''event'' = Inr event" "event_json_bytes rt event = Inr b"
        "calculated = leaf_hash b"
      unfolding receipt_event_Inr by blast
    with e show thesis
      using that by blast
  qed
  obtain checkpoint root where parts: "receipt_inclusion rt receipt (leaf_hash b) keyring = Inr (checkpoint, root, True)"
      "receipt_consistency rt receipt checkpoint root keyring = Inr ()"
    using assms event(1) by (auto simp: verify_receipt_def result_simps split: if_splits)
  obtain n i where claim: "subscript (JObj receipt) ''checkpoint'' = Inr checkpoint" "genuine rt keyring checkpoint"
      "states_root rt checkpoint n root" "claims_index rt receipt i"
      "verify_inclusion (leaf_hash b) i n (steps_of receipt) root"
    using receipt_inclusion_Inr [OF parts(1)] by auto
  then show ?thesis
    using event(2,3) receipt_consistency_Inr [OF parts(2) claim(3)] verify_inclusion_shows [OF claim(5)]
    unfolding receipt_proves_def by blast
qed

subsection \<open>Rejections\<close>

text \<open>The exceptions of the documented contract.\<close>

definition refused :: "exn \<Rightarrow> bool" where
  "refused e \<longleftrightarrow> error_code e = Some (py ''INVALID_PROOF'') \<or> (\<exists>text. e = KeyConfigurationError text)"

text \<open>The exceptions the \<open>try\<close> blocks turn into the documented ones, and those they let pass.\<close>

definition caught :: "exn \<Rightarrow> bool" where
  "caught e \<longleftrightarrow> refused e \<or> e = KeyError \<or> e = TypeError \<or> is_value_error e"

definition escapes :: "exn \<Rightarrow> bool" where
  "escapes e \<longleftrightarrow> e = AttributeError \<or> e = OverflowError"

definition anticipated :: "exn \<Rightarrow> bool" where
  "anticipated e \<longleftrightarrow> caught e \<or> escapes e"

lemma anticipated_simps [simp]:
  "anticipated KeyError" "anticipated TypeError" "anticipated ValueError" "anticipated AttributeError"
  "anticipated OverflowError" "anticipated (invalid_proof m d)" "anticipated (InvalidProofError reason d)"
  "anticipated (KeyConfigurationError text)" "anticipated CanonicalizationError"
  "anticipated UnicodeEncodeError"
  by (simp_all add: anticipated_def caught_def escapes_def refused_def invalid_proof_def error_code_def
      InvalidProofError_eq)

lemma raises_reject [raises_intros, simp]: "raises anticipated (reject reason)"
  by (simp add: reject_def)

lemma raises_digits [raises_intros]: "raises anticipated (digits n s)"
  by (simp add: digits_def)

lemma raises_time_comps: "raises anticipated (time_comps n sep s)"
  by (induction n arbitrary: sep s) (auto simp: Let_def intro!: raises_intros)

lemma raises_parse_hms [raises_intros]: "raises anticipated (parse_hms s)"
  unfolding parse_hms_def parse_fraction_def Let_def
  by (intro raises_intros raises_time_comps) simp_all

lemma raises_fromisoformat [raises_intros]: "raises anticipated (fromisoformat s)"
  unfolding fromisoformat_def date_separator_def parse_date_def parse_time_def parse_offset_def
    iso_week_ordinal_def ymd_ordinal_def Let_def
  by (intro raises_intros) simp_all

lemma raises_isoformat_utc [raises_intros]: "raises anticipated (isoformat_utc d)"
  by (simp add: isoformat_utc_def Let_def)

lemma raises_canonical_json [raises_intros]: "raises anticipated (canonical_json v)"
  by (auto simp: canonical_json_def utf8_encode_def raises_def split: sum.splits if_splits)

lemma raises_dict_timestamp [raises_intros]: "raises anticipated (dict_timestamp v)"
  by (cases v) (auto simp: dict_timestamp_def parse_timestamp_def intro!: raises_intros)

lemma raises_json_bytes [raises_intros]:
  "raises anticipated (event_json_bytes rt v)" "raises anticipated (checkpoint_json_bytes rt v)"
  by (cases v; auto simp: event_json_bytes_def checkpoint_json_bytes_def event_dict_bytes_def
      checkpoint_dict_bytes_def event_commitment_dict_def checkpoint_payload_dict_def Let_def
      intro!: raises_intros)+

lemma raises_access [raises_intros]:
  "raises anticipated (subscript v k)" "raises anticipated (get_or v k x)" "raises anticipated (iterate v)"
  by (cases v; simp add: subscript_def get_or_def iterate_def split: option.splits)+

lemma raises_fromhex: "fromhex s = Inl e \<Longrightarrow> e = ValueError"
  by (induction s rule: fromhex.induct) (auto simp: map_result_Inl_iff split: if_splits option.splits)

lemma raises_decode_hash [raises_intros]: "raises anticipated (decode_hash v field)"
  by (cases v) (auto simp: decode_hash_def Let_def dest: raises_fromhex split: sum.splits)

lemma raises_to_int [raises_intros]: "raises anticipated (to_int rt v)"
  by (auto simp: to_int_def int_of_text_def Let_def split: json.splits pyfloat.splits option.splits)

lemma raises_require_key [raises_intros]: "raises anticipated (require_key keyring v)"
  by (simp add: require_key_def split: option.splits)

lemma raises_malformed [raises_intros]: "raises anticipated r \<Longrightarrow> raises anticipated (malformed reason r)"
  by (auto simp: malformed_def split: sum.splits exn.splits)

lemma raises_signature [raises_intros]: "raises anticipated (verify_checkpoint_signature payload sig key)"
  by (simp add: verify_checkpoint_signature_def compare_digest_def)

definition contract :: "exn \<Rightarrow> bool" where
  "contract e \<longleftrightarrow> refused e \<or> escapes e \<or> e = KeyError"

lemma contract_simps [simp]:
  "contract AttributeError" "contract KeyError" "contract (InvalidProofError reason d)"
  by (simp_all add: contract_def escapes_def refused_def)

lemma contract_reject [raises_intros, simp]: "raises contract (reject reason)"
  by (simp add: reject_def)

lemma malformed_contract [raises_intros]: "raises anticipated r \<Longrightarrow> raises contract (malformed reason r)"
  by (auto simp: malformed_def reject_def anticipated_def caught_def contract_def refused_def
      split: sum.splits exn.splits)

lemma contract_get_or [raises_intros]: "raises contract (get_or v k x)"
  by (cases v) (simp_all add: get_or_def)

lemma raises_verify_signed_checkpoint [raises_intros]: "raises anticipated (verify_signed_checkpoint rt v keyring)"
  unfolding verify_signed_checkpoint_def by (intro raises_intros) simp_all

lemma raises_receipt_event [raises_intros]: "raises contract (receipt_event rt receipt)"
  unfolding receipt_event_def by (intro raises_intros)

lemma raises_checked_steps [raises_intros]: "raises anticipated (checked_steps steps)"
  by (induction steps rule: checked_steps.induct) (auto split: json.splits intro!: raises_intros)

lemma raises_receipt_step [raises_intros]:
  "raises anticipated (receipt_step x)" "raises anticipated (receipt_hash x)"
  unfolding receipt_step_def receipt_hash_def by (intro raises_intros)+

lemma raises_receipt_inclusion [raises_intros]:
  "raises contract (receipt_inclusion rt receipt leaf keyring)"
  unfolding receipt_inclusion_def by (intro raises_intros)

lemma raises_consistency_fields [raises_intros]:
  "raises anticipated (consistency_fields rt checkpoint consistency previous_id root keyring)"
  unfolding consistency_fields_def by (intro raises_intros)

lemma raises_receipt_consistency [raises_intros]:
  "raises contract (receipt_consistency rt receipt checkpoint root keyring)"
  unfolding receipt_consistency_def Let_def
  by (intro raises_intros) (auto split: json.splits intro!: raises_intros)

lemma genuine_subscript: "genuine rt keyring v \<Longrightarrow> raises contract (subscript v k)"
  by (auto simp: genuine_def subscript_def split: json.splits option.splits)

lemma verify_receipt_raises: "verify_receipt rt receipt keyring = Inl e \<Longrightarrow> contract e"
proof (rule raisesD)
  show "raises contract (verify_receipt rt receipt keyring)"
    unfolding verify_receipt_def
    by (intro raises_intros) (auto dest: receipt_inclusion_Inr intro: genuine_subscript)
qed


definition plain_python :: python where
  "plain_python = \<lparr>container_str = (\<lambda>_. []), float_trunc = (\<lambda>_. 0), fold_char = (\<lambda>_. 63),
     same_value = (\<lambda>v w. v = w)\<rparr>"

definition undated_receipt :: pydict where
  "undated_receipt = [(py ''event'', JObj [(py ''leaf_hash'', JStr (hex (replicate 32 0)))]),
     (py ''witness_status'', JStr (py ''pending''))]"

lemma undated_receipt_crashes: "verify_receipt plain_python undated_receipt keyring = Inl AttributeError"
proof -
  have "event_json_bytes plain_python (JObj [(py ''leaf_hash'', JStr (hex (replicate 32 0)))]) = Inl AttributeError"
    by (simp add: event_json_bytes_def event_dict_bytes_def event_commitment_dict_def Let_def
        dict_get_def dict_timestamp_def)
  then have "receipt_event plain_python undated_receipt = Inl AttributeError"
    by (simp add: receipt_event_def undated_receipt_def subscript_def decode_hash_def Let_def
        malformed_def)
  then show ?thesis
    by (simp add: verify_receipt_def)
qed


end
