(* ===== verification/Proof_Views.thy ===== *)
theory Proof_Views
  imports Proofs Receipt_Claims
begin

section \<open>Served receipts are accepted\<close>

text \<open>
  The receipt the server renders for a position of a sealed prefix passes the offline verifier,
  whatever the parameters of the interpreter.
\<close>

subsection \<open>The fields of a view\<close>

lemma checkpoint_view_payload:
  "checkpoint_view c = Inr v \<longleftrightarrow> (\<exists>p. checkpoint_payload c = Inr p \<and> v = p @ [(py ''signature'', JStr (cp_signature c))])"
  by (auto simp: checkpoint_view_def result_simps)

lemma checkpoint_view_fields:
  assumes "checkpoint_view c = Inr v"
  shows "subscript (JObj v) ''key_version'' = Inr (JStr (cp_key_version c))"
    "subscript (JObj v) ''signature'' = Inr (JStr (cp_signature c))"
    "subscript (JObj v) ''root_hash'' = Inr (JStr (cp_root_hash c))"
    "subscript (JObj v) ''leaf_count'' = Inr (JInt (cp_leaf_count c))"
    "subscript (JObj v) ''checkpoint_id'' = Inr (JStr (uuid_str (cp_checkpoint_id c)))"
    "get_or (JObj v) ''previous_checkpoint_id'' x = Inr (opt_uuid (cp_previous_checkpoint_id c))"
    "get_or (JObj v) ''previous_root_hash'' x = Inr (opt_json (cp_previous_root_hash c))"
    "get_or (JObj v) ''root_hash'' x = Inr (JStr (cp_root_hash c))"
    "get_or (JObj v) ''checkpoint_id'' x = Inr (JStr (uuid_str (cp_checkpoint_id c)))"
  using assms
  by (auto simp: checkpoint_view_payload checkpoint_payload_def result_simps subscript_def get_or_def)

lemma event_view_fields:
  assumes "event_view e = Inr v"
  shows "subscript (JObj v) ''leaf_hash'' = Inr (JStr (ev_leaf_hash e))"
  using assms by (auto simp: event_view_def event_commitment_def result_simps subscript_def)

lemma checkpoint_view_bytes:
  "checkpoint_view c = Inr v \<Longrightarrow> checkpoint_json_bytes rt (JObj v) = checkpoint_signing_bytes c"
  using checkpoint_dict_of_view [of c v]
  by (simp add: checkpoint_json_bytes_def checkpoint_dict_bytes_def checkpoint_signing_bytes_def)

lemma event_view_bytes:
  "event_view e = Inr v \<Longrightarrow> event_json_bytes rt (JObj v) = event_commitment_bytes e"
  using event_dict_of_view [of e v]
  by (simp add: event_json_bytes_def event_dict_bytes_def event_commitment_bytes_def)

lemma to_str_text [simp]: "to_str rt (JStr s) = s"
  by (simp add: to_str_def)

lemma signed_view:
  assumes "signed keyring c"
  shows "\<exists>v. checkpoint_view c = Inr v \<and> verify_signed_checkpoint rt (JObj v) keyring = Inr ()"
proof -
  obtain key payload where k: "keyring (cp_key_version c) = Some key" "checkpoint_signing_bytes c = Inr payload"
      "cp_signature c = sign_checkpoint payload key"
    using assms by (auto simp: signed_def split: option.splits sum.splits)
  then obtain v where v: "checkpoint_view c = Inr v"
    by (auto simp: checkpoint_signing_bytes_def checkpoint_view_def result_simps)
  then have "genuine rt keyring (JObj v)"
    using k checkpoint_view_fields [OF v] by (simp add: genuine_def checkpoint_view_bytes [OF v])
  with v show ?thesis
    using verify_signed_checkpoint_Inr by blast
qed

lemma committed_view:
  assumes "committed e"
  shows "\<exists>v b. event_view e = Inr v \<and> event_commitment_bytes e = Inr b \<and>
    ev_leaf_hash e = hex (leaf_hash b) \<and> leaf_of e = leaf_hash b"
  using assms
  by (auto simp: committed_def leaf_of_def event_commitment_bytes_def event_view_def result_simps
      split: sum.splits)

subsection \<open>Decoding what was encoded\<close>

lemma decode_hash_hex [simp]: "length h = 32 \<Longrightarrow> decode_hash (JStr (hex h)) field = Inr h"
  by (simp add: decode_hash_Inr)

lemma enumerate_map: "enumerate n (map f xs) = map (\<lambda>(i, x). (i, f x)) (enumerate n xs)"
  by (induction xs arbitrary: n) auto

lemma traverse_hashes:
  "\<forall>h \<in> set hs. length h = 32 \<Longrightarrow>
     traverse receipt_hash (enumerate n (map (\<lambda>h. JStr (hex h)) hs)) = Inr hs"
  by (induction hs arbitrary: n) (simp_all add: receipt_hash_def)

definition step_json :: "inclusion_step \<Rightarrow> json" where
  "step_json step = JObj
     [(py ''side'', JStr (side_name (side_of step))), (py ''hash'', JStr (hex (hash_of step)))]"

lemma path_json_steps: "path_json path = JArr (map step_json path)"
  by (simp add: path_json_def step_json_def)

lemma traverse_steps:
  "\<forall>s \<in> set path. length (hash_of s) = 32 \<Longrightarrow>
     traverse receipt_step (enumerate n (map step_json path)) =
       Inr (map (\<lambda>s. (JStr (side_name (side_of s)), hash_of s)) path)"
  by (induction path arbitrary: n) (simp_all add: receipt_step_def step_json_def subscript_def)

lemma side_names [simp]: "side_name LeftSide \<noteq> side_name RightSide" "side_name RightSide \<noteq> side_name LeftSide"
  by (simp_all add: side_name_def)

lemma checked_steps_names:
  "checked_steps (map (\<lambda>s. (JStr (side_name (side_of s)), hash_of s)) path) = Inr path"
proof (induction path)
  case (Cons s path)
  then show ?case
    by (cases "side_of s") simp_all
qed simp

lemma fold_path_lengths:
  "fold_path current (zip path sides) = Some r \<Longrightarrow> length path = length sides \<Longrightarrow>
     s \<in> set path \<Longrightarrow> length (hash_of s) = 32"
proof (induction path arbitrary: sides current)
  case (Cons t path)
  then show ?case
    by (cases sides) (auto split: if_splits)
qed simp

lemma verify_inclusion_lengths:
  "verify_inclusion leaf i n path root \<Longrightarrow> \<forall>s \<in> set path. length (hash_of s) = 32"
  using fold_path_lengths by (fastforce simp: verify_inclusion_def Let_def split: if_splits option.splits)

lemma verify_consistency_lengths:
  "verify_consistency m n r s path \<Longrightarrow> m < n \<Longrightarrow> \<forall>h \<in> set path. length h = 32"
  by (auto simp: verify_consistency_def split: if_splits)

subsection \<open>The parts of a sealed receipt\<close>

lemma events_up_to_split:
  assumes "t' \<le> t"
  shows "events_up_to t es = events_up_to t' es @ filter (\<lambda>e. t' < ev_sequence e) (events_up_to t es)"
proof -
  let ?up = "events_up_to t es"
  have "sorted (map ev_sequence ?up)"
    by (simp add: events_up_to_def)
  then have "?up = filter (\<lambda>e. ev_sequence e \<le> t') ?up @ filter (\<lambda>e. t' < ev_sequence e) ?up"
    by (rule sorted_filter_split)
  moreover have "filter (\<lambda>e. ev_sequence e \<le> t \<and> ev_sequence e \<le> t') es = filter (\<lambda>e. ev_sequence e \<le> t') es"
    using assms by (intro filter_cong) auto
  then have "filter (\<lambda>e. ev_sequence e \<le> t') ?up = events_up_to t' es"
    by (simp add: events_up_to_def filter_sort_key)
  ultimately show ?thesis by simp
qed

lemma prefix_leaves_split:
  "t' \<le> t \<Longrightarrow> prefix_leaves es t' = take (length (prefix_leaves es t')) (prefix_leaves es t)"
  using arg_cong [OF events_up_to_split [of t' t es], of "map leaf_of"]
  by (simp add: prefix_leaves_def)

lemma chained_predecessor: "chained q cs \<Longrightarrow> c \<in> set cs \<Longrightarrow> follows q c \<or> (\<exists>p \<in> set cs. follows (Some p) c)"
  by (induction cs arbitrary: q) auto

lemma follows_None:
  "follows None c \<Longrightarrow> cp_previous_checkpoint_id c = None \<and> cp_previous_root_hash c = None"
  by (simp add: follows_def)

lemma consistency_bundle_ok:
  assumes "seals_ok keyring d" "p \<in> set (checkpoints d)" "c \<in> set (checkpoints d)" "follows (Some p) c"
    and "leaves = prefix_leaves (events d) (cp_last_event_sequence c)"
  shows "\<exists>v hs. checkpoint_view p = Inr v \<and> verify_signed_checkpoint rt (JObj v) keyring = Inr () \<and>
    (\<forall>h \<in> set hs. length h = 32) \<and>
    consistency_bundle c p leaves = Inr (JObj
       [(py ''old_checkpoint'', JObj v),
        (py ''new_checkpoint_id'', JStr (uuid_str (cp_checkpoint_id c))),
        (py ''old_size'', JInt (cp_leaf_count p)),
        (py ''new_size'', JInt (cp_leaf_count c)),
        (py ''hashes'', JArr (map (\<lambda>h. JStr (hex h)) hs))]) \<and>
    verify_consistency (cp_leaf_count p) (cp_leaf_count c)
      (merkle_root (prefix_leaves (events d) (cp_last_event_sequence p))) (merkle_root leaves) hs"
proof -
  have sealed: "sealed_ok keyring (events d) p" "sealed_ok keyring (events d) c"
    using assms(1-3) by (simp_all add: seals_ok_def)
  let ?m = "length (prefix_leaves (events d) (cp_last_event_sequence p))"
  have sizes: "cp_leaf_count p = int ?m" "cp_leaf_count c = int (length leaves)"
    using sealed assms(5) by (simp_all add: sealed_ok_def length_prefix_leaves)
  have above: "cp_last_event_sequence p < cp_last_event_sequence c" "cp_leaf_count p < cp_leaf_count c"
    using assms(4) by (simp_all add: follows_def previous_sequence_def previous_count_def)
  have pos: "0 < ?m" "?m < length leaves"
    using chained_above [of None "checkpoints d" p] assms(1,2) above(2) sizes
    by (simp_all add: seals_ok_def previous_count_def)
  have old: "prefix_leaves (events d) (cp_last_event_sequence p) = take ?m leaves"
    using prefix_leaves_split [of "cp_last_event_sequence p" "cp_last_event_sequence c" "events d"] above(1)
    by (simp add: assms(5))
  obtain v where v: "checkpoint_view p = Inr v" "verify_signed_checkpoint rt (JObj v) keyring = Inr ()"
    using signed_view [of keyring p rt] sealed(1) by (auto simp: sealed_ok_def)
  let ?hs = "prefix_proof leaves ?m"
  have proof_ok: "consistency_proof leaves (int ?m) = Inr ?hs"
    using pos by (simp add: consistency_proof_Inr)
  have accepted: "verify_consistency (int ?m) (int (length leaves)) (merkle_root (take ?m leaves)) (merkle_root leaves) ?hs"
    using consistency_complete [OF _ pos(1) less_imp_le [OF pos(2)] proof_ok] assms(5) by simp
  then have "\<forall>h \<in> set ?hs. length h = 32"
    using verify_consistency_lengths pos(2) by simp
  with v proof_ok accepted show ?thesis
    by (intro exI [of _ v] exI [of _ ?hs]) (simp add: consistency_bundle_def sizes flip: old)
qed

text \<open>The bundle that links a checkpoint to the one before it.\<close>

definition linked :: "ledger_db \<Rightarrow> checkpoint_row \<Rightarrow> json \<Rightarrow> bool" where
  "linked d c bundle \<longleftrightarrow>
     (follows None c \<and> bundle = JNull) \<or>
     (\<exists>p \<in> set (checkpoints d). follows (Some p) c \<and>
        consistency_bundle c p (prefix_leaves (events d) (cp_last_event_sequence c)) = Inr bundle)"

lemma malformed_ok [simp]: "malformed reason (Inr x) = Inr x"
  by (simp add: malformed_def)

lemma receipt_consistency_linked:
  assumes "seals_ok keyring d" "c \<in> set (checkpoints d)" "linked d c bundle"
    and "checkpoint_view c = Inr cv" "map_of receipt (py ''consistency_proof'') = Some bundle"
    and "root = merkle_root (prefix_leaves (events d) (cp_last_event_sequence c))"
  shows "receipt_consistency rt receipt (JObj cv) root keyring = Inr ()"
  using assms(3) unfolding linked_def
proof (elim disjE bexE conjE)
  assume "follows None c" "bundle = JNull"
  then show ?thesis
    using assms(5) checkpoint_view_fields [OF assms(4)]
    by (simp add: receipt_consistency_def follows_None opt_uuid_def opt_json_def dict_get_def Let_def)
next
  fix p
  assume p: "p \<in> set (checkpoints d)" "follows (Some p) c"
    and made: "consistency_bundle c p (prefix_leaves (events d) (cp_last_event_sequence c)) = Inr bundle"
  let ?leaves = "prefix_leaves (events d) (cp_last_event_sequence c)"
  let ?old = "merkle_root (prefix_leaves (events d) (cp_last_event_sequence p))"
  obtain v hs where v: "checkpoint_view p = Inr v" "verify_signed_checkpoint rt (JObj v) keyring = Inr ()"
      "\<forall>h \<in> set hs. length h = 32"
      "verify_consistency (cp_leaf_count p) (cp_leaf_count c) ?old (merkle_root ?leaves) hs"
    and b: "bundle = JObj
       [(py ''old_checkpoint'', JObj v),
        (py ''new_checkpoint_id'', JStr (uuid_str (cp_checkpoint_id c))),
        (py ''old_size'', JInt (cp_leaf_count p)),
        (py ''new_size'', JInt (cp_leaf_count c)),
        (py ''hashes'', JArr (map (\<lambda>h. JStr (hex h)) hs))]"
    using consistency_bundle_ok [OF assms(1) p(1) assms(2) p(2) refl, of rt] made by auto
  have root: "cp_root_hash p = hex ?old" "length ?old = 32"
    using assms(1) p(1) by (simp_all add: seals_ok_def sealed_ok_def)
  have "consistency_fields rt (JObj cv) bundle (JStr (uuid_str (cp_checkpoint_id p))) root keyring = Inr True"
    using v p(2) root assms(6) checkpoint_view_fields [OF assms(4)] checkpoint_view_fields [OF v(1)]
    by (simp add: consistency_fields_def b subscript_def [of "JObj (_ # _)"] follows_def opt_json_def
        equal_values_def iterate_def traverse_hashes to_int_def)
  then show ?thesis
    using assms(5) p(2) checkpoint_view_fields [OF assms(4)]
    by (simp add: receipt_consistency_def follows_def opt_uuid_def dict_get_def Let_def b)
qed

lemma receipt_inclusion_sealed:
  assumes "sealed_ok keyring es c" "leaves = prefix_leaves es (cp_last_event_sequence c)"
    and "index < length leaves" "checkpoint_view c = Inr cv"
    and "subscript (JObj receipt) ''checkpoint'' = Inr (JObj cv)"
    and "subscript (JObj receipt) ''inclusion_proof'' = Inr (JObj
       [(py ''leaf_index'', JInt (int index)), (py ''tree_size'', JInt (cp_leaf_count c)),
        (py ''path'', path_json (walk leaves index))])"
  shows "receipt_inclusion rt receipt (leaves ! index) keyring = Inr (JObj cv, merkle_root leaves, True)"
proof -
  have c: "cp_leaf_count c = int (length leaves)" "cp_root_hash c = hex (merkle_root leaves)"
    "length (merkle_root leaves) = 32"
    using assms(1,2) by (simp_all add: sealed_ok_def length_prefix_leaves)
  have signed: "verify_signed_checkpoint rt (JObj cv) keyring = Inr ()"
    using signed_view [of keyring c rt] assms(1,4) by (auto simp: sealed_ok_def)
  have included: "verify_inclusion (leaves ! index) (int index) (int (length leaves)) (walk leaves index) (merkle_root leaves)"
    using inclusion_complete assms(2,3) by simp
  then have "traverse receipt_step (enumerate 0 (map step_json (walk leaves index))) =
      Inr (map (\<lambda>s. (JStr (side_name (side_of s)), hash_of s)) (walk leaves index))"
    by (intro traverse_steps) (rule verify_inclusion_lengths)
  then show ?thesis
    using signed included c checkpoint_view_fields [OF assms(4)]
    by (simp add: receipt_inclusion_def assms(5,6) subscript_def [of "JObj (_ # _)"] iterate_def
        path_json_steps checked_steps_names to_int_def)
qed

lemma sealed_receipt_accepted:
  assumes "ledger_ok d" "seals_ok keyring d" "c \<in> set (checkpoints d)" "linked d c bundle"
    and "es = events_up_to (cp_last_event_sequence c) (events d)" "index < length es"
  shows "\<exists>receipt v. event_view (es ! index) = Inr v \<and>
    sealed_receipt (es ! index) (int index) c (prefix_leaves (events d) (cp_last_event_sequence c)) bundle =
      Inr receipt \<and> map_of receipt (py ''event'') = Some (JObj v) \<and>
    verify_receipt rt receipt keyring = Inr (witnessed_reply (uuid_str (cp_checkpoint_id c)))"
proof -
  let ?leaves = "prefix_leaves (events d) (cp_last_event_sequence c)"
  let ?e = "es ! index"
  have sealed: "sealed_ok keyring (events d) c"
    using assms(2,3) by (simp add: seals_ok_def)
  have "?e \<in> set (events d)"
    using nth_mem [OF assms(6)] assms(5) by (auto simp: set_events_up_to)
  then obtain v b where e: "event_view ?e = Inr v" "event_commitment_bytes ?e = Inr b"
      "ev_leaf_hash ?e = hex (leaf_hash b)" "leaf_of ?e = leaf_hash b"
    using committed_view ledger_okD(3) [OF assms(1)] by metis
  have index: "index < length ?leaves" "?leaves ! index = leaf_hash b"
    using assms(5,6) e(4) by (simp_all add: prefix_leaves_def)
  obtain cv where cv: "checkpoint_view c = Inr cv"
    using signed_view [of keyring c] sealed by (auto simp: sealed_ok_def)
  let ?r = "[(py ''event'', JObj v), (py ''witness_status'', JStr (py ''sealed'')), (py ''checkpoint'', JObj cv),
      (py ''inclusion_proof'', JObj [(py ''leaf_index'', JInt (int index)),
         (py ''tree_size'', JInt (cp_leaf_count c)), (py ''path'', path_json (walk ?leaves index))]),
      (py ''consistency_proof'', bundle)]"
  have "sealed_receipt ?e (int index) c ?leaves bundle = Inr ?r"
    using e(1) cv index(1) by (simp add: sealed_receipt_def inclusion_proof_def)
  moreover have "receipt_event rt ?r = Inr (JStr (py ''sealed''), leaf_hash b, leaf_hash b)"
    using e(3) event_view_fields [OF e(1)] event_view_bytes [OF e(1)] e(2)
    by (simp add: receipt_event_def subscript_def [of "JObj (_ # _)"])
  moreover have "receipt_inclusion rt ?r (leaf_hash b) keyring = Inr (JObj cv, merkle_root ?leaves, True)"
    using receipt_inclusion_sealed [OF sealed refl index(1) cv, of ?r rt] index(2)
    by (simp add: subscript_def)
  moreover have "receipt_consistency rt ?r (JObj cv) (merkle_root ?leaves) keyring = Inr ()"
    by (rule receipt_consistency_linked [OF assms(2-4) cv _ refl]) simp
  ultimately show ?thesis
    using e(1) checkpoint_view_fields [OF cv]
    by (intro exI [of _ ?r] exI [of _ v]) (simp add: verify_receipt_def)
qed

end
