(* ===== verification/Coordination.thy ===== *)
theory Coordination
  imports Seal_Claims
begin

section \<open>Coordination of writers and sealers\<close>

text \<open>
  \<open>src/ledger/coordination.py\<close> names the advisory lock that \<open>EventService._coordinate_insert\<close> takes
  in shared mode and \<open>CheckpointSealer.seal_once\<close> in exclusive mode. First the protocol among any
  number of concurrent transactions, as a step relation: sequence numbers are drawn when a row is
  inserted and become visible when its transaction commits, in any order, and yet no number at or
  below a sealed boundary is committed after the sealing. Then the programs: their traces follow
  the protocol, taking the lock before the row is inserted and holding it to the end of the
  transaction.
\<close>

subsection \<open>The protocol\<close>

text \<open>
  \<open>inserting t\<close> holds the sequence numbers transaction \<open>t\<close> has drawn while it holds the shared lock.
\<close>

record coordination =
  next_number :: int
  visible_numbers :: "int set"
  inserting :: "nat \<rightharpoonup> int list"
  sealing :: "nat option"
  boundary :: int

definition initial :: coordination where
  "initial = \<lparr>next_number = 1, visible_numbers = {}, inserting = Map.empty, sealing = None, boundary = 0\<rparr>"

inductive coordinate :: "coordination \<Rightarrow> coordination \<Rightarrow> bool" where
  share: "sealing s = None \<Longrightarrow> inserting s t = None \<Longrightarrow>
    coordinate s (s\<lparr>inserting := (inserting s)(t \<mapsto> [])\<rparr>)"
| insert_row: "inserting s t = Some ns \<Longrightarrow>
    coordinate s (s\<lparr>inserting := (inserting s)(t \<mapsto> ns @ [next_number s]), next_number := next_number s + 1\<rparr>)"
| commit_rows: "inserting s t = Some ns \<Longrightarrow>
    coordinate s (s\<lparr>inserting := (inserting s)(t := None), visible_numbers := visible_numbers s \<union> set ns\<rparr>)"
| abort_rows: "inserting s t = Some ns \<Longrightarrow> coordinate s (s\<lparr>inserting := (inserting s)(t := None)\<rparr>)"
| exclude: "sealing s = None \<Longrightarrow> inserting s = Map.empty \<Longrightarrow> coordinate s (s\<lparr>sealing := Some t\<rparr>)"
| seal: "sealing s = Some t \<Longrightarrow> m \<in> visible_numbers s \<Longrightarrow> boundary s < m \<Longrightarrow>
    coordinate s (s\<lparr>boundary := m\<rparr>)"
| release: "sealing s = Some t \<Longrightarrow> coordinate s (s\<lparr>sealing := None\<rparr>)"

inductive_cases coordinateE: "coordinate s s'"

inductive coordinated :: "coordination \<Rightarrow> coordination \<Rightarrow> bool" where
  start: "coordinated s s"
| further: "coordinated s s' \<Longrightarrow> coordinate s' s'' \<Longrightarrow> coordinated s s''"

definition drawn :: "coordination \<Rightarrow> int set" where
  "drawn s = {n. \<exists>t ns. inserting s t = Some ns \<and> n \<in> set ns}"

definition coordination_ok :: "coordination \<Rightarrow> bool" where
  "coordination_ok s \<longleftrightarrow>
     boundary s < next_number s \<and> (\<forall>n \<in> visible_numbers s. n < next_number s) \<and>
     (\<forall>n \<in> drawn s. boundary s < n \<and> n < next_number s) \<and>
     (sealing s \<noteq> None \<longrightarrow> inserting s = Map.empty)"

lemma coordination_ok_initial: "coordination_ok initial"
  by (simp add: coordination_ok_def initial_def drawn_def)

lemma drawn_update: "drawn (s\<lparr>inserting := (inserting s)(t := x)\<rparr>) \<subseteq>
    drawn s \<union> (case x of None \<Rightarrow> {} | Some ns \<Rightarrow> set ns)"
  by (auto simp: drawn_def split: if_splits option.splits)

lemma drawn_mem: "inserting s t = Some ns \<Longrightarrow> set ns \<subseteq> drawn s"
  by (auto simp: drawn_def)

lemma drawn_cong: "inserting s = inserting s' \<Longrightarrow> drawn s = drawn s'"
  by (simp add: drawn_def)

lemma coordinate_ok:
  assumes "coordinate s s'" "coordination_ok s"
  shows "coordination_ok s'"
  using assms(1)
proof cases
  case (share t)
  then show ?thesis
    using assms(2) drawn_update [of s t "Some []"] by (auto simp: coordination_ok_def)
next
  case (insert_row t ns)
  have "drawn s' \<subseteq> drawn s \<union> {next_number s}"
    using drawn_update [of s t "Some (ns @ [next_number s])"] drawn_mem [OF insert_row(2)]
      drawn_cong [of s' "s\<lparr>inserting := (inserting s)(t \<mapsto> ns @ [next_number s])\<rparr>"] insert_row(1)
    by auto
  moreover have "sealing s = None"
    using assms(2) insert_row(2) by (auto simp: coordination_ok_def)
  ultimately show ?thesis
    using assms(2) insert_row(1) by (force simp: coordination_ok_def)
next
  case (commit_rows t ns)
  have "drawn s' \<subseteq> drawn s"
    using drawn_update [of s t None] drawn_cong [of s' "s\<lparr>inserting := (inserting s)(t := None)\<rparr>"]
      commit_rows(1) by simp
  then show ?thesis
    using assms(2) drawn_mem [OF commit_rows(2)] commit_rows(1) by (auto simp: coordination_ok_def)
next
  case (abort_rows t ns)
  then show ?thesis
    using assms(2) drawn_update [of s t None] by (auto simp: coordination_ok_def)
next
  case (exclude t)
  then show ?thesis
    using assms(2) drawn_cong [of s' s] by (simp add: coordination_ok_def)
next
  case (seal t m)
  then have "drawn s' = {}"
    using assms(2) by (auto simp: coordination_ok_def drawn_def)
  then show ?thesis
    using assms(2) seal by (auto simp: coordination_ok_def)
next
  case (release t)
  then show ?thesis
    using assms(2) drawn_cong [of s' s] by (simp add: coordination_ok_def)
qed

lemma coordinate_below:
  assumes "coordinate s s'" "coordination_ok s"
  shows "boundary s \<le> boundary s' \<and> visible_numbers s \<subseteq> visible_numbers s' \<and>
    (\<forall>n \<in> visible_numbers s' - visible_numbers s. boundary s < n)"
  using assms(1)
proof cases
  case (commit_rows t ns)
  then show ?thesis
    using assms(2) drawn_mem [OF commit_rows(2)] by (auto simp: coordination_ok_def)
qed simp_all

lemma coordinated_ok: "coordinated s s' \<Longrightarrow> coordination_ok s \<Longrightarrow> coordination_ok s'"
  by (induction rule: coordinated.induct) (auto dest: coordinate_ok)

lemma coordinated_below:
  assumes "coordinated s s'" "coordination_ok s"
  shows "boundary s \<le> boundary s' \<and> visible_numbers s \<subseteq> visible_numbers s' \<and>
    (\<forall>n \<in> visible_numbers s' - visible_numbers s. boundary s < n)"
  using assms
proof (induction rule: coordinated.induct)
  case (further s s' s'')
  then have "coordination_ok s'"
    using coordinated_ok by blast
  note step = coordinate_below [OF further.hyps(2) this] and before = further.IH [OF further.prems]
  have "boundary s < n" if "n \<in> visible_numbers s'' - visible_numbers s" for n
  proof (cases "n \<in> visible_numbers s'")
    case True
    then show ?thesis using that before by blast
  next
    case False
    then have "boundary s' < n" using that step by blast
    then show ?thesis using before by simp
  qed
  then show ?case
    using step before by auto
qed simp

subsection \<open>The programs follow the protocol\<close>

text \<open>
  What a transaction may do in the state of its locks (shared, exclusive): rows of the log are
  inserted under the shared lock, checkpoints under the exclusive one, and both locks end with the
  transaction.
\<close>

fun permitted :: "bool \<times> bool \<Rightarrow> trace_entry \<Rightarrow> (bool \<times> bool) option" where
  "permitted locks Begin = Some (False, False)"
| "permitted locks Commit = Some (False, False)"
| "permitted locks Rollback = Some (False, False)"
| "permitted locks Select = Some locks"
| "permitted locks LockShared = Some (True, snd locks)"
| "permitted locks LockExclusive = Some (fst locks, True)"
| "permitted locks (Change a) =
     (case a of
        InsertEvent _ \<Rightarrow> if fst locks then Some locks else None
      | InsertCheckpoint _ \<Rightarrow> if snd locks then Some locks else None
      | _ \<Rightarrow> Some locks)"

fun locks_after :: "bool \<times> bool \<Rightarrow> trace_entry list \<Rightarrow> (bool \<times> bool) option" where
  "locks_after locks [] = Some locks"
| "locks_after locks (e # es) =
     (case permitted locks e of None \<Rightarrow> None | Some locks' \<Rightarrow> locks_after locks' es)"

lemma locks_after_snoc:
  "locks_after locks (es @ [e]) =
     (case locks_after locks es of None \<Rightarrow> None | Some locks' \<Rightarrow> permitted locks' e)"
  by (induction es arbitrary: locks) (auto split: option.splits)

text \<open>The trace is disciplined so far, and at least the given locks are held.\<close>

definition disciplined :: "bool \<Rightarrow> bool \<Rightarrow> world \<Rightarrow> bool" where
  "disciplined sh ex w \<longleftrightarrow>
     (case locks_after (False, False) (trace w) of
        None \<Rightarrow> False
      | Some (sh', ex') \<Rightarrow> (sh \<longrightarrow> sh') \<and> (ex \<longrightarrow> ex'))"

lemma disciplined_weaken: "disciplined sh ex w \<Longrightarrow> disciplined False False w"
  by (auto simp: disciplined_def split: option.splits)

lemma disciplined_log:
  "disciplined sh ex w \<Longrightarrow> disciplined sh ex (log_entry Select w)"
  "disciplined sh ex w \<Longrightarrow> disciplined True ex (log_entry LockShared w)"
  "disciplined sh ex w \<Longrightarrow> disciplined sh True (log_entry LockExclusive w)"
  "disciplined sh ex w \<Longrightarrow> disciplined False False (log_entry Begin w)"
  "disciplined sh ex w \<Longrightarrow> disciplined False False (log_entry Commit w)"
  "disciplined sh ex w \<Longrightarrow> disciplined False False (log_entry Rollback w)"
  "disciplined True ex w \<Longrightarrow> disciplined True ex (log_entry (Change (InsertEvent e)) w)"
  "disciplined sh True w \<Longrightarrow> disciplined sh True (log_entry (Change (InsertCheckpoint c)) w)"
  "disciplined sh ex w \<Longrightarrow> disciplined False False (commit w)"
  "disciplined sh ex w \<Longrightarrow> disciplined False False (roll_back w)"
  by (auto simp: disciplined_def locks_after_snoc split: option.splits)

lemma disciplined_trace: "trace w = trace v \<Longrightarrow> disciplined sh ex w = disciplined sh ex v"
  by (simp add: disciplined_def)

lemma disciplined_world [simp]:
  "disciplined sh ex (interfere env w) = disciplined sh ex w"
  "disciplined sh ex (w\<lparr>tick := n\<rparr>) = disciplined sh ex w"
  "disciplined sh ex (w\<lparr>shared := d\<rparr>) = disciplined sh ex w"
  "disciplined sh ex (w\<lparr>mine := ms\<rparr>) = disciplined sh ex w"
  "disciplined sh ex (hold rs w) = disciplined sh ex w"
  by (simp_all add: disciplined_def)

named_theorems lock_rules \<open>programs that keep the locks they hold\<close>

lemma disciplined_keeps [lock_rules]:
  "keeps env (disciplined sh ex) (select_op f)" "keeps env (disciplined sh ex) clock_op"
  "keeps env (disciplined sh ex) uuid_op" "keeps env (disciplined sh ex) (lock_row res g)"
  "keeps env (disciplined True ex) (insert_event e)"
  "keeps env (disciplined sh True) (insert_checkpoint c)"
  by (auto intro!: keepsI disciplined_log simp: select_op_def clock_op_def uuid_op_def lock_row_def
      insert_event_def insert_checkpoint_def change_op_def Let_def)

lemma disciplined_lock_shared:
  "postgresql env \<Longrightarrow> valid env (disciplined sh ex) lock_shared_op (\<lambda>_. disciplined True ex) (\<lambda>_. disciplined False False)"
  using disciplined_log(2) by (auto simp: valid_def lock_shared_op_def)

text \<open>A transaction starts and ends without locks.\<close>

lemma disciplined_transaction:
  assumes "valid env (disciplined False False) m (\<lambda>_. disciplined False False) (\<lambda>_. disciplined False False)"
  shows "keeps env (disciplined False False) (transaction m)"
  unfolding keeps_def
  by (rule valid_transaction, rule valid_weaken [OF assms])
     (auto intro: disciplined_log)

lemma keeps_unlocked:
  "keeps env (disciplined sh ex) m \<Longrightarrow>
     valid env (disciplined sh ex) m (\<lambda>_. disciplined False False) (\<lambda>_. disciplined False False)"
  unfolding keeps_def by (erule valid_weaken) (auto dest: disciplined_weaken)

lemma keeps_new_event [lock_rules]:
  "keeps env (disciplined sh ex) (new_event k key fp ins oper dig prev rec rsn)"
  unfolding new_event_def by (intro keeps_intros lock_rules)

lemma keeps_answer [lock_rules]: "keeps env I (answer_existing e fp)"
  unfolding answer_existing_def by (rule keeps_intros)

lemma keeps_find [lock_rules]:
  "keeps env (disciplined sh ex) (find_existing key)" "keeps env (disciplined sh ex) (find_successor p)"
  "keeps env (disciplined sh ex) (select_by_keys keys)"
  unfolding find_existing_def find_successor_def select_by_keys_def by (intro lock_rules)+

text \<open>A block that takes the shared lock first and then only adds events.\<close>

lemma coordinated_block:
  assumes "postgresql env" "\<And>x. keeps env (disciplined True ex) (f x)"
  shows "valid env (disciplined sh ex) (bind_op coordinate_insert f)
    (\<lambda>_. disciplined False False) (\<lambda>_. disciplined False False)"
  unfolding coordinate_insert_def
  by (rule valid_bind [OF disciplined_lock_shared [OF assms(1)] keeps_unlocked [OF assms(2)]])

lemma valid_option:
  "(x = None \<Longrightarrow> valid env P m Q E) \<Longrightarrow> (\<And>y. x = Some y \<Longrightarrow> valid env P (f y) Q E) \<Longrightarrow>
     valid env P (case x of None \<Rightarrow> m | Some y \<Rightarrow> f y) Q E"
  by (cases x) simp_all

lemma find_then_disciplined:
  assumes "\<And>found. valid env (disciplined False False) (f found) (\<lambda>_. disciplined False False) (\<lambda>_. disciplined False False)"
  shows "valid env (disciplined False False) (bind_op (find_existing key) f)
    (\<lambda>_. disciplined False False) (\<lambda>_. disciplined False False)"
  by (rule valid_bind [OF keeps_find(1) [unfolded keeps_def] assms])

lemma append_report_disciplined:
  assumes "postgresql env"
  shows "keeps env (disciplined False False) (append_report request)"
  unfolding append_report_def append_report_tx_def
  by (intro keeps_intros lock_rules disciplined_transaction find_then_disciplined valid_option
      coordinated_block [OF assms] keeps_unlocked)

lemma append_successor_disciplined:
  assumes "postgresql env"
  shows "keeps env (disciplined False False) (append_successor p k key fp oper ins dig rsn)"
  unfolding append_successor_def append_successor_tx_def
  by (intro keeps_intros lock_rules disciplined_transaction find_then_disciplined valid_option
      coordinated_block [OF assms] keeps_unlocked)

lemma insert_items_disciplined: "keeps env (disciplined True ex) (insert_items resolved added n items results)"
proof (induction items arbitrary: resolved added n results)
  case (Cons item items)
  then show ?case
    by (auto simp: new_report_event_def split: option.splits sum.splits intro!: keeps_intros lock_rules)
qed (simp add: keeps_intros)

lemma insert_batch_disciplined:
  assumes "postgresql env"
  shows "valid env (disciplined False False) (insert_report_batch prepared)
    (\<lambda>_. disciplined False False) (\<lambda>_. disciplined False False)"
  unfolding insert_report_batch_def
  by (intro coordinated_block [OF assms] keeps_intros lock_rules insert_items_disciplined)

lemma conflict_disciplined: "keeps env (disciplined False False) (committed_batch_conflict prepared)"
  unfolding committed_batch_conflict_def
  by (intro disciplined_transaction keeps_unlocked keeps_intros lock_rules)

lemma batch_loop_disciplined:
  assumes "postgresql env"
  shows "keeps env (disciplined False False) (batch_loop prepared attempt)"
proof (induction prepared attempt rule: batch_loop.induct)
  case (1 prepared attempt)
  then show ?case
    by (subst batch_loop.simps)
       (intro keeps_on_integrity_error keeps_bind keeps_option keeps_if keeps_pure conflict_disciplined
         disciplined_transaction insert_batch_disciplined [OF assms], auto)
qed

lemma seal_once_disciplined:
  assumes "postgresql env"
  shows "keeps env (disciplined False False) (seal_once s)"
proof -
  have "valid env (disciplined False False) try_lock_op
      (\<lambda>b. if b then disciplined False True else disciplined False False) (\<lambda>_. disciplined False False)"
    using assms disciplined_log(3) by (auto simp: valid_def try_lock_op_def Let_def)
  moreover have "keeps env (disciplined False True)
      (bind_op (lock_row (\<lambda>c. CheckpointLock (cp_checkpoint_id c)) last_checkpoint) (\<lambda>previous.
       bind_op (select_op (\<lambda>d. next_batch (sl_batch_size s) (previous_sequence previous) (events d)))
         (seal_batch s previous)))"
    unfolding seal_batch_def seal_events_def Let_def by (intro keeps_intros lock_rules)
  ultimately show ?thesis
    unfolding seal_once_def
    by (intro disciplined_transaction valid_bind) (auto intro: keeps_unlocked valid_return)
qed

subsection \<open>Statements\<close>


text \<open>Two writers that commit out of order, and a seal of both.\<close>

definition two_writers :: coordination where
  "two_writers = initial\<lparr>inserting := [0 \<mapsto> [1], 1 \<mapsto> [2]], next_number := 3\<rparr>"

definition second_first :: coordination where
  "second_first = initial\<lparr>inserting := [0 \<mapsto> [1]], next_number := 3, visible_numbers := {2}\<rparr>"

definition both_sealed :: coordination where
  "both_sealed = initial\<lparr>next_number := 3, visible_numbers := {1, 2}, sealing := Some 7, boundary := 2\<rparr>"

lemma two_writers_reached: "coordinated initial two_writers"
proof -
  have "coordinate initial (initial\<lparr>inserting := [0 \<mapsto> []]\<rparr>)"
    using share [of initial 0] by (simp add: initial_def)
  moreover have "coordinate (initial\<lparr>inserting := [0 \<mapsto> []]\<rparr>) (initial\<lparr>inserting := [0 \<mapsto> [], 1 \<mapsto> []]\<rparr>)"
    using share [of "initial\<lparr>inserting := [0 \<mapsto> []]\<rparr>" 1] by (simp add: initial_def)
  moreover have "coordinate (initial\<lparr>inserting := [0 \<mapsto> [], 1 \<mapsto> []]\<rparr>)
      (initial\<lparr>inserting := [0 \<mapsto> [1], 1 \<mapsto> []], next_number := 2\<rparr>)"
    using insert_row [of "initial\<lparr>inserting := [0 \<mapsto> [], 1 \<mapsto> []]\<rparr>" 0 "[]"]
    by (simp add: initial_def fun_upd_twist)
  moreover have "coordinate (initial\<lparr>inserting := [0 \<mapsto> [1], 1 \<mapsto> []], next_number := 2\<rparr>) two_writers"
    using insert_row [of "initial\<lparr>inserting := [0 \<mapsto> [1], 1 \<mapsto> []], next_number := 2\<rparr>" 1 "[]"]
    by (simp add: initial_def two_writers_def)
  ultimately show ?thesis
    by (meson start further)
qed

lemma both_sealed_reached: "coordinated initial both_sealed"
proof -
  have "coordinate two_writers second_first"
    using commit_rows [of two_writers 1 "[2]"] by (simp add: two_writers_def second_first_def initial_def)
  moreover have "coordinate second_first (initial\<lparr>next_number := 3, visible_numbers := {1, 2}\<rparr>)"
    using commit_rows [of second_first 0 "[1]"]
    by (simp add: second_first_def initial_def insert_commute)
  moreover have "coordinate (initial\<lparr>next_number := 3, visible_numbers := {1, 2}\<rparr>)
      (initial\<lparr>next_number := 3, visible_numbers := {1, 2}, sealing := Some 7\<rparr>)"
    using exclude [of "initial\<lparr>next_number := 3, visible_numbers := {1, 2}\<rparr>" 7] by (simp add: initial_def)
  moreover have "coordinate (initial\<lparr>next_number := 3, visible_numbers := {1, 2}, sealing := Some 7\<rparr>) both_sealed"
    using seal [of "initial\<lparr>next_number := 3, visible_numbers := {1, 2}, sealing := Some 7\<rparr>" 7 2]
    by (simp add: both_sealed_def initial_def)
  ultimately show ?thesis
    using two_writers_reached by (meson further)
qed


text \<open>
  C30: the programs follow the protocol. Under PostgreSQL every statement that inserts an event runs
  in a transaction that already holds the shared lock, and every statement that inserts a
  checkpoint in one that holds the exclusive lock, on every path of every command that writes to
  the log, its retries and error paths included, whatever the other transactions do.
\<close>

theorem writers_hold_the_lock:
  assumes "postgresql env" "locks_after (False, False) (trace w) \<noteq> None"
  shows "locks_after (False, False) (trace (snd (append_report request env w))) \<noteq> None \<and>
    locks_after (False, False) (trace (snd (append_report_batch exception_text requests env w))) \<noteq> None \<and>
    locks_after (False, False) (trace (snd (append_revision p revision env w))) \<noteq> None \<and>
    locks_after (False, False) (trace (snd (append_revocation p revocation env w))) \<noteq> None \<and>
    locks_after (False, False) (trace (snd (seal_once s env w))) \<noteq> None"
proof -
  have safe: "locks_after (False, False) (trace (snd (m env w))) \<noteq> None"
    if "keeps env (disciplined False False) m" for m :: "'z op"
    using keepsD [OF that, of w "fst (m env w)" "snd (m env w)"] assms(2)
    by (auto simp: disciplined_def split: option.splits)
  have batch: "keeps env (disciplined False False) (append_report_batch exception_text requests)"
    unfolding append_report_batch_def
    by (intro keeps_bind keeps_pure batch_loop_disciplined [OF assms(1)])
  have successors: "keeps env (disciplined False False) (append_revision p revision)"
    "keeps env (disciplined False False) (append_revocation p revocation)"
    unfolding append_revision_def append_revocation_def
    by (intro keeps_bind keeps_pure append_successor_disciplined [OF assms(1)])+
  show ?thesis
    using safe [OF append_report_disciplined [OF assms(1)]] safe [OF batch] safe [OF successors(1)]
      safe [OF successors(2)] safe [OF seal_once_disciplined [OF assms(1)]] by blast
qed

theorem writers_hold_the_lock_witness:
  "locks_after (False, False) (trace (snd (append_report sample_report fixed_env start_world))) \<noteq> None \<and>
    locks_after (False, False) (trace (snd (append_report_batch (\<lambda>_. []) [sample_report] fixed_env start_world))) \<noteq> None \<and>
    locks_after (False, False) (trace (snd (append_revision 1 sample_report fixed_env start_world))) \<noteq> None \<and>
    locks_after (False, False) (trace (snd (append_revocation 1 sample_revocation fixed_env start_world))) \<noteq> None \<and>
    locks_after (False, False) (trace (snd (seal_once sample_sealer fixed_env start_world))) \<noteq> None"
  by (rule writers_hold_the_lock) (simp_all add: start_world_def)

end
