(* ===== verification/Proof_Claims.thy ===== *)
theory Proof_Claims
  imports Proof_Views Coordination
begin

section \<open>Properties of the receipts the server builds\<close>

text \<open>
  The readers of \<open>src/ledger/proofs.py\<close> run statement by statement while other transactions append
  events and seal checkpoints. On a sound ledger every stored event gets a receipt that
  \<open>verify_receipt\<close> accepts, and the pages of a checkpoint's increment never change.
\<close>

subsection \<open>A growing ledger\<close>

text \<open>What the others do to the log: they keep it sound and only append to both of its tables.\<close>

definition append_only :: "keyring \<Rightarrow> environment \<Rightarrow> bool" where
  "append_only keyring env \<longleftrightarrow> orderly env \<and> keeps_seals keyring env \<and>
     (\<forall>n h ws d. \<exists>cs. checkpoints (others env n h ws d) = checkpoints d @ cs)"

definition extends :: "keyring \<Rightarrow> ledger_db \<Rightarrow> ledger_db \<Rightarrow> bool" where
  "extends keyring d d' \<longleftrightarrow> ledger_ok d' \<and> seals_ok keyring d' \<and>
     (\<exists>es. events d' = events d @ es) \<and> (\<exists>cs. checkpoints d' = checkpoints d @ cs)"

definition since :: "keyring \<Rightarrow> ledger_db \<Rightarrow> world \<Rightarrow> bool" where
  "since keyring d w \<longleftrightarrow> mine w = [] \<and> extends keyring d (shared w)"

lemma extends_refl: "ledger_ok d \<Longrightarrow> seals_ok keyring d \<Longrightarrow> extends keyring d d"
  by (simp add: extends_def)

lemma extends_trans: "extends keyring d d' \<Longrightarrow> extends keyring d' d'' \<Longrightarrow> extends keyring d d''"
  by (auto simp: extends_def)

lemma extends_mem:
  "extends keyring d d' \<Longrightarrow> e \<in> set (events d) \<Longrightarrow> e \<in> set (events d')"
  "extends keyring d d' \<Longrightarrow> c \<in> set (checkpoints d) \<Longrightarrow> c \<in> set (checkpoints d')"
  by (auto simp: extends_def)

lemma extendsD: "extends keyring d d' \<Longrightarrow> ledger_ok d' \<and> seals_ok keyring d'"
  by (simp add: extends_def)

text \<open>The sealed part of the log stays as it is.\<close>

lemma extends_prefix:
  assumes "extends keyring d d'" "seals_ok keyring d" "c \<in> set (checkpoints d)"
  shows "events_up_to (cp_last_event_sequence c) (events d') = events_up_to (cp_last_event_sequence c) (events d)"
proof -
  let ?up = "\<lambda>es. filter (\<lambda>e. ev_sequence e \<le> cp_last_event_sequence c) es"
  obtain new where new: "events d' = events d @ new"
    using assms(1) by (auto simp: extends_def)
  have "c \<in> set (checkpoints d')"
    using assms extends_mem(2) by blast
  then have "sealed_ok keyring (events d) c" "sealed_ok keyring (events d') c"
    using assms by (simp_all add: extends_def seals_ok_def)
  then have "length (?up (events d @ new)) = length (?up (events d))"
    by (simp add: sealed_ok_def events_up_to_def new)
  then have "?up new = []"
    by simp
  then show ?thesis
    by (simp add: events_up_to_def new)
qed

lemma since_interfere:
  assumes "append_only keyring env" "since keyring d w"
  shows "since keyring d (interfere env w)"
proof -
  let ?d' = "others env (tick w) (held w) (mine w) (shared w)"
  have "ledger_ok (shared w) \<and> ledger_ok (apply_changes (mine w) (shared w))" "seals_ok keyring (shared w)"
    using assms(2) by (simp_all add: since_def extends_def)
  then have "ledger_ok ?d' \<and> grows (shared w) ?d'" "seals_ok keyring ?d'"
      "\<exists>cs. checkpoints ?d' = checkpoints (shared w) @ cs"
    using assms(1) unfolding append_only_def orderly_def keeps_seals_def by blast+
  then have "extends keyring (shared w) ?d'"
    by (auto simp: extends_def grows_def)
  then show ?thesis
    using assms(2) extends_trans by (auto simp: since_def)
qed

lemma since_visible: "since keyring d w \<Longrightarrow> extends keyring d (visible w) \<and> since keyring (visible w) w"
  by (auto simp: since_def visible_def extends_def)

lemma since_log [simp]: "since keyring d (log_entry s w) = since keyring d w"
  by (simp add: since_def)

lemma since_select:
  assumes "append_only keyring env" "\<And>d'. extends keyring d d' \<Longrightarrow> f d' = x"
  shows "valid env (since keyring d) (select_op f) (\<lambda>y w. since keyring d w \<and> y = x) E"
proof (rule validI)
  fix w assume "since keyring d w"
  then have w: "since keyring d (interfere env w)"
    by (rule since_interfere [OF assms(1)])
  then have "f (visible (interfere env w)) = x"
    using assms(2) since_visible by blast
  then show "case select_op f env w of (Inl e, w') \<Rightarrow> E e w' | (Inr y, w') \<Rightarrow> since keyring d w' \<and> y = x"
    using w by (simp add: select_op_def Let_def)
qed

text \<open>A statement whose result depends on when it runs: the ledger it saw is a point to go on from.\<close>

lemma since_snapshot:
  assumes "append_only keyring env"
  shows "valid env (since keyring d) (select_op f)
    (\<lambda>x w. \<exists>d'. (extends keyring d d' \<and> x = f d') \<and> since keyring d' w) E"
proof (rule validI)
  fix w assume "since keyring d w"
  then have w: "since keyring d (interfere env w)"
    by (rule since_interfere [OF assms])
  note v = since_visible [OF this]
  show "case select_op f env w of (Inl e, w') \<Rightarrow> E e w'
    | (Inr x, w') \<Rightarrow> \<exists>d'. (extends keyring d d' \<and> x = f d') \<and> since keyring d' w'"
    unfolding select_op_def Let_def using v by auto
qed

subsection \<open>The readers on a sound ledger\<close>

lemma scalar_checkpoint:
  assumes "seals_ok keyring d" "c \<in> set (checkpoints d)"
  shows "scalar (\<lambda>x. cp_checkpoint_id x = cp_checkpoint_id c) (checkpoints d) = Some c"
proof (rule scalar_unique [OF assms(2) refl])
  fix y assume "y \<in> set (checkpoints d)" "cp_checkpoint_id y = cp_checkpoint_id c"
  then show "y = c"
    using checkpoint_table_ids [of "checkpoints d"] assms
    by (auto simp: seals_ok_def distinct_map dest: inj_onD)
qed

lemma find_checkpoint_since:
  assumes "append_only keyring env" "c \<in> set (checkpoints d)"
  shows "valid env (since keyring d) (find_checkpoint (cp_checkpoint_id c))
    (\<lambda>found w. since keyring d w \<and> found = Some c) E"
  unfolding find_checkpoint_def
  by (rule since_select [OF assms(1)]) (use assms(2) scalar_checkpoint extends_mem(2) extendsD in blast)

lemma check_prefix_sealed:
  assumes "ledger_ok d" "seals_ok keyring d" "c \<in> set (checkpoints d)"
  shows "check_prefix keyring c (events_up_to (cp_last_event_sequence c) (events d)) =
    Inr (events_up_to (cp_last_event_sequence c) (events d), prefix_leaves (events d) (cp_last_event_sequence c))"
proof -
  let ?es = "events_up_to (cp_last_event_sequence c) (events d)"
  have sealed: "sealed_ok keyring (events d) c"
    using assms(2,3) by (simp add: seals_ok_def)
  have "0 < cp_leaf_count c"
    using chained_above [of None "checkpoints d" c] assms(2,3) by (simp add: seals_ok_def previous_count_def)
  then have "int (length ?es) = cp_leaf_count c" "?es \<noteq> []"
    using sealed by (auto simp: sealed_ok_def)
  moreover have "traverse check_leaf ?es = Inr (prefix_leaves (events d) (cp_last_event_sequence c))"
    using ledger_okD(3) [OF assms(1)] by (simp add: traverse_check_leaf prefix_leaves_def set_events_up_to)
  moreover obtain key payload where k: "keyring (cp_key_version c) = Some key" "checkpoint_signing_bytes c = Inr payload"
      "cp_signature c = sign_checkpoint payload key"
    using sealed by (auto simp: sealed_ok_def signed_def split: option.splits sum.splits)
  moreover have "verify_checkpoint_signature payload (cp_signature c) key = Inr True"
    using k(3) by (simp add: verify_checkpoint_signature_iff)
  ultimately show ?thesis
    using sealed by (simp add: check_prefix_def checkpoint_key_def require_key_def sealed_ok_def)
qed

lemma validated_prefix_since:
  assumes "append_only keyring env" "ledger_ok d" "seals_ok keyring d" "c \<in> set (checkpoints d)"
  shows "valid env (since keyring d) (validated_prefix keyring c)
    (\<lambda>r w. since keyring d w \<and> r = (events_up_to (cp_last_event_sequence c) (events d),
       prefix_leaves (events d) (cp_last_event_sequence c))) E"
  unfolding validated_prefix_def
  by (rule valid_known [OF since_select [OF assms(1)]], erule extends_prefix [OF _ assms(3,4)],
      rule valid_lift) (simp_all add: check_prefix_sealed [OF assms(2-4)])

lemma bundle_since:
  assumes "append_only keyring env" "ledger_ok d" "seals_ok keyring d" "c \<in> set (checkpoints d)"
  shows "valid env (since keyring d)
    (build_consistency_bundle keyring c (prefix_leaves (events d) (cp_last_event_sequence c)))
    (\<lambda>b w. since keyring d w \<and> linked d c b) E"
proof -
  let ?leaves = "prefix_leaves (events d) (cp_last_event_sequence c)"
  have "follows None c \<or> (\<exists>p \<in> set (checkpoints d). follows (Some p) c)"
    using chained_predecessor assms(3,4) by (simp add: seals_ok_def)
  then show ?thesis
  proof (elim disjE bexE)
    assume "follows None c"
    then show ?thesis
      by (simp add: build_consistency_bundle_def follows_None linked_def valid_return)
  next
    fix p assume p: "p \<in> set (checkpoints d)" "follows (Some p) c"
    obtain b where b: "consistency_bundle c p ?leaves = Inr b"
      using consistency_bundle_ok [OF assms(3) p(1) assms(4) p(2) refl] by blast
    have ids: "cp_previous_checkpoint_id c = Some (cp_checkpoint_id p)" "cp_previous_root_hash c = Some (cp_root_hash p)"
      using p(2) by (simp_all add: follows_def)
    have "linked d c b"
      using p b by (auto simp: linked_def)
    then have last: "valid env (since keyring d) (lift_op (consistency_bundle c p ?leaves))
        (\<lambda>b w. since keyring d w \<and> linked d c b) E"
      by (intro valid_lift) (simp_all add: b)
    have "valid env (since keyring d) (bind_op (validated_prefix keyring p)
        (\<lambda>_. lift_op (consistency_bundle c p ?leaves))) (\<lambda>b w. since keyring d w \<and> linked d c b) E"
      by (rule valid_known [OF validated_prefix_since [OF assms(1-3) p(1)] last])
    then show ?thesis
      unfolding build_consistency_bundle_def ids option.case
      by (intro valid_known [OF find_checkpoint_since [OF assms(1) p(1)]]) simp
  qed
qed

subsection \<open>Receipts\<close>

text \<open>A receipt of the event, and what the verifier answers.\<close>

definition receipt_of :: "python \<Rightarrow> keyring \<Rightarrow> event_row \<Rightarrow> pydict \<Rightarrow> pydict \<Rightarrow> bool" where
  "receipt_of rt keyring e reply receipt \<longleftrightarrow>
     (\<exists>v. event_view e = Inr v \<and> map_of receipt (py ''event'') = Some (JObj v)) \<and>
     verify_receipt rt receipt keyring = Inr reply"

lemma position_of_mem:
  assumes "e \<in> set es" "\<And>x. x \<in> set es \<Longrightarrow> ev_event_id x = ev_event_id e \<Longrightarrow> x = e"
  shows "\<exists>k < length es. position_of (ev_event_id e) es = Some k \<and> es ! k = e"
proof -
  obtain j where "j < length es" "es ! j = e"
    using assms(1) by (auto simp: in_set_conv_nth)
  then have "position_of (ev_event_id e) es \<noteq> None"
    by (auto simp: position_of_def find_None_iff)
  then obtain k where k: "position_of (ev_event_id e) es = Some k" by blast
  then have "k < length es" "ev_event_id (es ! k) = ev_event_id e"
    by (auto simp: position_of_def find_Some_iff)
  with k show ?thesis
    using assms(2) [OF nth_mem] by blast
qed

text \<open>The receipt of an event at a checkpoint, as a function of the ledger.\<close>

definition receipt_in :: "ledger_db \<Rightarrow> checkpoint_row \<Rightarrow> event_row \<Rightarrow> pydict \<Rightarrow> bool" where
  "receipt_in d c e receipt \<longleftrightarrow>
     (\<exists>k b. position_of (ev_event_id e) (events_up_to (cp_last_event_sequence c) (events d)) = Some k \<and>
        linked d c b \<and>
        sealed_receipt e (int k) c (prefix_leaves (events d) (cp_last_event_sequence c)) b = Inr receipt)"

lemma position_in:
  assumes "ledger_ok d" "e \<in> set (events d)" "ev_sequence e \<le> cp_last_event_sequence c"
  obtains k where "k < length (events_up_to (cp_last_event_sequence c) (events d))"
    "position_of (ev_event_id e) (events_up_to (cp_last_event_sequence c) (events d)) = Some k"
    "events_up_to (cp_last_event_sequence c) (events d) ! k = e"
proof -
  let ?es = "events_up_to (cp_last_event_sequence c) (events d)"
  have "e \<in> set ?es" "set ?es \<subseteq> set (events d)"
    using assms(2,3) by (auto simp: set_events_up_to)
  then show thesis
    using position_of_mem [of e ?es] event_table_id_inj [OF ledger_okD(1) [OF assms(1)]] assms(2) that by blast
qed

lemma receipt_in_accepted:
  assumes "ledger_ok d" "seals_ok keyring d" "c \<in> set (checkpoints d)"
    and "e \<in> set (events d)" "ev_sequence e \<le> cp_last_event_sequence c" "receipt_in d c e receipt"
  shows "receipt_of rt keyring e (witnessed_reply (uuid_str (cp_checkpoint_id c))) receipt"
proof -
  obtain k b where k: "position_of (ev_event_id e) (events_up_to (cp_last_event_sequence c) (events d)) = Some k"
      "linked d c b"
      "sealed_receipt e (int k) c (prefix_leaves (events d) (cp_last_event_sequence c)) b = Inr receipt"
    using assms(6) unfolding receipt_in_def by blast
  obtain k' where k': "k' < length (events_up_to (cp_last_event_sequence c) (events d))"
      "position_of (ev_event_id e) (events_up_to (cp_last_event_sequence c) (events d)) = Some k'"
      "events_up_to (cp_last_event_sequence c) (events d) ! k' = e"
    by (rule position_in [OF assms(1,4,5)])
  then have "k' = k"
    using k(1) by simp
  then show ?thesis
    using sealed_receipt_accepted [OF assms(1-3) k(2) refl k'(1), of rt] k(3) k'(3)
    by (auto simp: receipt_of_def)
qed

lemma receipt_at_value:
  assumes "append_only keyring env" "ledger_ok d" "seals_ok keyring d" "c \<in> set (checkpoints d)"
    and "e \<in> set (events d)" "ev_sequence e \<le> cp_last_event_sequence c"
  shows "valid env (since keyring d) (build_receipt_at_checkpoint keyring e c)
    (\<lambda>r w. since keyring d w \<and> receipt_in d c e r) (\<lambda>_ _. False)"
proof -
  let ?es = "events_up_to (cp_last_event_sequence c) (events d)"
  let ?leaves = "prefix_leaves (events d) (cp_last_event_sequence c)"
  obtain k where k: "k < length ?es" "position_of (ev_event_id e) ?es = Some k" "?es ! k = e"
    by (rule position_in [OF assms(2,5,6)])
  have "valid env (since keyring d)
      (bind_op (build_consistency_bundle keyring c ?leaves) (\<lambda>b. lift_op (sealed_receipt e (int k) c ?leaves b)))
      (\<lambda>r w. since keyring d w \<and> receipt_in d c e r) (\<lambda>_ _. False)"
  proof (rule valid_bind [OF bundle_since [OF assms(1-4)]])
    fix b
    show "valid env (\<lambda>w. since keyring d w \<and> linked d c b) (lift_op (sealed_receipt e (int k) c ?leaves b))
      (\<lambda>r w. since keyring d w \<and> receipt_in d c e r) (\<lambda>_ _. False)"
      using sealed_receipt_accepted [OF assms(2-4) _ refl k(1), of b]
      by (intro valid_lift) (auto simp: k(2,3) receipt_in_def)
  qed
  then show ?thesis
    unfolding build_receipt_at_checkpoint_def
    by (intro valid_known [OF validated_prefix_since [OF assms(1-4)]]) (simp add: k(2))
qed

lemma receipt_at_since:
  assumes "append_only keyring env" "ledger_ok d" "seals_ok keyring d" "c \<in> set (checkpoints d)"
    and "e \<in> set (events d)" "ev_sequence e \<le> cp_last_event_sequence c"
  shows "valid env (since keyring d) (build_receipt_at_checkpoint keyring e c)
    (\<lambda>r w. since keyring d w \<and> receipt_of rt keyring e (witnessed_reply (uuid_str (cp_checkpoint_id c))) r)
    (\<lambda>_ _. False)"
  by (rule valid_weaken [OF receipt_at_value [OF assms]]) (auto intro: receipt_in_accepted [OF assms(2-6)])

lemma pending_receipt_accepted:
  assumes "committed e"
  shows "\<exists>r. pending_receipt e = Inr r \<and> receipt_of rt keyring e pending_reply r"
proof -
  obtain v b where e: "event_view e = Inr v" "event_commitment_bytes e = Inr b" "ev_leaf_hash e = hex (leaf_hash b)"
    using committed_view [OF assms] by blast
  then show ?thesis
    using event_view_fields [OF e(1)] event_view_bytes [OF e(1)]
    by (simp add: pending_receipt_def receipt_of_def verify_receipt_def receipt_event_def
        subscript_def [of "JObj (_ # _)"] dict_get_def)
qed

text \<open>The reply for an event, given the checkpoints that existed at the start and at the end.\<close>

definition reply_for :: "ledger_db \<Rightarrow> ledger_db \<Rightarrow> event_row \<Rightarrow> pydict \<Rightarrow> bool" where
  "reply_for d d' e reply \<longleftrightarrow>
     (reply = pending_reply \<and> (\<forall>c \<in> set (checkpoints d). cp_last_event_sequence c < ev_sequence e)) \<or>
     (\<exists>c \<in> set (checkpoints d'). ev_sequence e \<le> cp_last_event_sequence c \<and>
        reply = witnessed_reply (uuid_str (cp_checkpoint_id c)))"

lemma build_receipt_since:
  assumes "append_only keyring env" "ledger_ok d" "seals_ok keyring d" "e \<in> set (events d)"
  shows "valid env (since keyring d) (build_receipt keyring (ev_event_id e))
    (\<lambda>r w. \<exists>reply. reply_for d (shared w) e reply \<and> receipt_of rt keyring e reply r) (\<lambda>_ _. False)"
proof -
  let ?Q = "\<lambda>r w. \<exists>reply. reply_for d (shared w) e reply \<and> receipt_of rt keyring e reply r"
  let ?newest = "\<lambda>d. last_by cp_leaf_count (filter (\<lambda>c. ev_sequence e \<le> cp_last_event_sequence c) (checkpoints d))"
  let ?answer = "\<lambda>chosen. case chosen of None \<Rightarrow> lift_op (pending_receipt e)
       | Some c \<Rightarrow> build_receipt_at_checkpoint keyring e c"
  have e: "committed e"
    using ledger_okD(3) [OF assms(2,4)] by simp
  then have leaf: "check_leaf e = Inr (leaf_of e)"
    by (simp add: check_leaf_Inr)
  have answer: "valid env (since keyring d') (?answer (?newest d')) ?Q (\<lambda>_ _. False)"
    if d': "extends keyring d d'" for d'
  proof (cases "?newest d'")
    case None
    then have "\<forall>c \<in> set (checkpoints d). cp_last_event_sequence c < ev_sequence e"
      using extends_mem(2) [OF d'] by (fastforce simp: filter_empty_conv not_le)
    then have "reply_for d d'' e pending_reply" for d''
      by (simp add: reply_for_def)
    moreover obtain r where "pending_receipt e = Inr r" "receipt_of rt keyring e pending_reply r"
      using pending_receipt_accepted [OF e] by blast
    ultimately show ?thesis
      unfolding None option.case by (intro valid_lift) auto
  next
    case (Some c)
    then have c: "c \<in> set (checkpoints d')" "ev_sequence e \<le> cp_last_event_sequence c"
      using last_by_Some [OF Some] by auto
    have "reply_for d (shared w) e (witnessed_reply (uuid_str (cp_checkpoint_id c)))" if "since keyring d' w" for w
      using c extends_mem(2) that by (auto simp: reply_for_def since_def)
    then show ?thesis
      using receipt_at_since [OF assms(1) _ _ c(1) _ c(2), of rt] extendsD [OF d'] extends_mem(1) [OF d' assms(4)]
      unfolding Some option.case by (intro valid_weaken [OF receipt_at_since [OF assms(1) _ _ c(1) _ c(2)]]) auto
  qed
  have rest: "valid env (since keyring d) (bind_op (select_op ?newest) ?answer) ?Q (\<lambda>_ _. False)"
  proof (rule valid_bind [OF since_snapshot [OF assms(1)]])
    fix chosen
    show "valid env (\<lambda>w. \<exists>d'. (extends keyring d d' \<and> chosen = ?newest d') \<and> since keyring d' w) (?answer chosen)
      ?Q (\<lambda>_ _. False)"
      using answer by (intro valid_ex valid_when) auto
  qed
  have found: "scalar (\<lambda>x. ev_event_id x = ev_event_id e) (events d') = Some e" if "extends keyring d d'" for d'
    using extends_mem(1) [OF that assms(4)] event_table_id_inj [OF ledger_okD(1)] extendsD [OF that]
    by (intro scalar_unique) auto
  show ?thesis
    unfolding build_receipt_def
    by (rule valid_known [OF since_select [OF assms(1) found]]) (simp_all add: bind_lift leaf rest)
qed

lemma quiet_append_only: "quiet env \<Longrightarrow> append_only keyring env"
  using quiet_orderly by (simp add: append_only_def) (simp add: quiet_def)

lemma start_since: "mine w = [] \<Longrightarrow> ledger_ok (shared w) \<Longrightarrow> seals_ok keyring (shared w) \<Longrightarrow> since keyring (shared w) w"
  by (simp add: since_def extends_refl)

text \<open>A small sealed ledger for the witnesses.\<close>

lemma sample_archive:
  obtains w c e where "sound_world sample_sealer w" "last_checkpoint (shared w) = Some c"
    "e \<in> set (events (shared w))" "ev_sequence e \<le> cp_last_event_sequence c" "c \<in> set (checkpoints (shared w))"
proof -
  obtain w where w: "sound_world sample_sealer w" "fresh_ids fixed_env 1 w" "events (shared w) \<noteq> []"
      "checkpoints (shared w) = []"
    by (rule sample_log)
  obtain c w' where w': "sound_world sample_sealer w'" "last_checkpoint (shared w') = Some c"
    by (rule sample_sealed [OF w])
  then have "seals_ok (sl_keyring sample_sealer) (shared w')"
    by (simp add: sound_world_def)
  note c = last_checkpoint_sealed [OF this w'(2)]
  then obtain e where "e \<in> set (events (shared w'))" "ev_sequence e = cp_last_event_sequence c"
    by (auto simp: sealed_ok_def)
  then show thesis
    using that [OF w'] c(2) by simp
qed

text \<open>
  Receipts are issued and verify. On a sound ledger, whatever the other transactions append and
  seal meanwhile, \<open>build_receipt\<close> of a stored event returns a receipt of exactly this event, and the
  offline verifier accepts it with the same keyring: as witnessed by a checkpoint that covers the
  event, or as pending, which is only possible when no checkpoint covered it at the start.
\<close>

theorem receipts_are_issued:
  assumes "append_only keyring env" "mine w = []" "ledger_ok (shared w)" "seals_ok keyring (shared w)"
    and "e \<in> set (events (shared w))"
  shows "\<exists>receipt reply w'. build_receipt keyring (ev_event_id e) env w = (Inr receipt, w') \<and>
    receipt_of rt keyring e reply receipt \<and> reply_for (shared w) (shared w') e reply"
proof -
  obtain res w' where run: "build_receipt keyring (ev_event_id e) env w = (res, w')" by fastforce
  then show ?thesis
    using validD [OF build_receipt_since [OF assms(1,3-5), of rt] start_since [OF assms(2-4)]]
    by (cases res) auto
qed

theorem receipts_are_issued_witness:
  "\<exists>w e receipt reply w'. build_receipt (sl_keyring sample_sealer) (ev_event_id e) fixed_env w = (Inr receipt, w') \<and>
     receipt_of plain_python (sl_keyring sample_sealer) e reply receipt \<and> reply \<noteq> pending_reply"
proof -
  obtain w c e where w: "sound_world sample_sealer w" "last_checkpoint (shared w) = Some c"
    "e \<in> set (events (shared w))" "ev_sequence e \<le> cp_last_event_sequence c" "c \<in> set (checkpoints (shared w))"
    by (rule sample_archive)
  then obtain receipt reply w' where "build_receipt (sl_keyring sample_sealer) (ev_event_id e) fixed_env w = (Inr receipt, w')"
    "receipt_of plain_python (sl_keyring sample_sealer) e reply receipt" "reply_for (shared w) (shared w') e reply"
    using receipts_are_issued [OF quiet_append_only [OF fixed_env(1)], where rt = plain_python]
    unfolding sound_world_def by metis
  moreover from this(3) have "reply \<noteq> pending_reply"
    using w(4,5) by (auto simp: reply_for_def pending_reply_def witnessed_reply_def)
  ultimately show ?thesis by blast
qed

text \<open>The event of a receipt carries the hash of its own committed fields.\<close>

definition intact :: "python \<Rightarrow> pydict \<Rightarrow> bool" where
  "intact rt receipt \<longleftrightarrow>
     (\<exists>event b s. subscript (JObj receipt) ''event'' = Inr event \<and> event_json_bytes rt event = Inr b \<and>
        subscript event ''leaf_hash'' = Inr (JStr s) \<and> fromhex s = Inr (leaf_hash b))"

text \<open>
  C1: accepted receipts prove what they claim. Whatever JSON \<open>verify_receipt\<close> accepts, the event
  carries the hash of its own committed fields; and either the receipt is pending, or its checkpoint
  is genuinely signed, every tree with the stated size and root has the event's hash at the claimed
  index, and the checkpoint extends its genuinely signed predecessor, each unless the hashes that
  were computed exhibit a SHA-256 collision.
\<close>

theorem verify_receipt_sound:
  assumes "verify_receipt rt receipt keyring = Inr reply"
  shows "intact rt receipt \<and>
    (reply = pending_reply \<and> dict_get receipt (py ''witness_status'') = JStr (py ''pending'') \<and>
       dict_get receipt (py ''checkpoint'') = JNull \<or>
     receipt_proves rt keyring receipt)"
proof -
  obtain status claimed where e: "receipt_event rt receipt = Inr (status, claimed, claimed)"
    using assms by (auto simp: verify_receipt_def result_simps split: if_splits)
  have "intact rt receipt" "dict_get receipt (py ''witness_status'') = status"
    using e by (auto simp: receipt_event_Inr intact_def subscript_def dict_get_def split: option.splits)
  moreover have "receipt_proves rt keyring receipt \<or> status = JStr (py ''pending'') \<and>
      dict_get receipt (py ''checkpoint'') = JNull \<and> reply = pending_reply"
  proof (cases "reply = pending_reply")
    case True
    then show ?thesis
      using assms e by (auto simp: verify_receipt_def result_simps pending_reply_def witnessed_reply_def
          split: if_splits)
  qed (use verify_receipt_witnessed [OF assms] in simp)
  ultimately show ?thesis by blast
qed

theorem verify_receipt_sound_witness:
  "\<exists>receipt. receipt_proves plain_python (sl_keyring sample_sealer) receipt"
proof -
  obtain w c e where w: "sound_world sample_sealer w" "last_checkpoint (shared w) = Some c"
    "e \<in> set (events (shared w))" "ev_sequence e \<le> cp_last_event_sequence c" "c \<in> set (checkpoints (shared w))"
    by (rule sample_archive)
  then have ok: "mine w = []" "ledger_ok (shared w)" "seals_ok (sl_keyring sample_sealer) (shared w)"
    by (simp_all add: sound_world_def)
  obtain res w' where run: "build_receipt_at_checkpoint (sl_keyring sample_sealer) e c fixed_env w = (res, w')"
    by fastforce
  note issued = receipt_at_since [OF quiet_append_only [OF fixed_env(1)] ok(2,3) w(5,3,4), of plain_python]
  obtain k r where "receipt_of plain_python (sl_keyring sample_sealer) e (witnessed_reply k) r"
    using validD [OF issued start_since [OF ok]] run by (cases res) auto
  then have "verify_receipt plain_python r (sl_keyring sample_sealer) = Inr (witnessed_reply k)"
    by (simp add: receipt_of_def)
  then show ?thesis
    using verify_receipt_sound by (fastforce simp: pending_reply_def witnessed_reply_def)
qed

end
