(* ===== verification/Proof_Pages.thy ===== *)
theory Proof_Pages
  imports Proof_Claims
begin

section \<open>Pages of a checkpoint's increment\<close>

text \<open>
  \<open>build_checkpoint_event_page\<close> cuts the events between a checkpoint and its predecessor into pages.
  A page request is a function of the sealed part of the log, so repeating it later gives the same
  answer, and following the cursors reads the increment completely, in order and exactly once.
\<close>

subsection \<open>The page as a function of the sealed log\<close>

definition increment_start :: "ledger_db \<Rightarrow> checkpoint_row \<Rightarrow> int" where
  "increment_start d c =
     (case cp_previous_checkpoint_id c of
        None \<Rightarrow> 0
      | Some i \<Rightarrow> previous_sequence (scalar (\<lambda>x. cp_checkpoint_id x = i) (checkpoints d)))"

definition sealed_events :: "ledger_db \<Rightarrow> checkpoint_row \<Rightarrow> event_row list" where
  "sealed_events d c = events_up_to (cp_last_event_sequence c) (events d)"

definition page_result ::
    "ledger_db \<Rightarrow> checkpoint_row \<Rightarrow> json \<Rightarrow> int option \<Rightarrow> int \<Rightarrow> pydict result" where
  "page_result d c bundle after limit =
     (let cursor = (case after of None \<Rightarrow> increment_start d c | Some n \<Rightarrow> n) in
      if cursor < increment_start d c then
        Inl (invalid_cursor ''after_sequence is before the checkpoint's increment start''
          c cursor (increment_start d c))
      else if cp_last_event_sequence c < cursor then
        Inl (invalid_cursor ''after_sequence is beyond the checkpoint's fixed upper bound''
          c cursor (increment_start d c))
      else render_page c (map leaf_of (sealed_events d c)) bundle limit (candidates cursor (sealed_events d c)))"

lemma predecessor_cases:
  assumes "seals_ok keyring d" "c \<in> set (checkpoints d)"
  obtains "follows None c" "increment_start d c = 0"
  | p where "p \<in> set (checkpoints d)" "follows (Some p) c" "increment_start d c = cp_last_event_sequence p"
proof -
  have "follows None c \<or> (\<exists>p \<in> set (checkpoints d). follows (Some p) c)"
    using chained_predecessor assms by (simp add: seals_ok_def)
  then show thesis
    using that scalar_checkpoint [OF assms(1)]
    by (auto simp: increment_start_def follows_def previous_sequence_def)
qed

lemma increment_start_le:
  assumes "seals_ok keyring d" "c \<in> set (checkpoints d)"
  shows "increment_start d c \<le> cp_last_event_sequence c"
proof (rule predecessor_cases [OF assms])
  assume "follows None c" "increment_start d c = 0"
  then show ?thesis by (simp add: follows_def previous_sequence_def)
next
  fix p assume "follows (Some p) c" "increment_start d c = cp_last_event_sequence p"
  then show ?thesis by (simp add: follows_def previous_sequence_def)
qed

lemma increment_start_since:
  assumes "append_only keyring env" "seals_ok keyring d" "c \<in> set (checkpoints d)"
  shows "valid env (since keyring d) (increment_start_op c) (\<lambda>n w. since keyring d w \<and> n = increment_start d c) E"
proof (rule predecessor_cases [OF assms(2,3)])
  assume "follows None c" "increment_start d c = 0"
  then show ?thesis
    by (simp add: increment_start_op_def follows_None valid_return)
next
  fix p assume p: "p \<in> set (checkpoints d)" "follows (Some p) c" "increment_start d c = cp_last_event_sequence p"
  have i: "cp_previous_checkpoint_id c = Some (cp_checkpoint_id p)"
    using p(2) by (simp add: follows_def)
  show ?thesis
    unfolding increment_start_op_def i option.case
    by (rule valid_known [OF find_checkpoint_since [OF assms(1) p(1)]]) (simp add: p(3) valid_return)
qed

lemma linked_unique:
  assumes "seals_ok keyring d" "linked d c b" "linked d c b'"
  shows "b = b'"
proof -
  have same: "p = q"
    if "p \<in> set (checkpoints d)" "q \<in> set (checkpoints d)" "follows (Some p) c" "follows (Some q) c" for p q
  proof -
    have ids: "cp_checkpoint_id p = cp_checkpoint_id q"
      using that(3,4) by (simp add: follows_def)
    have "Some p = Some q"
      using scalar_checkpoint [OF assms(1) that(1)] scalar_checkpoint [OF assms(1) that(2)]
      unfolding ids by (rule trans [OF sym])
    then show ?thesis by (rule option.inject [THEN iffD1])
  qed
  from assms(2) consider "follows None c" "b = JNull"
    | p where "p \<in> set (checkpoints d)" "follows (Some p) c"
      "consistency_bundle c p (prefix_leaves (events d) (cp_last_event_sequence c)) = Inr b"
    unfolding linked_def by blast
  then show ?thesis
  proof cases
    case 1
    then show ?thesis
      using assms(3) by (auto simp: linked_def follows_def)
  next
    case (2 p)
    then have "\<not> follows None c"
      by (simp add: follows_def)
    then obtain q where "q \<in> set (checkpoints d)" "follows (Some q) c"
      "consistency_bundle c q (prefix_leaves (events d) (cp_last_event_sequence c)) = Inr b'"
      using assms(3) unfolding linked_def by blast
    with 2 same [of p q] show ?thesis by simp
  qed
qed

lemma page_since:
  assumes "append_only keyring env" "ledger_ok d" "seals_ok keyring d" "c \<in> set (checkpoints d)"
  shows "valid env (since keyring d) (build_checkpoint_event_page keyring (cp_checkpoint_id c) after limit)
    (\<lambda>p w. since keyring d w \<and> (\<exists>b. linked d c b \<and> page_result d c b after limit = Inr p))
    (\<lambda>x _. \<forall>b. linked d c b \<longrightarrow> page_result d c b after limit = Inl x)"
proof -
  let ?start = "increment_start d c"
  let ?cursor = "case after of None \<Rightarrow> ?start | Some n \<Rightarrow> n"
  let ?leaves = "prefix_leaves (events d) (cp_last_event_sequence c)"
  let ?Q = "\<lambda>p w. since keyring d w \<and> (\<exists>b. linked d c b \<and> page_result d c b after limit = Inr p)"
  let ?E = "\<lambda>x _. \<forall>b. linked d c b \<longrightarrow> page_result d c b after limit = Inl x"
  have leaves: "?leaves = map leaf_of (sealed_events d c)"
    by (simp add: sealed_events_def prefix_leaves_def)
  have render: "valid env (since keyring d)
      (bind_op (build_consistency_bundle keyring c ?leaves)
        (\<lambda>b. lift_op (render_page c ?leaves b limit (candidates ?cursor (sealed_events d c))))) ?Q ?E"
    if "\<not> ?cursor < ?start" "\<not> cp_last_event_sequence c < ?cursor"
  proof (rule valid_bind [OF bundle_since [OF assms]])
    fix b
    have "page_result d c b' after limit =
        render_page c ?leaves b' limit (candidates ?cursor (sealed_events d c))" for b'
      using that by (simp add: page_result_def Let_def leaves)
    then show "valid env (\<lambda>w. since keyring d w \<and> linked d c b)
      (lift_op (render_page c ?leaves b limit (candidates ?cursor (sealed_events d c)))) ?Q ?E"
      using linked_unique [OF assms(3)] by (intro valid_lift) auto
  qed
  have checked: "valid env (since keyring d)
      (if ?cursor < ?start then
         raise_op (invalid_cursor ''after_sequence is before the checkpoint's increment start'' c ?cursor ?start)
       else if cp_last_event_sequence c < ?cursor then
         raise_op (invalid_cursor ''after_sequence is beyond the checkpoint's fixed upper bound'' c ?cursor ?start)
       else bind_op (validated_prefix keyring c) (\<lambda>(es, leaves).
         bind_op (build_consistency_bundle keyring c leaves) (\<lambda>b.
           lift_op (render_page c leaves b limit (candidates ?cursor es))))) ?Q ?E"
  proof (cases "?cursor < ?start \<or> cp_last_event_sequence c < ?cursor")
    case True
    then show ?thesis
      by (auto simp: page_result_def Let_def intro!: valid_raise)
  next
    case False
    then have within: "\<not> ?cursor < ?start" "\<not> cp_last_event_sequence c < ?cursor" by simp_all
    show ?thesis
      unfolding if_not_P [OF within(1)] if_not_P [OF within(2)]
      by (intro valid_known [OF validated_prefix_since [OF assms]])
         (simp only: prod.case render [OF within, unfolded sealed_events_def])
  qed
  show ?thesis
    unfolding build_checkpoint_event_page_def Let_def
    by (rule valid_known [OF find_checkpoint_since [OF assms(1,4)]], simp only: option.case,
        rule valid_known [OF increment_start_since [OF assms(1,3,4)]], rule checked)
qed

subsection \<open>Pages are final\<close>

lemma extends_sealed:
  assumes "extends keyring d d'" "seals_ok keyring d" "c \<in> set (checkpoints d)"
  shows "sealed_events d' c = sealed_events d c" "increment_start d' c = increment_start d c"
    "linked d c b \<Longrightarrow> linked d' c b"
proof -
  show same: "sealed_events d' c = sealed_events d c"
    using extends_prefix [OF assms] by (simp add: sealed_events_def)
  have later: "seals_ok keyring d'" "\<And>x. x \<in> set (checkpoints d) \<Longrightarrow> x \<in> set (checkpoints d')"
    using extendsD [OF assms(1)] extends_mem(2) [OF assms(1)] by simp_all
  show "increment_start d' c = increment_start d c"
  proof (rule predecessor_cases [OF assms(2,3)])
    assume "follows None c" "increment_start d c = 0"
    then show ?thesis by (simp add: increment_start_def follows_None)
  next
    fix p assume "p \<in> set (checkpoints d)" "follows (Some p) c" "increment_start d c = cp_last_event_sequence p"
    then show ?thesis
      using scalar_checkpoint [OF later] by (simp add: increment_start_def follows_def previous_sequence_def)
  qed
  show "linked d' c b" if "linked d c b"
    using that same later(2) unfolding linked_def prefix_leaves_def sealed_events_def by auto
qed

lemma page_result_extends:
  assumes "extends keyring d d'" "seals_ok keyring d" "c \<in> set (checkpoints d)"
  shows "page_result d' c b after limit = page_result d c b after limit"
  unfolding page_result_def extends_sealed(1,2) [OF assms] by (rule refl)

lemma linked_ex:
  assumes "seals_ok keyring d" "c \<in> set (checkpoints d)"
  shows "\<exists>b. linked d c b"
proof (rule predecessor_cases [OF assms])
  fix p assume p: "p \<in> set (checkpoints d)" "follows (Some p) c"
  then show ?thesis
    using consistency_bundle_ok [OF assms(1) p(1) assms(2) p(2) refl] unfolding linked_def by blast
qed (auto simp: linked_def)

lemma page_run:
  assumes "append_only keyring env" "ledger_ok d" "seals_ok keyring d" "c \<in> set (checkpoints d)" "linked d c b"
    and "since keyring d w"
    and "build_checkpoint_event_page keyring (cp_checkpoint_id c) after limit env w = (res, w')"
  shows "res = page_result d c b after limit \<and> (\<forall>p. res = Inr p \<longrightarrow> since keyring d w')"
proof (cases res)
  case (Inl x)
  then show ?thesis
    using valid_Inl [OF page_since [OF assms(1-4)] assms(6) assms(7) [unfolded Inl]] assms(5) by simp
next
  case (Inr p)
  obtain b' where "since keyring d w'" "linked d c b'" "page_result d c b' after limit = Inr p"
    using valid_Inr [OF page_since [OF assms(1-4)] assms(6) assms(7) [unfolded Inr]] by blast
  then show ?thesis
    using Inr linked_unique [OF assms(3,5), of b'] by simp
qed

text \<open>
  A page never changes. Once a checkpoint is sealed, the answer to a page request for it, an
  error included, is the same at any later time and whatever other transactions commit before,
  between or after the statements of either request.
\<close>

theorem page_is_final:
  assumes "append_only keyring env" "append_only keyring env'"
    and "mine w = []" "ledger_ok (shared w)" "seals_ok keyring (shared w)" "c \<in> set (checkpoints (shared w))"
    and "mine v = []" "extends keyring (shared w) (shared v)"
    and "build_checkpoint_event_page keyring (cp_checkpoint_id c) after limit env w = (res, w')"
    and "build_checkpoint_event_page keyring (cp_checkpoint_id c) after limit env' v = (res', v')"
  shows "res = res'"
proof -
  let ?d = "shared w"
  obtain b where b: "linked ?d c b"
    using linked_ex [OF assms(5,6)] by blast
  have v: "since keyring ?d v"
    using assms(7,8) by (simp add: since_def)
  show ?thesis
    using page_run [OF assms(1,4-6) b start_since [OF assms(3-5)] assms(9)]
      page_run [OF assms(2,4-6) b v assms(10)] by simp
qed

theorem page_is_final_witness:
  "\<exists>w c res w' v'. sound_world sample_sealer w \<and> c \<in> set (checkpoints (shared w)) \<and>
     build_checkpoint_event_page (sl_keyring sample_sealer) (cp_checkpoint_id c) None 1 fixed_env w = (res, w') \<and>
     build_checkpoint_event_page (sl_keyring sample_sealer) (cp_checkpoint_id c) None 1 quiet_env w = (res, v')"
proof -
  obtain w c where w: "sound_world sample_sealer w" "c \<in> set (checkpoints (shared w))"
    by (rule sample_archive)
  then have ok: "mine w = []" "ledger_ok (shared w)" "seals_ok (sl_keyring sample_sealer) (shared w)"
    by (simp_all add: sound_world_def)
  obtain res w' res' v' where run:
    "build_checkpoint_event_page (sl_keyring sample_sealer) (cp_checkpoint_id c) None 1 fixed_env w = (res, w')"
    "build_checkpoint_event_page (sl_keyring sample_sealer) (cp_checkpoint_id c) None 1 quiet_env w = (res', v')"
    by fastforce
  have "res = res'"
    by (rule page_is_final [OF quiet_append_only [OF fixed_env(1)] quiet_append_only [OF quiet_env(1)] ok w(2)
          ok(1) extends_refl [OF ok(2,3)] run])
  then show ?thesis
    using w run by blast
qed

subsection \<open>Reading an increment page by page\<close>

definition increment :: "ledger_db \<Rightarrow> checkpoint_row \<Rightarrow> event_row list" where
  "increment d c = filter (\<lambda>e. increment_start d c < ev_sequence e) (sealed_events d c)"

text \<open>A client that follows \<open>next_after_sequence\<close>, for at most \<open>n\<close> pages.\<close>

fun read_increment :: "keyring \<Rightarrow> uuid \<Rightarrow> int \<Rightarrow> nat \<Rightarrow> int option \<Rightarrow> json list op" where
  "read_increment keyring i limit 0 after = raise_op IndexError"
| "read_increment keyring i limit (Suc n) after =
     bind_op (build_checkpoint_event_page keyring i after limit) (\<lambda>p.
       case (dict_get p (py ''items''), dict_get p (py ''next_after_sequence'')) of
         (JArr items, JInt next) \<Rightarrow>
           bind_op (read_increment keyring i limit n (Some next)) (\<lambda>rest. return_op (items @ rest))
       | (JArr items, _) \<Rightarrow> return_op items
       | _ \<Rightarrow> raise_op TypeError)"

text \<open>The receipts of the events after a cursor.\<close>

definition receipts_of :: "python \<Rightarrow> keyring \<Rightarrow> checkpoint_row \<Rightarrow> event_row list \<Rightarrow> json list \<Rightarrow> bool" where
  "receipts_of rt keyring c es items \<longleftrightarrow> list_all2 (\<lambda>e item. \<exists>r. item = JObj r \<and>
     receipt_of rt keyring e (witnessed_reply (uuid_str (cp_checkpoint_id c))) r) es items"

lemma candidates_snd: "map snd (candidates cursor es) = filter (\<lambda>e. cursor < ev_sequence e) es"
proof -
  have "map snd (filter (\<lambda>(_, e). cursor < ev_sequence e) (enumerate n es)) =
      filter (\<lambda>e. cursor < ev_sequence e) es" for n
    by (induction es arbitrary: n) auto
  then show ?thesis
    by (simp add: candidates_def)
qed

lemma candidates_nth: "(k, e) \<in> set (candidates cursor es) \<Longrightarrow> k < length es \<and> es ! k = e"
  by (auto simp: candidates_def in_set_enumerate_eq)

lemma page_items:
  assumes "ledger_ok d" "seals_ok keyring d" "c \<in> set (checkpoints d)" "linked d c b"
    and "set cands \<subseteq> set (candidates cursor (sealed_events d c))"
  shows "\<exists>items. traverse (\<lambda>(index, e). map_result JObj
      (sealed_receipt e (int index) c (map leaf_of (sealed_events d c)) b)) cands = Inr items \<and>
    receipts_of rt keyring c (map snd cands) items"
  using assms(5)
proof (induction cands)
  case (Cons x cands)
  obtain k e where x: "x = (k, e)" by fastforce
  then have k: "k < length (sealed_events d c)" "sealed_events d c ! k = e"
    using Cons.prems candidates_nth by auto
  obtain r where "sealed_receipt e (int k) c (map leaf_of (sealed_events d c)) b = Inr r"
      "receipt_of rt keyring e (witnessed_reply (uuid_str (cp_checkpoint_id c))) r"
    using sealed_receipt_accepted [OF assms(1-4) sealed_events_def k(1), of rt] k(2)
    by (auto simp: receipt_of_def prefix_leaves_def sealed_events_def)
  then show ?case
    using Cons by (auto simp: x receipts_of_def)
qed (simp add: receipts_of_def)

lemma filter_after_last_drop:
  assumes "sorted (map f xs)" "distinct (map f xs)" "take n xs \<noteq> []"
  shows "filter (\<lambda>x. (f (last (take n xs)) :: int) < f x) xs = drop n xs"
proof -
  let ?t = "f (last (take n xs))"
  have "xs = filter (\<lambda>x. f x \<le> ?t) xs @ filter (\<lambda>x. ?t < f x) xs"
    by (rule sorted_filter_split [OF assms(1)])
  then have "take n xs @ drop n xs = take n xs @ filter (\<lambda>x. ?t < f x) xs"
    unfolding filter_upto_last_take [OF assms] append_take_drop_id .
  then show ?thesis
    unfolding same_append_eq by (rule sym)
qed

lemma candidates_sorted:
  assumes "sorted (map ev_sequence es)" "distinct (map ev_sequence es)"
  shows "sorted (map (\<lambda>(_, e). ev_sequence e) (candidates cursor es))"
    "distinct (map (\<lambda>(_, e). ev_sequence e) (candidates cursor es))"
proof -
  have "map (\<lambda>(_, e). ev_sequence e) (candidates cursor es) =
      map ev_sequence (filter (\<lambda>e. cursor < ev_sequence e) es)"
    unfolding candidates_snd [symmetric] by (simp add: case_prod_beta comp_def)
  then show "sorted (map (\<lambda>(_, e). ev_sequence e) (candidates cursor es))"
    "distinct (map (\<lambda>(_, e). ev_sequence e) (candidates cursor es))"
    using assms by (simp_all add: sorted_filter distinct_map_filter)
qed

lemma sealed_events_sorted:
  assumes "ledger_ok d"
  shows "sorted (map ev_sequence (sealed_events d c))" "distinct (map ev_sequence (sealed_events d c))"
proof -
  show "sorted (map ev_sequence (sealed_events d c))"
    by (simp add: sealed_events_def events_up_to_def)
  have "distinct (map ev_sequence (filter (\<lambda>e. ev_sequence e \<le> cp_last_event_sequence c) (events d)))"
    using ledger_okD(2) [OF assms] by (rule distinct_map_filter)
  then show "distinct (map ev_sequence (sealed_events d c))"
    by (simp add: sealed_events_def events_up_to_def distinct_map distinct_sort)
qed

text \<open>The cursor of a page leads to the rest of the candidates.\<close>

lemma candidates_next:
  assumes "sorted (map ev_sequence es)" "distinct (map ev_sequence es)" "take n (candidates cursor es) \<noteq> []"
  shows "candidates (ev_sequence (snd (last (take n (candidates cursor es))))) es = drop n (candidates cursor es)"
    "cursor < ev_sequence (snd (last (take n (candidates cursor es))))"
proof -
  let ?l = "last (take n (candidates cursor es))"
  have "?l \<in> set (candidates cursor es)"
    using last_in_set [OF assms(3)] by (rule in_set_takeD)
  then show "cursor < ev_sequence (snd ?l)"
    by (auto simp: candidates_def)
  then have "candidates (ev_sequence (snd ?l)) es =
      filter (\<lambda>(_, e). ev_sequence (snd ?l) < ev_sequence e) (candidates cursor es)"
    by (auto simp: candidates_def intro!: filter_cong)
  then show "candidates (ev_sequence (snd ?l)) es = drop n (candidates cursor es)"
    using filter_after_last_drop [OF candidates_sorted [OF assms(1,2)] assms(3)]
    by (simp add: case_prod_unfold)
qed

lemma render_page_ok:
  assumes "ledger_ok d" "seals_ok keyring d" "c \<in> set (checkpoints d)" "linked d c b" "1 \<le> limit"
    and "cands = candidates cursor (sealed_events d c)" "page = take (nat limit) cands"
  shows "\<exists>items. receipts_of rt keyring c (map snd page) items \<and>
    render_page c (map leaf_of (sealed_events d c)) b limit cands = Inr
      [(py ''checkpoint_id'', JStr (uuid_str (cp_checkpoint_id c))), (py ''items'', JArr items),
       (py ''next_after_sequence'', if limit < int (length cands) then JInt (ev_sequence (snd (last page))) else JNull),
       (py ''has_more'', JBool (limit < int (length cands)))]"
proof -
  have "set page \<subseteq> set (candidates cursor (sealed_events d c))"
    unfolding assms(6,7) by (rule set_take_subset)
  then obtain items where "traverse (\<lambda>(index, e). map_result JObj
      (sealed_receipt e (int index) c (map leaf_of (sealed_events d c)) b)) page = Inr items"
      "receipts_of rt keyring c (map snd page) items"
    using page_items [OF assms(1-4)] by blast
  moreover have "\<not> (limit < int (length cands) \<and> page = [])"
    using assms(5,7) by auto
  ultimately show ?thesis
    using assms(5,7) by (intro exI [of _ items]) (simp add: render_page_def Let_def)
qed

lemma receipts_of_append:
  "receipts_of rt keyring c es items \<Longrightarrow> receipts_of rt keyring c fs others_items \<Longrightarrow>
     receipts_of rt keyring c (es @ fs) (items @ others_items)"
  by (simp add: receipts_of_def list_all2_appendI)

lemma read_increment_run:
  assumes "append_only keyring env" "ledger_ok d" "seals_ok keyring d" "c \<in> set (checkpoints d)" "1 \<le> limit"
    and "since keyring d w" "increment_start d c \<le> cursor" "cursor \<le> cp_last_event_sequence c"
    and "after = Some cursor \<or> after = None \<and> cursor = increment_start d c"
    and "int (length (candidates cursor (sealed_events d c))) \<le> limit * int n" "0 < n"
  shows "\<exists>items w'. read_increment keyring (cp_checkpoint_id c) limit n after env w = (Inr items, w') \<and>
    receipts_of rt keyring c (filter (\<lambda>e. cursor < ev_sequence e) (sealed_events d c)) items"
  using assms(6-11)
proof (induction n arbitrary: w cursor after)
  case (Suc n)
  let ?es = "sealed_events d c"
  let ?cands = "candidates cursor ?es"
  let ?page = "take (nat limit) ?cands"
  obtain b where b: "linked d c b"
    using linked_ex [OF assms(3,4)] by blast
  obtain items where items: "receipts_of rt keyring c (map snd ?page) items"
      "page_result d c b after limit = Inr
        [(py ''checkpoint_id'', JStr (uuid_str (cp_checkpoint_id c))), (py ''items'', JArr items),
         (py ''next_after_sequence'', if limit < int (length ?cands) then JInt (ev_sequence (snd (last ?page))) else JNull),
         (py ''has_more'', JBool (limit < int (length ?cands)))]"
    using render_page_ok [OF assms(2-4) b assms(5) refl refl, of rt cursor] Suc.prems(2-4)
    by (auto simp: page_result_def Let_def)
  obtain res v where run: "build_checkpoint_event_page keyring (cp_checkpoint_id c) after limit env w = (res, v)"
    by fastforce
  note page = page_run [OF assms(1-4) b Suc.prems(1) run]
  show ?case
  proof (cases "limit < int (length ?cands)")
    case False
    then have "?page = ?cands"
      using assms(5) by simp
    then show ?thesis
      using page items False by (simp add: bind_op_def run dict_get_def return_op_def candidates_snd)
  next
    case True
    let ?next = "ev_sequence (snd (last ?page))"
    have ne: "?page \<noteq> []"
      using True assms(5) by auto
    note next_page = candidates_next [OF sealed_events_sorted [OF assms(2)] ne]
    have "snd (last ?page) \<in> set ?es"
      using in_set_takeD [OF last_in_set [OF ne]] by (auto simp: candidates_def in_set_enumerate_eq)
    then have bound: "?next \<le> cp_last_event_sequence c"
      by (simp add: sealed_events_def set_events_up_to)
    have v: "since keyring d v"
      using page items by simp
    have size: "int (length (candidates ?next ?es)) \<le> limit * int n" "0 < n"
    proof -
      show "int (length (candidates ?next ?es)) \<le> limit * int n"
        using Suc.prems(5) True assms(5) by (simp add: next_page(1) algebra_simps of_nat_diff)
      show "0 < n"
        using True Suc.prems(5) by (cases n) (simp_all add: algebra_simps)
    qed
    obtain rest w' where rest: "read_increment keyring (cp_checkpoint_id c) limit n (Some ?next) env v = (Inr rest, w')"
        "receipts_of rt keyring c (filter (\<lambda>e. ?next < ev_sequence e) ?es) rest"
      using Suc.IH [OF v _ bound _ size, of "Some ?next"] Suc.prems(2) next_page(2) by auto
    have "map snd ?page @ filter (\<lambda>e. ?next < ev_sequence e) ?es = filter (\<lambda>e. cursor < ev_sequence e) ?es"
      unfolding candidates_snd [symmetric] next_page(1) map_append [symmetric] append_take_drop_id ..
    then have "receipts_of rt keyring c (filter (\<lambda>e. cursor < ev_sequence e) ?es) (items @ rest)"
      using receipts_of_append [OF items(1) rest(2)] by simp
    then show ?thesis
      using page items True rest(1) by (simp add: bind_op_def run dict_get_def return_op_def)
  qed
qed simp

lemma increment_start_follows:
  assumes "seals_ok keyring d" "p \<in> set (checkpoints d)" "follows (Some p) c"
  shows "increment_start d c = cp_last_event_sequence p"
  using assms(3) scalar_checkpoint [OF assms(1,2)]
  by (simp add: increment_start_def follows_def previous_sequence_def)

lemma chained_prefix: "chained p (cs @ ds) \<Longrightarrow> chained p cs"
  by (induction cs arbitrary: p) auto

lemma increments_concat:
  assumes "ledger_ok d" "seals_ok keyring d"
  shows "checkpoints d = cs @ ds \<Longrightarrow> concat (map (increment d) cs) =
    events_up_to (previous_sequence (if cs = [] then None else Some (last cs))) (events d)"
proof (induction cs arbitrary: ds rule: rev_induct)
  case Nil
  then show ?case
    using ledger_okD(3) [OF assms(1)] by (simp add: previous_sequence_def events_up_to_0)
next
  case (snoc c cs)
  let ?q = "if cs = [] then None else Some (last cs)"
  have "chained None ((cs @ [c]) @ ds)"
    using assms(2) snoc.prems by (simp add: seals_ok_def)
  then have q: "follows ?q c"
    using chained_prefix [of None "cs @ [c]" ds] by (simp add: chained_snoc)
  have start: "increment_start d c = previous_sequence ?q"
  proof (cases "cs = []")
    case True
    then show ?thesis
      using q by (simp add: increment_start_def follows_None previous_sequence_def)
  next
    case False
    then have "last cs \<in> set (checkpoints d)"
      using snoc.prems by simp
    then show ?thesis
      using increment_start_follows [OF assms(2)] q False by (simp add: previous_sequence_def)
  qed
  have "previous_sequence ?q \<le> cp_last_event_sequence c"
    using q by (simp add: follows_def)
  note split = events_up_to_split [OF this, of "events d"]
  have before: "concat (map (increment d) cs) = events_up_to (previous_sequence ?q) (events d)"
    by (rule snoc.IH [of "c # ds"]) (simp add: snoc.prems)
  have "concat (map (increment d) (cs @ [c])) = concat (map (increment d) cs) @ increment d c"
    by simp
  also have "\<dots> = events_up_to (cp_last_event_sequence c) (events d)"
    unfolding before increment_def sealed_events_def start by (rule split [symmetric])
  finally show ?case
    by (simp add: previous_sequence_def)
qed

text \<open>
  C13: the pages deliver the increment. A client that follows the cursors of the pages of a sealed
  checkpoint, with any page size, while other transactions append and seal, gets an accepted
  receipt for each event of the increment, in order and once, after at most as many pages as the
  increment fills; and the increments of the checkpoints together are exactly the sealed events.
\<close>

theorem pages_deliver_increment:
  assumes "append_only keyring env" "mine w = []" "ledger_ok (shared w)" "seals_ok keyring (shared w)"
    and "c \<in> set (checkpoints (shared w))" "1 \<le> limit" "0 < n"
    and "int (length (increment (shared w) c)) \<le> limit * int n"
  shows "(\<exists>items w'. read_increment keyring (cp_checkpoint_id c) limit n None env w = (Inr items, w') \<and>
      receipts_of rt keyring c (increment (shared w) c) items) \<and>
    concat (map (increment (shared w)) (checkpoints (shared w))) =
      events_up_to (previous_sequence (last_checkpoint (shared w))) (events (shared w))"
proof
  let ?d = "shared w"
  have "increment_start ?d c \<le> cp_last_event_sequence c"
    by (rule increment_start_le [OF assms(4,5)])
  moreover have "length (candidates (increment_start ?d c) (sealed_events ?d c)) = length (increment ?d c)"
    using arg_cong [OF candidates_snd, of length] by (simp add: increment_def)
  ultimately show "\<exists>items w'. read_increment keyring (cp_checkpoint_id c) limit n None env w = (Inr items, w') \<and>
      receipts_of rt keyring c (increment ?d c) items"
    using read_increment_run [OF assms(1,3-6) start_since [OF assms(2-4)], of "increment_start ?d c" None n]
      assms(7,8) by (simp add: increment_def)
  show "concat (map (increment ?d) (checkpoints ?d)) =
      events_up_to (previous_sequence (last_checkpoint ?d)) (events ?d)"
    using increments_concat [OF assms(3,4), of "checkpoints ?d" "[]"] last_checkpoint_chained [of ?d] assms(4)
    by (simp add: seals_ok_def)
qed

theorem pages_deliver_increment_witness:
  "\<exists>w c items w'. read_increment (sl_keyring sample_sealer) (cp_checkpoint_id c) 1 (Suc (length (increment (shared w) c))) None fixed_env w =
       (Inr items, w') \<and>
     receipts_of plain_python (sl_keyring sample_sealer) c (increment (shared w) c) items \<and>
     concat (map (increment (shared w)) (checkpoints (shared w))) \<noteq> []"
proof -
  obtain w c e where w: "sound_world sample_sealer w" "last_checkpoint (shared w) = Some c"
    "e \<in> set (events (shared w))" "ev_sequence e \<le> cp_last_event_sequence c" "c \<in> set (checkpoints (shared w))"
    by (rule sample_archive)
  then have ok: "mine w = []" "ledger_ok (shared w)" "seals_ok (sl_keyring sample_sealer) (shared w)"
    by (simp_all add: sound_world_def)
  have "e \<in> set (events_up_to (previous_sequence (last_checkpoint (shared w))) (events (shared w)))"
    using w(2-4) by (simp add: set_events_up_to previous_sequence_def)
  then have "events_up_to (previous_sequence (last_checkpoint (shared w))) (events (shared w)) \<noteq> []"
    by auto
  moreover have "1 \<le> (1 :: int)" "0 < Suc (length (increment (shared w) c))"
    "int (length (increment (shared w) c)) \<le> 1 * int (Suc (length (increment (shared w) c)))"
    by simp_all
  ultimately show ?thesis
    using pages_deliver_increment [OF quiet_append_only [OF fixed_env(1)] ok w(5), of 1
        "Suc (length (increment (shared w) c))" plain_python] by metis
qed

end
