(* ===== verification/Audit_Package.thy ===== *)
theory Audit_Package
  imports Event_Service Proofs
begin

section \<open>Audit packages\<close>

text \<open>
  \<open>AuditPackageService\<close> of \<open>src/ledger/audit/service.py\<close> without the build, which is in the theory
  \<open>Audit_Build\<close>: creating a package, claiming it under a lease, cancelling, retrying and reading.
\<close>

subsection \<open>Creating a package\<close>

definition package_fingerprint :: "pystr \<Rightarrow> uuid \<Rightarrow> pystr result" where
  "package_fingerprint instrument_id checkpoint_id =
     digest_json (JObj
       [(py ''instrument_id'', JStr instrument_id),
        (py ''checkpoint_id'', JStr (uuid_str checkpoint_id))])"

definition no_sealed_checkpoint :: exn where
  "no_sealed_checkpoint =
     ledger_error ''NO_SEALED_CHECKPOINT''
       ''no sealed checkpoint exists yet; create the package after sealing'' 409
       [(py ''retryable'', JBool True)]"

definition resolve_boundary :: "uuid option \<Rightarrow> checkpoint_row op" where
  "resolve_boundary checkpoint_id =
     (case checkpoint_id of
        Some i \<Rightarrow>
          bind_op (find_checkpoint i) (\<lambda>found.
            case found of
              None \<Rightarrow> raise_op (NotFoundError ''checkpoint'' (uuid_str i))
            | Some c \<Rightarrow> return_op c)
      | None \<Rightarrow>
          bind_op (select_op last_checkpoint) (\<lambda>found.
            case found of
              None \<Rightarrow> raise_op no_sealed_checkpoint
            | Some c \<Rightarrow> return_op c))"

definition covers :: "checkpoint_row \<Rightarrow> pystr \<Rightarrow> event_row \<Rightarrow> bool" where
  "covers c instrument_id e \<longleftrightarrow>
     ev_instrument_id e = instrument_id \<and> ev_sequence e \<le> cp_last_event_sequence c"

definition boundary_event_count :: "checkpoint_row \<Rightarrow> pystr \<Rightarrow> nat op" where
  "boundary_event_count c instrument_id =
     select_op (\<lambda>d. length (filter (covers c instrument_id) (events d)))"

definition boundary_mismatch :: "checkpoint_row \<Rightarrow> pystr \<Rightarrow> bool \<Rightarrow> exn" where
  "boundary_mismatch c instrument_id explicit =
     (let fields = (\<lambda>retry. [(py ''checkpoint_id'', JStr (uuid_str (cp_checkpoint_id c))),
        (py ''instrument_id'', JStr instrument_id), (py ''retryable'', JBool retry)]) in
      if explicit then
        ledger_error ''CHECKPOINT_DOES_NOT_COVER_INSTRUMENT''
          ''the selected checkpoint boundary contains no event for the instrument'' 409 (fields False)
      else
        ledger_error ''INSTRUMENT_HAS_NO_SEALED_EVENTS''
          ''the latest sealed boundary contains no event for the instrument'' 409 (fields True))"

definition raise_unless_replay :: "package_row \<Rightarrow> pystr \<Rightarrow> uuid option \<Rightarrow> unit result" where
  "raise_unless_replay existing instrument_id checkpoint_id =
     (if pk_instrument_id existing = instrument_id \<and>
         (checkpoint_id = None \<or> checkpoint_id = Some (pk_checkpoint_id existing)) then Inr ()
      else Inl (ledger_error ''IDEMPOTENCY_CONFLICT''
        ''idempotency key was already used with different parameters'' 409
        [(py ''idempotency_key'', JStr (pk_idempotency_key existing)),
         (py ''package_id'', JStr (uuid_str (pk_package_id existing))),
         (py ''instrument_id'', JStr (pk_instrument_id existing)),
         (py ''checkpoint_id'', JStr (uuid_str (pk_checkpoint_id existing)))]))"

definition new_package :: "uuid \<Rightarrow> pystr \<Rightarrow> pystr \<Rightarrow> pystr \<Rightarrow> uuid \<Rightarrow> datetime \<Rightarrow> package_row" where
  "new_package package_id idempotency_key fp instrument_id checkpoint_id now =
     \<lparr>pk_id = 0, pk_package_id = package_id, pk_idempotency_key = idempotency_key,
      pk_request_fingerprint = fp, pk_instrument_id = instrument_id, pk_checkpoint_id = checkpoint_id,
      pk_status = Pending, pk_attempt_count = 0, pk_lease_owner = None, pk_lease_expires_at = None,
      pk_failure_code = None, pk_failure_reason = None, pk_artifact_sha256 = None,
      pk_artifact_size_bytes = None, pk_event_count = None, pk_created_at = now, pk_updated_at = now,
      pk_ready_at = None, pk_failed_at = None, pk_cancel_requested_at = None, pk_cancelled_at = None\<rparr>"

definition find_by_key :: "pystr \<Rightarrow> package_row option op" where
  "find_by_key idempotency_key =
     select_op (\<lambda>d. scalar (\<lambda>p. pk_idempotency_key p = idempotency_key) (packages d))"

definition answer_replay :: "package_row \<Rightarrow> pystr \<Rightarrow> uuid option \<Rightarrow> (package_row \<times> bool) op" where
  "answer_replay existing instrument_id checkpoint_id =
     lift_op (map_result (\<lambda>_. (existing, False)) (raise_unless_replay existing instrument_id checkpoint_id))"

definition create_package_tx :: "pystr \<Rightarrow> pystr \<Rightarrow> uuid option \<Rightarrow> (package_row \<times> bool) op" where
  "create_package_tx instrument_id idempotency_key checkpoint_id =
     bind_op (find_by_key idempotency_key) (\<lambda>found.
       case found of
         Some existing \<Rightarrow> answer_replay existing instrument_id checkpoint_id
       | None \<Rightarrow>
           bind_op (resolve_boundary checkpoint_id) (\<lambda>c.
           bind_op (boundary_event_count c instrument_id) (\<lambda>count.
           if count = 0 then raise_op (boundary_mismatch c instrument_id (checkpoint_id \<noteq> None))
           else
             bind_op clock_op (\<lambda>now.
             bind_op uuid_op (\<lambda>package_id.
             bind_op (lift_op (package_fingerprint instrument_id (cp_checkpoint_id c))) (\<lambda>fp.
             bind_op (insert_package
               (new_package package_id idempotency_key fp instrument_id (cp_checkpoint_id c) now)) (\<lambda>row.
               return_op (row, True))))))))"

definition create_package :: "pystr \<Rightarrow> pystr \<Rightarrow> uuid option \<Rightarrow> (package_row \<times> bool) op" where
  "create_package instrument_id idempotency_key checkpoint_id =
     on_integrity_error
       (transaction (create_package_tx instrument_id idempotency_key checkpoint_id))
       (bind_op (find_by_key idempotency_key) (\<lambda>found.
          case found of
            Some existing \<Rightarrow> answer_replay existing instrument_id checkpoint_id
          | None \<Rightarrow> raise_op IntegrityError))"

subsection \<open>Claiming\<close>

text \<open>Comparison of timestamps, where \<open>NULL\<close> compares false, and \<open>datetime + timedelta\<close> in microseconds.\<close>

definition expired :: "datetime option \<Rightarrow> datetime \<Rightarrow> bool" where
  "expired lease moment \<longleftrightarrow> (case lease of None \<Rightarrow> False | Some t \<Rightarrow> instant t < instant moment)"

definition add_duration :: "datetime \<Rightarrow> int \<Rightarrow> datetime result" where
  "add_duration t duration =
     (if 0 \<le> wall t + duration \<and> wall t + duration < max_wall
      then Inr (t\<lparr>wall := wall t + duration\<rparr>) else Inl OverflowError)"

definition eligible :: "datetime \<Rightarrow> package_row \<Rightarrow> bool" where
  "eligible moment p \<longleftrightarrow>
     pk_status p = Pending \<or> pk_status p = Building \<and> expired (pk_lease_expires_at p) moment"

definition apply_claim :: "pystr \<Rightarrow> datetime \<Rightarrow> datetime \<Rightarrow> int \<Rightarrow> package_row \<Rightarrow> package_row" where
  "apply_claim worker_id lease moment attempts p =
     p\<lparr>pk_status := Building, pk_lease_owner := Some worker_id, pk_lease_expires_at := Some lease,
       pk_attempt_count := attempts, pk_updated_at := moment\<rparr>"

definition dialect_op :: "bool op" where
  "dialect_op = (\<lambda>env w. (Inr (postgresql env), w))"

definition moment_op :: "datetime option \<Rightarrow> datetime op" where
  "moment_op now = (case now of Some t \<Rightarrow> return_op t | None \<Rightarrow> clock_op)"

definition claim_locked :: "pystr \<Rightarrow> int \<Rightarrow> datetime \<Rightarrow> package_row option op" where
  "claim_locked worker_id duration moment =
     bind_op (lock_unlocked (\<lambda>p. PackageLock (pk_id p)) (\<lambda>free d.
       take 1 (sort_key pk_id (filter (\<lambda>p. eligible moment p \<and> free p) (packages d))))) (\<lambda>rows.
       case rows of
         [] \<Rightarrow> return_op None
       | candidate # _ \<Rightarrow>
           bind_op (lift_op (add_duration moment duration)) (\<lambda>lease.
           bind_op (update_package candidate
             (apply_claim worker_id lease moment (pk_attempt_count candidate + 1))) (\<lambda>p.
             return_op (Some p))))"

definition claim_conditional :: "pystr \<Rightarrow> int \<Rightarrow> datetime \<Rightarrow> package_row option op" where
  "claim_conditional worker_id duration moment =
     bind_op (select_op (\<lambda>d.
       map_option pk_id (scalar (\<lambda>_. True) (sort_key pk_id (filter (eligible moment) (packages d)))))) (\<lambda>found.
       case found of
         None \<Rightarrow> return_op None
       | Some candidate_id \<Rightarrow>
           bind_op (lift_op (add_duration moment duration)) (\<lambda>lease.
           bind_op (update_packages_where (\<lambda>p. pk_id p = candidate_id \<and> eligible moment p)
             (\<lambda>p. apply_claim worker_id lease moment (pk_attempt_count p + 1) p)) (\<lambda>count.
           if count = 0 then return_op None
           else select_op (\<lambda>d. scalar (\<lambda>p. pk_id p = candidate_id) (packages d)))))"

definition claim_package :: "pystr \<Rightarrow> int \<Rightarrow> datetime option \<Rightarrow> package_row option op" where
  "claim_package worker_id duration now =
     bind_op (moment_op now) (\<lambda>moment.
     transaction (bind_op dialect_op (\<lambda>locking.
       if locking then claim_locked worker_id duration moment
       else claim_conditional worker_id duration moment)))"

subsection \<open>Cancelling and retrying\<close>

definition apply_cancelled :: "datetime \<Rightarrow> package_row \<Rightarrow> package_row" where
  "apply_cancelled now p =
     p\<lparr>pk_status := Cancelled, pk_lease_owner := None, pk_lease_expires_at := None,
       pk_cancelled_at := Some now, pk_updated_at := now\<rparr>"

definition stale :: "datetime \<Rightarrow> package_row \<Rightarrow> bool" where
  "stale moment p \<longleftrightarrow> pk_status p = Cancelling \<and> expired (pk_lease_expires_at p) moment"

text \<open>The rows in turn; the list of results is in the same order.\<close>

fun settle_locked :: "datetime \<Rightarrow> package_row list \<Rightarrow> package_row list op" where
  "settle_locked moment [] = return_op []"
| "settle_locked moment (p # ps) =
     bind_op (update_package p (apply_cancelled moment)) (\<lambda>q.
     bind_op (settle_locked moment ps) (\<lambda>qs. return_op (q # qs)))"

fun settle_ids :: "datetime \<Rightarrow> int list \<Rightarrow> package_row option list op" where
  "settle_ids moment [] = return_op []"
| "settle_ids moment (i # is) =
     bind_op (update_packages_where (\<lambda>p. pk_id p = i) (apply_cancelled moment)) (\<lambda>_.
     bind_op (select_op (\<lambda>d. scalar (\<lambda>p. pk_id p = i) (packages d))) (\<lambda>q.
     bind_op (settle_ids moment is) (\<lambda>qs. return_op (q # qs))))"

definition settle_stale_cancelling :: "datetime option \<Rightarrow> package_row option list op" where
  "settle_stale_cancelling now =
     bind_op (moment_op now) (\<lambda>moment.
     transaction (bind_op dialect_op (\<lambda>locking.
       if locking then
         bind_op (lock_unlocked (\<lambda>p. PackageLock (pk_id p)) (\<lambda>free d.
           sort_key pk_id (filter (\<lambda>p. stale moment p \<and> free p) (packages d)))) (\<lambda>candidates.
         bind_op (settle_locked moment candidates) (\<lambda>settled. return_op (map Some settled)))
       else
         bind_op (select_op (\<lambda>d. map pk_id (sort_key pk_id (filter (stale moment) (packages d)))))
           (settle_ids moment))))"

definition package_error :: "string \<Rightarrow> pystr \<Rightarrow> pydict \<Rightarrow> exn" where
  "package_error c text d =
     LedgerError \<lparr>code = py c, message = text, status_code = 409, details = d\<rparr>"

definition status_details :: "uuid \<Rightarrow> package_status \<Rightarrow> pydict" where
  "status_details package_id status =
     [(py ''package_id'', JStr (uuid_str package_id)), (py ''status'', JStr (package_status_text status))]"

definition lock_package :: "uuid \<Rightarrow> package_row option op" where
  "lock_package package_id =
     lock_row (\<lambda>p. PackageLock (pk_id p)) (\<lambda>d. scalar (\<lambda>p. pk_package_id p = package_id) (packages d))"

definition apply_retry :: "datetime \<Rightarrow> package_row \<Rightarrow> package_row" where
  "apply_retry now p =
     p\<lparr>pk_status := Pending, pk_failure_code := None, pk_failure_reason := None, pk_failed_at := None,
       pk_lease_owner := None, pk_lease_expires_at := None, pk_cancel_requested_at := None,
       pk_cancelled_at := None, pk_updated_at := now\<rparr>"

definition not_retryable :: "uuid \<Rightarrow> package_status \<Rightarrow> exn" where
  "not_retryable package_id status =
     (case status of
        Pending \<Rightarrow> package_error ''AUDIT_PACKAGE_NOT_FAILED''
          (py ''the package is already queued for export'') (status_details package_id Pending)
      | Building \<Rightarrow> package_error ''AUDIT_PACKAGE_BUILDING''
          (py ''the package is currently being built; retry after it settles'') (status_details package_id Building)
      | Ready \<Rightarrow> package_error ''AUDIT_PACKAGE_ALREADY_READY''
          (py ''a ready package cannot be retried'') (status_details package_id Ready)
      | _ \<Rightarrow> package_error ''AUDIT_PACKAGE_NOT_RETRYABLE''
          (py ''a '' @ package_status_text status @ py '' package cannot be retried; create a new package'')
          (status_details package_id status @ [(py ''retryable'', JBool False)]))"

definition request_retry :: "uuid \<Rightarrow> package_row op" where
  "request_retry package_id =
     transaction (bind_op (lock_package package_id) (\<lambda>found.
       case found of
         None \<Rightarrow> raise_op (NotFoundError ''audit_package'' (uuid_str package_id))
       | Some p \<Rightarrow>
           if pk_status p = Failed then
             bind_op clock_op (\<lambda>now. update_package p (apply_retry now))
           else raise_op (not_retryable package_id (pk_status p))))"

definition apply_cancel_pending :: "datetime \<Rightarrow> package_row \<Rightarrow> package_row" where
  "apply_cancel_pending now p =
     p\<lparr>pk_status := Cancelled, pk_cancel_requested_at := Some now, pk_cancelled_at := Some now,
       pk_updated_at := now\<rparr>"

definition apply_cancel_building :: "datetime \<Rightarrow> package_row \<Rightarrow> package_row" where
  "apply_cancel_building now p =
     p\<lparr>pk_status := Cancelling, pk_cancel_requested_at := Some now, pk_updated_at := now\<rparr>"

definition not_cancellable :: "uuid \<Rightarrow> package_status \<Rightarrow> exn" where
  "not_cancellable package_id status =
     (if status = Ready then
        package_error ''AUDIT_PACKAGE_ALREADY_READY''
          (py ''the package finished and is ready for download; it cannot be cancelled'')
          (status_details package_id Ready)
      else
        package_error ''AUDIT_PACKAGE_NOT_CANCELLABLE''
          (py ''a '' @ package_status_text status @ py '' package cannot be cancelled'')
          (status_details package_id status))"

definition cancel_package :: "uuid \<Rightarrow> (package_row \<times> bool) op" where
  "cancel_package package_id =
     transaction (bind_op (lock_package package_id) (\<lambda>found.
       case found of
         None \<Rightarrow> raise_op (NotFoundError ''audit_package'' (uuid_str package_id))
       | Some p \<Rightarrow>
           bind_op clock_op (\<lambda>now.
           if pk_status p = Pending then
             bind_op (update_package p (apply_cancel_pending now)) (\<lambda>q. return_op (q, True))
           else if pk_status p = Building then
             bind_op (update_package p (apply_cancel_building now)) (\<lambda>q. return_op (q, True))
           else if pk_status p = Cancelling \<or> pk_status p = Cancelled then return_op (p, False)
           else raise_op (not_cancellable package_id (pk_status p)))))"

subsection \<open>Reading\<close>

definition get_package :: "uuid \<Rightarrow> package_row op" where
  "get_package package_id =
     bind_op (select_op (\<lambda>d. scalar (\<lambda>p. pk_package_id p = package_id) (packages d))) (\<lambda>found.
       case found of
         None \<Rightarrow> raise_op (NotFoundError ''audit_package'' (uuid_str package_id))
       | Some p \<Rightarrow> return_op p)"

definition not_ready :: "uuid \<Rightarrow> package_status \<Rightarrow> exn" where
  "not_ready package_id status =
     package_error ''AUDIT_PACKAGE_NOT_READY''
       (py ''the package is '' @ package_status_text status @ py ''; the download is available when ready'')
       (status_details package_id status @ [(py ''retryable'', JBool (status = Failed))])"

definition get_ready_artifact :: "uuid \<Rightarrow> (package_row \<times> artifact_row) op" where
  "get_ready_artifact package_id =
     bind_op (get_package package_id) (\<lambda>p.
       if pk_status p \<noteq> Ready then raise_op (not_ready package_id (pk_status p))
       else
         bind_op (select_op (\<lambda>d. scalar (\<lambda>a. ar_package_id a = pk_package_id p) (artifacts d))) (\<lambda>found.
           case found of
             None \<Rightarrow> raise_op (ledger_error ''AUDIT_ARTIFACT_MISSING''
               ''the package is marked ready but its archive is absent'' 500
               [(py ''package_id'', JStr (uuid_str package_id))])
           | Some a \<Rightarrow> return_op (p, a)))"

end
