(* ===== verification/Audit_Build.thy ===== *)
theory Audit_Build
  imports Audit_Package
begin

section \<open>Building audit packages\<close>

text \<open>
  The archive of \<open>src/ledger/audit/archive.py\<close>, the build of \<open>src/ledger/audit/service.py\<close> and the
  polling loop of \<open>src/ledger/exporter.py\<close>. \<open>zipfile.ZipFile\<close> is a parameter, \<open>zip_file\<close>: the bytes
  of an archive as a function of its entries with their metadata; so is the wording of library
  exceptions, \<open>exception_text\<close>.
\<close>

subsection \<open>The archive\<close>

record receipt_entry =
  re_sequence :: int
  re_receipt :: pydict

record package_bundle =
  pb_package_id :: pystr
  pb_idempotency_key :: pystr
  pb_instrument_id :: pystr
  pb_checkpoint :: pydict
  pb_entries :: "receipt_entry list"

record zip_entry =
  ze_name :: pystr
  ze_date_time :: "nat list"
  ze_create_system :: nat
  ze_external_attr :: nat
  ze_deflated :: bool
  ze_extra :: bytes
  ze_comment :: bytes
  ze_data :: bytes

record built_archive =
  ba_content :: bytes
  ba_sha256 :: pystr
  ba_size_bytes :: int
  ba_manifest :: pydict
  ba_event_count :: int

type_synonym zip_writer = "zip_entry list \<Rightarrow> bytes"

text \<open>\<open>f"{sequence:020d}"\<close>.\<close>

definition zero_padded :: "nat \<Rightarrow> int \<Rightarrow> pystr" where
  "zero_padded width i =
     (if i < 0 then 45 # replicate (width - 1 - length (nat_text (nat (- i)))) 48 @ nat_text (nat (- i))
      else replicate (width - length (nat_text (nat i))) 48 @ nat_text (nat i))"

definition entry_name :: "receipt_entry \<Rightarrow> pystr" where
  "entry_name entry = py ''receipts/event-'' @ zero_padded 20 (re_sequence entry) @ py ''.json''"

definition receipt_bytes :: "receipt_entry \<Rightarrow> bytes result" where
  "receipt_bytes entry = canonical_json (JObj (re_receipt entry))"

definition build_manifest :: "package_bundle \<Rightarrow> (pystr \<times> pystr) list \<Rightarrow> pydict result" where
  "build_manifest b entry_digests =
     (let checkpoint = JObj (pb_checkpoint b) in
      bind_result (subscript checkpoint ''leaf_count'') (\<lambda>leaf_count.
      bind_result (subscript checkpoint ''last_event_sequence'') (\<lambda>last_event_sequence.
      map_result (\<lambda>root_hash.
        [(py ''schema_version'', JInt 1),
         (py ''package_id'', JStr (pb_package_id b)),
         (py ''idempotency_key'', JStr (pb_idempotency_key b)),
         (py ''instrument_id'', JStr (pb_instrument_id b)),
         (py ''boundary'', JObj
            [(py ''checkpoint'', checkpoint), (py ''leaf_count'', leaf_count),
             (py ''last_event_sequence'', last_event_sequence), (py ''root_hash'', root_hash)]),
         (py ''event_count'', JInt (int (length (pb_entries b)))),
         (py ''files'', JArr (map (\<lambda>(path, digest). JObj
            [(py ''path'', JStr path), (py ''sha256'', JStr digest)]) entry_digests))])
        (subscript checkpoint ''root_hash''))))"

definition zip_date_time :: "nat list" where
  "zip_date_time = [1980, 1, 1, 0, 0, 0]"

definition zip_directory :: zip_entry where
  "zip_directory = \<lparr>ze_name = py ''receipts/'', ze_date_time = zip_date_time, ze_create_system = 3,
     ze_external_attr = 16877 * 65536 + 16, ze_deflated = False, ze_extra = [], ze_comment = [], ze_data = []\<rparr>"

definition zip_member :: "pystr \<times> bytes \<Rightarrow> zip_entry" where
  "zip_member file = \<lparr>ze_name = fst file, ze_date_time = zip_date_time, ze_create_system = 3,
     ze_external_attr = 33188 * 65536, ze_deflated = True, ze_extra = [], ze_comment = [],
     ze_data = snd file\<rparr>"

definition manifest_name :: pystr where
  "manifest_name = py ''manifest.json''"

definition build_archive :: "zip_writer \<Rightarrow> package_bundle \<Rightarrow> built_archive result" where
  "build_archive zip_file b =
     bind_result (traverse (\<lambda>entry. map_result (\<lambda>bs. (entry_name entry, bs)) (receipt_bytes entry)) (pb_entries b))
       (\<lambda>serialized.
     bind_result (build_manifest b (map (\<lambda>(name, bs). (name, sha256_hex bs)) serialized)) (\<lambda>manifest.
     map_result (\<lambda>manifest_bytes.
       let content = zip_file (zip_directory # map zip_member (serialized @ [(manifest_name, manifest_bytes)])) in
       \<lparr>ba_content = content, ba_sha256 = hex (sha256 content), ba_size_bytes = int (length content),
        ba_manifest = manifest, ba_event_count = int (length (pb_entries b))\<rparr>)
       (canonical_json (JObj manifest))))"

subsection \<open>Loading the bundle\<close>

definition boundary_missing :: "package_row \<Rightarrow> exn" where
  "boundary_missing p =
     ledger_error ''CHECKPOINT_CHAIN_BROKEN'' ''fixed boundary checkpoint is missing'' 500
       [(py ''checkpoint_id'', JStr (uuid_str (pk_checkpoint_id p)))]"

definition boundary_empty :: "package_row \<Rightarrow> exn" where
  "boundary_empty p =
     ledger_error ''AUDIT_BOUNDARY_EMPTY'' ''the fixed boundary contains no event for the instrument'' 500
       [(py ''package_id'', JStr (uuid_str (pk_package_id p))),
        (py ''instrument_id'', JStr (pk_instrument_id p))]"

fun collect_receipts ::
    "keyring \<Rightarrow> checkpoint_row \<Rightarrow> unit op \<Rightarrow> event_row list \<Rightarrow> receipt_entry list op" where
  "collect_receipts keyring c cancel_check [] = return_op []"
| "collect_receipts keyring c cancel_check (e # es) =
     bind_op (build_receipt_at_checkpoint keyring e c) (\<lambda>receipt.
     bind_op cancel_check (\<lambda>_.
     bind_op (collect_receipts keyring c cancel_check es) (\<lambda>entries.
       return_op (\<lparr>re_sequence = ev_sequence e, re_receipt = receipt\<rparr> # entries))))"

definition load_bundle :: "package_row \<Rightarrow> keyring \<Rightarrow> unit op \<Rightarrow> package_bundle op" where
  "load_bundle p keyring cancel_check =
     bind_op (find_checkpoint (pk_checkpoint_id p)) (\<lambda>found.
       case found of
         None \<Rightarrow> raise_op (boundary_missing p)
       | Some c \<Rightarrow>
           bind_op cancel_check (\<lambda>_.
           bind_op (select_op (\<lambda>d. sort_key ev_sequence (filter (covers c (pk_instrument_id p)) (events d)))) (\<lambda>es.
           if es = [] then raise_op (boundary_empty p)
           else
             bind_op cancel_check (\<lambda>_.
             bind_op (collect_receipts keyring c cancel_check es) (\<lambda>entries.
             lift_op (map_result (\<lambda>checkpoint.
               \<lparr>pb_package_id = uuid_str (pk_package_id p), pb_idempotency_key = pk_idempotency_key p,
                pb_instrument_id = pk_instrument_id p, pb_checkpoint = checkpoint, pb_entries = entries\<rparr>)
               (checkpoint_view c)))))))"

definition check_build_cancelled :: "package_row \<Rightarrow> unit op" where
  "check_build_cancelled claimed =
     bind_op (select_op (\<lambda>d. map_option pk_status (scalar (\<lambda>p. pk_id p = pk_id claimed) (packages d)))) (\<lambda>status.
       if status = Some Cancelling then raise_op BuildCancelRequested else return_op ())"

subsection \<open>The build\<close>

text \<open>The string \<open>build_once\<close> returns: a status, or \<open>"superseded"\<close>.\<close>

datatype build_outcome = Settled package_status | Superseded

definition MAX_FAILURE_REASON :: nat where
  "MAX_FAILURE_REASON = 2000"

definition lock_claimed :: "package_row \<Rightarrow> package_row option op" where
  "lock_claimed claimed =
     lock_row (\<lambda>p. PackageLock (pk_id p)) (\<lambda>d. scalar (\<lambda>p. pk_id p = pk_id claimed) (packages d))"

definition confirm_cancelled :: "package_row \<Rightarrow> build_outcome op" where
  "confirm_cancelled p =
     bind_op clock_op (\<lambda>now. bind_op (update_package p (apply_cancelled now)) (\<lambda>_.
       return_op (Settled Cancelled)))"

definition finish_cancelled :: "package_row \<Rightarrow> build_outcome op" where
  "finish_cancelled claimed =
     transaction (bind_op (lock_claimed claimed) (\<lambda>found.
       case found of
         None \<Rightarrow> return_op (Settled Failed)
       | Some p \<Rightarrow>
           if pk_status p = Cancelling \<and> pk_lease_owner p = pk_lease_owner claimed then confirm_cancelled p
           else if pk_status p = Cancelled then return_op Superseded
           else return_op (Settled (pk_status p))))"

definition apply_failed :: "pystr \<Rightarrow> pystr \<Rightarrow> datetime \<Rightarrow> package_row \<Rightarrow> package_row" where
  "apply_failed failure reason now p =
     p\<lparr>pk_status := Failed, pk_failure_code := Some failure,
       pk_failure_reason := Some (take MAX_FAILURE_REASON reason), pk_lease_owner := None,
       pk_lease_expires_at := None, pk_failed_at := Some now, pk_updated_at := now\<rparr>"

definition fail_or_cancel :: "package_row \<Rightarrow> pystr \<Rightarrow> pystr \<Rightarrow> build_outcome op" where
  "fail_or_cancel claimed failure reason =
     transaction (bind_op (lock_claimed claimed) (\<lambda>found.
       case found of
         None \<Rightarrow> return_op (Settled Failed)
       | Some p \<Rightarrow>
           if pk_status p = Cancelling then confirm_cancelled p
           else if pk_status p \<noteq> Building \<or> pk_lease_owner p \<noteq> pk_lease_owner claimed then
             return_op (Settled (pk_status p))
           else
             bind_op clock_op (\<lambda>now.
             bind_op (update_package p (apply_failed failure reason now)) (\<lambda>_.
               return_op (Settled Failed)))))"

definition apply_ready :: "built_archive \<Rightarrow> datetime \<Rightarrow> package_row \<Rightarrow> package_row" where
  "apply_ready archive now p =
     p\<lparr>pk_status := Ready, pk_artifact_sha256 := Some (ba_sha256 archive),
       pk_artifact_size_bytes := Some (ba_size_bytes archive), pk_event_count := Some (ba_event_count archive),
       pk_lease_owner := None, pk_lease_expires_at := None, pk_ready_at := Some now, pk_updated_at := now\<rparr>"

definition new_artifact :: "package_row \<Rightarrow> built_archive \<Rightarrow> datetime \<Rightarrow> artifact_row" where
  "new_artifact p archive now =
     \<lparr>ar_package_id = pk_package_id p, ar_zip_content = ba_content archive, ar_sha256 = ba_sha256 archive,
      ar_size_bytes = ba_size_bytes archive, ar_created_at = now\<rparr>"

definition store_archive :: "package_row \<Rightarrow> built_archive \<Rightarrow> build_outcome op" where
  "store_archive claimed archive =
     transaction (bind_op (lock_claimed claimed) (\<lambda>found.
       case found of
         None \<Rightarrow> return_op (Settled Failed)
       | Some p \<Rightarrow>
           if pk_status p = Cancelling then confirm_cancelled p
           else if pk_status p = Cancelled then return_op Superseded
           else if pk_status p \<noteq> Building \<or> pk_lease_owner p \<noteq> pk_lease_owner claimed then
             return_op (Settled (pk_status p))
           else
             bind_op clock_op (\<lambda>now.
             bind_op (insert_artifact (new_artifact p archive now)) (\<lambda>_.
             bind_op (update_package p (apply_ready archive now)) (\<lambda>_.
               return_op (Settled Ready))))))"

definition render_package :: "zip_writer \<Rightarrow> package_row \<Rightarrow> keyring \<Rightarrow> built_archive op" where
  "render_package zip_file claimed keyring =
     bind_op (load_bundle claimed keyring (check_build_cancelled claimed)) (\<lambda>b.
     bind_op (check_build_cancelled claimed) (\<lambda>_.
       lift_op (build_archive zip_file b)))"

definition build_once ::
    "zip_writer \<Rightarrow> (exn \<Rightarrow> pystr) \<Rightarrow> package_row \<Rightarrow> keyring \<Rightarrow> build_outcome op" where
  "build_once zip_file exception_text claimed keyring = (\<lambda>env w.
     case render_package zip_file claimed keyring env w of
       (Inr archive, w') \<Rightarrow> store_archive claimed archive env w'
     | (Inl x, w') \<Rightarrow>
         if is_database_error x then (Inl x, w')
         else
           (case x of
              BuildCancelRequested \<Rightarrow> finish_cancelled claimed
            | LedgerError le \<Rightarrow> fail_or_cancel claimed (code le) (message le)
            | _ \<Rightarrow> fail_or_cancel claimed (py ''AUDIT_EXPORT_FAILED'')
                (take MAX_FAILURE_REASON (exception_text x))) env w')"

subsection \<open>The exporter\<close>

text \<open>
  One round of \<open>run\<close>: settle, claim, build. Database errors are logged and the loop goes on; any
  other exception ends it.
\<close>

definition export_round ::
    "zip_writer \<Rightarrow> (exn \<Rightarrow> pystr) \<Rightarrow> keyring \<Rightarrow> pystr \<Rightarrow> int \<Rightarrow> build_outcome option op" where
  "export_round zip_file exception_text keyring worker_id lease =
     bind_op (settle_stale_cancelling None) (\<lambda>_.
     bind_op (claim_package worker_id lease None) (\<lambda>claimed.
       case claimed of
         None \<Rightarrow> return_op None
       | Some p \<Rightarrow> bind_op (build_once zip_file exception_text p keyring) (\<lambda>r. return_op (Some r))))"

definition export_poll ::
    "zip_writer \<Rightarrow> (exn \<Rightarrow> pystr) \<Rightarrow> keyring \<Rightarrow> pystr \<Rightarrow> int \<Rightarrow> build_outcome option op" where
  "export_poll zip_file exception_text keyring worker_id lease = (\<lambda>env w.
     case export_round zip_file exception_text keyring worker_id lease env w of
       (Inl x, w') \<Rightarrow> if is_database_error x then (Inr None, w') else (Inl x, w')
     | (Inr r, w') \<Rightarrow> (Inr r, w'))"

fun export_run ::
    "zip_writer \<Rightarrow> (exn \<Rightarrow> pystr) \<Rightarrow> keyring \<Rightarrow> pystr \<Rightarrow> int \<Rightarrow> nat \<Rightarrow> unit op" where
  "export_run zip_file exception_text keyring worker_id lease 0 = return_op ()"
| "export_run zip_file exception_text keyring worker_id lease (Suc n) =
     bind_op (export_poll zip_file exception_text keyring worker_id lease) (\<lambda>_.
       export_run zip_file exception_text keyring worker_id lease n)"

end
