(* ===== verification/Package_Lifecycle.thy ===== *)
theory Package_Lifecycle
  imports Audit_Build
begin

section \<open>The life of an audit package\<close>

text \<open>
  The status machine behind \<open>src/ledger/audit/service.py\<close> as a step relation on rows: one rule per
  assignment block, with the guard under which the code reaches it. The runs of this relation have
  the row invariant, keep the fixed request, never leave a terminal status and change the holder of
  a lease only after it expired.
\<close>

inductive package_step :: "package_row \<Rightarrow> package_row \<Rightarrow> bool" where
  claim: "eligible moment p \<Longrightarrow>
    package_step p (apply_claim worker_id lease moment (pk_attempt_count p + 1) p)"
| ready: "pk_status p = Building \<Longrightarrow> package_step p (apply_ready archive now p)"
| failed: "pk_status p = Building \<Longrightarrow> package_step p (apply_failed failure reason now p)"
| confirm: "pk_status p = Cancelling \<Longrightarrow> package_step p (apply_cancelled now p)"
| cancel_pending: "pk_status p = Pending \<Longrightarrow> package_step p (apply_cancel_pending now p)"
| cancel_building: "pk_status p = Building \<Longrightarrow> package_step p (apply_cancel_building now p)"
| retry: "pk_status p = Failed \<Longrightarrow> package_step p (apply_retry now p)"

inductive package_run :: "package_row \<Rightarrow> package_row \<Rightarrow> bool" where
  stay: "package_run p p"
| follow: "package_run p q \<Longrightarrow> package_step q r \<Longrightarrow> package_run p r"

lemmas apply_defs = apply_claim_def apply_ready_def apply_failed_def apply_cancelled_def
  apply_cancel_pending_def apply_cancel_building_def apply_retry_def

inductive_cases package_stepE: "package_step p q"

subsection \<open>The row invariant\<close>

text \<open>
  Stronger than the schema's \<open>CHECK\<close>: results are only recorded by ready packages and cancellation
  times only by cancelling and cancelled ones.
\<close>

definition package_ok :: "package_row \<Rightarrow> bool" where
  "package_ok p \<longleftrightarrow> package_check p \<and>
     (pk_status p \<noteq> Ready \<longrightarrow> pk_ready_at p = None \<and> pk_artifact_sha256 p = None \<and>
        pk_artifact_size_bytes p = None \<and> pk_event_count p = None) \<and>
     (pk_status p \<in> {Pending, Building, Ready, Failed} \<longrightarrow> pk_cancel_requested_at p = None \<and> pk_cancelled_at p = None) \<and>
     (pk_status p \<in> {Ready, Failed} \<longrightarrow> pk_lease_owner p = None \<and> pk_lease_expires_at p = None)"

lemma package_ok_check: "package_ok p \<Longrightarrow> package_check p"
  by (simp add: package_ok_def)

lemma package_ok_new: "package_ok (new_package i key fp ins c now)"
  by (simp add: package_ok_def package_check_def package_state_shape_def new_package_def)

lemma package_ok_id [simp]: "package_ok (p\<lparr>pk_id := n\<rparr>) = package_ok p"
  by (simp add: package_ok_def package_check_def package_state_shape_def)

lemma package_step_ok: "package_step p q \<Longrightarrow> package_ok p \<Longrightarrow> package_ok q"
  by (induction rule: package_step.induct)
     (auto simp: package_ok_def package_check_def package_state_shape_def apply_defs eligible_def)

subsection \<open>What a run keeps\<close>

text \<open>The request is fixed at creation.\<close>

definition same_request :: "package_row \<Rightarrow> package_row \<Rightarrow> bool" where
  "same_request p q \<longleftrightarrow> pk_id q = pk_id p \<and> pk_package_id q = pk_package_id p \<and>
     pk_idempotency_key q = pk_idempotency_key p \<and> pk_request_fingerprint q = pk_request_fingerprint p \<and>
     pk_instrument_id q = pk_instrument_id p \<and> pk_checkpoint_id q = pk_checkpoint_id p \<and>
     pk_created_at q = pk_created_at p"

text \<open>A lease goes to another attempt only when it has expired.\<close>

definition lease_kept :: "package_row \<Rightarrow> package_row \<Rightarrow> bool" where
  "lease_kept p q \<longleftrightarrow> (pk_status p = Building \<and> pk_status q = Building \<longrightarrow>
     expired (pk_lease_expires_at p) (pk_updated_at q))"

lemma package_step_facts:
  assumes "package_step p q"
  shows "same_request p q" "pk_status p \<noteq> Ready \<and> pk_status p \<noteq> Cancelled" "lease_kept p q"
    "pk_attempt_count q = pk_attempt_count p + (if pk_status q = Building then 1 else 0)"
    "pk_id q = pk_id p"
  using assms
  by (induction rule: package_step.induct)
     (auto simp: same_request_def lease_kept_def apply_defs eligible_def)

lemma package_run_trans: "package_run q r \<Longrightarrow> package_run p q \<Longrightarrow> package_run p r"
  by (induction rule: package_run.induct) (auto intro: follow)

lemma package_run_ok: "package_run p q \<Longrightarrow> package_ok p \<Longrightarrow> package_ok q"
  by (induction rule: package_run.induct) (auto dest: package_step_ok)

lemma package_run_request: "package_run p q \<Longrightarrow> same_request p q"
  by (induction rule: package_run.induct) (auto simp: same_request_def dest!: package_step_facts(1))

lemma package_run_attempts: "package_run p q \<Longrightarrow> pk_attempt_count p \<le> pk_attempt_count q"
  by (induction rule: package_run.induct) (auto dest!: package_step_facts(4))

lemma package_run_terminal:
  "package_run p q \<Longrightarrow> pk_status p \<in> {Ready, Cancelled} \<Longrightarrow> q = p"
  by (induction rule: package_run.induct) (auto dest: package_step_facts(2))

text \<open>
  How close a package is to a terminal status, between two failures: every step but a retry and a
  reclaim of an expired lease comes closer.
\<close>

fun status_rank :: "package_status \<Rightarrow> nat" where
  "status_rank Pending = 3"
| "status_rank Building = 2"
| "status_rank Cancelling = 1"
| "status_rank Failed = 1"
| "status_rank Ready = 0"
| "status_rank Cancelled = 0"

text \<open>
  C17: the life of a package. Along any run of the status machine from a well-formed row, every row
  satisfies the schema's constraints, so no update is ever rejected by them; the request, including
  its sealed boundary, stays fixed; attempts are counted by claims; a ready or cancelled package
  never changes again; a step either comes closer to a terminal status, or retries a failure, or
  takes over a lease, which has expired by then.
\<close>

theorem package_lifecycle:
  assumes "package_run p q" "package_ok p" "package_step q r"
  shows "package_ok q \<and> package_ok r \<and> package_check r \<and> same_request p r \<and>
    pk_attempt_count r = pk_attempt_count q + (if pk_status r = Building then 1 else 0) \<and>
    pk_attempt_count p \<le> pk_attempt_count q \<and>
    pk_status q \<notin> {Ready, Cancelled} \<and> (pk_status p \<in> {Ready, Cancelled} \<longrightarrow> q = p) \<and>
    (status_rank (pk_status r) < status_rank (pk_status q) \<or>
     pk_status q = Failed \<and> pk_status r = Pending \<or>
     pk_status q = Building \<and> pk_status r = Building \<and> expired (pk_lease_expires_at q) (pk_updated_at r))"
proof -
  have ok: "package_ok q" "package_ok r"
    using package_run_ok [OF assms(1,2)] package_step_ok [OF assms(3)] by simp_all
  have "same_request p r"
    by (rule package_run_request [OF follow [OF assms(1,3)]])
  moreover have "status_rank (pk_status r) < status_rank (pk_status q) \<or>
     pk_status q = Failed \<and> pk_status r = Pending \<or>
     pk_status q = Building \<and> pk_status r = Building \<and> expired (pk_lease_expires_at q) (pk_updated_at r)"
    using assms(3) by cases (auto simp: apply_defs eligible_def)
  ultimately show ?thesis
    using ok package_ok_check [OF ok(2)] package_step_facts(2,4) [OF assms(3)]
      package_run_attempts [OF assms(1)] package_run_terminal [OF assms(1)] by auto
qed

definition sample_package :: package_row where
  "sample_package = new_package 7 (py ''key'') (py ''fp'') (py ''scale'') 9 \<lparr>wall = 5, tz = Some 0\<rparr>"

theorem package_lifecycle_witness:
  "package_run sample_package (apply_claim (py ''w'') \<lparr>wall = 9, tz = Some 0\<rparr> \<lparr>wall = 6, tz = Some 0\<rparr> 1 sample_package) \<and>
   package_check (apply_cancel_building \<lparr>wall = 7, tz = Some 0\<rparr>
     (apply_claim (py ''w'') \<lparr>wall = 9, tz = Some 0\<rparr> \<lparr>wall = 6, tz = Some 0\<rparr> 1 sample_package))"
proof -
  let ?q = "apply_claim (py ''w'') \<lparr>wall = 9, tz = Some 0\<rparr> \<lparr>wall = 6, tz = Some 0\<rparr> 1 sample_package"
  have "package_step sample_package ?q"
    using claim [of "\<lparr>wall = 6, tz = Some 0\<rparr>" sample_package "py ''w''" "\<lparr>wall = 9, tz = Some 0\<rparr>"]
    by (simp add: eligible_def sample_package_def new_package_def)
  then have run: "package_run sample_package ?q"
    by (rule follow [OF stay])
  moreover have "package_step ?q (apply_cancel_building \<lparr>wall = 7, tz = Some 0\<rparr> ?q)"
    by (rule cancel_building) (simp add: apply_claim_def)
  ultimately show ?thesis
    using package_lifecycle [OF run] package_ok_new by (simp add: sample_package_def)
qed

end
