(* ===== verification/Package_Session.thy ===== *)
theory Package_Session
  imports Package_Lifecycle Sealing
begin

section \<open>Transactions on audit packages\<close>

text \<open>
  A transaction of \<open>AuditPackageService\<close> under PostgreSQL locks the rows it writes, so what it commits
  is a set of steps of the status machine taken from the rows as they are stored at that moment.
\<close>

subsection \<open>The tables\<close>

text \<open>An archive belongs to a ready package, and every ready package has its archive.\<close>

definition archive_of :: "package_row \<Rightarrow> artifact_row \<Rightarrow> bool" where
  "archive_of p a \<longleftrightarrow> pk_status p = Ready \<and> ar_package_id a = pk_package_id p \<and>
     pk_artifact_sha256 p = Some (ar_sha256 a) \<and> pk_artifact_size_bytes p = Some (ar_size_bytes a)"

definition package_table :: "ledger_db \<Rightarrow> bool" where
  "package_table d \<longleftrightarrow> distinct (map pk_id (packages d)) \<and>
     (\<forall>p \<in> set (packages d). package_ok p \<and> pk_id p < next_package d \<and>
        (pk_status p = Ready \<longrightarrow> (\<exists>a \<in> set (artifacts d). archive_of p a))) \<and>
     (\<forall>a \<in> set (artifacts d). \<exists>p \<in> set (packages d). archive_of p a)"

text \<open>Between two moments every package has gone through a run of its status machine.\<close>

definition moves :: "ledger_db \<Rightarrow> ledger_db \<Rightarrow> bool" where
  "moves d d' \<longleftrightarrow> (\<forall>p \<in> set (packages d). \<exists>q \<in> set (packages d'). package_run p q)"

lemma moves_refl [simp]: "moves d d"
  by (auto simp: moves_def intro: stay)

lemma moves_trans: "moves d d' \<Longrightarrow> moves d' d'' \<Longrightarrow> moves d d''"
  unfolding moves_def by (meson package_run_trans)

lemma moves_packages: "packages d' = packages d \<Longrightarrow> moves d d'"
  by (auto simp: moves_def intro: stay)

definition keeps_packages :: "environment \<Rightarrow> bool" where
  "keeps_packages env \<longleftrightarrow>
     (\<forall>n h ws d. package_table d \<longrightarrow> package_table (others env n h ws d) \<and> moves d (others env n h ws d))"

lemma package_table_empty [simp]: "package_table empty_db"
  by (simp add: package_table_def empty_db_def)

definition rows_with :: "int \<Rightarrow> ledger_db \<Rightarrow> package_row list" where
  "rows_with i d = filter (\<lambda>p. pk_id p = i) (packages d)"

lemma rows_with_table: "package_table d \<Longrightarrow> p \<in> set (packages d) \<Longrightarrow> rows_with (pk_id p) d = [p]"
  unfolding rows_with_def by (rule filter_unique) (simp_all add: package_table_def)

text \<open>The rows after some updates.\<close>

definition replace_rows :: "package_row list \<Rightarrow> package_row \<Rightarrow> package_row" where
  "replace_rows ps q = fold (\<lambda>p q. if pk_id q = pk_id p then p else q) ps q"

lemma replace_rows_Nil [simp]: "replace_rows [] q = q"
  by (simp add: replace_rows_def)

lemma replace_rows_snoc:
  "replace_rows (ps @ [p]) q = (if pk_id (replace_rows ps q) = pk_id p then p else replace_rows ps q)"
  by (simp add: replace_rows_def)

lemma replace_rows_id [simp]: "pk_id (replace_rows ps q) = pk_id q"
  by (induction ps rule: rev_induct) (simp_all add: replace_rows_snoc)

lemma replace_rows_cases: "replace_rows ps q = q \<or> (\<exists>p \<in> set ps. pk_id p = pk_id q \<and> replace_rows ps q = p)"
  by (induction ps rule: rev_induct) (auto simp: replace_rows_snoc)

lemma replace_rows_hit:
  "distinct (map pk_id ps) \<Longrightarrow> p \<in> set ps \<Longrightarrow> pk_id p = pk_id q \<Longrightarrow> replace_rows ps q = p"
proof (induction ps rule: rev_induct)
  case (snoc x ps)
  show ?case
  proof (cases "p = x")
    case True
    then show ?thesis
      using snoc.prems(3) by (simp add: replace_rows_snoc)
  next
    case False
    then have "p \<in> set ps" "distinct (map pk_id ps)" "pk_id x \<notin> pk_id ` set ps"
      using snoc.prems(1,2) by auto
    moreover from this have "pk_id p \<noteq> pk_id x"
      by (metis image_eqI)
    moreover have "replace_rows ps q = p"
      using snoc.IH snoc.prems(3) calculation(1,2) by blast
    ultimately show ?thesis
      by (simp add: replace_rows_snoc)
  qed
qed simp

lemma replace_rows_miss: "pk_id q \<notin> pk_id ` set ps \<Longrightarrow> replace_rows ps q = q"
  by (induction ps rule: rev_induct) (auto simp: replace_rows_snoc)

definition package_changes :: "artifact_row list \<Rightarrow> package_row list \<Rightarrow> row_change list" where
  "package_changes arts ps = map InsertArtifact arts @ map UpdatePackage ps"

lemma apply_artifacts:
  "apply_changes (map InsertArtifact arts) d = d\<lparr>artifacts := artifacts d @ arts\<rparr>"
  by (induction arts rule: rev_induct) simp_all

lemma apply_package_changes:
  "apply_changes (package_changes arts ps) d =
     d\<lparr>artifacts := artifacts d @ arts, packages := map (replace_rows ps) (packages d)\<rparr>"
proof (induction ps rule: rev_induct)
  case Nil
  then show ?case
    by (simp add: package_changes_def apply_artifacts map_idI)
next
  case (snoc p ps)
  have "apply_changes (package_changes arts (ps @ [p])) d =
      apply_change (UpdatePackage p) (apply_changes (package_changes arts ps) d)"
    by (simp add: package_changes_def flip: append_assoc)
  then show ?case
    by (simp add: snoc comp_def replace_rows_snoc)
qed

subsection \<open>Steps of the table\<close>

text \<open>
  What a commit does to the tables: some packages take a step, ready ones together with their
  archive, or one new package appears; the log is untouched.
\<close>

definition evolves :: "ledger_db \<Rightarrow> ledger_db \<Rightarrow> bool" where
  "evolves d d' \<longleftrightarrow> events d' = events d \<and> checkpoints d' = checkpoints d \<and> consumers d' = consumers d \<and>
     (\<exists>new. map pk_id (packages d') = map pk_id (packages d) @ map pk_id new \<and>
        (\<forall>p \<in> set new. package_ok p \<and> pk_status p = Pending)) \<and>
     (\<forall>p' \<in> set (packages d'). p' \<in> set (packages d) \<or>
        (\<exists>p \<in> set (packages d). package_step p p') \<or> pk_id p' \<notin> pk_id ` set (packages d))"

definition steps_from :: "ledger_db \<Rightarrow> package_row list \<Rightarrow> bool" where
  "steps_from d ps \<longleftrightarrow> distinct (map pk_id ps) \<and>
     (\<forall>p' \<in> set ps. \<exists>p. rows_with (pk_id p') d = [p] \<and> package_step p p')"

definition archives_match :: "artifact_row list \<Rightarrow> package_row list \<Rightarrow> bool" where
  "archives_match arts ps \<longleftrightarrow> (\<forall>a \<in> set arts. \<exists>p \<in> set ps. archive_of p a) \<and>
     (\<forall>p \<in> set ps. pk_status p = Ready \<longrightarrow> (\<exists>a \<in> set arts. archive_of p a))"

lemma rows_with_mem: "rows_with i d = [p] \<Longrightarrow> p \<in> set (packages d) \<and> pk_id p = i"
  by (auto simp: rows_with_def filter_eq_Cons_iff)

lemma replaced_row:
  assumes "steps_from d ps" "q \<in> set (packages d)" "package_table d"
  shows "replace_rows ps q = q \<or> (replace_rows ps q \<in> set ps \<and> package_step q (replace_rows ps q))"
proof -
  have "package_step q p" if "p \<in> set ps" "pk_id p = pk_id q" for p
    using assms(1) that rows_with_table [OF assms(3,2)] by (auto simp: steps_from_def)
  then show ?thesis
    using replace_rows_cases [of ps q] by auto
qed

lemma package_changes_evolve:
  assumes "package_table d" "steps_from d ps" "archives_match arts ps"
    and "d' = apply_changes (package_changes arts ps) d"
  shows "package_table d' \<and> evolves d d'"
proof -
  let ?r = "replace_rows ps"
  have d': "packages d' = map ?r (packages d)" "artifacts d' = artifacts d @ arts"
    "events d' = events d" "checkpoints d' = checkpoints d" "consumers d' = consumers d"
    "next_package d' = next_package d"
    by (simp_all add: assms(4) apply_package_changes)
  have ids: "map pk_id (packages d') = map pk_id (packages d)"
    by (simp add: d' comp_def)
  have row: "package_ok (?r q) \<and> pk_id (?r q) < next_package d \<and>
      (pk_status (?r q) = Ready \<longrightarrow> (\<exists>a \<in> set (artifacts d @ arts). archive_of (?r q) a))"
    if "q \<in> set (packages d)" for q
  proof (cases "?r q = q")
    case True
    then show ?thesis
      using assms(1) that by (auto simp: package_table_def)
  next
    case False
    then have "?r q \<in> set ps" "package_step q (?r q)"
      using replaced_row [OF assms(2) that assms(1)] by simp_all
    then show ?thesis
      using assms(1,3) that package_step_ok by (auto simp: package_table_def archives_match_def)
  qed
  have old: "\<exists>p \<in> set (packages d'). archive_of p a" if a: "a \<in> set (artifacts d)" for a
  proof -
    obtain p where p: "p \<in> set (packages d)" "archive_of p a"
      using assms(1) a unfolding package_table_def by blast
    then have "?r p = p"
      using replaced_row [OF assms(2) p(1) assms(1)] package_step_facts(2) by (auto simp: archive_of_def)
    then have "p \<in> set (packages d')"
      using p(1) by (force simp: d')
    with p(2) show ?thesis by blast
  qed
  have new: "\<exists>p \<in> set (packages d'). archive_of p a" if a: "a \<in> set arts" for a
  proof -
    obtain p where p: "p \<in> set ps" "archive_of p a"
      using assms(3) a unfolding archives_match_def by blast
    then obtain q where "q \<in> set (packages d)" "pk_id q = pk_id p"
      using assms(2) rows_with_mem by (force simp: steps_from_def)
    then have "?r q = p" "q \<in> set (packages d)"
      using replace_rows_hit p(1) assms(2) by (simp_all add: steps_from_def)
    then have "p \<in> set (packages d')"
      by (force simp: d')
    with p(2) show ?thesis by blast
  qed
  have "package_table d'"
    unfolding package_table_def
  proof (intro conjI ballI)
    show "distinct (map pk_id (packages d'))"
      using assms(1) by (simp add: ids package_table_def)
    show "package_ok p" "pk_id p < next_package d'"
      "pk_status p = Ready \<longrightarrow> (\<exists>a \<in> set (artifacts d'). archive_of p a)" if "p \<in> set (packages d')" for p
      using that row by (auto simp: d')
    show "\<exists>p \<in> set (packages d'). archive_of p a" if "a \<in> set (artifacts d')" for a
      using that old new by (auto simp: d')
  qed
  moreover have "evolves d d'"
    unfolding evolves_def
  proof (intro conjI ballI)
    show "\<exists>new. map pk_id (packages d') = map pk_id (packages d) @ map pk_id new \<and>
        (\<forall>p \<in> set new. package_ok p \<and> pk_status p = Pending)"
      by (rule exI [of _ "[]"]) (simp add: ids)
    show "p' \<in> set (packages d) \<or> (\<exists>p \<in> set (packages d). package_step p p') \<or>
        pk_id p' \<notin> pk_id ` set (packages d)" if p': "p' \<in> set (packages d')" for p'
    proof -
      obtain q where "q \<in> set (packages d)" "p' = ?r q"
        using p' by (auto simp: d')
      then show ?thesis
        using replaced_row [OF assms(2) _ assms(1), of q] by (cases "?r q = q") auto
    qed
  qed (simp_all add: d')
  ultimately show ?thesis ..
qed

lemma evolves_moves:
  assumes "package_table d" "package_table d'" "evolves d d'"
  shows "moves d d'"
  unfolding moves_def
proof
  fix p assume p: "p \<in> set (packages d)"
  have distinct: "distinct (map pk_id (packages d))" "distinct (map pk_id (packages d'))"
    using assms(1,2) by (simp_all add: package_table_def)
  have "pk_id ` set (packages d) \<subseteq> pk_id ` set (packages d')"
    using assms(3) unfolding evolves_def by (metis Un_upper1 set_append set_map)
  then obtain q where q: "q \<in> set (packages d')" "pk_id q = pk_id p"
    using p by force
  then consider "q \<in> set (packages d)" | p' where "p' \<in> set (packages d)" "package_step p' q"
    using assms(3) p unfolding evolves_def by force
  then have "package_run p q"
  proof cases
    case 1
    then have "q = p"
      using p q(2) distinct(1) by (auto simp: distinct_map dest: inj_onD)
    then show ?thesis by (simp add: stay)
  next
    case 2
    then have "p' = p"
      using p q(2) distinct(1) package_step_facts(5) by (auto simp: distinct_map dest: inj_onD)
    then show ?thesis
      using 2 by (auto intro: follow stay)
  qed
  with q show "\<exists>q \<in> set (packages d'). package_run p q" by blast
qed

lemma new_package_evolves:
  assumes "package_table d" "package_ok p" "pk_status p = Pending" "pk_id p = n"
    and "\<forall>q \<in> set (packages d). pk_id q < n" "n < next_package d"
    and "d' = apply_changes [InsertPackage p] d"
  shows "package_table d' \<and> evolves d d'"
proof -
  have d': "packages d' = packages d @ [p]" "artifacts d' = artifacts d" "next_package d' = next_package d"
    "events d' = events d" "checkpoints d' = checkpoints d" "consumers d' = consumers d"
    by (simp_all add: assms(7))
  have "package_table d'"
    using assms(1-6) by (auto simp: package_table_def d')
  moreover have "evolves d d'"
    using assms(2-5) by (auto simp: evolves_def d' intro!: exI [of _ "[p]"])
  ultimately show ?thesis ..
qed

subsection \<open>Inside a transaction\<close>

text \<open>
  \<open>holding w0 arts ps todo w\<close>: the transaction started at \<open>w0\<close>, has written the archives \<open>arts\<close> and
  the rows \<open>ps\<close>, and has locked the rows \<open>todo\<close>, which nobody has changed since.
\<close>

definition holding ::
    "world \<Rightarrow> artifact_row list \<Rightarrow> package_row list \<Rightarrow> package_row list \<Rightarrow> world \<Rightarrow> bool" where
  "holding w0 arts ps todo w \<longleftrightarrow>
     written w = written w0 \<and> mine w = package_changes arts ps \<and> package_table (shared w) \<and>
     moves (shared w0) (shared w) \<and> distinct (map pk_id (ps @ todo)) \<and> steps_from (shared w) ps \<and>
     (\<forall>p \<in> set todo. rows_with (pk_id p) (shared w) = [p]) \<and>
     (\<forall>p \<in> set (ps @ todo). PackageLock (pk_id p) \<in> set (held w))"

abbreviation idle :: "world \<Rightarrow> world \<Rightarrow> bool" where
  "idle w0 \<equiv> holding w0 [] [] []"

lemma package_changes_Nil [simp]: "package_changes [] [] = []"
  by (simp add: package_changes_def)

lemma idle_iff: "idle w0 w \<longleftrightarrow>
    written w = written w0 \<and> mine w = [] \<and> package_table (shared w) \<and> moves (shared w0) (shared w)"
  by (auto simp: holding_def steps_from_def)

lemma holding_log [simp]: "holding w0 arts ps todo (log_entry s w) = holding w0 arts ps todo w"
  by (simp add: holding_def)

lemma holding_tick [simp]: "holding w0 arts ps todo (w\<lparr>tick := n\<rparr>) = holding w0 arts ps todo w"
  by (simp add: holding_def)

lemma holding_interfere:
  assumes "respects_locks env" "keeps_packages env" "holding w0 arts ps todo w"
  shows "holding w0 arts ps todo (interfere env w)"
proof -
  let ?d' = "others env (tick w) (held w) (mine w) (shared w)"
  have same: "rows_with (pk_id p) ?d' = rows_with (pk_id p) (shared w)" if "p \<in> set (ps @ todo)" for p
    using assms(1,3) that by (auto simp: respects_locks_def holding_def rows_with_def Let_def)
  have d: "package_table (shared w)" "moves (shared w0) (shared w)"
    using assms(3) by (simp_all add: holding_def)
  have "package_table ?d' \<and> moves (shared w) ?d'"
    using assms(2) d(1) unfolding keeps_packages_def by blast
  then have "package_table ?d'" "moves (shared w0) ?d'"
    using moves_trans [OF d(2)] by simp_all
  then show ?thesis
    using assms(3) same by (auto simp: holding_def steps_from_def)
qed

lemma holding_visible:
  assumes "holding w0 arts ps todo w"
  shows "packages (visible w) = map (replace_rows ps) (packages (shared w))"
    "artifacts (visible w) = artifacts (shared w) @ arts"
  using assms by (simp_all add: visible_def holding_def apply_package_changes)

lemma idle_visible: "idle w0 w \<Longrightarrow> visible w = shared w"
  by (simp add: idle_iff visible_def)

lemma holding_row:
  assumes "holding w0 arts ps (p # todo) w"
  shows "scalar (\<lambda>q. pk_id q = pk_id p) (packages (visible w)) = Some p"
proof -
  have p: "rows_with (pk_id p) (shared w) = [p]" "pk_id p \<notin> pk_id ` set ps"
    using assms by (auto simp: holding_def)
  have mem: "p \<in> set (packages (shared w))"
    using rows_with_mem [OF p(1)] by simp
  then have "p \<in> set (packages (visible w))"
    using replace_rows_miss [OF p(2)] by (force simp: holding_visible [OF assms])
  moreover have "q = p" if q: "q \<in> set (packages (visible w))" "pk_id q = pk_id p" for q
  proof -
    obtain q' where q': "q' \<in> set (packages (shared w))" "q = replace_rows ps q'"
      using q(1) by (auto simp: holding_visible [OF assms])
    then have "q' \<in> set (rows_with (pk_id p) (shared w))"
      using q(2) by (simp add: rows_with_def)
    then have "q' = p"
      using p(1) by simp
    then show ?thesis
      using q'(2) replace_rows_miss [OF p(2)] by simp
  qed
  ultimately show ?thesis
    by (intro scalar_unique) auto
qed

lemma holding_ok: "holding w0 arts ps (p # todo) w \<Longrightarrow> package_ok p"
  using rows_with_mem [of "pk_id p" "shared w" p] by (auto simp: holding_def package_table_def)

text \<open>The statements.\<close>

lemma holding_clock:
  "valid env (holding w0 arts ps todo) clock_op (\<lambda>_. holding w0 arts ps todo) E"
  by (simp add: valid_def clock_op_def)

lemma holding_dialect:
  assumes "postgresql env"
  shows "valid env (holding w0 arts ps todo) dialect_op (\<lambda>x w. holding w0 arts ps todo w \<and> x = True) E"
  using assms by (simp add: valid_def dialect_op_def)

lemma holding_lock_row:
  assumes "respects_locks env" "keeps_packages env" "postgresql env"
  shows "valid env (idle w0) (lock_row (\<lambda>p. PackageLock (pk_id p)) (\<lambda>d. scalar P (packages d)))
    (\<lambda>found w. case found of None \<Rightarrow> idle w0 w | Some p \<Rightarrow> holding w0 [] [] [p] w \<and> P p) E"
proof (rule validI)
  fix w assume "idle w0 w"
  then have w: "idle w0 (interfere env w)"
    by (rule holding_interfere [OF assms(1,2)])
  let ?w = "interfere env w"
  have "holding w0 [] [] [p] (hold [PackageLock (pk_id p)] (log_entry Select ?w)) \<and> P p"
    if p: "scalar P (packages (shared ?w)) = Some p" for p
    using w rows_with_table scalar_SomeD [OF p] unfolding idle_iff
    by (simp add: holding_def steps_from_def del: interfere_simps)
  then show "case lock_row (\<lambda>p. PackageLock (pk_id p)) (\<lambda>d. scalar P (packages d)) env w of
      (Inl e, w') \<Rightarrow> E e w'
    | (Inr found, w') \<Rightarrow> (case found of None \<Rightarrow> idle w0 w' | Some p \<Rightarrow> holding w0 [] [] [p] w' \<and> P p)"
    using w idle_visible [OF w] assms(3)
    by (auto simp: lock_row_def Let_def idle_iff simp del: interfere_simps split: option.splits)
qed

lemma holding_lock_unlocked:
  assumes "respects_locks env" "keeps_packages env"
    and "\<And>free d. package_table d \<Longrightarrow> distinct (map pk_id (f free d)) \<and> (\<forall>p \<in> set (f free d). p \<in> set (packages d) \<and> P p)"
  shows "valid env (idle w0) (lock_unlocked (\<lambda>p. PackageLock (pk_id p)) f)
    (\<lambda>rows w. holding w0 [] [] rows w \<and> (\<forall>p \<in> set rows. P p)) E"
proof (rule validI)
  fix w assume "idle w0 w"
  then have w: "idle w0 (interfere env w)"
    by (rule holding_interfere [OF assms(1,2)])
  let ?w = "interfere env w"
  have "holding w0 [] [] (f free (shared ?w)) (hold (map (\<lambda>p. PackageLock (pk_id p)) (f free (shared ?w))) (log_entry Select ?w)) \<and>
      (\<forall>p \<in> set (f free (shared ?w)). P p)" for free
    using w assms(3) [of "shared ?w" free] rows_with_table unfolding idle_iff
    by (simp add: holding_def steps_from_def del: interfere_simps)
  then show "case lock_unlocked (\<lambda>p. PackageLock (pk_id p)) f env w of (Inl e, w') \<Rightarrow> E e w'
    | (Inr rows, w') \<Rightarrow> holding w0 [] [] rows w' \<and> (\<forall>p \<in> set rows. P p)"
    using idle_visible [OF w] by (simp add: lock_unlocked_def Let_def del: interfere_simps)
qed

lemma holding_update:
  assumes "respects_locks env" "keeps_packages env" "package_ok p \<Longrightarrow> package_step p (f p)"
  shows "valid env (holding w0 arts ps (p # todo)) (update_package p f)
    (\<lambda>q w. q = f p \<and> holding w0 arts (ps @ [f p]) todo w) E"
proof (rule validI)
  fix w assume "holding w0 arts ps (p # todo) w"
  then have w: "holding w0 arts ps (p # todo) (interfere env w)"
    by (rule holding_interfere [OF assms(1,2)])
  let ?w = "interfere env w"
  have step: "package_step p (f p)" "package_check (f p)" "pk_id (f p) = pk_id p"
    using holding_ok [OF w] assms(3) package_step_ok package_ok_check package_step_facts(5) by blast+
  have "mine (change_op (UpdatePackage (f p)) ?w) = package_changes arts (ps @ [f p])"
    using w by (simp add: holding_def package_changes_def)
  moreover have "steps_from (shared ?w) (ps @ [f p])"
    using w step by (auto simp: holding_def steps_from_def simp del: interfere_simps)
  ultimately have "holding w0 arts (ps @ [f p]) todo (hold [PackageLock (pk_id p)] (change_op (UpdatePackage (f p)) ?w))"
    using w step(3) unfolding holding_def by (simp del: interfere_simps)
  then show "case update_package p f env w of (Inl e, w') \<Rightarrow> E e w'
    | (Inr q, w') \<Rightarrow> q = f p \<and> holding w0 arts (ps @ [f p]) todo w'"
    using holding_row [OF w] step(2) by (simp add: update_package_def Let_def del: interfere_simps)
qed

lemma holding_insert_artifact:
  assumes "respects_locks env" "keeps_packages env"
  shows "valid env (holding w0 [] [] [p]) (insert_artifact a)
    (\<lambda>_. holding w0 [a] [] [p]) (\<lambda>_. holding w0 [] [] [p])"
proof (rule validI)
  fix w assume "holding w0 [] [] [p] w"
  then have w: "holding w0 [] [] [p] (interfere env w)"
    by (rule holding_interfere [OF assms(1,2)])
  then have "holding w0 [a] [] [p] (change_op (InsertArtifact a) (interfere env w))"
    unfolding holding_def by (simp add: package_changes_def del: interfere_simps)
  with w show "case insert_artifact a env w of (Inl e, w') \<Rightarrow> holding w0 [] [] [p] w'
    | (Inr _, w') \<Rightarrow> holding w0 [a] [] [p] w'"
    by (simp add: insert_artifact_def Let_def del: interfere_simps)
qed

subsection \<open>Whole transactions\<close>

text \<open>What a command has done: nothing, or one commit that evolves the tables.\<close>

definition effect :: "world \<Rightarrow> world \<Rightarrow> row_change list \<Rightarrow> bool" where
  "effect w0 w ms \<longleftrightarrow> mine w = [] \<and> written w = written w0 @ ms \<and> package_table (shared w) \<and>
     moves (shared w0) (shared w) \<and>
     (ms \<noteq> [] \<longrightarrow> (\<exists>d. package_table d \<and> moves (shared w0) d \<and> shared w = apply_changes ms d \<and> evolves d (shared w)))"

lemma effect_idle: "idle w0 w \<Longrightarrow> effect w0 w []"
  by (simp add: effect_def idle_iff)

lemma effect_commit:
  assumes "holding w0 arts ps todo w" "archives_match arts ps"
  shows "effect w0 (commit w) (package_changes arts ps)"
proof -
  let ?d = "apply_changes (package_changes arts ps) (shared w)"
  have w: "package_table (shared w)" "steps_from (shared w) ps" "mine w = package_changes arts ps"
      "written w = written w0" "moves (shared w0) (shared w)"
    using assms(1) by (simp_all add: holding_def)
  have d: "package_table ?d" "evolves (shared w) ?d"
    using package_changes_evolve [OF w(1,2) assms(2) refl] by simp_all
  then have "moves (shared w0) ?d"
    using moves_trans [OF w(5) evolves_moves [OF w(1)]] by simp
  then show ?thesis
    using w d by (auto simp: effect_def visible_def)
qed

lemma effect_roll_back: "holding w0 arts ps todo w \<Longrightarrow> effect w0 (roll_back w) []"
  by (simp add: effect_def holding_def)

lemma effect_rest: "holding w0 [] [] todo w \<Longrightarrow> effect w0 (commit w) []"
  by (auto simp: effect_def holding_def visible_def steps_from_def)

text \<open>
  The rule for a transaction: its body, started idle, ends with the rows it returns about, or in
  any state of the transaction with an exception.
\<close>

definition at_end :: "world \<Rightarrow> row_change list \<Rightarrow> world \<Rightarrow> bool" where
  "at_end w0 ms w \<longleftrightarrow> effect w0 (commit w) ms"

definition undone :: "world \<Rightarrow> world \<Rightarrow> bool" where
  "undone w0 w \<longleftrightarrow> effect w0 (roll_back w) []"

lemma undoneI: "holding w0 arts ps todo w \<Longrightarrow> undone w0 w"
  by (simp add: undone_def effect_roll_back)

lemma effect_transaction:
  assumes "valid env (idle w0) m (\<lambda>x w. \<exists>ms. Q x ms \<and> at_end w0 ms w) (\<lambda>e w. undone w0 w)"
  shows "valid env (idle w0) (transaction m) (\<lambda>x w. \<exists>ms. Q x ms \<and> effect w0 w ms) (\<lambda>e w. effect w0 w [])"
  by (rule valid_transaction, rule valid_weaken [OF assms])
     (auto simp: at_end_def undone_def)

end

