(* ===== verification/Package_Claims.thy ===== *)
theory Package_Claims
  imports Package_Session Proof_Pages
begin

section \<open>Properties of the package commands\<close>

text \<open>
  Each command of \<open>AuditPackageService\<close> against arbitrary other transactions that respect row locks:
  it commits at most once, and what it commits are steps of the status machine.
\<close>

subsection \<open>The commands commit steps\<close>

text \<open>The other transactions, and the database.\<close>

definition package_env :: "environment \<Rightarrow> bool" where
  "package_env env \<longleftrightarrow> respects_locks env \<and> keeps_packages env \<and> postgresql env"

lemma package_envD:
  "package_env env \<Longrightarrow> respects_locks env" "package_env env \<Longrightarrow> keeps_packages env"
  "package_env env \<Longrightarrow> postgresql env"
  by (simp_all add: package_env_def)

lemma at_end_rest: "holding w0 [] [] todo w \<Longrightarrow> at_end w0 [] w"
  by (simp add: at_end_def effect_rest)

lemma at_end_update:
  "holding w0 [] ps todo w \<Longrightarrow> \<forall>p \<in> set ps. pk_status p \<noteq> Ready \<Longrightarrow> at_end w0 (map UpdatePackage ps) w"
  using effect_commit [of w0 "[]" ps todo w] by (auto simp: at_end_def archives_match_def package_changes_def)

lemma at_end_ready:
  "holding w0 [a] [p] todo w \<Longrightarrow> archive_of p a \<Longrightarrow> at_end w0 [InsertArtifact a, UpdatePackage p] w"
  using effect_commit [of w0 "[a]" "[p]" todo w] by (simp add: at_end_def archives_match_def package_changes_def)

text \<open>One locked row is updated and the result returned.\<close>

lemma update_one:
  assumes "package_env env" "package_ok p \<Longrightarrow> package_step p (f p)" "pk_status (f p) \<noteq> Ready"
    and "\<And>w. at_end w0 [UpdatePackage (f p)] w \<Longrightarrow> R (g (f p)) w"
  shows "valid env (holding w0 [] [] [p]) (bind_op (update_package p f) (\<lambda>q. return_op (g q))) R (\<lambda>_ w. undone w0 w)"
proof (rule valid_bind [OF holding_update [where f = f and p = p, OF package_envD(1,2) [OF assms(1)] assms(2)]])
  show "valid env (\<lambda>w. q = f p \<and> holding w0 [] ([] @ [f p]) [] w) (return_op (g q)) R (\<lambda>_ w. undone w0 w)" for q
    using assms(3,4) at_end_update [of w0 "[f p]"] by (intro valid_return) auto
qed simp_all

lemma bind_return_right [simp]: "bind_op m return_op = m"
  by (simp add: bind_op_def return_op_def fun_eq_iff split: prod.splits sum.splits)

lemma valid_found:
  assumes "valid env (P None) m Q E" "\<And>p. valid env (P (Some p)) (f p) Q E"
  shows "valid env (P found) (case found of None \<Rightarrow> m | Some p \<Rightarrow> f p) Q E"
  using assms by (cases found) simp_all

lemma locked_transaction:
  assumes "package_env env" "valid env (idle w0) m (\<lambda>x w. \<exists>ms. Q x ms \<and> at_end w0 ms w) (\<lambda>_ w. undone w0 w)"
    and "\<And>p. P p \<Longrightarrow> valid env (holding w0 [] [] [p]) (f p) (\<lambda>x w. \<exists>ms. Q x ms \<and> at_end w0 ms w) (\<lambda>_ w. undone w0 w)"
  shows "valid env (idle w0)
    (transaction (bind_op (lock_row (\<lambda>p. PackageLock (pk_id p)) (\<lambda>d. scalar P (packages d)))
       (\<lambda>found. case found of None \<Rightarrow> m | Some p \<Rightarrow> f p)))
    (\<lambda>x w. \<exists>ms. Q x ms \<and> effect w0 w ms) (\<lambda>_ w. effect w0 w [])"
proof (rule effect_transaction, rule valid_bind [OF holding_lock_row [OF package_envD [OF assms(1)]]])
  fix found
  let ?Q = "\<lambda>x w. \<exists>ms. Q x ms \<and> at_end w0 ms w"
  have "valid env (\<lambda>w. P p \<and> holding w0 [] [] [p] w) (f p) ?Q (\<lambda>_ w. undone w0 w)" for p
    by (rule valid_when [OF assms(3)])
  then have "valid env (\<lambda>w. holding w0 [] [] [p] w \<and> P p) (f p) ?Q (\<lambda>_ w. undone w0 w)" for p
    by (simp add: conj_commute)
  then show "valid env (\<lambda>w. case found of None \<Rightarrow> idle w0 w | Some p \<Rightarrow> holding w0 [] [] [p] w \<and> P p)
      (case found of None \<Rightarrow> m | Some p \<Rightarrow> f p) ?Q (\<lambda>_ w. undone w0 w)"
    using assms(2) by (cases found) simp_all
qed

lemma raise_undone: "valid env (holding w0 arts ps todo) (raise_op e) Q (\<lambda>_ w. undone w0 w)"
  by (intro valid_raise undoneI)

lemma return_unchanged:
  "Q x [] \<Longrightarrow> valid env (holding w0 [] [] todo) (return_op x) (\<lambda>x w. \<exists>ms. Q x ms \<and> at_end w0 ms w) E"
  using at_end_rest by (intro valid_return) blast

lemma cancel_effect:
  assumes "package_env env"
  shows "valid env (idle w0) (cancel_package i)
    (\<lambda>x w. \<exists>ms. ms = (if snd x then [UpdatePackage (fst x)] else []) \<and> effect w0 w ms) (\<lambda>_ w. effect w0 w [])"
  unfolding cancel_package_def lock_package_def
proof (rule locked_transaction [OF assms raise_undone], rule valid_bind [OF holding_clock])
  fix p now
  let ?Q = "\<lambda>x ms. ms = (if snd x then [UpdatePackage (fst x)] else [])"
  let ?R = "\<lambda>x w. \<exists>ms. ?Q x ms \<and> at_end w0 ms w"
  have 1: "valid env (holding w0 [] [] [p])
      (bind_op (update_package p (apply_cancel_pending now)) (\<lambda>q. return_op (q, True))) ?R (\<lambda>_ w. undone w0 w)"
    if "pk_status p = Pending"
    using that by (intro update_one [OF assms]) (auto simp: apply_cancel_pending_def intro: cancel_pending [unfolded apply_cancel_pending_def])
  have 2: "valid env (holding w0 [] [] [p])
      (bind_op (update_package p (apply_cancel_building now)) (\<lambda>q. return_op (q, True))) ?R (\<lambda>_ w. undone w0 w)"
    if "pk_status p = Building"
    using that by (intro update_one [OF assms]) (auto simp: apply_cancel_building_def intro: cancel_building [unfolded apply_cancel_building_def])
  have 3: "valid env (holding w0 [] [] [p]) (return_op (p, False)) ?R (\<lambda>_ w. undone w0 w)"
    by (rule return_unchanged) simp
  show "valid env (holding w0 [] [] [p])
      (if pk_status p = Pending then bind_op (update_package p (apply_cancel_pending now)) (\<lambda>q. return_op (q, True))
       else if pk_status p = Building then bind_op (update_package p (apply_cancel_building now)) (\<lambda>q. return_op (q, True))
       else if pk_status p = Cancelling \<or> pk_status p = Cancelled then return_op (p, False)
       else raise_op (not_cancellable i (pk_status p))) ?R (\<lambda>_ w. undone w0 w)"
    using 1 2 3 raise_undone [of env w0 "[]" "[]" "[p]" "not_cancellable i (pk_status p)" ?R]
    by (cases "pk_status p = Pending"; cases "pk_status p = Building";
        cases "pk_status p = Cancelling \<or> pk_status p = Cancelled") simp_all
qed

lemma retry_effect:
  assumes "package_env env"
  shows "valid env (idle w0) (request_retry i)
    (\<lambda>x w. \<exists>ms. ms = [UpdatePackage x] \<and> effect w0 w ms) (\<lambda>_ w. effect w0 w [])"
  unfolding request_retry_def lock_package_def
proof (rule locked_transaction [OF assms raise_undone])
  fix p
  let ?R = "\<lambda>x w. \<exists>ms. ms = [UpdatePackage x] \<and> at_end w0 ms w"
  have "valid env (holding w0 [] [] [p]) (bind_op clock_op (\<lambda>now. update_package p (apply_retry now))) ?R (\<lambda>_ w. undone w0 w)"
    if "pk_status p = Failed"
  proof (rule valid_bind [OF holding_clock])
    show "valid env (holding w0 [] [] [p]) (update_package p (apply_retry now)) ?R (\<lambda>_ w. undone w0 w)" for now
      using that update_one [OF assms, of p "apply_retry now" w0 ?R "\<lambda>q. q"]
      by (auto simp: apply_retry_def intro: retry [unfolded apply_retry_def])
  qed
  then show "valid env (holding w0 [] [] [p])
      (if pk_status p = Failed then bind_op clock_op (\<lambda>now. update_package p (apply_retry now))
       else raise_op (not_retryable i (pk_status p))) ?R (\<lambda>_ w. undone w0 w)"
    using raise_undone [of env w0 "[]" "[]" "[p]" "not_retryable i (pk_status p)" ?R] by (cases "pk_status p = Failed") simp_all
qed

lemma moment_idle: "valid env (idle w0) (moment_op now) (\<lambda>_. idle w0) E"
  by (cases now) (simp_all add: moment_op_def valid_return holding_clock)

lemma on_postgresql:
  assumes "package_env env" "valid env (idle w0) m Q E"
  shows "valid env (idle w0) (bind_op dialect_op (\<lambda>locking. if locking then m else m')) Q E"
  by (rule valid_known [OF holding_dialect [OF package_envD(3) [OF assms(1)]]]) (simp add: assms(2))

definition claim_result :: "pystr \<Rightarrow> package_row option \<Rightarrow> row_change list \<Rightarrow> bool" where
  "claim_result worker_id x ms \<longleftrightarrow>
     (case x of
        None \<Rightarrow> ms = []
      | Some p \<Rightarrow> ms = [UpdatePackage p] \<and> pk_status p = Building \<and> pk_lease_owner p = Some worker_id)"

lemma claim_locked_effect:
  assumes "package_env env"
  shows "valid env (idle w0) (claim_locked worker_id duration moment)
    (\<lambda>x w. \<exists>ms. claim_result worker_id x ms \<and> at_end w0 ms w) (\<lambda>_ w. undone w0 w)"
  unfolding claim_locked_def
proof (rule valid_bind [OF holding_lock_unlocked [where P = "eligible moment", OF package_envD(1,2) [OF assms]]])
  fix free and d :: ledger_db
  assume "package_table d"
  then show "distinct (map pk_id (take 1 (sort_key pk_id (filter (\<lambda>p. eligible moment p \<and> free p) (packages d))))) \<and>
     (\<forall>p \<in> set (take 1 (sort_key pk_id (filter (\<lambda>p. eligible moment p \<and> free p) (packages d)))).
        p \<in> set (packages d) \<and> eligible moment p)"
    by (auto simp: package_table_def distinct_map_filter distinct_map distinct_sort inj_on_def
        simp flip: take_map dest!: in_set_takeD intro!: distinct_take)
next
  fix rows
  let ?R = "\<lambda>x w. \<exists>ms. claim_result worker_id x ms \<and> at_end w0 ms w"
  show "valid env (\<lambda>w. holding w0 [] [] rows w \<and> (\<forall>p \<in> set rows. eligible moment p))
    (case rows of [] \<Rightarrow> return_op None
     | candidate # _ \<Rightarrow>
         bind_op (lift_op (add_duration moment duration)) (\<lambda>lease.
         bind_op (update_package candidate (apply_claim worker_id lease moment (pk_attempt_count candidate + 1)))
           (\<lambda>p. return_op (Some p)))) ?R (\<lambda>_ w. undone w0 w)"
  proof (cases rows)
    case Nil
    then show ?thesis
      using at_end_rest by (auto simp: claim_result_def intro!: valid_return)
  next
    case (Cons p rest)
    have update: "valid env (holding w0 [] [] (p # rest))
      (bind_op (update_package p (apply_claim worker_id lease moment (pk_attempt_count p + 1)))
           (\<lambda>p. return_op (Some p))) ?R (\<lambda>_ w. undone w0 w)" if p: "eligible moment p" for lease
    proof (rule valid_bind [OF holding_update [where p = p and f = "apply_claim worker_id lease moment (pk_attempt_count p + 1)",
            OF package_envD(1,2) [OF assms]]])
      show "package_step p (apply_claim worker_id lease moment (pk_attempt_count p + 1) p)"
        using p by (rule claim)
      fix q
      have "at_end w0 [UpdatePackage q] w" if "holding w0 [] [q] rest w" "pk_status q = Building" for w
        using at_end_update [of w0 "[q]" rest w] that by simp
      then show "valid env (\<lambda>w. q = apply_claim worker_id lease moment (pk_attempt_count p + 1) p \<and>
            holding w0 [] ([] @ [apply_claim worker_id lease moment (pk_attempt_count p + 1) p]) rest w)
          (return_op (Some q)) ?R (\<lambda>_ w. undone w0 w)"
        by (intro valid_return) (auto simp: claim_result_def apply_claim_def)
    qed
    have "valid env (holding w0 [] [] (p # rest))
      (bind_op (lift_op (add_duration moment duration)) (\<lambda>lease.
         bind_op (update_package p (apply_claim worker_id lease moment (pk_attempt_count p + 1)))
           (\<lambda>p. return_op (Some p)))) ?R (\<lambda>_ w. undone w0 w)" if "eligible moment p"
      using update [OF that] raise_undone by (cases "add_duration moment duration") (simp_all add: bind_lift)
    then show ?thesis
      unfolding Cons list.case valid_def by auto
  qed
qed

lemma claim_effect:
  assumes "package_env env"
  shows "valid env (idle w0) (claim_package worker_id duration now)
    (\<lambda>x w. \<exists>ms. claim_result worker_id x ms \<and> effect w0 w ms) (\<lambda>_ w. effect w0 w [])"
  unfolding claim_package_def
  by (rule valid_bind [OF moment_idle], rule effect_transaction, rule on_postgresql [OF assms],
      rule claim_locked_effect [OF assms])

lemma settle_locked_effect:
  assumes "package_env env" "\<forall>p \<in> set todo. stale moment p"
  shows "valid env (holding w0 [] ps todo) (settle_locked moment todo)
    (\<lambda>qs w. qs = map (apply_cancelled moment) todo \<and> holding w0 [] (ps @ qs) [] w) (\<lambda>_ w. undone w0 w)"
  using assms(2)
proof (induction todo arbitrary: ps)
  case Nil
  then show ?case by (simp add: valid_return)
next
  case (Cons p todo)
  show ?case
    unfolding settle_locked.simps
  proof (rule valid_known [OF valid_weaken])
    show "valid env (holding w0 [] ps (p # todo)) (update_package p (apply_cancelled moment))
        (\<lambda>q w. q = apply_cancelled moment p \<and> holding w0 [] (ps @ [apply_cancelled moment p]) todo w) (\<lambda>_ w. undone w0 w)"
      using Cons.prems by (intro holding_update package_envD [OF assms(1)] confirm) (simp add: stale_def)
    show "valid env (holding w0 [] (ps @ [apply_cancelled moment p]) todo)
      (bind_op (settle_locked moment todo) (\<lambda>qs. return_op (apply_cancelled moment p # qs)))
      (\<lambda>qs w. qs = map (apply_cancelled moment) (p # todo) \<and> holding w0 [] (ps @ qs) [] w) (\<lambda>_ w. undone w0 w)"
      using Cons by (intro valid_bind [OF Cons.IH] valid_return) auto
  qed simp_all
qed

definition settled :: "package_row option list \<Rightarrow> row_change list \<Rightarrow> bool" where
  "settled qs ms \<longleftrightarrow> (\<exists>ps. qs = map Some ps \<and> ms = map UpdatePackage ps \<and> (\<forall>p \<in> set ps. pk_status p = Cancelled))"

lemma settle_effect:
  assumes "package_env env"
  shows "valid env (idle w0) (settle_stale_cancelling now)
    (\<lambda>x w. \<exists>ms. settled x ms \<and> effect w0 w ms) (\<lambda>_ w. effect w0 w [])"
  unfolding settle_stale_cancelling_def
proof (rule valid_bind [OF moment_idle], rule effect_transaction, rule on_postgresql [OF assms])
  fix moment
  let ?rows = "\<lambda>free d. sort_key pk_id (filter (\<lambda>p. stale moment p \<and> free p) (packages d))"
  let ?R = "\<lambda>x w. \<exists>ms. settled x ms \<and> at_end w0 ms w"
  have rest: "valid env (\<lambda>w. holding w0 [] [] rows w \<and> (\<forall>p \<in> set rows. stale moment p))
      (bind_op (settle_locked moment rows) (\<lambda>settled. return_op (map Some settled))) ?R (\<lambda>_ w. undone w0 w)" for rows
  proof -
    have finish: "?R (map Some qs) w" if "qs = map (apply_cancelled moment) rows" "holding w0 [] ([] @ qs) [] w" for qs w
    proof -
      have qs: "\<forall>p \<in> set qs. pk_status p = Cancelled"
        by (simp add: that(1) apply_cancelled_def)
      then have "settled (map Some qs) (map UpdatePackage qs)"
        unfolding settled_def by blast
      moreover have "at_end w0 (map UpdatePackage qs) w"
        using that(2) qs by (intro at_end_update [of w0 qs "[]"]) simp_all
      ultimately show ?thesis by blast
    qed
    have "valid env (holding w0 [] [] rows)
        (bind_op (settle_locked moment rows) (\<lambda>settled. return_op (map Some settled))) ?R (\<lambda>_ w. undone w0 w)"
      if "\<forall>p \<in> set rows. stale moment p"
      by (rule valid_bind [OF settle_locked_effect [OF assms that]], rule valid_return) (use finish in blast)
    then show ?thesis
      unfolding valid_def by auto
  qed
  show "valid env (idle w0)
      (bind_op (lock_unlocked (\<lambda>p. PackageLock (pk_id p)) ?rows) (\<lambda>candidates.
         bind_op (settle_locked moment candidates) (\<lambda>settled. return_op (map Some settled)))) ?R (\<lambda>_ w. undone w0 w)"
  proof (rule valid_bind [OF holding_lock_unlocked [where P = "stale moment", OF package_envD(1,2) [OF assms]] rest])
    fix free and d :: ledger_db
    assume "package_table d"
    then show "distinct (map pk_id (?rows free d)) \<and>
        (\<forall>p \<in> set (?rows free d). p \<in> set (packages d) \<and> stale moment p)"
      by (auto simp: package_table_def distinct_map distinct_sort inj_on_def)
  qed
qed

lemma idle_insert_package:
  assumes "package_env env" "package_ok p" "pk_status p = Pending"
  shows "valid env (idle w0) (insert_package p)
    (\<lambda>row w. at_end w0 [InsertPackage row] w \<and> (\<exists>n. row = p\<lparr>pk_id := n\<rparr>)) (\<lambda>x w. x = IntegrityError \<and> idle w0 w)"
proof (rule validI)
  fix w assume "idle w0 w"
  then have w: "idle w0 (interfere env w)"
    by (rule holding_interfere [OF package_envD(1,2) [OF assms(1)]])
  let ?w = "interfere env w"
  let ?n = "next_package (shared ?w)"
  let ?d = "(shared ?w)\<lparr>next_package := ?n + 1\<rparr>"
  let ?v = "?w\<lparr>shared := ?d\<rparr>"
  let ?row = "p\<lparr>pk_id := ?n\<rparr>"
  have table: "package_table (shared ?w)" "mine ?w = []" "written ?w = written w0" "moves (shared w0) (shared ?w)"
    using iffD1 [OF idle_iff w] by blast+
  then have bounds: "package_table ?d" "\<forall>q \<in> set (packages ?d). pk_id q < ?n" "?n < next_package ?d"
    unfolding package_table_def by (auto simp del: interfere_simps)
  have moved: "moves (shared w0) ?d"
    using moves_trans [OF table(4) moves_packages] by (simp del: interfere_simps)
  have new: "package_table (apply_changes [InsertPackage ?row] ?d) \<and> evolves ?d (apply_changes [InsertPackage ?row] ?d)"
    by (rule new_package_evolves [OF bounds(1) _ _ _ bounds(2,3) refl]) (simp_all add: assms(2,3))
  then have "moves (shared w0) (apply_changes [InsertPackage ?row] ?d)"
    using moves_trans [OF moved evolves_moves [OF bounds(1)]] by simp
  moreover have "shared (commit (change_op (InsertPackage ?row) ?v)) = apply_changes [InsertPackage ?row] ?d"
    using table by (simp add: visible_def del: interfere_simps)
  ultimately have "at_end w0 [InsertPackage ?row] (change_op (InsertPackage ?row) ?v)"
    using table bounds(1) moved new unfolding at_end_def effect_def by (auto simp del: interfere_simps)
  moreover have "idle w0 ?v"
    using table bounds(1) moved unfolding idle_iff by simp
  ultimately show "case insert_package p env w of (Inl x, w') \<Rightarrow> x = IntegrityError \<and> idle w0 w'
    | (Inr row, w') \<Rightarrow> at_end w0 [InsertPackage row] w' \<and> (\<exists>n. row = p\<lparr>pk_id := n\<rparr>)"
    by (auto simp: insert_package_def Let_def simp del: interfere_simps)
qed

lemma idle_keeps:
  assumes "package_env env"
  shows "stable env (idle w0)"
proof -
  have "idle w0 (commit w) \<and> idle w0 (roll_back w)" if "idle w0 w" for w
    using that by (simp add: idle_iff visible_def)
  moreover have "idle w0 (hold rs w) = idle w0 w" for rs w
    by (simp add: idle_iff)
  ultimately show ?thesis
    using holding_interfere [OF package_envD(1,2) [OF assms]]
    by (simp add: stable_def del: interfere_simps)
qed

lemma idle_reads:
  assumes "package_env env" "keeps env (idle w0) m"
  shows "valid env (idle w0) m (\<lambda>_. idle w0) (\<lambda>_. idle w0)"
  using assms(2) by (simp add: keeps_def)

text \<open>The row a creation answers with.\<close>

definition created :: "(package_row \<times> bool) \<Rightarrow> row_change list \<Rightarrow> bool" where
  "created x ms \<longleftrightarrow> (if snd x then ms = [InsertPackage (fst x)] \<and> pk_status (fst x) = Pending else ms = [])"

lemma idle_select:
  assumes "package_env env"
  shows "valid env (idle w0) (select_op f) (\<lambda>_. idle w0) (\<lambda>_. idle w0)"
  by (rule idle_reads [OF assms keeps_read(1) [OF idle_keeps [OF assms]]])

lemma idle_then:
  assumes "package_env env" "keeps env (idle w0) m"
    and "\<And>x. valid env (idle w0) (f x) Q (\<lambda>_ w. undone w0 w)"
  shows "valid env (idle w0) (bind_op m f) Q (\<lambda>_ w. undone w0 w)"
  by (rule valid_then [OF idle_reads [OF assms(1,2)] _ assms(3)]) (rule undoneI)

lemma answer_replay_idle:
  "valid env (idle w0) (answer_replay p i c) (\<lambda>x w. created x [] \<and> idle w0 w) (\<lambda>_. idle w0)"
  unfolding answer_replay_def by (rule valid_lift) (auto simp: created_def map_result_Inr_iff)

lemma effect_nothing: "effect w0 w [] \<longleftrightarrow> idle w0 w"
  by (auto simp: effect_def idle_iff)

lemma create_effect:
  assumes "package_env env"
  shows "valid env (idle w0) (create_package instrument_id key checkpoint_id)
    (\<lambda>x w. \<exists>ms. created x ms \<and> effect w0 w ms) (\<lambda>_ w. effect w0 w [])"
proof -
  let ?R = "\<lambda>x w. \<exists>ms. created x ms \<and> at_end w0 ms w"
  note stable = idle_keeps [OF assms, of w0]
  have replay: "valid env (idle w0) (answer_replay p instrument_id checkpoint_id) ?R (\<lambda>_ w. undone w0 w)" for p
    by (rule valid_weaken [OF answer_replay_idle]) (auto intro: at_end_rest undoneI)
  have insert: "valid env (idle w0) (bind_op (insert_package (new_package i key fp instrument_id c now))
      (\<lambda>row. return_op (row, True))) ?R (\<lambda>_ w. undone w0 w)" for i fp c now
  proof (rule valid_then [OF idle_insert_package [OF assms package_ok_new]])
    show "valid env (\<lambda>w. at_end w0 [InsertPackage row] w \<and>
        (\<exists>n. row = new_package i key fp instrument_id c now\<lparr>pk_id := n\<rparr>)) (return_op (row, True)) ?R (\<lambda>_ w. undone w0 w)" for row
      by (rule valid_return) (auto simp: created_def new_package_def)
  qed (auto simp: new_package_def intro: undoneI)
  have tx: "valid env (idle w0) (create_package_tx instrument_id key checkpoint_id) ?R (\<lambda>_ w. undone w0 w)"
    unfolding create_package_tx_def find_by_key_def
  proof (rule idle_then [OF assms])
    fix found
    show "valid env (idle w0) (case found of Some existing \<Rightarrow> answer_replay existing instrument_id checkpoint_id
       | None \<Rightarrow>
           bind_op (resolve_boundary checkpoint_id) (\<lambda>c.
           bind_op (boundary_event_count c instrument_id) (\<lambda>count.
           if count = 0 then raise_op (boundary_mismatch c instrument_id (checkpoint_id \<noteq> None))
           else
             bind_op clock_op (\<lambda>now.
             bind_op uuid_op (\<lambda>package_id.
             bind_op (lift_op (package_fingerprint instrument_id (cp_checkpoint_id c))) (\<lambda>fp.
             bind_op (insert_package
               (new_package package_id key fp instrument_id (cp_checkpoint_id c) now)) (\<lambda>row.
               return_op (row, True)))))))) ?R (\<lambda>_ w. undone w0 w)"
    proof (cases found)
      case None
      have "valid env (idle w0) (if count = (0 :: nat) then raise_op (boundary_mismatch c instrument_id (checkpoint_id \<noteq> None))
           else
             bind_op clock_op (\<lambda>now.
             bind_op uuid_op (\<lambda>package_id.
             bind_op (lift_op (package_fingerprint instrument_id (cp_checkpoint_id c))) (\<lambda>fp.
             bind_op (insert_package
               (new_package package_id key fp instrument_id (cp_checkpoint_id c) now)) (\<lambda>row.
               return_op (row, True)))))) ?R (\<lambda>_ w. undone w0 w)" for count c
        by (cases "count = 0")
           (simp_all add: raise_undone, intro idle_then [OF assms] keeps_intros stable insert)
      then show ?thesis
        unfolding None option.case resolve_boundary_def boundary_event_count_def find_checkpoint_def
        by (intro idle_then [OF assms] keeps_intros stable)
    qed (use replay in simp)
  qed (intro keeps_intros stable)
  show ?thesis
    unfolding create_package_def
  proof (rule valid_on_integrity_error [where R = "idle w0"])
    show "valid env (idle w0) (transaction (create_package_tx instrument_id key checkpoint_id))
        (\<lambda>x w. \<exists>ms. created x ms \<and> effect w0 w ms)
        (\<lambda>x w. if x = IntegrityError then idle w0 w else effect w0 w [])"
      by (rule valid_weaken [OF effect_transaction [OF tx]]) (auto simp: effect_nothing)
    show "valid env (idle w0) (bind_op (find_by_key key) (\<lambda>found. case found of
          Some existing \<Rightarrow> answer_replay existing instrument_id checkpoint_id
        | None \<Rightarrow> raise_op IntegrityError)) (\<lambda>x w. \<exists>ms. created x ms \<and> effect w0 w ms) (\<lambda>_ w. effect w0 w [])"
      unfolding find_by_key_def
    proof (rule valid_then [OF idle_select [OF assms]])
      have "\<exists>ms. created x ms \<and> effect w0 w ms" if "created x [] \<and> idle w0 w" for x w
        using that effect_idle by blast
      then have "valid env (idle w0) (answer_replay p instrument_id checkpoint_id)
          (\<lambda>x w. \<exists>ms. created x ms \<and> effect w0 w ms) (\<lambda>_ w. effect w0 w [])" for p
        by (intro valid_weaken [OF answer_replay_idle]) (simp_all add: effect_nothing)
      then show "valid env (idle w0) (case found of Some existing \<Rightarrow> answer_replay existing instrument_id checkpoint_id
          | None \<Rightarrow> raise_op IntegrityError) (\<lambda>x w. \<exists>ms. created x ms \<and> effect w0 w ms) (\<lambda>_ w. effect w0 w [])" for found
        by (cases found) (simp_all add: effect_nothing valid_raise)
    qed (simp add: effect_nothing)
  qed
qed

subsection \<open>The build commits at most once\<close>

text \<open>What a build may write, given the archive it has to store.\<close>

definition built :: "built_archive option \<Rightarrow> build_outcome \<Rightarrow> row_change list \<Rightarrow> bool" where
  "built content r ms \<longleftrightarrow> ms = [] \<or>
     (\<exists>p. ms = [UpdatePackage p] \<and> pk_status p \<in> {Cancelled, Failed} \<and> r = Settled (pk_status p)) \<or>
     (\<exists>p a archive. ms = [InsertArtifact a, UpdatePackage p] \<and> archive_of p a \<and> r = Settled Ready \<and>
       content = Some archive \<and> pk_event_count p = Some (ba_event_count archive) \<and>
       ar_zip_content a = ba_content archive \<and> ar_sha256 a = ba_sha256 archive \<and>
       ar_size_bytes a = ba_size_bytes archive)"

lemma confirm_effect:
  assumes "package_env env" "pk_status p = Cancelling"
  shows "valid env (holding w0 [] [] [p]) (confirm_cancelled p)
    (\<lambda>x w. \<exists>ms. built content x ms \<and> at_end w0 ms w) (\<lambda>_ w. undone w0 w)"
  unfolding confirm_cancelled_def
proof (rule valid_bind [OF holding_clock])
  fix now
  have "built content (Settled Cancelled) [UpdatePackage (apply_cancelled now p)]"
    by (simp add: built_def apply_cancelled_def)
  then show "valid env (holding w0 [] [] [p])
      (bind_op (update_package p (apply_cancelled now)) (\<lambda>_. return_op (Settled Cancelled)))
      (\<lambda>x w. \<exists>ms. built content x ms \<and> at_end w0 ms w) (\<lambda>_ w. undone w0 w)"
    by (intro update_one [OF assms(1)] confirm assms(2)) (auto simp: apply_cancelled_def)
qed

lemma left_alone:
  "valid env (holding w0 [] [] todo) (return_op r) (\<lambda>x w. \<exists>ms. built content x ms \<and> at_end w0 ms w) (\<lambda>_ w. undone w0 w)"
  by (rule return_unchanged) (simp add: built_def)

lemma finish_effect:
  assumes "package_env env"
  shows "valid env (idle w0) (finish_cancelled p) (\<lambda>x w. \<exists>ms. built content x ms \<and> effect w0 w ms) (\<lambda>_ w. effect w0 w [])"
  unfolding finish_cancelled_def lock_claimed_def
  by (rule locked_transaction [OF assms left_alone]) (simp add: confirm_effect [OF assms] left_alone)

lemma fail_effect:
  assumes "package_env env"
  shows "valid env (idle w0) (fail_or_cancel row failure reason)
    (\<lambda>x w. \<exists>ms. built content x ms \<and> effect w0 w ms) (\<lambda>_ w. effect w0 w [])"
  unfolding fail_or_cancel_def lock_claimed_def
proof (rule locked_transaction [OF assms left_alone])
  fix p
  let ?R = "\<lambda>x w. \<exists>ms. built content x ms \<and> at_end w0 ms w"
  have "valid env (holding w0 [] [] [p]) (bind_op clock_op (\<lambda>now.
      bind_op (update_package p (apply_failed failure reason now)) (\<lambda>_. return_op (Settled Failed)))) ?R (\<lambda>_ w. undone w0 w)"
    if "pk_status p = Building"
  proof (rule valid_bind [OF holding_clock])
    fix now
    have "built content (Settled Failed) [UpdatePackage (apply_failed failure reason now p)]"
      by (simp add: built_def apply_failed_def)
    then show "valid env (holding w0 [] [] [p])
      (bind_op (update_package p (apply_failed failure reason now)) (\<lambda>_. return_op (Settled Failed))) ?R (\<lambda>_ w. undone w0 w)"
      by (intro update_one [OF assms] failed that) (auto simp: apply_failed_def)
  qed
  then show "valid env (holding w0 [] [] [p])
      (if pk_status p = Cancelling then confirm_cancelled p
       else if pk_status p \<noteq> Building \<or> pk_lease_owner p \<noteq> pk_lease_owner row then return_op (Settled (pk_status p))
       else bind_op clock_op (\<lambda>now.
         bind_op (update_package p (apply_failed failure reason now)) (\<lambda>_. return_op (Settled Failed)))) ?R (\<lambda>_ w. undone w0 w)"
    by (simp add: confirm_effect [OF assms] left_alone)
qed

text \<open>Storing an archive, together with the step it takes.\<close>

lemma ready_effect:
  assumes "package_env env" "pk_status p = Building"
  shows "valid env (holding w0 [] [] [p])
    (bind_op clock_op (\<lambda>now. bind_op (insert_artifact (new_artifact p archive now)) (\<lambda>_.
       bind_op (update_package p (apply_ready archive now)) (\<lambda>_. return_op (Settled Ready)))))
    (\<lambda>x w. \<exists>ms. built (Some archive) x ms \<and> at_end w0 ms w) (\<lambda>_ w. undone w0 w)"
proof (rule valid_bind [OF holding_clock])
  fix now
  let ?R = "\<lambda>x w. \<exists>ms. built (Some archive) x ms \<and> at_end w0 ms w"
  let ?a = "new_artifact p archive now" and ?p = "apply_ready archive now p"
  have match: "archive_of ?p ?a"
    by (simp add: archive_of_def apply_ready_def new_artifact_def)
  then have "built (Some archive) (Settled Ready) [InsertArtifact ?a, UpdatePackage ?p]"
    by (simp add: built_def new_artifact_def apply_ready_def)
  then have last: "valid env (\<lambda>w. q = ?p \<and> holding w0 [?a] ([] @ [?p]) [] w) (return_op (Settled Ready)) ?R (\<lambda>_ w. undone w0 w)" for q
    using at_end_ready [OF _ match] by (intro valid_return) auto
  show "valid env (holding w0 [] [] [p]) (bind_op (insert_artifact ?a) (\<lambda>_.
       bind_op (update_package p (apply_ready archive now)) (\<lambda>_. return_op (Settled Ready)))) ?R (\<lambda>_ w. undone w0 w)"
  proof (rule valid_then [OF holding_insert_artifact [OF package_envD(1,2) [OF assms(1)]]])
    show "valid env (holding w0 [?a] [] [p])
        (bind_op (update_package p (apply_ready archive now)) (\<lambda>_. return_op (Settled Ready))) ?R (\<lambda>_ w. undone w0 w)"
      by (rule valid_bind [OF holding_update [where f = "apply_ready archive now" and p = p, OF package_envD(1,2) [OF assms(1)] ready [OF assms(2)]] last])
  qed (rule undoneI)
qed

lemma store_effect:
  assumes "package_env env"
  shows "valid env (idle w0) (store_archive row archive)
    (\<lambda>x w. \<exists>ms. built (Some archive) x ms \<and> effect w0 w ms) (\<lambda>_ w. effect w0 w [])"
  unfolding store_archive_def lock_claimed_def
  by (rule locked_transaction [OF assms left_alone])
     (simp add: confirm_effect [OF assms] left_alone ready_effect [OF assms])

subsection \<open>A build reads, then writes once\<close>

lemma keeps_pair [keeps_intros]:
  "(\<And>x y. keeps env I (f x y)) \<Longrightarrow> keeps env I (case z of (x, y) \<Rightarrow> f x y)"
  by (cases z) simp

lemma keeps_receipt [keeps_intros]:
  assumes "stable env I"
  shows "keeps env I (build_receipt_at_checkpoint keyring e c)"
  unfolding build_receipt_at_checkpoint_def validated_prefix_def build_consistency_bundle_def find_checkpoint_def
  by (intro keeps_intros assms)

lemma keeps_collect [keeps_intros]:
  assumes "stable env I" "keeps env I check"
  shows "keeps env I (collect_receipts keyring c check es)"
  by (induction es) (auto intro!: keeps_intros assms)

lemma keeps_check [keeps_intros]:
  assumes "stable env I"
  shows "keeps env I (check_build_cancelled p)"
  unfolding check_build_cancelled_def by (intro keeps_intros assms)

lemma keeps_render:
  assumes "stable env I"
  shows "keeps env I (render_package zip_file p keyring)"
  unfolding render_package_def load_bundle_def find_checkpoint_def
  by (intro keeps_intros assms)

text \<open>A first part that reads and leaves \<open>I\<close>, a second part that depends on how the first one ended.\<close>

definition outcome_then :: "'a op \<Rightarrow> ('a \<Rightarrow> 'b op) \<Rightarrow> (exn \<Rightarrow> 'b op) \<Rightarrow> 'b op" where
  "outcome_then m f g = (\<lambda>env w. case m env w of (Inr x, w') \<Rightarrow> f x env w' | (Inl x, w') \<Rightarrow> g x env w')"

lemma valid_outcome:
  assumes "valid env P m R E'" "\<And>x. valid env (R x) (f x) Q E" "\<And>e. valid env (E' e) (g e) Q E"
  shows "valid env P (outcome_then m f g) Q E"
proof (rule validI)
  fix w assume w: "P w"
  show "case outcome_then m f g env w of (Inl e, w') \<Rightarrow> E e w' | (Inr x, w') \<Rightarrow> Q x w'"
  proof (cases "m env w")
    case (Pair r w')
    then show ?thesis
      using validD [OF assms(1) w] validD [OF assms(2)] validD [OF assms(3)]
      by (cases r) (auto simp: outcome_then_def)
  qed
qed

definition after_failure :: "(exn \<Rightarrow> pystr) \<Rightarrow> package_row \<Rightarrow> exn \<Rightarrow> build_outcome op" where
  "after_failure exception_text row x =
     (if is_database_error x then raise_op x
      else (case x of
         BuildCancelRequested \<Rightarrow> finish_cancelled row
       | LedgerError le \<Rightarrow> fail_or_cancel row (code le) (message le)
       | _ \<Rightarrow> fail_or_cancel row (py ''AUDIT_EXPORT_FAILED'') (take MAX_FAILURE_REASON (exception_text x))))"

lemma build_once_outcome:
  "build_once zip_file exception_text row keyring =
     outcome_then (render_package zip_file row keyring) (store_archive row) (after_failure exception_text row)"
  by (auto simp: build_once_def outcome_then_def after_failure_def raise_op_def fun_eq_iff split: prod.splits sum.splits)

lemma after_failure_effect:
  assumes "package_env env"
  shows "valid env (idle w0) (after_failure exception_text row x)
    (\<lambda>x w. \<exists>ms. built content x ms \<and> effect w0 w ms) (\<lambda>_ w. effect w0 w [])"
  using finish_effect [OF assms] fail_effect [OF assms]
  by (auto simp: after_failure_def effect_nothing split: exn.split intro: valid_raise)

lemma build_effect:
  assumes "package_env env" "valid env P (render_package zip_file row keyring) (\<lambda>a _. A a) (\<lambda>_ _. True)"
  shows "valid env (\<lambda>w. idle w0 w \<and> P w) (build_once zip_file exception_text row keyring)
    (\<lambda>r w. \<exists>archive ms. (\<forall>a. archive = Some a \<longrightarrow> A a) \<and> built archive r ms \<and> effect w0 w ms)
    (\<lambda>_ w. effect w0 w [])"
  unfolding build_once_outcome
proof (rule valid_outcome)
  let ?Q = "\<lambda>r w. \<exists>archive ms. (\<forall>a. archive = Some a \<longrightarrow> A a) \<and> built archive r ms \<and> effect w0 w ms"
  show "valid env (\<lambda>w. idle w0 w \<and> P w) (render_package zip_file row keyring)
      (\<lambda>a w. A a \<and> idle w0 w) (\<lambda>_. idle w0)"
  proof (rule validI)
    fix w assume w: "idle w0 w \<and> P w"
    show "case render_package zip_file row keyring env w of (Inl e, w') \<Rightarrow> idle w0 w' | (Inr a, w') \<Rightarrow> A a \<and> idle w0 w'"
      using validD [OF assms(2)] validD [OF keeps_render [OF idle_keeps [OF assms(1)], unfolded keeps_def]] w
      by (fastforce split: prod.splits sum.splits)
  qed
  show "valid env (\<lambda>w. A a \<and> idle w0 w) (store_archive row a) ?Q (\<lambda>_ w. effect w0 w [])" for a
    by (rule valid_when, rule valid_weaken [OF store_effect [OF assms(1)]], assumption, rule exI [of _ "Some a"], auto)
  show "valid env (idle w0) (after_failure exception_text row x) ?Q (\<lambda>_ w. effect w0 w [])" for x
    by (rule valid_weaken [OF after_failure_effect [OF assms(1), where content = None]], assumption,
        rule exI [of _ None], auto)
qed

subsection \<open>The commands\<close>

text \<open>What a call leaves behind, with \<open>Q\<close> relating its answer to the changes it committed.\<close>

definition commits :: "'a result \<times> world \<Rightarrow> world \<Rightarrow> ('a \<Rightarrow> row_change list \<Rightarrow> bool) \<Rightarrow> bool" where
  "commits outcome w Q \<longleftrightarrow>
     (case outcome of
        (Inr x, w') \<Rightarrow> \<exists>ms. Q x ms \<and> effect w w' ms
      | (Inl _, w') \<Rightarrow> effect w w' [])"

lemma commitsI:
  "valid env (idle w0) m (\<lambda>x w. \<exists>ms. Q x ms \<and> effect w0 w ms) (\<lambda>_ w. effect w0 w []) \<Longrightarrow> idle w0 w \<Longrightarrow>
     commits (m env w) w0 Q"
  using validD by (fastforce simp: commits_def split: prod.splits sum.splits)

lemma idle_start: "mine w = [] \<Longrightarrow> package_table (shared w) \<Longrightarrow> idle w w"
  by (simp add: idle_iff)

lemma build_effect_any:
  assumes "package_env env"
  shows "valid env (idle w0) (build_once zip_file exception_text row keyring)
    (\<lambda>r w. \<exists>ms. (\<exists>content. built content r ms) \<and> effect w0 w ms) (\<lambda>_ w. effect w0 w [])"
proof -
  have "valid env (\<lambda>_. True) (render_package zip_file row keyring) (\<lambda>_ _. True) (\<lambda>_ _. True)"
    by (auto simp: valid_def split: prod.splits sum.splits)
  from build_effect [OF assms this, of w0 exception_text] show ?thesis
    by (rule valid_weaken) auto
qed


lemma quiet_package_env: "quiet env \<Longrightarrow> postgresql env \<Longrightarrow> package_env env"
  by (simp add: package_env_def quiet_def respects_locks_def keeps_packages_def Let_def)

lemma fixed_env_package [simp]: "package_env fixed_env"
  by (rule quiet_package_env [OF fixed_env(1)]) (simp add: fixed_env_def quiet_env_def)

text \<open>A stand-in for \<open>zipfile\<close>, and a database with one pending package.\<close>

definition concat_zip :: zip_writer where
  "concat_zip entries = concat (map ze_data entries)"


definition sample_packages :: ledger_db where
  "sample_packages = empty_db\<lparr>packages := [sample_package], next_package := 1\<rparr>"

lemma sample_packages_table: "package_table sample_packages"
proof -
  have "package_ok sample_package" "pk_id sample_package = 0" "pk_status sample_package = Pending"
    using package_ok_new by (simp_all add: sample_package_def new_package_def)
  then show ?thesis
    by (simp add: package_table_def sample_packages_def empty_db_def)
qed


subsection \<open>Any number of commands\<close>

datatype package_command =
  CreatePackage pystr pystr "uuid option"
| ClaimPackage pystr int "datetime option"
| SettlePackages "datetime option"
| CancelPackage uuid
| RetryPackage uuid
| BuildPackage package_row

fun run_command ::
    "zip_writer \<Rightarrow> (exn \<Rightarrow> pystr) \<Rightarrow> keyring \<Rightarrow> package_command \<Rightarrow> environment \<Rightarrow> world \<Rightarrow> world" where
  "run_command zip_file exception_text keyring (CreatePackage i k c) env w = snd (create_package i k c env w)"
| "run_command zip_file exception_text keyring (ClaimPackage i d n) env w = snd (claim_package i d n env w)"
| "run_command zip_file exception_text keyring (SettlePackages n) env w = snd (settle_stale_cancelling n env w)"
| "run_command zip_file exception_text keyring (CancelPackage i) env w = snd (cancel_package i env w)"
| "run_command zip_file exception_text keyring (RetryPackage i) env w = snd (request_retry i env w)"
| "run_command zip_file exception_text keyring (BuildPackage p) env w =
     snd (build_once zip_file exception_text p keyring env w)"

primrec run_commands ::
    "zip_writer \<Rightarrow> (exn \<Rightarrow> pystr) \<Rightarrow> keyring \<Rightarrow> package_command list \<Rightarrow> environment \<Rightarrow> world \<Rightarrow> world" where
  "run_commands zip_file exception_text keyring [] env w = w"
| "run_commands zip_file exception_text keyring (x # xs) env w =
     run_commands zip_file exception_text keyring xs env (run_command zip_file exception_text keyring x env w)"

lemma commits_effect: "commits outcome w Q \<Longrightarrow> \<exists>ms. effect w (snd outcome) ms"
  by (auto simp: commits_def split: prod.splits sum.splits)

lemma run_command_effect:
  assumes "package_env env" "idle w0 w"
  shows "\<exists>ms. effect w0 (run_command zip_file exception_text keyring x env w) ms"
  using commits_effect [OF commitsI [OF create_effect [OF assms(1)] assms(2)]]
    commits_effect [OF commitsI [OF claim_effect [OF assms(1)] assms(2)]]
    commits_effect [OF commitsI [OF settle_effect [OF assms(1)] assms(2)]]
    commits_effect [OF commitsI [OF cancel_effect [OF assms(1)] assms(2)]]
    commits_effect [OF commitsI [OF retry_effect [OF assms(1)] assms(2)]]
    commits_effect [OF commitsI [OF build_effect_any [OF assms(1)] assms(2)]]
  by (cases x) simp_all

lemma effect_state: "effect w0 w ms \<Longrightarrow> mine w = [] \<and> package_table (shared w) \<and> moves (shared w0) (shared w)"
  by (simp add: effect_def)

lemma run_commands_state:
  assumes "package_env env" "mine w = []" "package_table (shared w)"
  shows "mine (run_commands zip_file exception_text keyring xs env w) = [] \<and>
    package_table (shared (run_commands zip_file exception_text keyring xs env w)) \<and>
    moves (shared w) (shared (run_commands zip_file exception_text keyring xs env w))"
  using assms(2,3)
proof (induction xs arbitrary: w)
  case (Cons x xs)
  let ?w = "run_command zip_file exception_text keyring x env w"
  have "mine ?w = [] \<and> package_table (shared ?w) \<and> moves (shared w) (shared ?w)"
    using run_command_effect [OF assms(1) idle_start [OF Cons.prems]] effect_state by blast
  then show ?case
    using Cons.IH [of ?w] moves_trans by (auto simp del: run_command.simps)
qed simp

text \<open>
  C12: the history of a package. Any sequence of commands, of one caller or many, concurrent ones
  included, takes every stored package through a run of the status machine and keeps its request; a
  package that is ready or cancelled stays as it is, and a ready package has an archive in the table,
  of the digest and the size its row records.
\<close>

theorem package_history:
  assumes "package_env env" "mine w = []" "package_table (shared w)" "p \<in> set (packages (shared w))"
    and "run_commands zip_file exception_text keyring xs env w = w'"
  shows "\<exists>q \<in> set (packages (shared w')). package_run p q \<and> package_ok q \<and> same_request p q \<and>
    (pk_status p \<in> {Ready, Cancelled} \<longrightarrow> q = p) \<and>
    (pk_status q = Ready \<longrightarrow> (\<exists>a \<in> set (artifacts (shared w')). archive_of q a))"
proof -
  have w': "package_table (shared w')" "moves (shared w) (shared w')"
    using run_commands_state [OF assms(1-3)] assms(5) by blast+
  obtain q where q: "q \<in> set (packages (shared w'))" "package_run p q"
    using w'(2) assms(4) by (auto simp: moves_def)
  have "package_ok q" "pk_status q = Ready \<longrightarrow> (\<exists>a \<in> set (artifacts (shared w')). archive_of q a)"
    using w'(1) q(1) by (auto simp: package_table_def)
  then show ?thesis
    using q package_run_request [OF q(2)] package_run_terminal [OF q(2)] by blast
qed

theorem package_history_witness:
  "\<exists>q \<in> set (packages (shared (run_commands concat_zip (\<lambda>_. []) (\<lambda>_. None)
       [ClaimPackage (py ''worker'') 60 None, CancelPackage 7, SettlePackages None] fixed_env
       (start_world\<lparr>shared := sample_packages\<rparr>)))). package_run sample_package q"
  using package_history [OF fixed_env_package, of "start_world\<lparr>shared := sample_packages\<rparr>" sample_package
      concat_zip "\<lambda>_. []" "\<lambda>_. None" "[ClaimPackage (py ''worker'') 60 None, CancelPackage 7, SettlePackages None]"]
    sample_packages_table by (auto simp: start_world_def sample_packages_def)

end
