(* ===== verification/Package_Archive.thy ===== *)
theory Package_Archive
  imports Package_Claims
begin

section \<open>Properties of the archives\<close>

text \<open>
  What a build stores: one receipt per event of the instrument within the boundary, as canonical
  bytes, and a manifest with the digest of each file. Receipts, views and manifests of a sound
  ledger are always written.
\<close>

subsection \<open>Values that have canonical bytes\<close>

definition writable :: "json \<Rightarrow> bool" where
  "writable v \<longleftrightarrow> plain v \<and> encodable_json v"

lemma writable_ok: "writable v \<Longrightarrow> \<exists>b. canonical_json v = Inr b"
  using canonical_json_ok by (simp add: writable_def)

lemma writable_simps [simp]:
  "writable JNull" "writable (JBool b)" "writable (JInt i)" "writable (JStr s) \<longleftrightarrow> text_ok s"
  "writable (opt_json t) \<longleftrightarrow> opt_text_ok t" "writable (opt_uuid u)"
  "writable (JArr vs) \<longleftrightarrow> (\<forall>v \<in> set vs. writable v)"
  by (auto simp: writable_def plain_def opt_json_def opt_uuid_def opt_text_ok_def split: option.splits)

lemma writable_obj:
  "writable (JObj kvs) \<longleftrightarrow> distinct (map fst kvs) \<and> (\<forall>(k, v) \<in> set kvs. text_ok k \<and> writable v)"
  by (auto simp: writable_def encodable_obj text_ok_def)

lemma canonical_writable:
  assumes "canonical_json v = Inr b" "wf_json v"
  shows "writable v"
proof -
  have "finite_json v"
    using assms(1) by (auto simp: canonical_json_def dumps_def split: if_splits)
  then have "plain v"
    using assms(2) by (simp add: plain_def)
  moreover have "\<forall>c \<in> set (json_text v). encodable c"
    using assms(1) \<open>finite_json v\<close> by (auto simp: canonical_json_def dumps_def utf8_encode_def split: if_splits)
  ultimately show ?thesis
    using encodable_json_text by (simp add: writable_def)
qed

lemma event_view_writable:
  assumes "committed e" "event_view e = Inr v"
  shows "writable (JObj v)"
proof -
  obtain c where c: "event_commitment e = Inr c" "writable (JObj c)" "text_ok (ev_leaf_hash e)"
    using assms(1) committed_view [OF assms(1)] canonical_writable event_commitment_wf
    by (fastforce simp: event_commitment_bytes_def result_simps)
  have keys: "py ''sequence'' \<notin> fst ` set c" "py ''leaf_hash'' \<notin> fst ` set c"
    using c(1) by (auto simp: event_commitment_def result_simps)
  have "v = (py ''sequence'', JInt (ev_sequence e)) # filter (\<lambda>(k, v). k \<noteq> py ''schema_version'') c @
      [(py ''leaf_hash'', JStr (ev_leaf_hash e))]"
    using assms(2) c(1) by (simp add: event_view_def)
  then show ?thesis
    using c(2,3) keys by (auto simp: writable_obj text_ok_py distinct_map_filter)
qed

lemma checkpoint_view_writable:
  assumes "sealed_ok keyring es c" "checkpoint_view c = Inr v"
  shows "writable (JObj v)"
proof -
  obtain p where p: "checkpoint_payload c = Inr p" "v = p @ [(py ''signature'', JStr (cp_signature c))]"
    using assms(2) checkpoint_view_payload by blast
  have "text_ok (cp_signature c)" "\<exists>b. checkpoint_signing_bytes c = Inr b"
    using assms(1) by (auto simp: sealed_ok_def signed_def sign_checkpoint_def split: option.splits sum.splits)
  moreover from this have "writable (JObj p)"
    using p(1) canonical_writable checkpoint_payload_wf by (auto simp: checkpoint_signing_bytes_def)
  moreover have "py ''signature'' \<notin> fst ` set p"
    using p(1) by (auto simp: checkpoint_payload_def result_simps)
  ultimately show ?thesis
    using p(2) by (auto simp: writable_obj text_ok_py)
qed

lemma path_writable: "writable (path_json path)"
  by (auto simp: path_json_def writable_obj text_ok_py side_name_def split: side.split)

lemma bundle_writable:
  assumes "seals_ok keyring d" "linked d c b"
  shows "writable b"
proof -
  have "writable b" if p: "p \<in> set (checkpoints d)" "consistency_bundle c p leaves = Inr b" for p leaves
  proof -
    have "sealed_ok keyring (events d) p"
      using assms(1) p(1) by (simp add: seals_ok_def)
    then show ?thesis
      using p(2) checkpoint_view_writable
      by (fastforce simp: consistency_bundle_def result_simps writable_obj text_ok_py)
  qed
  then show ?thesis
    using assms(2) by (auto simp: linked_def)
qed

lemma receipt_writable:
  assumes "ledger_ok d" "seals_ok keyring d" "c \<in> set (checkpoints d)" "e \<in> set (events d)" "receipt_in d c e receipt"
  shows "writable (JObj receipt)"
proof -
  have "committed e" "sealed_ok keyring (events d) c"
    using ledger_okD(3) [OF assms(1,4)] assms(2,3) by (simp_all add: seals_ok_def)
  then show ?thesis
    using assms(5) event_view_writable checkpoint_view_writable bundle_writable [OF assms(2)] path_writable
    by (auto simp: receipt_in_def sealed_receipt_def result_simps writable_obj [of "_ # _"] text_ok_py)
qed

subsection \<open>What a build packs\<close>

text \<open>The instrument's events within the boundary, and the bundle of their receipts at it.\<close>

definition boundary_events :: "ledger_db \<Rightarrow> checkpoint_row \<Rightarrow> pystr \<Rightarrow> event_row list" where
  "boundary_events d c instrument_id = filter (\<lambda>e. ev_instrument_id e = instrument_id) (sealed_events d c)"

definition packed :: "ledger_db \<Rightarrow> checkpoint_row \<Rightarrow> package_row \<Rightarrow> package_bundle \<Rightarrow> bool" where
  "packed d c p b \<longleftrightarrow>
     pb_package_id b = uuid_str (pk_package_id p) \<and> pb_idempotency_key b = pk_idempotency_key p \<and>
     pb_instrument_id b = pk_instrument_id p \<and> checkpoint_view c = Inr (pb_checkpoint b) \<and>
     list_all2 (\<lambda>e entry. re_sequence entry = ev_sequence e \<and> receipt_in d c e (re_receipt entry))
       (boundary_events d c (pk_instrument_id p)) (pb_entries b)"

lemma boundary_select:
  assumes "extends keyring d d'" "seals_ok keyring d" "c \<in> set (checkpoints d)"
  shows "sort_key ev_sequence (filter (covers c i) (events d')) = boundary_events d c i"
proof -
  have "filter (covers c i) (events d') =
      filter (\<lambda>e. ev_instrument_id e = i) (filter (\<lambda>e. ev_sequence e \<le> cp_last_event_sequence c) (events d'))"
    by (auto simp: covers_def intro: filter_cong)
  also have "sort_key ev_sequence \<dots> = boundary_events d' c i"
    by (simp add: boundary_events_def sealed_events_def events_up_to_def flip: filter_sort)
  finally show ?thesis
    using extends_sealed(1) [OF assms] by (simp add: boundary_events_def)
qed

lemma collect_since:
  assumes "append_only keyring env" "ledger_ok d" "seals_ok keyring d" "c \<in> set (checkpoints d)"
    and "valid env (since keyring d) check (\<lambda>_. since keyring d) X"
    and "\<forall>e \<in> set es. e \<in> set (events d) \<and> ev_sequence e \<le> cp_last_event_sequence c"
  shows "valid env (since keyring d) (collect_receipts keyring c check es)
    (\<lambda>entries w. list_all2 (\<lambda>e entry. re_sequence entry = ev_sequence e \<and>
        receipt_in d c e (re_receipt entry)) es entries \<and> since keyring d w) X"
  using assms(6)
proof (induction es)
  case Nil
  then show ?case by (simp add: valid_return)
next
  case (Cons e es)
  let ?R = "\<lambda>entries w. list_all2 (\<lambda>e entry. re_sequence entry = ev_sequence e \<and>
        receipt_in d c e (re_receipt entry)) (e # es) entries \<and>
      since keyring d w"
  have tail: "valid env (since keyring d) (bind_op check (\<lambda>_. bind_op (collect_receipts keyring c check es)
      (\<lambda>entries. return_op (\<lparr>re_sequence = ev_sequence e, re_receipt = receipt\<rparr> # entries)))) ?R X"
    if "receipt_in d c e receipt" for receipt
    using Cons that by (intro valid_bind [OF assms(5)] valid_bind [OF Cons.IH] valid_return) auto
  have "valid env (since keyring d) (build_receipt_at_checkpoint keyring e c)
      (\<lambda>r w. receipt_in d c e r \<and> since keyring d w) X"
    by (rule valid_weaken [OF receipt_at_value [OF assms(1-4)]]) (use Cons.prems in auto)
  then show ?case
    unfolding collect_receipts.simps by (rule valid_bind) (rule valid_when [OF tail])
qed

text \<open>Why a build stops before it has an archive.\<close>

definition cancel_seen :: "package_row \<Rightarrow> exn \<Rightarrow> world \<Rightarrow> bool" where
  "cancel_seen p x w \<longleftrightarrow> x = BuildCancelRequested \<and>
     map_option pk_status (scalar (\<lambda>q. pk_id q = pk_id p) (packages (shared w))) = Some Cancelling"

lemma check_since:
  assumes "append_only keyring env"
  shows "valid env (since keyring d) (check_build_cancelled p) (\<lambda>_. since keyring d) (cancel_seen p)"
proof (rule validI)
  fix w assume "since keyring d w"
  then have "since keyring d (interfere env w)" "visible (interfere env w) = shared (interfere env w)"
    using since_interfere [OF assms] by (auto simp: since_def visible_def)
  then show "case check_build_cancelled p env w of (Inl x, w') \<Rightarrow> cancel_seen p x w' | (Inr _, w') \<Rightarrow> since keyring d w'"
    by (simp add: check_build_cancelled_def bind_op_def select_op_def raise_op_def return_op_def Let_def cancel_seen_def
        del: interfere_simps)
qed

lemma load_since:
  assumes "append_only keyring env" "ledger_ok d" "seals_ok keyring d" "c \<in> set (checkpoints d)"
    and "cp_checkpoint_id c = pk_checkpoint_id p"
    and "valid env (since keyring d) check (\<lambda>_. since keyring d) X"
    and "\<And>x w. X x w \<Longrightarrow> Y x w" "\<And>x w. boundary_events d c (pk_instrument_id p) = [] \<Longrightarrow> Y x w"
  shows "valid env (since keyring d) (load_bundle p keyring check) (\<lambda>b w. packed d c p b \<and> since keyring d w) Y"
proof -
  have check: "valid env (since keyring d) check (\<lambda>_. since keyring d) Y"
    by (rule valid_weaken [OF assms(6)]) (simp_all add: assms(7))
  let ?es = "boundary_events d c (pk_instrument_id p)"
  let ?R = "\<lambda>b w. packed d c p b \<and> since keyring d w"
  have es: "\<forall>e \<in> set ?es. e \<in> set (events d) \<and> ev_sequence e \<le> cp_last_event_sequence c"
    by (auto simp: boundary_events_def sealed_events_def set_events_up_to)
  have select: "valid env (since keyring d)
      (select_op (\<lambda>d. sort_key ev_sequence (filter (covers c (pk_instrument_id p)) (events d))))
      (\<lambda>es w. since keyring d w \<and> es = ?es) Y"
    by (rule since_select [OF assms(1) boundary_select [OF _ assms(3,4)]])
  obtain v where v: "checkpoint_view c = Inr v"
    using signed_view assms(3,4) by (fastforce simp: seals_ok_def sealed_ok_def)
  have rest: "valid env (since keyring d)
      (bind_op check (\<lambda>_. bind_op (collect_receipts keyring c check ?es) (\<lambda>entries.
         lift_op (map_result (\<lambda>checkpoint.
           \<lparr>pb_package_id = uuid_str (pk_package_id p), pb_idempotency_key = pk_idempotency_key p,
            pb_instrument_id = pk_instrument_id p, pb_checkpoint = checkpoint, pb_entries = entries\<rparr>)
           (checkpoint_view c))))) ?R Y"
    by (rule valid_bind [OF check], rule valid_bind [OF collect_since [OF assms(1-4) check es]],
        rule valid_lift) (auto simp: packed_def map_result_Inr_iff v)
  show ?thesis
    unfolding load_bundle_def assms(5) [symmetric]
    by (rule valid_known [OF find_checkpoint_since [OF assms(1,4)]], simp only: option.case,
        rule valid_bind [OF check], rule valid_known [OF select])
       (use rest assms(8) in \<open>simp add: valid_raise\<close>)
qed

subsection \<open>What an archive contains\<close>

lemma packed_unique:
  assumes "seals_ok keyring d" "packed d c p b" "packed d c q b'" "same_request p q"
  shows "b = b'"
proof -
  let ?P = "\<lambda>e entry :: receipt_entry. re_sequence entry = ev_sequence e \<and> receipt_in d c e (re_receipt entry)"
  have receipts: "r = r'" if "receipt_in d c e r" "receipt_in d c e r'" for e r r'
    using that linked_unique [OF assms(1)] unfolding receipt_in_def by fastforce
  have same: "x = y" if "re_sequence x = re_sequence y" "re_receipt x = re_receipt y" for x y :: receipt_entry
    using that by (intro receipt_entry.equality) simp_all
  have entries: "xs = ys" if "list_all2 ?P es xs" "list_all2 ?P es ys" for es xs ys
    using that
  proof (induction es arbitrary: xs ys)
    case (Cons e es)
    obtain x xs' where x: "xs = x # xs'" "?P e x" "list_all2 ?P es xs'"
      using Cons.prems(1) by (auto simp only: list_all2_Cons1)
    obtain y ys' where y: "ys = y # ys'" "?P e y" "list_all2 ?P es ys'"
      using Cons.prems(2) by (auto simp only: list_all2_Cons1)
    have "re_receipt x = re_receipt y"
      by (rule receipts [OF conjunct2 [OF x(2)] conjunct2 [OF y(2)]])
    moreover have "re_sequence x = re_sequence y"
      by (rule trans [OF conjunct1 [OF x(2)] sym [OF conjunct1 [OF y(2)]]])
    ultimately have "x = y"
      by (intro same)
    then show ?case
      using Cons.IH [OF x(3) y(3)] x(1) y(1) by simp
  qed simp
  show ?thesis
    using assms(2-4) entries by (intro package_bundle.equality) (auto simp: packed_def same_request_def)
qed

text \<open>The files of an archive: the events' receipts in order, and the manifest that lists them.\<close>

definition receipt_files :: "python \<Rightarrow> keyring \<Rightarrow> checkpoint_row \<Rightarrow> event_row list \<Rightarrow> (pystr \<times> bytes) list \<Rightarrow> bool" where
  "receipt_files rt keyring c es files \<longleftrightarrow>
     list_all2 (\<lambda>e file. \<exists>receipt.
       fst file = py ''receipts/event-'' @ zero_padded 20 (ev_sequence e) @ py ''.json'' \<and>
       canonical_json (JObj receipt) = Inr (snd file) \<and>
       receipt_of rt keyring e (witnessed_reply (uuid_str (cp_checkpoint_id c))) receipt) es files"

definition manifest_lists :: "(pystr \<times> bytes) list \<Rightarrow> bytes \<Rightarrow> bool" where
  "manifest_lists files data \<longleftrightarrow> (\<exists>manifest. canonical_json (JObj manifest) = Inr data \<and>
     map_of manifest (py ''files'') = Some (JArr (map (\<lambda>(path, bs). JObj
       [(py ''path'', JStr path), (py ''sha256'', JStr (hex (sha256 bs)))]) files)))"

lemma build_archive_files:
  assumes "build_archive zip_file b = Inr archive"
  obtains files data where
    "list_all2 (\<lambda>entry file. fst file = entry_name entry \<and> receipt_bytes entry = Inr (snd file)) (pb_entries b) files"
    "manifest_lists files data"
    "ba_content archive = zip_file (zip_directory # map zip_member (files @ [(manifest_name, data)]))"
    "ba_sha256 archive = hex (sha256 (ba_content archive))" "ba_size_bytes archive = int (length (ba_content archive))"
proof -
  obtain files manifest data where a: "traverse (\<lambda>entry. map_result (\<lambda>bs. (entry_name entry, bs)) (receipt_bytes entry))
      (pb_entries b) = Inr files"
    "build_manifest b (map (\<lambda>(name, bs). (name, sha256_hex bs)) files) = Inr manifest"
    "canonical_json (JObj manifest) = Inr data"
    "archive = (let content = zip_file (zip_directory # map zip_member (files @ [(manifest_name, data)])) in
       \<lparr>ba_content = content, ba_sha256 = hex (sha256 content), ba_size_bytes = int (length content),
        ba_manifest = manifest, ba_event_count = int (length (pb_entries b))\<rparr>)"
    using assms by (auto simp: build_archive_def result_simps map_result_Inr_iff)
  have "list_all2 (\<lambda>entry file. fst file = entry_name entry \<and> receipt_bytes entry = Inr (snd file)) (pb_entries b) files"
    using a(1) unfolding traverse_Inr_iff by (rule list_all2_mono) (auto simp: map_result_Inr_iff)
  moreover have "manifest_lists files data"
    using a(2,3)
    by (auto simp: manifest_lists_def build_manifest_def Let_def result_simps map_result_Inr_iff sha256_hex_def comp_def case_prod_unfold)
  ultimately show thesis
    using a(4) by (intro that) (simp_all add: Let_def)
qed

lemma packed_files:
  assumes "ledger_ok d" "seals_ok keyring d" "c \<in> set (checkpoints d)" "packed d c p b"
    and "list_all2 (\<lambda>entry file. fst file = entry_name entry \<and> receipt_bytes entry = Inr (snd file)) (pb_entries b) files"
  shows "receipt_files rt keyring c (boundary_events d c (pk_instrument_id p)) files"
proof -
  let ?es = "boundary_events d c (pk_instrument_id p)"
  have es: "\<forall>e \<in> set ?es. e \<in> set (events d) \<and> ev_sequence e \<le> cp_last_event_sequence c"
    by (auto simp: boundary_events_def sealed_events_def set_events_up_to)
  have "list_all2 (\<lambda>e entry. re_sequence entry = ev_sequence e \<and> receipt_in d c e (re_receipt entry)) ?es (pb_entries b)"
    using assms(4) by (simp add: packed_def)
  from list_all2_trans [OF _ this assms(5), of "\<lambda>e file. \<exists>receipt.
       fst file = py ''receipts/event-'' @ zero_padded 20 (ev_sequence e) @ py ''.json'' \<and>
       canonical_json (JObj receipt) = Inr (snd file) \<and> receipt_in d c e receipt"]
  have "list_all2 (\<lambda>e file. \<exists>receipt.
       fst file = py ''receipts/event-'' @ zero_padded 20 (ev_sequence e) @ py ''.json'' \<and>
       canonical_json (JObj receipt) = Inr (snd file) \<and> receipt_in d c e receipt) ?es files"
    by (auto simp: entry_name_def receipt_bytes_def)
  then show ?thesis
    unfolding receipt_files_def
    by (rule list.rel_mono_strong) (use es receipt_in_accepted [OF assms(1-3)] in blast)
qed

definition packs ::
    "zip_writer \<Rightarrow> ledger_db \<Rightarrow> checkpoint_row \<Rightarrow> package_row \<Rightarrow> built_archive \<Rightarrow> bool" where
  "packs zip_file d c p archive \<longleftrightarrow> (\<exists>b. packed d c p b \<and> build_archive zip_file b = Inr archive)"

lemma render_since:
  assumes "append_only keyring env" "ledger_ok d" "seals_ok keyring d" "c \<in> set (checkpoints d)"
    and "cp_checkpoint_id c = pk_checkpoint_id p"
  shows "valid env (since keyring d) (render_package zip_file p keyring)
    (\<lambda>archive _. packs zip_file d c p archive)
    (\<lambda>x w. cancel_seen p x w \<or> boundary_events d c (pk_instrument_id p) = [] \<or>
       (\<exists>b. packed d c p b \<and> build_archive zip_file b = Inl x))"
proof -
  let ?E = "\<lambda>x w. cancel_seen p x w \<or> boundary_events d c (pk_instrument_id p) = [] \<or>
       (\<exists>b. packed d c p b \<and> build_archive zip_file b = Inl x)"
  have check: "valid env (since keyring d) (check_build_cancelled p) (\<lambda>_. since keyring d) ?E"
    by (rule valid_weaken [OF check_since [OF assms(1)]]) simp_all
  have "valid env (since keyring d)
      (bind_op (check_build_cancelled p) (\<lambda>_. lift_op (build_archive zip_file b)))
      (\<lambda>archive _. packs zip_file d c p archive) ?E"
    if "packed d c p b" for b
    by (rule valid_bind [OF check], rule valid_lift) (use that in \<open>auto simp: packs_def\<close>)
  then show ?thesis
    unfolding render_package_def
    by (intro valid_bind [OF load_since [OF assms check_since [OF assms(1)], where Y = ?E]] valid_when) simp_all
qed

lemma stored_archive:
  assumes "package_env env" "append_only keyring env"
    and "ledger_ok d" "seals_ok keyring d" "c \<in> set (checkpoints d)" "cp_checkpoint_id c = pk_checkpoint_id p"
    and "mine w = []" "package_table (shared w)" "extends keyring d (shared w)"
    and "build_once zip_file exception_text p keyring env w = (r, w')"
    and "InsertArtifact a \<in> set (drop (length (written w)) (written w'))"
  obtains archive where "packs zip_file d c p archive" "ar_zip_content a = ba_content archive"
    "ar_sha256 a = ba_sha256 archive" "ar_size_bytes a = ba_size_bytes archive"
proof -
  have "valid env (since keyring d) (render_package zip_file p keyring)
      (\<lambda>archive _. packs zip_file d c p archive) (\<lambda>_ _. True)"
    by (rule valid_weaken [OF render_since [OF assms(2-6)]]) simp_all
  note build = build_effect [OF assms(1) this, of w exception_text]
  have w: "idle w w \<and> since keyring d w"
    using assms(7-9) idle_start by (simp add: since_def)
  show thesis
  proof (cases r)
    case (Inl x)
    then have "written w' = written w"
      using valid_Inl [OF build w] assms(10) by (simp add: effect_def)
    then show thesis
      using assms(11) by simp
  next
    case (Inr outcome)
    then obtain archive ms where "\<forall>x. archive = Some x \<longrightarrow> packs zip_file d c p x" "built archive outcome ms"
        "written w' = written w @ ms"
      using valid_Inr [OF build w] assms(10) unfolding effect_def by blast
    then show thesis
      using assms(11) that by (auto simp: built_def)
  qed
qed

subsection \<open>An undisturbed build succeeds\<close>

lemma build_archive_ok:
  assumes "ledger_ok d" "seals_ok keyring d" "c \<in> set (checkpoints d)" "packed d c p b"
    and "text_ok (pk_idempotency_key p)" "text_ok (pk_instrument_id p)"
  shows "\<exists>archive. build_archive zip_file b = Inr archive"
proof -
  let ?es = "boundary_events d c (pk_instrument_id p)"
  have view: "checkpoint_view c = Inr (pb_checkpoint b)" "pb_idempotency_key b = pk_idempotency_key p"
      "pb_instrument_id b = pk_instrument_id p" "pb_package_id b = uuid_str (pk_package_id p)"
    using assms(4) by (simp_all add: packed_def)
  have "\<exists>bs. receipt_bytes entry = Inr bs" if "entry \<in> set (pb_entries b)" for entry
  proof -
    have "\<exists>e \<in> set ?es. receipt_in d c e (re_receipt entry)"
      using assms(4) that unfolding packed_def list_all2_conv_all_nth in_set_conv_nth by (metis nth_mem)
    then obtain e where "e \<in> set (events d)" "receipt_in d c e (re_receipt entry)"
      by (auto simp: boundary_events_def sealed_events_def set_events_up_to)
    then show ?thesis
      using writable_ok receipt_writable [OF assms(1-3)] by (simp add: receipt_bytes_def)
  qed
  then obtain g where "\<And>entry. entry \<in> set (pb_entries b) \<Longrightarrow> receipt_bytes entry = Inr (g entry)"
    by metis
  then have files: "traverse (\<lambda>entry. map_result (\<lambda>bs. (entry_name entry, bs)) (receipt_bytes entry)) (pb_entries b) =
      Inr (map (\<lambda>entry. (entry_name entry, g entry)) (pb_entries b))" (is "_ = Inr ?files")
    by (intro traverse_all_Inr) simp
  have names: "text_ok (entry_name entry)" for entry
  proof -
    have "text_ok (nat_text n)" for n
      using nat_text_digits [of n] by (auto simp: text_ok_def intro!: encodable_ascii)
    moreover have "text_ok (replicate n 48)" for n
      by (auto simp: text_ok_def intro!: encodable_ascii)
    ultimately show ?thesis
      by (simp add: entry_name_def zero_padded_def text_ok_py encodable_ascii)
  qed
  have sealed: "sealed_ok keyring (events d) c"
    using assms(2,3) by (simp add: seals_ok_def)
  have boundary: "writable (JObj (pb_checkpoint b))" "text_ok (cp_root_hash c)"
    using checkpoint_view_writable [OF sealed view(1)] sealed by (simp_all add: sealed_ok_def)
  have fields: "subscript (JObj (pb_checkpoint b)) ''leaf_count'' = Inr (JInt (cp_leaf_count c))"
      "subscript (JObj (pb_checkpoint b)) ''root_hash'' = Inr (JStr (cp_root_hash c))"
      "subscript (JObj (pb_checkpoint b)) ''last_event_sequence'' = Inr (JInt (cp_last_event_sequence c))"
    using view(1) checkpoint_view_fields [OF view(1)]
    by (auto simp: checkpoint_view_payload checkpoint_payload_def result_simps subscript_def)
  obtain manifest where manifest: "build_manifest b (map (\<lambda>(name, bs). (name, sha256_hex bs)) ?files) = Inr manifest"
    using fields by (auto simp: build_manifest_def Let_def)
  have "writable (JObj manifest)"
    using manifest fields boundary names assms(5,6) view(2-4)
    by (auto simp: build_manifest_def Let_def writable_obj [of "_ # _"] text_ok_py)
  then obtain data where "canonical_json (JObj manifest) = Inr data"
    using writable_ok by blast
  with files manifest show ?thesis
    by (simp add: build_archive_def)
qed

lemma quiet_keeps:
  assumes "quiet env"
  shows "stable env (\<lambda>w. at_db d w \<and> written w = ws)"
  using assms by (auto simp: stable_def at_db_def quiet_interfere)

lemma quiet_store_ready:
  assumes "quiet env" "postgresql env" "package_table d" "p \<in> set (packages d)" "pk_status p = Building"
    and "\<forall>a \<in> set (artifacts d). ar_package_id a \<noteq> pk_package_id p"
    and "at_db d w"
  shows "\<exists>w' a. store_archive p archive env w = (Inr (Settled Ready), w') \<and>
    InsertArtifact a \<in> set (drop (length (written w)) (written w'))"
proof -
  have p: "scalar (\<lambda>q. pk_id q = pk_id p) (packages d) = Some p" "package_ok p"
    using assms(3,4)
    by (auto simp: package_table_def distinct_map dest: inj_onD intro!: scalar_unique)
  have "package_check (apply_ready archive now p)" for now
    using package_ok_check [OF package_step_ok [OF ready [OF assms(5)] p(2)]] .
  moreover have "others env = (\<lambda>_ _ _ d. d)"
    using assms(1) by (simp add: quiet_def)
  ultimately show ?thesis
    using assms(2-7) p(1)
    by (auto simp: store_archive_def lock_claimed_def transaction_def bind_op_def lock_row_def clock_op_def
      insert_artifact_def update_package_def return_op_def Let_def at_db_def visible_def
      artifact_fits_def new_artifact_def)
qed

lemma quiet_build_ready:
  assumes "quiet env" "postgresql env" "ledger_ok d" "seals_ok keyring d" "c \<in> set (checkpoints d)"
    and "cp_checkpoint_id c = pk_checkpoint_id p" "boundary_events d c (pk_instrument_id p) \<noteq> []"
    and "text_ok (pk_idempotency_key p)" "text_ok (pk_instrument_id p)"
    and "package_table d" "p \<in> set (packages d)" "pk_status p = Building"
    and "\<forall>a \<in> set (artifacts d). ar_package_id a \<noteq> pk_package_id p" "at_db d w"
  shows "\<exists>w' a. build_once zip_file exception_text p keyring env w = (Inr (Settled Ready), w') \<and>
    InsertArtifact a \<in> set (drop (length (written w)) (written w'))"
proof -
  obtain r w' where run: "render_package zip_file p keyring env w = (r, w')"
    by fastforce
  have w': "at_db d w'" "written w' = written w"
    using keepsD [OF keeps_render [OF quiet_keeps [OF assms(1)]] _ run, of d "written w"] assms(14) by simp_all
  have "scalar (\<lambda>q. pk_id q = pk_id p) (packages d) = Some p"
    using assms(10,11) by (auto simp: package_table_def distinct_map dest: inj_onD intro!: scalar_unique)
  then have undisturbed: "\<not> cancel_seen p x w'" for x
    using w'(1) assms(12) by (simp add: cancel_seen_def at_db_def)
  have w: "since keyring d w"
    using assms(3,4,14) by (auto simp: at_db_def intro: start_since)
  note render = render_since [OF quiet_append_only [OF assms(1)] assms(3-6), of zip_file]
  show ?thesis
  proof (cases r)
    case (Inl x)
    then have "\<exists>b. packed d c p b \<and> build_archive zip_file b = Inl x"
      using valid_Inl [OF render w] run undisturbed assms(7) by blast
    then show ?thesis
      using build_archive_ok [OF assms(3-5) _ assms(8,9), of _ zip_file] by fastforce
  next
    case (Inr archive)
    then have "build_once zip_file exception_text p keyring env w = store_archive p archive env w'"
      using run by (simp add: build_once_def)
    then show ?thesis
      using quiet_store_ready [OF assms(1,2,10-13) w'(1), of archive] w'(2) by simp
  qed
qed

text \<open>
  C8: archives are reproducible. Two builds of the same request, by any workers, at any times
  and whatever other transactions commit meanwhile, store the same bytes. They are the zip archive of
  one file per event of the instrument within the boundary, in the order of the log, holding the
  canonical bytes of a receipt of that event which \<open>verify_receipt\<close> accepts as witnessed by the
  boundary checkpoint, and of a manifest that lists the digest of each of these files; the recorded
  digest and size are those of the bytes.
\<close>

theorem archives_are_reproducible:
  assumes "package_env env" "append_only keyring env" "package_env env'" "append_only keyring env'"
    and "ledger_ok d" "seals_ok keyring d" "c \<in> set (checkpoints d)" "cp_checkpoint_id c = pk_checkpoint_id p"
    and "mine w = []" "package_table (shared w)" "extends keyring d (shared w)"
    and "build_once zip_file exception_text p keyring env w = (r, w')"
    and "InsertArtifact a \<in> set (drop (length (written w)) (written w'))"
    and "same_request p q" "mine v = []" "package_table (shared v)" "extends keyring d (shared v)"
    and "build_once zip_file exception_text' q keyring env' v = (r', v')"
    and "InsertArtifact b \<in> set (drop (length (written v)) (written v'))"
  shows "ar_zip_content b = ar_zip_content a \<and>
    (\<exists>files manifest. receipt_files rt keyring c (boundary_events d c (pk_instrument_id p)) files \<and>
       manifest_lists files manifest \<and>
       ar_zip_content a = zip_file (zip_directory # map zip_member (files @ [(manifest_name, manifest)]))) \<and>
    ar_sha256 a = hex (sha256 (ar_zip_content a)) \<and> ar_size_bytes a = int (length (ar_zip_content a))"
proof -
  obtain x where x: "packs zip_file d c p x" "ar_zip_content a = ba_content x" "ar_sha256 a = ba_sha256 x"
      "ar_size_bytes a = ba_size_bytes x"
    by (rule stored_archive [OF assms(1,2,5-13)])
  have "cp_checkpoint_id c = pk_checkpoint_id q"
    using assms(8,14) by (simp add: same_request_def)
  then obtain y where y: "packs zip_file d c q y" "ar_zip_content b = ba_content y"
    using stored_archive [OF assms(3-7) _ assms(15-19)] by metis
  obtain m where m: "packed d c p m" "build_archive zip_file m = Inr x"
    using x(1) by (auto simp: packs_def)
  have "x = y"
    using y(1) m packed_unique [OF assms(6) m(1) _ assms(14)] by (auto simp: packs_def)
  obtain files data where f:
    "list_all2 (\<lambda>entry file. fst file = entry_name entry \<and> receipt_bytes entry = Inr (snd file)) (pb_entries m) files"
    "manifest_lists files data"
    "ba_content x = zip_file (zip_directory # map zip_member (files @ [(manifest_name, data)]))"
    "ba_sha256 x = hex (sha256 (ba_content x))" "ba_size_bytes x = int (length (ba_content x))"
    by (rule build_archive_files [OF m(2)])
  show ?thesis
    unfolding x(2-4) y(2) \<open>x = y\<close> [symmetric]
    by (intro conjI exI [of _ files] exI [of _ data] refl f(2-5) packed_files [OF assms(5-7) m(1) f(1)])
qed

text \<open>A building package on the sealed sample ledger.\<close>

definition claimed_sample :: "event_row \<Rightarrow> checkpoint_row \<Rightarrow> package_row" where
  "claimed_sample e c =
     apply_claim (py ''worker'') (ev_occurred_at e) (ev_occurred_at e) 1
       (new_package 7 (py ''key'') (py ''fp'') (ev_instrument_id e) (cp_checkpoint_id c) (ev_occurred_at e))"

lemma committed_instrument:
  assumes "committed e"
  shows "text_ok (ev_instrument_id e)"
proof -
  obtain v where v: "event_view e = Inr v"
    using committed_view [OF assms] by blast
  then have "(py ''instrument_id'', JStr (ev_instrument_id e)) \<in> set v"
    by (auto simp: event_view_def event_commitment_def result_simps)
  then show ?thesis
    using event_view_writable [OF assms v] by (auto simp: writable_obj [of v])
qed

lemma claimed_sample_table:
  "package_table (d\<lparr>packages := [claimed_sample e c], next_package := 1, artifacts := []\<rparr>)"
proof -
  have "package_ok (claimed_sample e c)"
    unfolding claimed_sample_def
    by (simp add: package_ok_def package_check_def package_state_shape_def new_package_def apply_claim_def)
  then show ?thesis
    by (simp add: package_table_def claimed_sample_def apply_claim_def new_package_def)
qed

definition claimed_world :: "world \<Rightarrow> event_row \<Rightarrow> checkpoint_row \<Rightarrow> world" where
  "claimed_world w e c = w\<lparr>shared := (shared w)\<lparr>packages := [claimed_sample e c], next_package := 1, artifacts := []\<rparr>\<rparr>"

lemma sample_envs_pg: "postgresql fixed_env" "postgresql quiet_env"
  by (simp_all add: fixed_env_def quiet_env_def)

lemma claimed_build:
  assumes "sound_world sample_sealer w" "c \<in> set (checkpoints (shared w))" "e \<in> set (events (shared w))"
    and "ev_sequence e \<le> cp_last_event_sequence c" "quiet env" "postgresql env"
  defines "v \<equiv> claimed_world w e c" and "k \<equiv> sl_keyring sample_sealer"
  shows "package_env env" "append_only k env" "ledger_ok (shared v)" "seals_ok k (shared v)"
    "c \<in> set (checkpoints (shared v))" "cp_checkpoint_id c = pk_checkpoint_id (claimed_sample e c)"
    "mine v = []" "package_table (shared v)" "extends k (shared v) (shared v)"
    "boundary_events (shared v) c (pk_instrument_id (claimed_sample e c)) \<noteq> []"
    "\<exists>v' a. build_once zip_file exception_text (claimed_sample e c) k env v = (Inr (Settled Ready), v') \<and>
       InsertArtifact a \<in> set (drop (length (written v)) (written v'))"
proof -
  let ?p = "claimed_sample e c"
  have v: "shared v = (shared w)\<lparr>packages := [?p], next_package := 1, artifacts := []\<rparr>"
    by (simp add: v_def claimed_world_def)
  show d: "ledger_ok (shared v)" "seals_ok k (shared v)" "mine v = []" "c \<in> set (checkpoints (shared v))"
    using assms(1,2) by (simp_all add: v_def k_def claimed_world_def sound_world_def ledger_ok_def seals_ok_def)
  show table: "package_table (shared v)"
    unfolding v by (rule claimed_sample_table)
  show "extends k (shared v) (shared v)"
    using extends_refl [OF d(1,2)] .
  show env: "package_env env" "append_only k env"
    using quiet_package_env [OF assms(5,6)] quiet_append_only [OF assms(5)] .
  have p: "pk_instrument_id ?p = ev_instrument_id e" "pk_status ?p = Building" "text_ok (pk_idempotency_key ?p)"
      "text_ok (pk_instrument_id ?p)"
    using assms(1,3) ledger_okD(3) committed_instrument
    by (auto simp: claimed_sample_def apply_claim_def new_package_def text_ok_py sound_world_def)
  show id: "cp_checkpoint_id c = pk_checkpoint_id ?p"
    by (simp add: claimed_sample_def apply_claim_def new_package_def)
  show es: "boundary_events (shared v) c (pk_instrument_id ?p) \<noteq> []"
    using assms(3,4) p(1)
    by (auto simp: v boundary_events_def sealed_events_def set_events_up_to filter_empty_conv)
  show "\<exists>v' a. build_once zip_file exception_text ?p k env v = (Inr (Settled Ready), v') \<and>
       InsertArtifact a \<in> set (drop (length (written v)) (written v'))"
    by (rule quiet_build_ready [OF assms(5,6) d(1,2,4) id es p(3,4) table _ p(2)])
       (use d(3) in \<open>simp_all add: at_db_def v\<close>)
qed

theorem archives_are_reproducible_witness:
  "\<exists>w p c a b v v'. build_once concat_zip (\<lambda>_. []) p (sl_keyring sample_sealer) fixed_env w = (Inr (Settled Ready), v) \<and>
     build_once concat_zip (\<lambda>_. []) p (sl_keyring sample_sealer) quiet_env w = (Inr (Settled Ready), v') \<and>
     InsertArtifact a \<in> set (drop (length (written w)) (written v)) \<and>
     InsertArtifact b \<in> set (drop (length (written w)) (written v')) \<and>
     ar_zip_content b = ar_zip_content a \<and> ar_sha256 a = hex (sha256 (ar_zip_content a)) \<and>
     (\<exists>files. receipt_files plain_python (sl_keyring sample_sealer) c
        (boundary_events (shared w) c (pk_instrument_id p)) files \<and> files \<noteq> [])"
proof -
  obtain w0 c e where w0: "sound_world sample_sealer w0" "c \<in> set (checkpoints (shared w0))"
      "e \<in> set (events (shared w0))" "ev_sequence e \<le> cp_last_event_sequence c"
    by (rule sample_archive)
  let ?k = "sl_keyring sample_sealer" and ?p = "claimed_sample e c" and ?w = "claimed_world w0 e c"
  note s = claimed_build [OF w0 fixed_env(1) sample_envs_pg(1)] and t = claimed_build [OF w0 quiet_env(1) sample_envs_pg(2)]
  obtain v a where v: "build_once concat_zip (\<lambda>_. []) ?p ?k fixed_env ?w = (Inr (Settled Ready), v)"
      "InsertArtifact a \<in> set (drop (length (written ?w)) (written v))"
    using s(11) by blast
  obtain v' b where v': "build_once concat_zip (\<lambda>_. []) ?p ?k quiet_env ?w = (Inr (Settled Ready), v')"
      "InsertArtifact b \<in> set (drop (length (written ?w)) (written v'))"
    using t(11) by blast
  have "same_request ?p ?p"
    by (simp add: same_request_def)
  note result = archives_are_reproducible [OF s(1,2) t(1,2) s(3-9) v this t(7-9) v', where rt = plain_python]
  then obtain files where files: "receipt_files plain_python ?k c (boundary_events (shared ?w) c (pk_instrument_id ?p)) files"
    by blast
  moreover have "files \<noteq> []"
    using s(10) files by (auto simp: receipt_files_def)
  ultimately have "\<exists>files. receipt_files plain_python ?k c (boundary_events (shared ?w) c (pk_instrument_id ?p)) files \<and>
      files \<noteq> []"
    by auto
  with v v' result show ?thesis
    by blast
qed

end
