(* ===== verification/Audit_Consumer.thy ===== *)
theory Audit_Consumer
  imports Event_Service Proofs
begin

section \<open>Audit consumers\<close>

text \<open>
  \<open>AuditConsumerService\<close> of \<open>src/ledger/audit/consumers.py\<close>: external audit systems register and
  acknowledge one checkpoint after the other; the stored cursor is moved by a conditional update.
\<close>

definition new_consumer :: "uuid \<Rightarrow> pystr \<Rightarrow> pystr \<Rightarrow> datetime \<Rightarrow> consumer_row" where
  "new_consumer consumer_id consumer_name idempotency_key now =
     \<lparr>co_id = 0, co_consumer_id = consumer_id, co_consumer_name = consumer_name,
      co_idempotency_key = idempotency_key, co_last_checkpoint_id = None, co_created_at = now,
      co_updated_at = now, co_last_acknowledged_at = None\<rparr>"

definition consumer_replay :: "consumer_row \<Rightarrow> pystr \<Rightarrow> unit result" where
  "consumer_replay existing consumer_name =
     (if co_consumer_name existing = consumer_name then Inr ()
      else Inl (ledger_error ''IDEMPOTENCY_CONFLICT''
        ''idempotency key was already used with different parameters'' 409
        [(py ''idempotency_key'', JStr (co_idempotency_key existing)),
         (py ''consumer_id'', JStr (uuid_str (co_consumer_id existing))),
         (py ''consumer_name'', JStr (co_consumer_name existing))]))"

definition find_consumer_key :: "pystr \<Rightarrow> consumer_row option op" where
  "find_consumer_key idempotency_key =
     select_op (\<lambda>d. scalar (\<lambda>c. co_idempotency_key c = idempotency_key) (consumers d))"

definition answer_consumer :: "consumer_row \<Rightarrow> pystr \<Rightarrow> (consumer_row \<times> bool) op" where
  "answer_consumer existing consumer_name =
     lift_op (map_result (\<lambda>_. (existing, False)) (consumer_replay existing consumer_name))"

definition register_consumer :: "pystr \<Rightarrow> pystr \<Rightarrow> (consumer_row \<times> bool) op" where
  "register_consumer consumer_name idempotency_key =
     on_integrity_error
       (transaction (bind_op (find_consumer_key idempotency_key) (\<lambda>found.
          case found of
            Some existing \<Rightarrow> answer_consumer existing consumer_name
          | None \<Rightarrow>
              bind_op clock_op (\<lambda>now.
              bind_op uuid_op (\<lambda>consumer_id.
              bind_op (insert_consumer (new_consumer consumer_id consumer_name idempotency_key now)) (\<lambda>row.
                return_op (row, True)))))))
       (bind_op (find_consumer_key idempotency_key) (\<lambda>found.
          case found of
            Some existing \<Rightarrow> answer_consumer existing consumer_name
          | None \<Rightarrow> raise_op IntegrityError))"

definition get_consumer :: "uuid \<Rightarrow> consumer_row op" where
  "get_consumer consumer_id =
     bind_op (select_op (\<lambda>d. scalar (\<lambda>c. co_consumer_id c = consumer_id) (consumers d))) (\<lambda>found.
       case found of
         None \<Rightarrow> raise_op (NotFoundError ''audit_consumer'' (uuid_str consumer_id))
       | Some c \<Rightarrow> return_op c)"

subsection \<open>Acknowledging\<close>

datatype conflict_reason = NotFirst | Skipped | Regressed | Duplicate

fun conflict_text :: "conflict_reason \<Rightarrow> string" where
  "conflict_text NotFirst = ''checkpoint_is_not_first''"
| "conflict_text Skipped = ''checkpoint_is_not_successor''"
| "conflict_text Regressed = ''checkpoint_precedes_current''"
| "conflict_text Duplicate = ''checkpoint_already_acknowledged''"

definition acknowledgement_conflict ::
    "consumer_row \<Rightarrow> conflict_reason \<Rightarrow> checkpoint_row option \<Rightarrow> checkpoint_row \<Rightarrow> exn" where
  "acknowledgement_conflict consumer reason current submitted =
     ledger_error ''ACKNOWLEDGEMENT_CONFLICT''
       ''the checkpoint cannot follow the consumer's current acknowledgement point'' 409
       [(py ''reason'', JStr (py (conflict_text reason))),
        (py ''consumer_id'', JStr (uuid_str (co_consumer_id consumer))),
        (py ''submitted_checkpoint_id'', JStr (uuid_str (cp_checkpoint_id submitted))),
        (py ''submitted_leaf_count'', JInt (cp_leaf_count submitted)),
        (py ''current_checkpoint_id'', opt_uuid (map_option cp_checkpoint_id current)),
        (py ''current_leaf_count'', opt_int (map_option cp_leaf_count current)),
        (py ''expected_predecessor_checkpoint_id'', opt_uuid (map_option cp_checkpoint_id current))]"

definition classify :: "checkpoint_row option \<Rightarrow> checkpoint_row \<Rightarrow> conflict_reason option" where
  "classify current submitted =
     (case current of
        None \<Rightarrow> if cp_previous_checkpoint_id submitted = None then None else Some NotFirst
      | Some c \<Rightarrow>
          if cp_checkpoint_id submitted = cp_checkpoint_id c then Some Duplicate
          else if cp_leaf_count submitted < cp_leaf_count c then Some Regressed
          else if cp_previous_checkpoint_id submitted \<noteq> Some (cp_checkpoint_id c) then Some Skipped
          else None)"

definition cursor_matches :: "uuid option \<Rightarrow> consumer_row \<Rightarrow> bool" where
  "cursor_matches predecessor_id c \<longleftrightarrow>
     (case predecessor_id of
        None \<Rightarrow> co_last_checkpoint_id c = None
      | Some i \<Rightarrow> co_last_checkpoint_id c = Some i)"

definition current_checkpoint :: "consumer_row \<Rightarrow> checkpoint_row option op" where
  "current_checkpoint consumer =
     (case co_last_checkpoint_id consumer of
        None \<Rightarrow> return_op None
      | Some i \<Rightarrow> find_checkpoint i)"

definition apply_acknowledged :: "uuid \<Rightarrow> datetime \<Rightarrow> consumer_row \<Rightarrow> consumer_row" where
  "apply_acknowledged i now c =
     c\<lparr>co_last_checkpoint_id := Some i, co_last_acknowledged_at := Some now, co_updated_at := now\<rparr>"

text \<open>\<open>populate_existing\<close> re-reads the row; after a lost race the code takes it to exist.\<close>

definition find_consumer_row :: "consumer_row \<Rightarrow> consumer_row option op" where
  "find_consumer_row consumer = select_op (\<lambda>d. scalar (\<lambda>c. co_id c = co_id consumer) (consumers d))"

definition lost_race :: "consumer_row \<Rightarrow> checkpoint_row \<Rightarrow> 'a op" where
  "lost_race consumer submitted =
     bind_op (find_consumer_row consumer) (\<lambda>found.
       case found of
         None \<Rightarrow> raise_op AttributeError
       | Some now_consumer \<Rightarrow>
           bind_op (current_checkpoint now_consumer) (\<lambda>current.
             raise_op (acknowledgement_conflict now_consumer
               (case classify current submitted of Some reason \<Rightarrow> reason | None \<Rightarrow> Skipped)
               current submitted)))"

text \<open>The part after the checkpoints are read: classify, and compare and set.\<close>

definition move_cursor :: "consumer_row \<Rightarrow> uuid option \<Rightarrow> checkpoint_row \<Rightarrow> datetime \<Rightarrow>
    (consumer_row option \<times> checkpoint_row \<times> bool) op" where
  "move_cursor consumer predecessor_id submitted now =
     bind_op (update_consumers_where
       (\<lambda>c. co_id c = co_id consumer \<and> cursor_matches predecessor_id c)
       (apply_acknowledged (cp_checkpoint_id submitted) now)) (\<lambda>count.
     if count = 0 then lost_race consumer submitted
     else bind_op (find_consumer_row consumer) (\<lambda>c. return_op (c, submitted, True)))"

definition advance_cursor :: "consumer_row \<Rightarrow> checkpoint_row option \<Rightarrow> checkpoint_row \<Rightarrow>
    (consumer_row option \<times> checkpoint_row \<times> bool) op" where
  "advance_cursor consumer current submitted =
     (case classify current submitted of
        Some reason \<Rightarrow> raise_op (acknowledgement_conflict consumer reason current submitted)
      | None \<Rightarrow> bind_op clock_op (move_cursor consumer (map_option cp_checkpoint_id current) submitted))"

definition acknowledge_checkpoint ::
    "uuid \<Rightarrow> uuid \<Rightarrow> (consumer_row option \<times> checkpoint_row \<times> bool) op" where
  "acknowledge_checkpoint consumer_id checkpoint_id =
     transaction (bind_op (get_consumer consumer_id) (\<lambda>consumer.
     bind_op (find_checkpoint checkpoint_id) (\<lambda>found.
       case found of
         None \<Rightarrow> raise_op (NotFoundError ''checkpoint'' (uuid_str checkpoint_id))
       | Some submitted \<Rightarrow>
           bind_op (current_checkpoint consumer) (\<lambda>current. advance_cursor consumer current submitted))))"

end
