(* ===== verification/Consumer_Claims.thy ===== *)
theory Consumer_Claims
  imports Audit_Consumer Proof_Claims
begin

section \<open>Properties of acknowledgements\<close>

text \<open>
  The cursor of an audit consumer walks along the checkpoint chain, one checkpoint per accepted
  acknowledgement, whoever else acknowledges for the same consumer at the same time.
\<close>

subsection \<open>The cursor on the chain\<close>

definition cursor_at :: "checkpoint_row list \<Rightarrow> nat \<Rightarrow> consumer_row \<Rightarrow> bool" where
  "cursor_at cs k r \<longleftrightarrow> k \<le> length cs \<and>
     co_last_checkpoint_id r = (if k = 0 then None else Some (cp_checkpoint_id (cs ! (k - 1))))"

lemma chained_nth:
  "chained p cs \<Longrightarrow> i < length cs \<Longrightarrow> follows (if i = 0 then p else Some (cs ! (i - 1))) (cs ! i)"
proof (induction cs arbitrary: p i)
  case (Cons c cs)
  show ?case
  proof (cases i)
    case 0
    then show ?thesis using Cons.prems by simp
  next
    case (Suc j)
    then have "follows (if j = 0 then Some c else Some (cs ! (j - 1))) (cs ! j)"
      using Cons.IH [of "Some c" j] Cons.prems by simp
    then show ?thesis
      by (cases j) (simp_all add: Suc)
  qed
qed simp

lemma classify_None:
  "classify current submitted = None \<Longrightarrow> cp_previous_checkpoint_id submitted = map_option cp_checkpoint_id current"
  by (auto simp: classify_def split: option.splits if_splits)

lemma cursor_matches_iff [simp]: "cursor_matches p r \<longleftrightarrow> co_last_checkpoint_id r = p"
  by (auto simp: cursor_matches_def split: option.splits)

subsection \<open>The table\<close>

definition consumer_table :: "ledger_db \<Rightarrow> bool" where
  "consumer_table d \<longleftrightarrow> distinct (map co_id (consumers d))"

definition consumer_in :: "ledger_db \<Rightarrow> int \<Rightarrow> uuid \<Rightarrow> bool" where
  "consumer_in d i u \<longleftrightarrow> (\<exists>r \<in> set (consumers d). co_id r = i \<and> co_consumer_id r = u)"

text \<open>The others neither remove a consumer nor give it another identity.\<close>

definition keeps_consumers :: "environment \<Rightarrow> bool" where
  "keeps_consumers env \<longleftrightarrow> (\<forall>n h ws d. consumer_table d \<longrightarrow> consumer_table (others env n h ws d) \<and>
     (\<forall>i u. consumer_in d i u \<longrightarrow> consumer_in (others env n h ws d) i u))"

definition consumer_env :: "keyring \<Rightarrow> environment \<Rightarrow> bool" where
  "consumer_env keyring env \<longleftrightarrow> respects_locks env \<and> keeps_consumers env \<and> append_only keyring env"

text \<open>
  \<open>acking w0 P ms w\<close>: the transaction started at \<open>w0\<close>, has made the changes \<open>ms\<close>, and the facts \<open>P\<close> about
  the stored tables hold.
\<close>

definition acking :: "keyring \<Rightarrow> world \<Rightarrow> row_change list \<Rightarrow> world \<Rightarrow> bool" where
  "acking keyring w0 ms w \<longleftrightarrow> mine w = ms \<and> written w = written w0 \<and> consumer_table (shared w) \<and>
     extends keyring (shared w0) (shared w)"

definition changes_consumer :: "row_change list \<Rightarrow> bool" where
  "changes_consumer ms \<longleftrightarrow> (\<forall>m \<in> set ms. \<exists>r. m = UpdateConsumer r)"

lemma apply_consumer_changes:
  "changes_consumer ms \<Longrightarrow> events (apply_changes ms d) = events d \<and> checkpoints (apply_changes ms d) = checkpoints d \<and>
     next_sequence (apply_changes ms d) = next_sequence d"
  by (induction ms rule: rev_induct) (auto simp: changes_consumer_def)

lemma acking_interfere:
  assumes "consumer_env keyring env" "acking keyring w0 ms w" "changes_consumer ms"
  shows "acking keyring w0 ms (interfere env w)"
proof -
  let ?d' = "others env (tick w) (held w) (mine w) (shared w)"
  have w: "mine w = ms" "extends keyring (shared w0) (shared w)" "consumer_table (shared w)" "written w = written w0"
    using assms(2) by (simp_all add: acking_def)
  have "ledger_ok (shared w)" "seals_ok keyring (shared w)"
    using extendsD [OF w(2)] by simp_all
  moreover have "ledger_ok (apply_changes (mine w) (shared w))"
    using apply_consumer_changes [OF assms(3), of "shared w"] \<open>ledger_ok (shared w)\<close> by (simp add: ledger_ok_def w(1))
  ultimately have "ledger_ok ?d' \<and> grows (shared w) ?d'" "seals_ok keyring ?d'"
      "\<exists>cs. checkpoints ?d' = checkpoints (shared w) @ cs"
    using assms(1) unfolding consumer_env_def append_only_def orderly_def keeps_seals_def by blast+
  then have "extends keyring (shared w) ?d'"
    by (auto simp: extends_def grows_def)
  moreover have "consumer_table ?d'"
    using assms(1) w(3) unfolding consumer_env_def keeps_consumers_def by blast
  ultimately show ?thesis
    using w extends_trans [OF w(2)] by (simp add: acking_def)
qed

lemma consumer_in_interfere:
  assumes "consumer_env keyring env" "consumer_table (shared w)" "consumer_in (shared w) i u"
  shows "consumer_in (shared (interfere env w)) i u"
  using assms by (simp add: consumer_env_def keeps_consumers_def)

lemma acking_log [simp]: "acking keyring w0 ms (log_entry s w) = acking keyring w0 ms w"
  by (simp add: acking_def)

lemma acking_tick [simp]: "acking keyring w0 ms (w\<lparr>tick := n\<rparr>) = acking keyring w0 ms w"
  by (simp add: acking_def)

subsection \<open>The statements\<close>

text \<open>What is known before the update: the consumer exists, and so do the checkpoints read.\<close>

definition reading :: "keyring \<Rightarrow> world \<Rightarrow> int \<Rightarrow> uuid \<Rightarrow> checkpoint_row set \<Rightarrow> world \<Rightarrow> bool" where
  "reading keyring w0 i u cs w \<longleftrightarrow>
     acking keyring w0 [] w \<and> consumer_in (shared w) i u \<and> cs \<subseteq> set (checkpoints (shared w))"

lemma reading_interfere:
  assumes "consumer_env keyring env" "reading keyring w0 i u cs w"
  shows "reading keyring w0 i u cs (interfere env w)"
proof -
  have w: "acking keyring w0 [] w" "consumer_in (shared w) i u" "cs \<subseteq> set (checkpoints (shared w))"
    using assms(2) by (simp_all add: reading_def)
  have "since keyring (shared w) w"
    using w(1) by (auto simp: acking_def since_def extends_def)
  then have "cs \<subseteq> set (checkpoints (shared (interfere env w)))"
    using since_interfere assms(1) extends_mem(2) w(3) unfolding consumer_env_def since_def by blast
  then show ?thesis
    using acking_interfere [OF assms(1) w(1)] consumer_in_interfere [OF assms(1) _ w(2)] w(1)
    by (simp add: reading_def changes_consumer_def acking_def del: interfere_simps)
qed

lemma acking_select:
  assumes "consumer_env keyring env"
  shows "valid env (acking keyring w0 []) (select_op f) (\<lambda>x w. x = f (shared w) \<and> acking keyring w0 [] w) E"
proof (rule validI)
  fix w assume "acking keyring w0 [] w"
  then have w: "acking keyring w0 [] (interfere env w)"
    by (rule acking_interfere [OF assms]) (simp add: changes_consumer_def)
  then have "visible (interfere env w) = shared (interfere env w)"
    by (simp add: acking_def visible_def del: interfere_simps)
  then show "case select_op f env w of (Inl e, w') \<Rightarrow> E e w' | (Inr x, w') \<Rightarrow> x = f (shared w') \<and> acking keyring w0 [] w'"
    using w by (simp add: select_op_def Let_def del: interfere_simps)
qed

lemma reading_select:
  assumes "consumer_env keyring env"
  shows "valid env (reading keyring w0 i u cs) (select_op f)
    (\<lambda>x w. x = f (shared w) \<and> reading keyring w0 i u cs w) E"
proof (rule validI)
  fix w assume "reading keyring w0 i u cs w"
  then have w: "reading keyring w0 i u cs (interfere env w)"
    by (rule reading_interfere [OF assms])
  then have "visible (interfere env w) = shared (interfere env w)"
    by (simp add: reading_def acking_def visible_def del: interfere_simps)
  then show "case select_op f env w of (Inl e, w') \<Rightarrow> E e w'
    | (Inr x, w') \<Rightarrow> x = f (shared w') \<and> reading keyring w0 i u cs w'"
    using w by (simp add: select_op_def Let_def reading_def del: interfere_simps)
qed

lemma get_consumer_reading:
  assumes "consumer_env keyring env"
  shows "valid env (acking keyring w0 []) (get_consumer u)
    (\<lambda>r w. reading keyring w0 (co_id r) u {} w) (\<lambda>_. acking keyring w0 [])"
  unfolding get_consumer_def
proof (rule valid_bind [OF acking_select [OF assms]])
  fix found
  show "valid env (\<lambda>w. found = scalar (\<lambda>c. co_consumer_id c = u) (consumers (shared w)) \<and> acking keyring w0 [] w)
    (case found of None \<Rightarrow> raise_op (NotFoundError ''audit_consumer'' (uuid_str u)) | Some c \<Rightarrow> return_op c)
    (\<lambda>r w. reading keyring w0 (co_id r) u {} w) (\<lambda>_. acking keyring w0 [])"
  proof (cases found)
    case (Some r)
    have "reading keyring w0 (co_id r) u {} w"
      if "scalar (\<lambda>c. co_consumer_id c = u) (consumers (shared w)) = Some r" "acking keyring w0 [] w" for w
      using scalar_SomeD [OF that(1)] that(2) by (auto simp: reading_def consumer_in_def)
    then show ?thesis
      by (auto simp: Some intro!: valid_return)
  qed (auto intro: valid_raise)
qed

lemma find_checkpoint_reading:
  assumes "consumer_env keyring env"
  shows "valid env (reading keyring w0 i u {}) (find_checkpoint x)
    (\<lambda>found w. (\<forall>c. found = Some c \<longrightarrow> cp_checkpoint_id c = x) \<and> reading keyring w0 i u (set_option found) w) E"
  unfolding find_checkpoint_def
  by (rule valid_weaken [OF reading_select [OF assms]])
     (auto simp: reading_def dest!: scalar_SomeD)

lemma current_checkpoint_reading:
  assumes "consumer_env keyring env"
  shows "valid env (reading keyring w0 i u cs) (current_checkpoint r) (\<lambda>_. reading keyring w0 i u cs) E"
proof -
  have "valid env (reading keyring w0 i u cs) (find_checkpoint x) (\<lambda>_. reading keyring w0 i u cs) E" for x
    unfolding find_checkpoint_def by (rule valid_weaken [OF reading_select [OF assms]]) simp_all
  then show ?thesis
    by (auto simp: current_checkpoint_def valid_return split: option.split)
qed

text \<open>What is known after it: the row was at the predecessor, and nobody else can write it now.\<close>

definition moved :: "keyring \<Rightarrow> world \<Rightarrow> consumer_row \<Rightarrow> consumer_row \<Rightarrow> checkpoint_row \<Rightarrow> world \<Rightarrow> bool" where
  "moved keyring w0 r r' c w \<longleftrightarrow> acking keyring w0 [UpdateConsumer r'] w \<and> c \<in> set (checkpoints (shared w)) \<and>
     filter (\<lambda>x. co_id x = co_id r) (consumers (shared w)) = [r] \<and> ConsumerLock (co_id r) \<in> set (held w)"

lemma moved_interfere:
  assumes "consumer_env keyring env" "moved keyring w0 r r' c w"
  shows "moved keyring w0 r r' c (interfere env w)"
proof -
  have w: "acking keyring w0 [UpdateConsumer r'] w" "c \<in> set (checkpoints (shared w))"
      "filter (\<lambda>x. co_id x = co_id r) (consumers (shared w)) = [r]" "ConsumerLock (co_id r) \<in> set (held w)"
    using assms(2) by (simp_all add: moved_def)
  have w': "acking keyring w0 [UpdateConsumer r'] (interfere env w)"
    by (rule acking_interfere [OF assms(1) w(1)]) (simp add: changes_consumer_def)
  let ?d' = "others env (tick w) (held w) (mine w) (shared w)"
  have "ledger_ok (shared w) \<and> ledger_ok (apply_changes (mine w) (shared w))" "seals_ok keyring (shared w)"
    using w(1) apply_consumer_changes [of "[UpdateConsumer r']" "shared w"]
    by (auto simp: acking_def extends_def ledger_ok_def changes_consumer_def)
  then obtain cs where "checkpoints ?d' = checkpoints (shared w) @ cs"
    using assms(1) unfolding consumer_env_def append_only_def by blast
  moreover have "filter (\<lambda>x. co_id x = co_id r) (consumers ?d') = filter (\<lambda>x. co_id x = co_id r) (consumers (shared w))"
    using assms(1) w(4) unfolding consumer_env_def respects_locks_def Let_def by blast
  ultimately show ?thesis
    using w w' by (simp add: moved_def)
qed

lemma update_moves:
  assumes "consumer_env keyring env"
  shows "valid env (reading keyring w0 i u {c})
    (update_consumers_where (\<lambda>r. co_id r = i \<and> cursor_matches (cp_previous_checkpoint_id c) r)
       (apply_acknowledged (cp_checkpoint_id c) now))
    (\<lambda>k w. if k = 0 then reading keyring w0 i u {c} w
       else \<exists>r. (co_id r = i \<and> co_consumer_id r = u \<and> co_last_checkpoint_id r = cp_previous_checkpoint_id c) \<and>
         moved keyring w0 r (apply_acknowledged (cp_checkpoint_id c) now r) c w)
    (\<lambda>_ _. False)"
proof (rule validI)
  fix w assume "reading keyring w0 i u {c} w"
  then have w: "reading keyring w0 i u {c} (interfere env w)"
    by (rule reading_interfere [OF assms])
  let ?w = "interfere env w"
  let ?P = "\<lambda>r. co_id r = i \<and> cursor_matches (cp_previous_checkpoint_id c) r"
  let ?f = "apply_acknowledged (cp_checkpoint_id c) now"
  have facts: "consumer_table (shared ?w)" "c \<in> set (checkpoints (shared ?w))" "mine ?w = []"
      "acking keyring w0 [] ?w" "consumer_in (shared ?w) i u"
    using w by (simp_all add: reading_def acking_def del: interfere_simps)
  have shared: "visible ?w = shared ?w"
    using facts(3) by (simp add: visible_def del: interfere_simps)
  have exists: "cursor_exists (visible ?w) (?f r)" for r
    using facts(2) by (simp add: shared cursor_exists_def apply_acknowledged_def del: interfere_simps)
  obtain r where r: "r \<in> set (consumers (shared ?w))" "co_id r = i" "co_consumer_id r = u"
    using facts(5) by (auto simp: consumer_in_def simp del: interfere_simps)
  have one: "filter (\<lambda>x. co_id x = co_id r) (consumers (shared ?w)) = [r]"
    using filter_unique [of co_id "consumers (shared ?w)" r] facts(1) r(1) by (simp add: consumer_table_def)
  have "filter ?P (consumers (shared ?w)) = filter (cursor_matches (cp_previous_checkpoint_id c)) [r]"
    unfolding one [symmetric] filter_filter r(2) by (auto intro: filter_cong)
  then have rows: "filter ?P (consumers (visible ?w)) =
      (if co_last_checkpoint_id r = cp_previous_checkpoint_id c then [r] else [])"
    by (simp add: shared del: interfere_simps)
  have m: "moved keyring w0 r (?f r) c (hold [ConsumerLock (co_id r)] (change_op (UpdateConsumer (?f r)) ?w))"
    using facts one by (simp add: moved_def acking_def del: interfere_simps)
  show "case update_consumers_where ?P ?f env w of (Inl e, w') \<Rightarrow> False
    | (Inr k, w') \<Rightarrow> (if k = 0 then reading keyring w0 i u {c} w'
       else \<exists>r. (co_id r = i \<and> co_consumer_id r = u \<and> co_last_checkpoint_id r = cp_previous_checkpoint_id c) \<and>
         moved keyring w0 r (?f r) c w')"
    using w r(2,3) m exists unfolding update_consumers_where_def Let_def rows
    by (auto simp: hold_def reading_def acking_def simp del: interfere_simps)
qed

lemma moved_find:
  assumes "consumer_env keyring env" "co_id x = co_id r" "co_id r' = co_id r"
  shows "valid env (moved keyring w0 r r' c) (find_consumer_row x)
    (\<lambda>found w. found = Some r' \<and> moved keyring w0 r r' c w) E"
  unfolding find_consumer_row_def
proof (rule validI)
  fix w assume "moved keyring w0 r r' c w"
  then have w: "moved keyring w0 r r' c (interfere env w)"
    by (rule moved_interfere [OF assms(1)])
  let ?w = "interfere env w"
  have rows: "consumers (visible ?w) = map (\<lambda>b. if co_id b = co_id r then r' else b) (consumers (shared ?w))"
    using w assms(3) by (simp add: moved_def acking_def visible_def del: interfere_simps)
  have "filter (\<lambda>x. co_id x = co_id r) (consumers (shared ?w)) = [r]"
    using w by (simp add: moved_def del: interfere_simps)
  then have "r \<in> set (consumers (shared ?w))"
    by (auto simp: filter_eq_Cons_iff simp del: interfere_simps)
  then have mem: "r' \<in> set (consumers (visible ?w))"
    unfolding rows by (force simp del: interfere_simps)
  have only: "y = r'" if y: "y \<in> set (consumers (visible ?w))" "co_id y = co_id r" for y
  proof -
    have "y = r' \<or> co_id y \<noteq> co_id r"
      using y(1) unfolding rows by auto
    with y(2) show ?thesis by simp
  qed
  have "scalar (\<lambda>y. co_id y = co_id x) (consumers (visible ?w)) = Some r'"
    unfolding assms(2) by (rule scalar_unique [where P = "\<lambda>y. co_id y = co_id r", OF mem assms(3) only])
  then show "case select_op (\<lambda>d. scalar (\<lambda>y. co_id y = co_id x) (consumers d)) env w of (Inl e, w') \<Rightarrow> E e w'
    | (Inr found, w') \<Rightarrow> found = Some r' \<and> moved keyring w0 r r' c w'"
    using w by (simp add: select_op_def Let_def moved_def del: interfere_simps)
qed

subsection \<open>The acknowledgement\<close>

text \<open>What an accepted acknowledgement has done.\<close>

definition advanced ::
    "uuid \<Rightarrow> uuid \<Rightarrow> world \<Rightarrow> (consumer_row option \<times> checkpoint_row \<times> bool) \<Rightarrow> world \<Rightarrow> bool" where
  "advanced u x w0 answer w \<longleftrightarrow>
     (\<exists>r r' now k. r' = apply_acknowledged x now r \<and> co_consumer_id r = u \<and>
        k < length (checkpoints (shared w)) \<and> cp_checkpoint_id (checkpoints (shared w) ! k) = x \<and>
        cursor_at (checkpoints (shared w)) k r \<and> cursor_at (checkpoints (shared w)) (Suc k) r' \<and>
        answer = (Some r', checkpoints (shared w) ! k, True) \<and>
        mine w = [] \<and> written w = written w0 @ [UpdateConsumer r'] \<and> r' \<in> set (consumers (shared w)))"

lemma moved_commit:
  assumes "moved keyring w0 r (apply_acknowledged (cp_checkpoint_id c) now r) c w"
    and "co_last_checkpoint_id r = cp_previous_checkpoint_id c"
  shows "advanced (co_consumer_id r) (cp_checkpoint_id c) w0
    (Some (apply_acknowledged (cp_checkpoint_id c) now r), c, True) (commit w)"
proof -
  let ?r' = "apply_acknowledged (cp_checkpoint_id c) now r"
  let ?d = "shared w"
  have w: "mine w = [UpdateConsumer ?r']" "written w = written w0" "seals_ok keyring ?d"
      "c \<in> set (checkpoints ?d)" "filter (\<lambda>x. co_id x = co_id r) (consumers ?d) = [r]"
    using assms(1) extendsD by (auto simp: moved_def acking_def)
  obtain k where k: "k < length (checkpoints ?d)" "checkpoints ?d ! k = c"
    using w(4) by (auto simp: in_set_conv_nth)
  have "follows (if k = 0 then None else Some (checkpoints ?d ! (k - 1))) c"
    using chained_nth [OF _ k(1), of None] w(3) k(2) by (simp add: seals_ok_def)
  then have "cursor_at (checkpoints ?d) k r" "cursor_at (checkpoints ?d) (Suc k) ?r'"
    using assms(2) k by (auto simp: cursor_at_def follows_def apply_acknowledged_def)
  moreover have "?r' \<in> set (consumers (shared (commit w)))"
  proof -
    have "r \<in> set (consumers ?d)"
      using w(5) by (auto simp: filter_eq_Cons_iff)
    then show ?thesis
      by (force simp: w(1) visible_def apply_acknowledged_def)
  qed
  ultimately show ?thesis
    unfolding advanced_def using k w(1,2) by (intro exI [of _ r] exI [of _ ?r'] exI [of _ now] exI [of _ k])
      (simp add: visible_def)
qed

definition nothing_written :: "world \<Rightarrow> world \<Rightarrow> bool" where
  "nothing_written w0 w \<longleftrightarrow> mine w = [] \<and> written w = written w0"

lemma reading_acking: "reading keyring w0 i u cs w \<Longrightarrow> acking keyring w0 [] w"
  by (simp add: reading_def)

lemma acking_nothing: "acking keyring w0 [] w \<Longrightarrow> nothing_written w0 (roll_back w)"
  by (simp add: acking_def nothing_written_def)

lemma lost_race_raises:
  assumes "consumer_env keyring env"
  shows "valid env (reading keyring w0 i u cs) (lost_race r c) Q (\<lambda>_ w. nothing_written w0 (roll_back w))"
proof -
  have raise: "valid env (reading keyring w0 i u cs) (raise_op x) Q (\<lambda>_ w. nothing_written w0 (roll_back w))" for x
    by (intro valid_raise acking_nothing reading_acking)
  have rest: "valid env (reading keyring w0 i u cs) (bind_op (current_checkpoint x) (\<lambda>current.
      raise_op (f current))) Q (\<lambda>_ w. nothing_written w0 (roll_back w))" for x f
    by (rule valid_bind [OF current_checkpoint_reading [OF assms] raise])
  show ?thesis
    unfolding lost_race_def find_consumer_row_def
    by (rule valid_bind [OF valid_weaken [OF reading_select [OF assms]]], assumption, erule conjunct2,
        assumption) (use raise rest in \<open>auto split: option.split\<close>)
qed

text \<open>A body that ends in an accepted answer at commit, or in an exception before it.\<close>

abbreviation accepted_or_undone ::
    "environment \<Rightarrow> (world \<Rightarrow> bool) \<Rightarrow> (consumer_row option \<times> checkpoint_row \<times> bool) op \<Rightarrow> uuid \<Rightarrow> uuid \<Rightarrow> world \<Rightarrow> bool" where
  "accepted_or_undone env P m u x w0 \<equiv>
     valid env P m (\<lambda>a w. advanced u x w0 a (commit w)) (\<lambda>_ w. nothing_written w0 (roll_back w))"

lemma refusal_undone: "accepted_or_undone env (reading keyring w0 i u cs) (raise_op e) v x w0"
  by (intro valid_raise acking_nothing reading_acking)

lemma moved_answer:
  assumes "consumer_env keyring env" "co_id s = co_id r" "co_last_checkpoint_id s = cp_previous_checkpoint_id c"
  shows "accepted_or_undone env (moved keyring w0 s (apply_acknowledged (cp_checkpoint_id c) now s) c)
    (bind_op (find_consumer_row r) (\<lambda>found. return_op (found, c, True))) (co_consumer_id s) (cp_checkpoint_id c) w0"
proof (rule valid_bind [OF moved_find [OF assms(1)]])
  show "co_id r = co_id s" "co_id (apply_acknowledged (cp_checkpoint_id c) now s) = co_id s"
    using assms(2) by (simp_all add: apply_acknowledged_def)
  show "accepted_or_undone env (\<lambda>w. found = Some (apply_acknowledged (cp_checkpoint_id c) now s) \<and>
      moved keyring w0 s (apply_acknowledged (cp_checkpoint_id c) now s) c w) (return_op (found, c, True))
      (co_consumer_id s) (cp_checkpoint_id c) w0" for found
    using moved_commit [OF _ assms(3)] by (intro valid_return) auto
qed

lemma move_cursor_valid:
  assumes "consumer_env keyring env"
  shows "accepted_or_undone env (reading keyring w0 (co_id r) u {c})
    (move_cursor r (cp_previous_checkpoint_id c) c now) u (cp_checkpoint_id c) w0"
  unfolding move_cursor_def
proof (rule valid_then [OF update_moves [OF assms]])
  fix k :: nat
  let ?at = "\<lambda>s. co_id s = co_id r \<and> co_consumer_id s = u \<and> co_last_checkpoint_id s = cp_previous_checkpoint_id c"
  let ?moved = "\<lambda>w. \<exists>s. ?at s \<and> moved keyring w0 s (apply_acknowledged (cp_checkpoint_id c) now s) c w"
  let ?answer = "bind_op (find_consumer_row r) (\<lambda>found. return_op (found, c, True))"
  show "accepted_or_undone env (\<lambda>w. if k = 0 then reading keyring w0 (co_id r) u {c} w else ?moved w)
    (if k = 0 then lost_race r c else ?answer) u (cp_checkpoint_id c) w0"
  proof (cases "k = 0")
    case False
    have "accepted_or_undone env (moved keyring w0 s (apply_acknowledged (cp_checkpoint_id c) now s) c)
        ?answer u (cp_checkpoint_id c) w0" if "?at s" for s
      using moved_answer [OF assms, of s r c w0 now] that by simp
    then have "accepted_or_undone env ?moved ?answer u (cp_checkpoint_id c) w0"
      by (intro valid_ex valid_when)
    then show ?thesis
      by (simp only: False if_False)
  qed (simp add: lost_race_raises [OF assms])
qed simp

lemma advance_cursor_valid:
  assumes "consumer_env keyring env"
  shows "accepted_or_undone env (reading keyring w0 (co_id r) u {c}) (advance_cursor r current c) u (cp_checkpoint_id c) w0"
proof (cases "classify current c")
  case None
  have "valid env (reading keyring w0 (co_id r) u {c}) clock_op (\<lambda>_. reading keyring w0 (co_id r) u {c}) E" for E
    by (auto simp: valid_def clock_op_def reading_def acking_def)
  then show ?thesis
    unfolding advance_cursor_def None option.case classify_None [OF None, symmetric]
    by (rule valid_bind) (rule move_cursor_valid [OF assms])
qed (simp add: advance_cursor_def refusal_undone)

lemma acknowledge_valid:
  assumes "consumer_env keyring env"
  shows "valid env (acking keyring w0 []) (acknowledge_checkpoint u x) (advanced u x w0) (\<lambda>_. nothing_written w0)"
  unfolding acknowledge_checkpoint_def
proof (rule valid_transaction, rule valid_then [where E' = "\<lambda>_. acking keyring w0 []"])
  show "valid env (\<lambda>w. \<exists>v. acking keyring w0 [] v \<and> w = log_entry Begin v) (get_consumer u)
      (\<lambda>r w. reading keyring w0 (co_id r) u {} w) (\<lambda>_. acking keyring w0 [])"
    by (rule valid_weaken [OF get_consumer_reading [OF assms]]) auto
  fix r :: consumer_row
  let ?answer = "\<lambda>c. bind_op (current_checkpoint r) (\<lambda>current. advance_cursor r current c)"
  have found: "accepted_or_undone env (\<lambda>w. cp_checkpoint_id c = x \<and> reading keyring w0 (co_id r) u {c} w) (?answer c) u x w0" for c
    using advance_cursor_valid [OF assms]
    by (intro valid_when valid_bind [OF current_checkpoint_reading [OF assms]]) auto
  show "accepted_or_undone env (reading keyring w0 (co_id r) u {})
      (bind_op (find_checkpoint x) (\<lambda>found. case found of
         None \<Rightarrow> raise_op (NotFoundError ''checkpoint'' (uuid_str x))
       | Some submitted \<Rightarrow> ?answer submitted)) u x w0"
  proof (rule valid_bind [OF find_checkpoint_reading [OF assms]], goal_cases)
    case (1 found)
    then show ?case
      using found refusal_undone by (cases found) simp_all
  qed
qed (rule acking_nothing)

text \<open>
  C11: acknowledging is exactly once and in order. Whatever other transactions do, other
  acknowledgements for the same consumer included, a call either raises and writes nothing, or moves
  the consumer's stored cursor by exactly one position along the checkpoint chain, from the
  predecessor to the submitted checkpoint, in one commit that changes nothing else, and answers with
  the moved row.
\<close>

theorem acknowledge_advances:
  assumes "consumer_env keyring env" "mine w = []" "consumer_table (shared w)"
    and "ledger_ok (shared w)" "seals_ok keyring (shared w)"
  shows "case acknowledge_checkpoint consumer_id checkpoint_id env w of
      (Inl _, w') \<Rightarrow> nothing_written w w'
    | (Inr answer, w') \<Rightarrow> advanced consumer_id checkpoint_id w answer w'"
proof -
  have "acking keyring w [] w"
    using assms(2-5) by (simp add: acking_def extends_refl)
  then show ?thesis
    by (rule validD [OF acknowledge_valid [OF assms(1)]])
qed

lemma quiet_consumer_env: "quiet env \<Longrightarrow> consumer_env keyring env"
  using quiet_append_only [of env keyring]
  by (simp add: consumer_env_def quiet_def respects_locks_def keeps_consumers_def Let_def)

theorem acknowledge_advances_witness:
  "\<exists>w c. c \<in> set (checkpoints (shared w)) \<and> ledger_ok (shared w) \<and>
     (case acknowledge_checkpoint 3 (cp_checkpoint_id c) fixed_env w of
        (Inl _, w') \<Rightarrow> nothing_written w w'
      | (Inr answer, w') \<Rightarrow> advanced 3 (cp_checkpoint_id c) w answer w')"
proof -
  obtain w c where w: "sound_world sample_sealer w" "c \<in> set (checkpoints (shared w))"
    by (rule sample_archive)
  let ?w = "w\<lparr>shared := (shared w)\<lparr>consumers := [new_consumer 3 [] [] (cp_created_at c)]\<rparr>\<rparr>"
  have ok: "mine ?w = []" "consumer_table (shared ?w)" "ledger_ok (shared ?w)"
      "seals_ok (sl_keyring sample_sealer) (shared ?w)" "c \<in> set (checkpoints (shared ?w))"
    using w by (simp_all add: sound_world_def consumer_table_def ledger_ok_def seals_ok_def)
  show ?thesis
    by (intro exI [of _ ?w] exI [of _ c] conjI ok(3,5)
        acknowledge_advances [OF quiet_consumer_env [OF fixed_env(1)] ok(1-4)])
qed

subsection \<open>Which acknowledgement is accepted\<close>

lemma chained_counts:
  assumes "chained p cs" "i < j" "j < length cs"
  shows "cp_leaf_count (cs ! i) < cp_leaf_count (cs ! j)"
  using assms
proof (induction cs arbitrary: p i j)
  case (Cons c cs)
  then obtain n where j: "j = Suc n" "n < length cs"
    by (cases j) auto
  show ?case
  proof (cases i)
    case 0
    then show ?thesis
      using Cons.prems chained_above [of "Some c" cs "cs ! n"] j by (simp add: previous_count_def)
  next
    case (Suc m)
    then show ?thesis
      using Cons.IH [of "Some c" m n] Cons.prems j by simp
  qed
qed simp

text \<open>The verdict on the checkpoint at position \<open>i\<close> for a cursor at position \<open>k\<close>.\<close>

definition verdict :: "nat \<Rightarrow> nat \<Rightarrow> conflict_reason option" where
  "verdict k i =
     (if i = k then None
      else if k = 0 then Some NotFirst
      else if Suc i = k then Some Duplicate
      else if i < k then Some Regressed
      else Some Skipped)"

definition cursor_checkpoint :: "checkpoint_row list \<Rightarrow> nat \<Rightarrow> checkpoint_row option" where
  "cursor_checkpoint cs k = (if k = 0 then None else Some (cs ! (k - 1)))"

lemma classify_verdict:
  assumes "chained None cs" "distinct (map cp_checkpoint_id cs)" "k \<le> length cs" "i < length cs"
  shows "classify (cursor_checkpoint cs k) (cs ! i) = verdict k i"
proof -
  have same: "cp_checkpoint_id (cs ! m) = cp_checkpoint_id (cs ! n) \<longleftrightarrow> m = n" if "m < length cs" "n < length cs" for m n
    using nth_eq_iff_index_eq [OF assms(2)] that by simp
  have previous: "cp_previous_checkpoint_id (cs ! i) =
      (if i = 0 then None else Some (cp_checkpoint_id (cs ! (i - 1))))"
    using chained_nth [OF assms(1,4)] by (simp add: follows_def split: if_splits)
  show ?thesis
  proof (cases k)
    case 0
    then show ?thesis
      by (simp add: classify_def verdict_def cursor_checkpoint_def previous)
  next
    case (Suc n)
    then have n: "n < length cs"
      using assms(3) by simp
    consider "i = n" | "i < n" | "n < i" by linarith
    then show ?thesis
    proof cases
      case 2
      then show ?thesis
        using chained_counts [OF assms(1) 2 n] same [OF assms(4) n] Suc
        by (simp add: classify_def verdict_def cursor_checkpoint_def)
    next
      case 3
      then have "\<not> cp_leaf_count (cs ! i) < cp_leaf_count (cs ! n)"
        using chained_counts [OF assms(1) 3 assms(4)] by simp
      then show ?thesis
        using 3 same [OF assms(4) n] same [of "i - 1" n] n assms(4) Suc previous
        by (auto simp: classify_def verdict_def cursor_checkpoint_def)
    qed (simp add: Suc classify_def verdict_def cursor_checkpoint_def)
  qed
qed

definition named_once :: "ledger_db \<Rightarrow> consumer_row \<Rightarrow> bool" where
  "named_once d r \<longleftrightarrow> consumer_table d \<and> r \<in> set (consumers d) \<and>
     (\<forall>x \<in> set (consumers d). co_consumer_id x = co_consumer_id r \<longrightarrow> x = r)"

lemma quiet_move_cursor:
  assumes "quiet env" "named_once d r" "c \<in> set (checkpoints d)" "co_last_checkpoint_id r = p"
  shows "valid env (at_db d) (move_cursor r p c now)
    (\<lambda>a w. a = (Some (apply_acknowledged (cp_checkpoint_id c) now r), c, True)) (\<lambda>_ _. False)"
proof (rule validI)
  fix w assume w: "at_db d w"
  let ?r' = "apply_acknowledged (cp_checkpoint_id c) now r"
  have r: "r \<in> set (consumers d)" and one: "filter (\<lambda>x. co_id x = co_id r) (consumers d) = [r]"
    using assms(2) filter_unique by (auto simp: named_once_def consumer_table_def)
  have "filter (\<lambda>x. co_id x = co_id r \<and> cursor_matches p x) (consumers d) = filter (cursor_matches p) [r]"
    unfolding one [symmetric] filter_filter by (auto intro: filter_cong)
  then have rows: "filter (\<lambda>x. co_id x = co_id r \<and> cursor_matches p x) (consumers d) = [r]"
    using assms(4) by simp
  have exists: "cursor_exists d (apply_acknowledged (cp_checkpoint_id c) now x)" for x
    using assms(3) by (simp add: cursor_exists_def apply_acknowledged_def)
  have id: "co_id ?r' = co_id r"
    by (simp add: apply_acknowledged_def)
  let ?after = "map (\<lambda>b. if co_id b = co_id r then ?r' else b) (consumers d)"
  have "?r' \<in> set ?after" "\<And>y. y \<in> set ?after \<Longrightarrow> co_id y = co_id r \<Longrightarrow> y = ?r'"
    using r by (auto split: if_splits)
  then have found: "scalar (\<lambda>y. co_id y = co_id r) ?after = Some ?r'"
    using scalar_unique [where P = "\<lambda>y. co_id y = co_id r", OF _ id] by blast
  have "others env = (\<lambda>_ _ _ d. d)"
    using assms(1) by (simp add: quiet_def)
  then show "case move_cursor r p c now env w of (Inl e, w') \<Rightarrow> False
    | (Inr a, w') \<Rightarrow> a = (Some ?r', c, True)"
    using w rows exists found id
    by (simp add: move_cursor_def bind_op_def update_consumers_where_def find_consumer_row_def select_op_def
        return_op_def Let_def at_db_def visible_def del: cursor_matches_iff)
qed

text \<open>
  C24: which acknowledgement is accepted. With no concurrent writer, a consumer whose cursor stands
  at position \<open>k\<close> of the chain can acknowledge the checkpoint at position \<open>k\<close> and no other; each other
  checkpoint is refused with the conflict that says why: not the first one, already
  acknowledged, older than the cursor, or beyond the successor.
\<close>

theorem acknowledge_decides:
  assumes "quiet env" "mine w = []" "ledger_ok (shared w)" "seals_ok keyring (shared w)" "named_once (shared w) r"
    and "cursor_at (checkpoints (shared w)) k r" "i < length (checkpoints (shared w))"
    and "acknowledge_checkpoint (co_consumer_id r) (cp_checkpoint_id (checkpoints (shared w) ! i)) env w = (res, w')"
  shows "case verdict k i of
      None \<Rightarrow> \<exists>now. res = Inr (Some (apply_acknowledged (cp_checkpoint_id (checkpoints (shared w) ! i)) now r),
        checkpoints (shared w) ! i, True)
    | Some reason \<Rightarrow> res = Inl (acknowledgement_conflict r reason
        (cursor_checkpoint (checkpoints (shared w)) k) (checkpoints (shared w) ! i))"
proof -
  let ?d = "shared w"
  let ?c = "checkpoints ?d ! i"
  let ?current = "cursor_checkpoint (checkpoints ?d) k"
  let ?Q = "\<lambda>a _ :: world. verdict k i = None \<and> (\<exists>now. a = (Some (apply_acknowledged (cp_checkpoint_id ?c) now r), ?c, True))"
  let ?E = "\<lambda>e _ :: world. \<exists>reason. verdict k i = Some reason \<and> e = acknowledgement_conflict r reason ?current ?c"
  have c: "?c \<in> set (checkpoints ?d)"
    using assms(7) by simp
  have chain: "chained None (checkpoints ?d)" "distinct (map cp_checkpoint_id (checkpoints ?d))"
    using assms(4) checkpoint_table_ids by (simp_all add: seals_ok_def)
  have k: "k \<le> length (checkpoints ?d)" "co_last_checkpoint_id r = map_option cp_checkpoint_id ?current"
    using assms(6) by (simp_all add: cursor_at_def cursor_checkpoint_def)
  have consumer: "scalar (\<lambda>x. co_consumer_id x = co_consumer_id r) (consumers ?d) = Some r"
    using assms(5) by (intro scalar_unique) (auto simp: named_once_def)
  have current: "valid env (at_db ?d) (current_checkpoint r) (\<lambda>x v. at_db ?d v \<and> x = ?current) ?E"
  proof (cases k)
    case (Suc n)
    then have "scalar (\<lambda>x. cp_checkpoint_id x = cp_checkpoint_id (checkpoints ?d ! n)) (checkpoints ?d) =
        Some (checkpoints ?d ! n)"
      using k(1) by (intro scalar_checkpoint [OF assms(4)]) simp
    moreover have "co_last_checkpoint_id r = Some (cp_checkpoint_id (checkpoints ?d ! n))"
        "?current = Some (checkpoints ?d ! n)"
      using k(2) Suc by (simp_all add: cursor_checkpoint_def)
    ultimately show ?thesis
      unfolding current_checkpoint_def find_checkpoint_def
      by (simp only: option.case) (rule valid_weaken [OF quiet_select [OF assms(1)]], simp_all)
  qed (use k(2) in \<open>simp add: current_checkpoint_def cursor_checkpoint_def valid_return\<close>)
  have decide: "valid env (at_db ?d) (advance_cursor r ?current ?c) ?Q ?E"
  proof (cases "verdict k i")
    case None
    have "valid env (at_db ?d) clock_op (\<lambda>_. at_db ?d) ?E"
      by (simp add: valid_def clock_op_def at_db_def)
    then show ?thesis
      unfolding advance_cursor_def classify_verdict [OF chain k(1) assms(7)] None option.case
      by (rule valid_bind)
         (rule valid_weaken [OF quiet_move_cursor [OF assms(1,5) c k(2)]], auto)
  qed (simp add: advance_cursor_def classify_verdict [OF chain k(1) assms(7)] valid_raise)
  have get: "valid env (at_db ?d) (get_consumer (co_consumer_id r)) (\<lambda>x v. at_db ?d v \<and> x = r) ?E"
    unfolding get_consumer_def
    by (rule valid_known [OF quiet_select [OF assms(1)]]) (simp add: consumer valid_return)
  have find: "valid env (at_db ?d) (find_checkpoint (cp_checkpoint_id ?c)) (\<lambda>x v. at_db ?d v \<and> x = Some ?c) ?E"
    unfolding find_checkpoint_def scalar_checkpoint [OF assms(4) c, symmetric] by (rule quiet_select [OF assms(1)])
  have "valid env (at_db ?d) (bind_op (get_consumer (co_consumer_id r)) (\<lambda>consumer.
     bind_op (find_checkpoint (cp_checkpoint_id ?c)) (\<lambda>found.
       case found of
         None \<Rightarrow> raise_op (NotFoundError ''checkpoint'' (uuid_str (cp_checkpoint_id ?c)))
       | Some submitted \<Rightarrow>
           bind_op (current_checkpoint consumer) (\<lambda>current. advance_cursor consumer current submitted)))) ?Q ?E"
    by (rule valid_known [OF get], rule valid_known [OF find], simp only: option.case,
        rule valid_known [OF current], rule decide)
  then have whole: "valid env (at_db ?d) (acknowledge_checkpoint (co_consumer_id r) (cp_checkpoint_id ?c)) ?Q ?E"
    unfolding acknowledge_checkpoint_def
    by (intro valid_transaction) (erule valid_weaken, auto simp: at_db_def)
  have w: "at_db ?d w"
    using assms(2) by (simp add: at_db_def)
  show ?thesis
  proof (cases res)
    case (Inl e)
    then show ?thesis
      using valid_Inl [OF whole w assms(8) [unfolded Inl]] by auto
  next
    case (Inr a)
    then show ?thesis
      using valid_Inr [OF whole w assms(8) [unfolded Inr]] by auto
  qed
qed

theorem acknowledge_decides_witness:
  "\<exists>w r i w' now. acknowledge_checkpoint 3 (cp_checkpoint_id (checkpoints (shared w) ! i)) fixed_env w =
     (Inr (Some (apply_acknowledged (cp_checkpoint_id (checkpoints (shared w) ! i)) now r),
        checkpoints (shared w) ! i, True), w') \<and> i < length (checkpoints (shared w))"
proof -
  obtain w c where w: "sound_world sample_sealer w" "c \<in> set (checkpoints (shared w))"
    by (rule sample_archive)
  let ?r = "new_consumer 3 [] [] (cp_created_at c)"
  let ?w = "w\<lparr>shared := (shared w)\<lparr>consumers := [?r]\<rparr>\<rparr>"
  have ok: "mine ?w = []" "ledger_ok (shared ?w)" "seals_ok (sl_keyring sample_sealer) (shared ?w)"
      "named_once (shared ?w) ?r" "cursor_at (checkpoints (shared ?w)) 0 ?r" "0 < length (checkpoints (shared ?w))"
    using w by (auto simp: sound_world_def named_once_def consumer_table_def ledger_ok_def seals_ok_def
        cursor_at_def new_consumer_def)
  obtain res w' where run: "acknowledge_checkpoint (co_consumer_id ?r) (cp_checkpoint_id (checkpoints (shared ?w) ! 0)) fixed_env ?w = (res, w')"
    by fastforce
  have "\<exists>now. res = Inr (Some (apply_acknowledged (cp_checkpoint_id (checkpoints (shared ?w) ! 0)) now ?r),
      checkpoints (shared ?w) ! 0, True)"
    using acknowledge_decides [OF fixed_env(1) ok run] by (simp add: verdict_def)
  moreover have "co_consumer_id ?r = 3"
    by (simp add: new_consumer_def)
  ultimately show ?thesis
    using run ok(6) by metis
qed

end
