(* ===== verification/Schema.thy ===== *)
theory Schema
  imports Models
begin

section \<open>The schema as data\<close>

text \<open>
  The tables, constraints, indexes and triggers that \<open>src/ledger/models.py\<close> declares and the
  operations of the Alembic scripts under \<open>src/ledger/alembic/versions\<close>, with what PostgreSQL does
  with them. Names are kept as text and the sizes of columns are part of
  their types; server defaults are left out, since the services write every column.
\<close>

subsection \<open>Objects\<close>

datatype sql_type = BigInteger | IntegerType | UuidType | StringType nat | TextType | TimestampTz | Binary

record column =
  column_name :: string
  column_type :: sql_type
  nullable :: bool
  identity :: bool

text \<open>The conditions of \<open>CHECK\<close> constraints and of \<open>DELETE ... WHERE\<close>.\<close>

datatype sql_test =
  IsNull string
| NotNull string
| Equals string string
| OneOf string "string list"
| AtLeast string int
| Above string int
| AllOf "sql_test list"
| AnyOf "sql_test list"

text \<open>Every foreign key is \<open>ON DELETE RESTRICT\<close>.\<close>

datatype table_constraint =
  Check string sql_test
| ForeignKey string string string
| PrimaryKey string
| Unique string string

record table =
  table_name :: string
  table_columns :: "column list"
  constraints :: "table_constraint list"

record index =
  index_name :: string
  index_table :: string
  index_columns :: "string list"

text \<open>What a trigger function raises an exception at: any change, or a change of some columns.\<close>

datatype trigger_body = RejectMutation | RejectChange "string list"

datatype row_operation = OnUpdate | OnDelete

record trigger =
  trigger_name :: string
  trigger_table :: string
  trigger_operations :: "row_operation list"
  trigger_function :: string

record schema =
  tables :: "table list"
  indexes :: "index list"
  trigger_functions :: "(string \<times> trigger_body) list"
  triggers :: "trigger list"

definition empty_schema :: schema where
  "empty_schema = \<lparr>tables = [], indexes = [], trigger_functions = [], triggers = []\<rparr>"

definition required :: "string \<Rightarrow> sql_type \<Rightarrow> column" where
  "required n t = \<lparr>column_name = n, column_type = t, nullable = False, identity = False\<rparr>"

definition optional :: "string \<Rightarrow> sql_type \<Rightarrow> column" where
  "optional n t = \<lparr>column_name = n, column_type = t, nullable = True, identity = False\<rparr>"

definition autoincrement :: "string \<Rightarrow> column" where
  "autoincrement n = \<lparr>column_name = n, column_type = BigInteger, nullable = False, identity = True\<rparr>"

subsection \<open>Operations\<close>

datatype operation =
  CreateTable table
| DropTable string
| CreateIndex index
| DropIndex string string
| AddColumn string column
| DropColumn string string
| CreateCheck string string sql_test
| DropConstraint string string
| CreateFunction string trigger_body
| DropFunction string
| CreateTrigger trigger
| DropTrigger string string
| DeleteRows string sql_test

definition find_table :: "string \<Rightarrow> schema \<Rightarrow> table option" where
  "find_table n s = find (\<lambda>t. table_name t = n) (tables s)"

fun constraint_name :: "table_constraint \<Rightarrow> string" where
  "constraint_name (Check n _) = n"
| "constraint_name (Unique n _) = n"
| "constraint_name _ = []"

definition change_table :: "string \<Rightarrow> (table \<Rightarrow> table option) \<Rightarrow> schema \<Rightarrow> schema option" where
  "change_table n f s =
     (case find_table n s of
        None \<Rightarrow> None
      | Some t \<Rightarrow> map_option (\<lambda>t'. s\<lparr>tables := map (\<lambda>u. if table_name u = n then t' else u) (tables s)\<rparr>) (f t))"

text \<open>
  An operation on an object that is missing, or a second object of one name, fails; the drops of
  triggers and functions are \<open>IF EXISTS\<close>. Dropping a table drops its triggers and constraints.
\<close>

fun apply_operation :: "operation \<Rightarrow> schema \<Rightarrow> schema option" where
  "apply_operation (CreateTable t) s =
     (if find_table (table_name t) s = None then Some (s\<lparr>tables := tables s @ [t]\<rparr>) else None)"
| "apply_operation (DropTable n) s =
     (if find_table n s = None then None
      else Some (s\<lparr>tables := filter (\<lambda>t. table_name t \<noteq> n) (tables s),
        indexes := filter (\<lambda>i. index_table i \<noteq> n) (indexes s),
        triggers := filter (\<lambda>t. trigger_table t \<noteq> n) (triggers s)\<rparr>))"
| "apply_operation (CreateIndex i) s =
     (if find_table (index_table i) s = None \<or> index_name i \<in> index_name ` set (indexes s) then None
      else Some (s\<lparr>indexes := indexes s @ [i]\<rparr>))"
| "apply_operation (DropIndex n t) s =
     (if n \<notin> index_name ` set (indexes s) then None
      else Some (s\<lparr>indexes := filter (\<lambda>i. index_name i \<noteq> n) (indexes s)\<rparr>))"
| "apply_operation (AddColumn n c) s = change_table n (\<lambda>t.
     if column_name c \<in> column_name ` set (table_columns t) then None
     else Some (t\<lparr>table_columns := table_columns t @ [c]\<rparr>)) s"
| "apply_operation (DropColumn n c) s = change_table n (\<lambda>t.
     if c \<notin> column_name ` set (table_columns t) then None
     else Some (t\<lparr>table_columns := filter (\<lambda>x. column_name x \<noteq> c) (table_columns t)\<rparr>)) s"
| "apply_operation (CreateCheck c n test) s = change_table n (\<lambda>t.
     if c \<in> constraint_name ` set (constraints t) then None
     else Some (t\<lparr>constraints := constraints t @ [Check c test]\<rparr>)) s"
| "apply_operation (DropConstraint c n) s = change_table n (\<lambda>t.
     if c \<notin> constraint_name ` set (constraints t) then None
     else Some (t\<lparr>constraints := filter (\<lambda>x. constraint_name x \<noteq> c) (constraints t)\<rparr>)) s"
| "apply_operation (CreateFunction n b) s =
     (if n \<in> fst ` set (trigger_functions s) then None else Some (s\<lparr>trigger_functions := trigger_functions s @ [(n, b)]\<rparr>))"
| "apply_operation (DropFunction n) s = Some (s\<lparr>trigger_functions := filter (\<lambda>f. fst f \<noteq> n) (trigger_functions s)\<rparr>)"
| "apply_operation (CreateTrigger t) s =
     (if find_table (trigger_table t) s = None \<or> trigger_function t \<notin> fst ` set (trigger_functions s) then None
      else Some (s\<lparr>triggers := triggers s @ [t]\<rparr>))"
| "apply_operation (DropTrigger n t) s =
     Some (s\<lparr>triggers := filter (\<lambda>x. \<not> (trigger_name x = n \<and> trigger_table x = t)) (triggers s)\<rparr>)"
| "apply_operation (DeleteRows n test) s = (if find_table n s = None then None else Some s)"

fun apply_operations :: "operation list \<Rightarrow> schema \<Rightarrow> schema option" where
  "apply_operations [] s = Some s"
| "apply_operations (x # xs) s =
     (case apply_operation x s of None \<Rightarrow> None | Some s' \<Rightarrow> apply_operations xs s')"

subsection \<open>Conditions on a row\<close>

text \<open>
  A row gives each column a value or \<open>NULL\<close>. Comparisons with \<open>NULL\<close> are unknown, \<open>AND\<close> and \<open>OR\<close> are
  Kleene's, a \<open>CHECK\<close> rejects a row when its condition is false and \<open>DELETE\<close> takes one when it is true.
\<close>

datatype sql_value = SqlText pystr | SqlInt int | SqlUuid uuid | SqlTime datetime

type_synonym sql_row = "string \<Rightarrow> sql_value option"

definition unknown_and :: "bool option \<Rightarrow> bool option \<Rightarrow> bool option" where
  "unknown_and a b = (if a = Some False \<or> b = Some False then Some False
     else if a = Some True \<and> b = Some True then Some True else None)"

definition unknown_or :: "bool option \<Rightarrow> bool option \<Rightarrow> bool option" where
  "unknown_or a b = (if a = Some True \<or> b = Some True then Some True
     else if a = Some False \<and> b = Some False then Some False else None)"

fun evaluate :: "sql_row \<Rightarrow> sql_test \<Rightarrow> bool option" where
  "evaluate r (IsNull c) = Some (r c = None)"
| "evaluate r (NotNull c) = Some (r c \<noteq> None)"
| "evaluate r (Equals c v) = map_option (\<lambda>x. x = SqlText (py v)) (r c)"
| "evaluate r (OneOf c vs) = map_option (\<lambda>x. x \<in> (\<lambda>v. SqlText (py v)) ` set vs) (r c)"
| "evaluate r (AtLeast c n) = (case r c of Some (SqlInt i) \<Rightarrow> Some (n \<le> i) | _ \<Rightarrow> None)"
| "evaluate r (Above c n) = (case r c of Some (SqlInt i) \<Rightarrow> Some (n < i) | _ \<Rightarrow> None)"
| "evaluate r (AllOf ts) = foldr unknown_and (map (evaluate r) ts) (Some True)"
| "evaluate r (AnyOf ts) = foldr unknown_or (map (evaluate r) ts) (Some False)"

definition passes :: "sql_row \<Rightarrow> table_constraint \<Rightarrow> bool" where
  "passes r c = (case c of Check _ t \<Rightarrow> evaluate r t \<noteq> Some False | _ \<Rightarrow> True)"

definition column_present :: "sql_row \<Rightarrow> column \<Rightarrow> bool" where
  "column_present r c \<longleftrightarrow> nullable c \<or> r (column_name c) \<noteq> None"

definition row_fits :: "table \<Rightarrow> sql_row \<Rightarrow> bool" where
  "row_fits t r \<longleftrightarrow> (\<forall>c \<in> set (table_columns t). column_present r c) \<and> (\<forall>c \<in> set (constraints t). passes r c)"

text \<open>Whether the triggers of a table let an update through.\<close>

definition body_allows :: "sql_row \<Rightarrow> sql_row \<Rightarrow> trigger_body \<Rightarrow> bool" where
  "body_allows old new b = (case b of RejectMutation \<Rightarrow> False | RejectChange cs \<Rightarrow> \<forall>c \<in> set cs. new c = old c)"

definition update_allowed :: "schema \<Rightarrow> string \<Rightarrow> sql_row \<Rightarrow> sql_row \<Rightarrow> bool" where
  "update_allowed s n old new \<longleftrightarrow> (\<forall>t \<in> set (triggers s). trigger_table t = n \<and> OnUpdate \<in> set (trigger_operations t) \<longrightarrow>
     (\<forall>b. map_of (trigger_functions s) (trigger_function t) = Some b \<longrightarrow> body_allows old new b))"

end
