(* ===== verification/Migrations.thy ===== *)
theory Migrations
  imports Schema
begin

section \<open>The migrations\<close>

text \<open>
  The Alembic scripts 0001 to 0004, one list of operations per \<open>upgrade\<close> and \<open>downgrade\<close>, and the
  metadata that \<open>src/ledger/models.py\<close> declares. The body of a trigger function is the set of columns it
  compares, or the rejection of every change.
\<close>

subsection \<open>Conditions\<close>

definition event_type_test :: sql_test where
  "event_type_test =
   OneOf ''event_type'' [''report'', ''revision'', ''revocation'']"

definition event_shape_test :: sql_test where
  "event_shape_test =
   AnyOf [AllOf [Equals ''event_type'' ''revocation'', IsNull ''report_digest'', NotNull ''reason''],
       AllOf [OneOf ''event_type'' [''report'', ''revision''], NotNull ''report_digest'', IsNull ''reason'']]"

definition identity_present_test :: sql_test where
  "identity_present_test =
   AllOf [NotNull ''request_fingerprint'', NotNull ''instrument_id'', NotNull ''checkpoint_id'']"

text \<open>The shape of a package row before and after cancellation exists.\<close>

definition package_shape_0002 :: sql_test where
  "package_shape_0002 =
   AnyOf [AllOf [Equals ''status'' ''ready'', NotNull ''ready_at'', IsNull ''failure_code'',
       IsNull ''failure_reason'', NotNull ''artifact_sha256'', NotNull ''artifact_size_bytes'',
       NotNull ''event_count'', IsNull ''lease_owner'', IsNull ''lease_expires_at''],
     AllOf [Equals ''status'' ''failed'', NotNull ''failed_at'', NotNull ''failure_reason''],
     AllOf [Equals ''status'' ''pending'', IsNull ''lease_owner'', IsNull ''lease_expires_at'',
       IsNull ''ready_at'', IsNull ''failed_at'', IsNull ''failure_code'',
       IsNull ''failure_reason''],
     AllOf [Equals ''status'' ''building'', NotNull ''lease_owner'', NotNull ''lease_expires_at'',
       IsNull ''ready_at'', IsNull ''failed_at'', IsNull ''failure_code'',
       IsNull ''failure_reason'']]"

definition package_shape_0003 :: sql_test where
  "package_shape_0003 =
   AnyOf [AllOf [Equals ''status'' ''ready'', NotNull ''ready_at'', IsNull ''failure_code'',
       IsNull ''failure_reason'', NotNull ''artifact_sha256'', NotNull ''artifact_size_bytes'',
       NotNull ''event_count'', IsNull ''lease_owner'', IsNull ''lease_expires_at'',
       IsNull ''cancel_requested_at'', IsNull ''cancelled_at''],
     AllOf [Equals ''status'' ''failed'', NotNull ''failed_at'', NotNull ''failure_reason''],
     AllOf [Equals ''status'' ''pending'', IsNull ''lease_owner'', IsNull ''lease_expires_at'',
       IsNull ''ready_at'', IsNull ''failed_at'', IsNull ''failure_code'',
       IsNull ''failure_reason''],
     AllOf [Equals ''status'' ''building'', NotNull ''lease_owner'', NotNull ''lease_expires_at'',
       IsNull ''ready_at'', IsNull ''failed_at'', IsNull ''failure_code'',
       IsNull ''failure_reason'', IsNull ''cancel_requested_at'', IsNull ''cancelled_at''],
     AllOf [Equals ''status'' ''cancelling'', NotNull ''lease_owner'', NotNull ''lease_expires_at'',
       IsNull ''ready_at'', IsNull ''failed_at'', IsNull ''failure_code'',
       IsNull ''failure_reason'', NotNull ''cancel_requested_at'', IsNull ''cancelled_at''],
     AllOf [Equals ''status'' ''cancelled'', IsNull ''lease_owner'', IsNull ''lease_expires_at'',
       IsNull ''ready_at'', IsNull ''failed_at'', IsNull ''failure_code'',
       IsNull ''failure_reason'', IsNull ''artifact_sha256'', IsNull ''artifact_size_bytes'',
       IsNull ''event_count'', NotNull ''cancel_requested_at'', NotNull ''cancelled_at'']]"

subsection \<open>Revision 0001: the append-only ledger\<close>

definition events_0001 :: table where
  "events_0001 =
   \<lparr>table_name = ''events'',
   table_columns =
    [autoincrement ''sequence'', required ''event_id'' UuidType,
     required ''record_id'' UuidType, required ''event_type'' (StringType 16),
     required ''business_key'' (StringType 128),
     required ''content_fingerprint'' (StringType 64),
     required ''instrument_id'' (StringType 128), required ''operator_id'' (StringType 128),
     optional ''report_digest'' (StringType 64), optional ''previous_event_id'' UuidType,
     optional ''reason'' TextType, required ''occurred_at'' TimestampTz,
     required ''leaf_hash'' (StringType 64)],
   constraints =
    [Check ''ck_events_event_type'' event_type_test,
     Check ''ck_events_event_payload_shape'' event_shape_test,
     ForeignKey ''previous_event_id'' ''events'' ''event_id'',
     PrimaryKey ''sequence'',
     Unique ''uq_events_business_key'' ''business_key'',
     Unique ''uq_events_event_id'' ''event_id'',
     Unique ''uq_events_previous_event_id'' ''previous_event_id'']\<rparr>"

definition checkpoints_0001 :: table where
  "checkpoints_0001 =
   \<lparr>table_name = ''checkpoints'',
   table_columns =
    [required ''checkpoint_id'' UuidType, required ''leaf_count'' BigInteger,
     required ''last_event_sequence'' BigInteger, required ''root_hash'' (StringType 64),
     optional ''previous_checkpoint_id'' UuidType,
     optional ''previous_root_hash'' (StringType 64),
     required ''key_version'' (StringType 64), required ''created_at'' TimestampTz,
     required ''signature'' (StringType 64)],
   constraints =
    [Check ''ck_checkpoints_checkpoint_leaf_count_positive'' (Above ''leaf_count'' 0),
     ForeignKey ''previous_checkpoint_id'' ''checkpoints'' ''checkpoint_id'',
     PrimaryKey ''checkpoint_id'',
     Unique ''uq_checkpoints_leaf_count'' ''leaf_count'',
     Unique ''uq_checkpoints_last_sequence'' ''last_event_sequence'',
     Unique ''uq_checkpoints_previous_checkpoint_id'' ''previous_checkpoint_id'']\<rparr>"

definition upgrade_0001 :: "operation list" where
  "upgrade_0001 =
   [CreateTable events_0001,
    CreateIndex \<lparr>index_name = ''ix_events_event_id'', index_table = ''events'', index_columns = [''event_id'']\<rparr>,
    CreateIndex \<lparr>index_name = ''ix_events_record_sequence'', index_table = ''events'', index_columns = [''record_id'', ''sequence'']\<rparr>,
    CreateTable checkpoints_0001,
    CreateFunction ''ledger_reject_mutation'' RejectMutation,
    CreateTrigger \<lparr>trigger_name = ''events_append_only'', trigger_table = ''events'',
     trigger_operations = [OnUpdate, OnDelete], trigger_function = ''ledger_reject_mutation''\<rparr>,
    CreateTrigger \<lparr>trigger_name = ''checkpoints_append_only'', trigger_table = ''checkpoints'',
     trigger_operations = [OnUpdate, OnDelete], trigger_function = ''ledger_reject_mutation''\<rparr>]"

definition downgrade_0001 :: "operation list" where
  "downgrade_0001 =
   [DropTrigger ''checkpoints_append_only'' ''checkpoints'',
    DropTrigger ''events_append_only'' ''events'',
    DropTable ''checkpoints'',
    DropIndex ''ix_events_record_sequence'' ''events'',
    DropIndex ''ix_events_event_id'' ''events'',
    DropTable ''events'',
    DropFunction ''ledger_reject_mutation'']"

subsection \<open>Revision 0002: audit packages\<close>

definition packages_0002 :: table where
  "packages_0002 =
   \<lparr>table_name = ''audit_packages'',
   table_columns =
    [autoincrement ''id'', required ''package_id'' UuidType,
     required ''idempotency_key'' (StringType 128),
     required ''request_fingerprint'' (StringType 64),
     required ''instrument_id'' (StringType 128), required ''checkpoint_id'' UuidType,
     required ''status'' (StringType 16), required ''attempt_count'' IntegerType,
     optional ''lease_owner'' (StringType 128), optional ''lease_expires_at'' TimestampTz,
     optional ''failure_code'' (StringType 64), optional ''failure_reason'' TextType,
     optional ''artifact_sha256'' (StringType 64),
     optional ''artifact_size_bytes'' BigInteger, optional ''event_count'' BigInteger,
     required ''created_at'' TimestampTz, required ''updated_at'' TimestampTz,
     optional ''ready_at'' TimestampTz, optional ''failed_at'' TimestampTz],
   constraints =
    [Check ''ck_audit_packages_audit_package_status'' (OneOf ''status'' [''pending'', ''building'', ''ready'', ''failed'']),
     Check ''ck_audit_packages_audit_package_identity_present'' identity_present_test,
     Check ''ck_audit_packages_audit_package_state_shape'' package_shape_0002,
     Check ''ck_audit_packages_audit_package_attempts_non_negative'' (AtLeast ''attempt_count'' 0),
     ForeignKey ''checkpoint_id'' ''checkpoints'' ''checkpoint_id'',
     PrimaryKey ''id'',
     Unique ''uq_audit_packages_package_id'' ''package_id'',
     Unique ''uq_audit_packages_idempotency_key'' ''idempotency_key'']\<rparr>"

definition artifacts_0002 :: table where
  "artifacts_0002 =
   \<lparr>table_name = ''audit_package_artifacts'',
   table_columns =
    [required ''package_id'' UuidType, required ''zip_content'' Binary,
     required ''sha256'' (StringType 64), required ''size_bytes'' BigInteger,
     required ''created_at'' TimestampTz],
   constraints =
    [ForeignKey ''package_id'' ''audit_packages'' ''package_id'',
     PrimaryKey ''package_id'']\<rparr>"

definition package_identity :: "string list" where
  "package_identity =
   [''package_id'', ''idempotency_key'', ''request_fingerprint'', ''instrument_id'', ''checkpoint_id'', ''created_at'']"

definition upgrade_0002 :: "operation list" where
  "upgrade_0002 =
   [CreateTable packages_0002,
    CreateIndex \<lparr>index_name = ''ix_audit_packages_status_id'', index_table = ''audit_packages'', index_columns = [''status'', ''id'']\<rparr>,
    CreateIndex \<lparr>index_name = ''ix_audit_packages_instrument'', index_table = ''audit_packages'', index_columns = [''instrument_id'']\<rparr>,
    CreateTable artifacts_0002,
    CreateIndex \<lparr>index_name = ''ix_events_instrument_sequence'', index_table = ''events'', index_columns = [''instrument_id'', ''sequence'']\<rparr>,
    CreateFunction ''audit_package_reject_identity_mutation'' (RejectChange package_identity),
    CreateTrigger \<lparr>trigger_name = ''audit_packages_identity_immutable'', trigger_table = ''audit_packages'',
     trigger_operations = [OnUpdate], trigger_function = ''audit_package_reject_identity_mutation''\<rparr>,
    CreateTrigger \<lparr>trigger_name = ''audit_package_artifacts_append_only'', trigger_table = ''audit_package_artifacts'',
     trigger_operations = [OnUpdate, OnDelete], trigger_function = ''ledger_reject_mutation''\<rparr>]"

definition downgrade_0002 :: "operation list" where
  "downgrade_0002 =
   [DropTrigger ''audit_package_artifacts_append_only'' ''audit_package_artifacts'',
    DropTrigger ''audit_packages_identity_immutable'' ''audit_packages'',
    DropFunction ''audit_package_reject_identity_mutation'',
    DropIndex ''ix_events_instrument_sequence'' ''events'',
    DropTable ''audit_package_artifacts'',
    DropIndex ''ix_audit_packages_instrument'' ''audit_packages'',
    DropIndex ''ix_audit_packages_status_id'' ''audit_packages'',
    DropTable ''audit_packages'']"

subsection \<open>Revision 0003: cancellation\<close>

definition upgrade_0003 :: "operation list" where
  "upgrade_0003 =
   [AddColumn ''audit_packages'' (optional ''cancel_requested_at'' TimestampTz),
    AddColumn ''audit_packages'' (optional ''cancelled_at'' TimestampTz),
    DropConstraint ''ck_audit_packages_audit_package_status'' ''audit_packages'',
    CreateCheck ''ck_audit_packages_audit_package_status'' ''audit_packages''
      (OneOf ''status'' [''pending'', ''building'', ''ready'', ''failed'', ''cancelling'', ''cancelled'']),
    DropConstraint ''ck_audit_packages_audit_package_state_shape'' ''audit_packages'',
    CreateCheck ''ck_audit_packages_audit_package_state_shape'' ''audit_packages'' package_shape_0003]"

definition cancellation_rows :: sql_test where
  "cancellation_rows =
   OneOf ''status'' [''cancelling'', ''cancelled'']"

definition downgrade_0003 :: "operation list" where
  "downgrade_0003 =
   [DeleteRows ''audit_packages'' cancellation_rows,
    DropConstraint ''ck_audit_packages_audit_package_state_shape'' ''audit_packages'',
    CreateCheck ''ck_audit_packages_audit_package_state_shape'' ''audit_packages'' package_shape_0002,
    DropConstraint ''ck_audit_packages_audit_package_status'' ''audit_packages'',
    CreateCheck ''ck_audit_packages_audit_package_status'' ''audit_packages''
      (OneOf ''status'' [''pending'', ''building'', ''ready'', ''failed'']),
    DropColumn ''audit_packages'' ''cancelled_at'',
    DropColumn ''audit_packages'' ''cancel_requested_at'']"

subsection \<open>Revision 0004: audit consumers\<close>

definition consumers_0004 :: table where
  "consumers_0004 =
   \<lparr>table_name = ''audit_consumers'',
   table_columns =
    [autoincrement ''id'', required ''consumer_id'' UuidType,
     required ''consumer_name'' (StringType 128),
     required ''idempotency_key'' (StringType 128), optional ''last_checkpoint_id'' UuidType,
     required ''created_at'' TimestampTz, required ''updated_at'' TimestampTz,
     optional ''last_acknowledged_at'' TimestampTz],
   constraints =
    [ForeignKey ''last_checkpoint_id'' ''checkpoints'' ''checkpoint_id'',
     PrimaryKey ''id'',
     Unique ''uq_audit_consumers_consumer_id'' ''consumer_id'',
     Unique ''uq_audit_consumers_idempotency_key'' ''idempotency_key'']\<rparr>"

definition consumer_identity :: "string list" where
  "consumer_identity =
   [''consumer_id'', ''consumer_name'', ''idempotency_key'', ''created_at'']"

definition upgrade_0004 :: "operation list" where
  "upgrade_0004 =
   [CreateTable consumers_0004,
    CreateIndex \<lparr>index_name = ''ix_audit_consumers_name'', index_table = ''audit_consumers'', index_columns = [''consumer_name'']\<rparr>,
    CreateFunction ''audit_consumer_reject_identity_mutation'' (RejectChange consumer_identity),
    CreateTrigger \<lparr>trigger_name = ''audit_consumers_identity_immutable'', trigger_table = ''audit_consumers'',
     trigger_operations = [OnUpdate], trigger_function = ''audit_consumer_reject_identity_mutation''\<rparr>]"

definition downgrade_0004 :: "operation list" where
  "downgrade_0004 =
   [DropTrigger ''audit_consumers_identity_immutable'' ''audit_consumers'',
    DropFunction ''audit_consumer_reject_identity_mutation'',
    DropIndex ''ix_audit_consumers_name'' ''audit_consumers'',
    DropTable ''audit_consumers'']"

subsection \<open>The models\<close>

text \<open>The metadata of \<open>models.py\<close>, class by class, in the order of the attributes and of \<open>__table_args__\<close>; an
  unnamed constraint has the empty name.\<close>

definition Event :: table where
  "Event =
   \<lparr>table_name = ''events'',
   table_columns =
    [autoincrement ''sequence'', required ''event_id'' UuidType,
     required ''record_id'' UuidType, required ''event_type'' (StringType 16),
     required ''business_key'' (StringType 128),
     required ''content_fingerprint'' (StringType 64),
     required ''instrument_id'' (StringType 128), required ''operator_id'' (StringType 128),
     optional ''report_digest'' (StringType 64), optional ''previous_event_id'' UuidType,
     optional ''reason'' TextType, required ''occurred_at'' TimestampTz,
     required ''leaf_hash'' (StringType 64)],
   constraints =
    [Check ''event_type'' event_type_test,
     Check ''event_payload_shape'' event_shape_test,
     Unique ''uq_events_event_id'' ''event_id'',
     Unique ''uq_events_business_key'' ''business_key'',
     Unique ''uq_events_previous_event_id'' ''previous_event_id'',
     PrimaryKey ''sequence'',
     ForeignKey ''previous_event_id'' ''events'' ''event_id'']\<rparr>"

definition Checkpoint :: table where
  "Checkpoint =
   \<lparr>table_name = ''checkpoints'',
   table_columns =
    [required ''checkpoint_id'' UuidType, required ''leaf_count'' BigInteger,
     required ''last_event_sequence'' BigInteger, required ''root_hash'' (StringType 64),
     optional ''previous_checkpoint_id'' UuidType,
     optional ''previous_root_hash'' (StringType 64),
     required ''key_version'' (StringType 64), required ''created_at'' TimestampTz,
     required ''signature'' (StringType 64)],
   constraints =
    [Check ''checkpoint_leaf_count_positive'' (Above ''leaf_count'' 0),
     Unique ''uq_checkpoints_leaf_count'' ''leaf_count'',
     Unique ''uq_checkpoints_last_sequence'' ''last_event_sequence'',
     PrimaryKey ''checkpoint_id'',
     ForeignKey ''previous_checkpoint_id'' ''checkpoints'' ''checkpoint_id'',
     Unique '''' ''previous_checkpoint_id'']\<rparr>"

definition AuditPackage :: table where
  "AuditPackage =
   \<lparr>table_name = ''audit_packages'',
   table_columns =
    [autoincrement ''id'', required ''package_id'' UuidType,
     required ''idempotency_key'' (StringType 128),
     required ''request_fingerprint'' (StringType 64),
     required ''instrument_id'' (StringType 128), required ''checkpoint_id'' UuidType,
     required ''status'' (StringType 16), required ''attempt_count'' IntegerType,
     optional ''lease_owner'' (StringType 128), optional ''lease_expires_at'' TimestampTz,
     optional ''failure_code'' (StringType 64), optional ''failure_reason'' TextType,
     optional ''artifact_sha256'' (StringType 64),
     optional ''artifact_size_bytes'' BigInteger, optional ''event_count'' BigInteger,
     required ''created_at'' TimestampTz, required ''updated_at'' TimestampTz,
     optional ''ready_at'' TimestampTz, optional ''failed_at'' TimestampTz,
     optional ''cancel_requested_at'' TimestampTz, optional ''cancelled_at'' TimestampTz],
   constraints =
    [Check ''audit_package_status'' (OneOf ''status'' [''pending'', ''building'', ''ready'', ''failed'', ''cancelling'', ''cancelled'']),
     Check ''audit_package_identity_present'' identity_present_test,
     Check ''audit_package_state_shape'' package_shape_0003,
     Check ''audit_package_attempts_non_negative'' (AtLeast ''attempt_count'' 0),
     Unique ''uq_audit_packages_package_id'' ''package_id'',
     Unique ''uq_audit_packages_idempotency_key'' ''idempotency_key'',
     PrimaryKey ''id'',
     ForeignKey ''checkpoint_id'' ''checkpoints'' ''checkpoint_id'']\<rparr>"

definition AuditConsumer :: table where
  "AuditConsumer =
   \<lparr>table_name = ''audit_consumers'',
   table_columns =
    [autoincrement ''id'', required ''consumer_id'' UuidType,
     required ''consumer_name'' (StringType 128),
     required ''idempotency_key'' (StringType 128), optional ''last_checkpoint_id'' UuidType,
     required ''created_at'' TimestampTz, required ''updated_at'' TimestampTz,
     optional ''last_acknowledged_at'' TimestampTz],
   constraints =
    [Unique ''uq_audit_consumers_consumer_id'' ''consumer_id'',
     Unique ''uq_audit_consumers_idempotency_key'' ''idempotency_key'',
     PrimaryKey ''id'',
     ForeignKey ''last_checkpoint_id'' ''checkpoints'' ''checkpoint_id'']\<rparr>"

definition AuditPackageArtifact :: table where
  "AuditPackageArtifact =
   \<lparr>table_name = ''audit_package_artifacts'',
   table_columns =
    [required ''package_id'' UuidType, required ''zip_content'' Binary,
     required ''sha256'' (StringType 64), required ''size_bytes'' BigInteger,
     required ''created_at'' TimestampTz],
   constraints =
    [PrimaryKey ''package_id'',
     ForeignKey ''package_id'' ''audit_packages'' ''package_id'']\<rparr>"

definition event_indexes :: "index list" where
  "event_indexes =
   [\<lparr>index_name = ''ix_events_event_id'', index_table = ''events'', index_columns = [''event_id'']\<rparr>,
    \<lparr>index_name = ''ix_events_record_sequence'', index_table = ''events'', index_columns = [''record_id'', ''sequence'']\<rparr>,
    \<lparr>index_name = ''ix_events_instrument_sequence'', index_table = ''events'', index_columns = [''instrument_id'', ''sequence'']\<rparr>]"

definition package_indexes :: "index list" where
  "package_indexes =
   [\<lparr>index_name = ''ix_audit_packages_status_id'', index_table = ''audit_packages'', index_columns = [''status'', ''id'']\<rparr>,
    \<lparr>index_name = ''ix_audit_packages_instrument'', index_table = ''audit_packages'', index_columns = [''instrument_id'']\<rparr>]"

definition consumer_indexes :: "index list" where
  "consumer_indexes =
   [\<lparr>index_name = ''ix_audit_consumers_name'', index_table = ''audit_consumers'', index_columns = [''consumer_name'']\<rparr>]"

subsection \<open>The chain of revisions\<close>

record revision =
  revision_id :: string
  down_revision :: "string option"
  revision_upgrade :: "operation list"
  revision_downgrade :: "operation list"

definition revision_0001 :: revision where
  "revision_0001 = \<lparr>revision_id = ''0001_append_only_ledger'', down_revision = None,
     revision_upgrade = upgrade_0001, revision_downgrade = downgrade_0001\<rparr>"

definition revision_0002 :: revision where
  "revision_0002 = \<lparr>revision_id = ''0002_audit_packages'', down_revision = Some ''0001_append_only_ledger'',
     revision_upgrade = upgrade_0002, revision_downgrade = downgrade_0002\<rparr>"

definition revision_0003 :: revision where
  "revision_0003 = \<lparr>revision_id = ''0003_audit_package_cancellation'', down_revision = Some ''0002_audit_packages'',
     revision_upgrade = upgrade_0003, revision_downgrade = downgrade_0003\<rparr>"

definition revision_0004 :: revision where
  "revision_0004 = \<lparr>revision_id = ''0004_audit_consumers'', down_revision = Some ''0003_audit_package_cancellation'',
     revision_upgrade = upgrade_0004, revision_downgrade = downgrade_0004\<rparr>"

text \<open>
  The scripts that lead from one revision to the head: the successor of a revision is the script that
  names it as its \<open>down_revision\<close>. The first argument bounds the steps by the number of scripts.
\<close>

primrec upgrade_path :: "nat \<Rightarrow> revision list \<Rightarrow> string option \<Rightarrow> revision list" where
  "upgrade_path 0 rs base = []"
| "upgrade_path (Suc n) rs base =
     (case find (\<lambda>r. down_revision r = base) rs of
        None \<Rightarrow> []
      | Some r \<Rightarrow> r # upgrade_path n rs (Some (revision_id r)))"

definition upgrade_head :: "revision list \<Rightarrow> schema \<Rightarrow> schema option" where
  "upgrade_head rs s = apply_operations (concat (map revision_upgrade (upgrade_path (length rs) rs None))) s"

end
