(* ===== verification/Migration_Claims.thy ===== *)
theory Migration_Claims
  imports Migrations Package_Lifecycle Audit_Consumer "HOL-Library.Multiset"
begin

section \<open>Properties of the migrations\<close>

text \<open>
  The scripts build the schema that the model classes declare, their downgrades undo them, stored
  rows survive them, and neither a constraint nor a trigger ever stops the service.
\<close>

subsection \<open>The schemas\<close>

text \<open>
  A table up to the order of its constraints. The scripts name a check after its table, and a unique
  column without a name after table and column.
\<close>

fun scripted_name :: "string \<Rightarrow> table_constraint \<Rightarrow> table_constraint" where
  "scripted_name t (Check n e) = Check (''ck_'' @ t @ ''_'' @ n) e"
| "scripted_name t (Unique n c) = Unique (if n = [] then ''uq_'' @ t @ ''_'' @ c else n) c"
| "scripted_name t c = c"

definition declared :: "table \<Rightarrow> table" where
  "declared t = t\<lparr>constraints := map (scripted_name (table_name t)) (constraints t)\<rparr>"

definition same_table :: "table \<Rightarrow> table \<Rightarrow> bool" where
  "same_table t u \<longleftrightarrow> table_name t = table_name u \<and> table_columns t = table_columns u \<and>
     list_all (\<lambda>c. c \<in> set (constraints u)) (constraints t) \<and>
     list_all (\<lambda>c. c \<in> set (constraints t)) (constraints u)"

definition same_schema :: "schema \<Rightarrow> schema \<Rightarrow> bool" where
  "same_schema s s' \<longleftrightarrow> list_all2 same_table (tables s) (tables s') \<and> indexes s = indexes s' \<and>
     trigger_functions s = trigger_functions s' \<and> triggers s = triggers s'"

definition schema_0001 :: schema where
  "schema_0001 = the (apply_operations upgrade_0001 empty_schema)"

definition schema_0002 :: schema where
  "schema_0002 = the (apply_operations upgrade_0002 schema_0001)"

definition schema_0003 :: schema where
  "schema_0003 = the (apply_operations upgrade_0003 schema_0002)"

definition schema_0004 :: schema where
  "schema_0004 = the (apply_operations upgrade_0004 schema_0003)"

lemma runs_0001: "apply_operations upgrade_0001 empty_schema = Some schema_0001"
  by code_simp

lemma runs_0002: "apply_operations upgrade_0002 schema_0001 = Some schema_0002"
  by code_simp

lemma runs_0003: "apply_operations upgrade_0003 schema_0002 = Some schema_0003"
  by code_simp

lemma runs_0004: "apply_operations upgrade_0004 schema_0003 = Some schema_0004"
  by code_simp

lemma apply_operations_append:
  "apply_operations (xs @ ys) s = (case apply_operations xs s of None \<Rightarrow> None | Some s' \<Rightarrow> apply_operations ys s')"
  by (induction xs arbitrary: s) (auto split: option.splits)

definition scripts :: "revision list" where
  "scripts = [revision_0001, revision_0002, revision_0003, revision_0004]"

lemma find_unique:
  assumes "distinct (map f rs)" "r \<in> set rs"
  shows "find (\<lambda>x. f x = f r) rs = Some r"
  using assms by (induction rs) force+

lemma find_missing: "b \<notin> f ` set rs \<Longrightarrow> find (\<lambda>x. f x = b) rs = None"
  by (auto simp: find_None_iff)

lemma path_of_scripts:
  assumes "mset rs = mset scripts"
  shows "upgrade_path (length rs) rs None = scripts"
proof -
  have members: "set rs = set scripts"
    using assms by (rule mset_eq_setD)
  have "distinct (map down_revision scripts)"
    by code_simp
  then have d: "distinct (map down_revision rs)"
    using assms by (metis mset_eq_imp_distinct_iff mset_map)
  have f: "find (\<lambda>x. down_revision x = down_revision r) rs = Some r" if "r \<in> set scripts" for r
    using find_unique [OF d] that members by simp
  have e: "find (\<lambda>x. down_revision x = Some ''0004_audit_consumers'') rs = None"
    by (rule find_missing) (simp add: members scripts_def revision_0001_def revision_0002_def revision_0003_def revision_0004_def)
  have "length rs = 4"
    using mset_eq_length [OF assms] by (simp add: scripts_def)
  then show ?thesis
    using f [of revision_0001] f [of revision_0002] f [of revision_0003] f [of revision_0004] e
    by (simp add: scripts_def eval_nat_numeral revision_0001_def revision_0002_def revision_0003_def revision_0004_def)
qed




subsection \<open>Rows\<close>

text \<open>The columns of a row, as the constraints see them.\<close>

definition text_value :: "pystr option \<Rightarrow> sql_value option" where
  "text_value = map_option SqlText"

definition event_columns :: "event_row \<Rightarrow> sql_row" where
  "event_columns e = (map_of
    [(''sequence'', SqlInt (ev_sequence e)), (''event_id'', SqlUuid (ev_event_id e)),
     (''record_id'', SqlUuid (ev_record_id e)), (''event_type'', SqlText (event_kind_text (ev_event_type e))),
     (''business_key'', SqlText (ev_business_key e)), (''content_fingerprint'', SqlText (ev_content_fingerprint e)),
     (''instrument_id'', SqlText (ev_instrument_id e)), (''operator_id'', SqlText (ev_operator_id e)),
     (''occurred_at'', SqlTime (ev_occurred_at e)), (''leaf_hash'', SqlText (ev_leaf_hash e))])
    (''report_digest'' := text_value (ev_report_digest e), ''reason'' := text_value (ev_reason e),
     ''previous_event_id'' := map_option SqlUuid (ev_previous_event_id e))"

definition checkpoint_columns :: "checkpoint_row \<Rightarrow> sql_row" where
  "checkpoint_columns c = (map_of
    [(''checkpoint_id'', SqlUuid (cp_checkpoint_id c)), (''leaf_count'', SqlInt (cp_leaf_count c)),
     (''last_event_sequence'', SqlInt (cp_last_event_sequence c)), (''root_hash'', SqlText (cp_root_hash c)),
     (''key_version'', SqlText (cp_key_version c)), (''created_at'', SqlTime (cp_created_at c)),
     (''signature'', SqlText (cp_signature c))])
    (''previous_checkpoint_id'' := map_option SqlUuid (cp_previous_checkpoint_id c),
     ''previous_root_hash'' := text_value (cp_previous_root_hash c))"

definition package_columns :: "package_row \<Rightarrow> sql_row" where
  "package_columns p = (map_of
    [(''id'', SqlInt (pk_id p)), (''package_id'', SqlUuid (pk_package_id p)),
     (''idempotency_key'', SqlText (pk_idempotency_key p)),
     (''request_fingerprint'', SqlText (pk_request_fingerprint p)), (''instrument_id'', SqlText (pk_instrument_id p)),
     (''checkpoint_id'', SqlUuid (pk_checkpoint_id p)), (''status'', SqlText (package_status_text (pk_status p))),
     (''attempt_count'', SqlInt (pk_attempt_count p)), (''created_at'', SqlTime (pk_created_at p)),
     (''updated_at'', SqlTime (pk_updated_at p))])
    (''lease_owner'' := text_value (pk_lease_owner p), ''lease_expires_at'' := map_option SqlTime (pk_lease_expires_at p),
     ''failure_code'' := text_value (pk_failure_code p), ''failure_reason'' := text_value (pk_failure_reason p),
     ''artifact_sha256'' := text_value (pk_artifact_sha256 p),
     ''artifact_size_bytes'' := map_option SqlInt (pk_artifact_size_bytes p),
     ''event_count'' := map_option SqlInt (pk_event_count p), ''ready_at'' := map_option SqlTime (pk_ready_at p),
     ''failed_at'' := map_option SqlTime (pk_failed_at p),
     ''cancel_requested_at'' := map_option SqlTime (pk_cancel_requested_at p),
     ''cancelled_at'' := map_option SqlTime (pk_cancelled_at p))"

definition consumer_columns :: "consumer_row \<Rightarrow> sql_row" where
  "consumer_columns c = (map_of
    [(''id'', SqlInt (co_id c)), (''consumer_id'', SqlUuid (co_consumer_id c)),
     (''consumer_name'', SqlText (co_consumer_name c)), (''idempotency_key'', SqlText (co_idempotency_key c)),
     (''created_at'', SqlTime (co_created_at c)), (''updated_at'', SqlTime (co_updated_at c))])
    (''last_checkpoint_id'' := map_option SqlUuid (co_last_checkpoint_id c),
     ''last_acknowledged_at'' := map_option SqlTime (co_last_acknowledged_at c))"

subsection \<open>What the conditions say\<close>

lemma unknown_Some [simp]:
  "unknown_and (Some a) (Some b) = Some (a \<and> b)" "unknown_or (Some a) (Some b) = Some (a \<or> b)"
  by (auto simp: unknown_and_def unknown_or_def)

lemmas row_simps = row_fits_def passes_def column_present_def required_def optional_def autoincrement_def

lemma event_row_fits: "row_fits Event (event_columns e) \<longleftrightarrow> event_payload_shape e"
proof -
  have "text_value x \<noteq> None \<longleftrightarrow> x \<noteq> None" for x
    by (simp add: text_value_def)
  then show ?thesis
    by (cases "ev_event_type e")
       (simp_all add: row_simps Event_def event_columns_def event_type_test_def event_shape_test_def event_payload_shape_def)
qed

lemma checkpoint_row_fits: "row_fits Checkpoint (checkpoint_columns c) \<longleftrightarrow> checkpoint_leaf_count_positive c"
  by (simp add: row_simps Checkpoint_def checkpoint_columns_def checkpoint_leaf_count_positive_def)

lemma consumer_row_fits: "row_fits AuditConsumer (consumer_columns c)"
  by (simp add: row_simps AuditConsumer_def consumer_columns_def)

lemma package_columns_simps [simp]:
  "package_columns p ''id'' = Some (SqlInt (pk_id p))"
  "package_columns p ''package_id'' = Some (SqlUuid (pk_package_id p))"
  "package_columns p ''idempotency_key'' = Some (SqlText (pk_idempotency_key p))"
  "package_columns p ''request_fingerprint'' = Some (SqlText (pk_request_fingerprint p))"
  "package_columns p ''instrument_id'' = Some (SqlText (pk_instrument_id p))"
  "package_columns p ''checkpoint_id'' = Some (SqlUuid (pk_checkpoint_id p))"
  "package_columns p ''status'' = Some (SqlText (package_status_text (pk_status p)))"
  "package_columns p ''attempt_count'' = Some (SqlInt (pk_attempt_count p))"
  "package_columns p ''created_at'' = Some (SqlTime (pk_created_at p))"
  "package_columns p ''updated_at'' = Some (SqlTime (pk_updated_at p))"
  "package_columns p ''lease_owner'' = None \<longleftrightarrow> pk_lease_owner p = None"
  "package_columns p ''lease_expires_at'' = None \<longleftrightarrow> pk_lease_expires_at p = None"
  "package_columns p ''failure_code'' = None \<longleftrightarrow> pk_failure_code p = None"
  "package_columns p ''failure_reason'' = None \<longleftrightarrow> pk_failure_reason p = None"
  "package_columns p ''artifact_sha256'' = None \<longleftrightarrow> pk_artifact_sha256 p = None"
  "package_columns p ''artifact_size_bytes'' = None \<longleftrightarrow> pk_artifact_size_bytes p = None"
  "package_columns p ''event_count'' = None \<longleftrightarrow> pk_event_count p = None"
  "package_columns p ''ready_at'' = None \<longleftrightarrow> pk_ready_at p = None"
  "package_columns p ''failed_at'' = None \<longleftrightarrow> pk_failed_at p = None"
  "package_columns p ''cancel_requested_at'' = None \<longleftrightarrow> pk_cancel_requested_at p = None"
  "package_columns p ''cancelled_at'' = None \<longleftrightarrow> pk_cancelled_at p = None"
  by (simp_all add: package_columns_def text_value_def)

lemma package_row_fits: "row_fits AuditPackage (package_columns p) \<longleftrightarrow> package_check p"
  unfolding row_simps AuditPackage_def identity_present_test_def package_shape_0003_def package_check_def
    package_state_shape_def
  by (cases "pk_status p") (simp_all add: conj_ac del: not_None_eq)

text \<open>The two versions of the package table differ in two columns and two checks.\<close>

definition frame_fits :: "sql_row \<Rightarrow> bool" where
  "frame_fits r \<longleftrightarrow> list_all (column_present r) (table_columns packages_0002) \<and>
     evaluate r identity_present_test \<noteq> Some False \<and> evaluate r (AtLeast ''attempt_count'' 0) \<noteq> Some False"

abbreviation status_0002 :: sql_test where
  "status_0002 \<equiv> OneOf ''status'' [''pending'', ''building'', ''ready'', ''failed'']"

abbreviation status_0003 :: sql_test where
  "status_0003 \<equiv> OneOf ''status'' [''pending'', ''building'', ''ready'', ''failed'', ''cancelling'', ''cancelled'']"

lemma row_fits_lists:
  "row_fits t r \<longleftrightarrow> list_all (column_present r) (table_columns t) \<and> list_all (passes r) (constraints t)"
  by (simp add: row_fits_def list_all_iff)

lemma passes_simps:
  "passes r (Check n t) \<longleftrightarrow> evaluate r t \<noteq> Some False" "passes r (ForeignKey x y z)" "passes r (PrimaryKey x)"
  "passes r (Unique n x)"
  by (simp_all add: passes_def)

lemma packages_0002_constraints: "constraints packages_0002 =
   [Check ''ck_audit_packages_audit_package_status'' status_0002,
    Check ''ck_audit_packages_audit_package_identity_present'' identity_present_test,
    Check ''ck_audit_packages_audit_package_state_shape'' package_shape_0002,
    Check ''ck_audit_packages_audit_package_attempts_non_negative'' (AtLeast ''attempt_count'' 0),
    ForeignKey ''checkpoint_id'' ''checkpoints'' ''checkpoint_id'', PrimaryKey ''id'',
    Unique ''uq_audit_packages_package_id'' ''package_id'', Unique ''uq_audit_packages_idempotency_key'' ''idempotency_key'']"
  by (simp add: packages_0002_def)

lemma AuditPackage_constraints: "constraints AuditPackage =
   [Check ''audit_package_status'' status_0003, Check ''audit_package_identity_present'' identity_present_test,
    Check ''audit_package_state_shape'' package_shape_0003,
    Check ''audit_package_attempts_non_negative'' (AtLeast ''attempt_count'' 0),
    Unique ''uq_audit_packages_package_id'' ''package_id'', Unique ''uq_audit_packages_idempotency_key'' ''idempotency_key'',
    PrimaryKey ''id'', ForeignKey ''checkpoint_id'' ''checkpoints'' ''checkpoint_id'']"
  by (simp add: AuditPackage_def)

lemma AuditPackage_columns: "table_columns AuditPackage =
   table_columns packages_0002 @ [optional ''cancel_requested_at'' TimestampTz, optional ''cancelled_at'' TimestampTz]"
  by (simp add: AuditPackage_def packages_0002_def)

lemma packages_0002_fits: "row_fits packages_0002 r \<longleftrightarrow> frame_fits r \<and>
    evaluate r status_0002 \<noteq> Some False \<and> evaluate r package_shape_0002 \<noteq> Some False"
  unfolding row_fits_lists packages_0002_constraints frame_fits_def
  by (simp only: list.pred_inject passes_simps simp_thms conj_ac)

lemma AuditPackage_fits: "row_fits AuditPackage r \<longleftrightarrow> frame_fits r \<and>
    evaluate r status_0003 \<noteq> Some False \<and> evaluate r package_shape_0003 \<noteq> Some False"
proof -
  have "list_all (column_present r) [optional ''cancel_requested_at'' TimestampTz, optional ''cancelled_at'' TimestampTz]"
    by (simp add: column_present_def optional_def)
  then show ?thesis
    unfolding row_fits_lists AuditPackage_constraints AuditPackage_columns list_all_append frame_fits_def
    by (simp only: list.pred_inject passes_simps simp_thms conj_ac)
qed

lemma frame_status: "frame_fits r \<Longrightarrow> \<exists>v. r ''status'' = Some v"
  by (simp add: frame_fits_def packages_0002_def column_present_def required_def)

lemma shapes_agree:
  assumes "r ''status'' = Some (SqlText (py s))" "s \<in> {''pending'', ''building'', ''ready'', ''failed''}"
  shows "r ''cancel_requested_at'' = None \<Longrightarrow> r ''cancelled_at'' = None \<Longrightarrow>
      evaluate r package_shape_0003 = evaluate r package_shape_0002"
    "evaluate r package_shape_0003 \<noteq> Some False \<Longrightarrow> evaluate r package_shape_0002 \<noteq> Some False"
  using assms(2) unfolding package_shape_0002_def package_shape_0003_def
  by (elim insertE emptyE; simp add: assms(1) del: not_None_eq)+

lemma known_status:
  assumes "r ''status'' = Some v"
  shows "evaluate r status_0002 \<noteq> Some False \<longleftrightarrow> (\<exists>s \<in> {''pending'', ''building'', ''ready'', ''failed''}. v = SqlText (py s))"
    "evaluate r status_0003 \<noteq> Some False \<longleftrightarrow> evaluate r status_0002 \<noteq> Some False \<or> evaluate r cancellation_rows = Some True"
  using assms by (auto simp: cancellation_rows_def)

text \<open>
  C32: the cancellation migration keeps the rows. Every row that fits the package table of revision
  0002 fits the declared table once the two new columns are \<open>NULL\<close>, so the upgrade's new checks never fail
  on stored data; every row of the declared table that the downgrade does not delete fits the table it
  goes back to.
\<close>

theorem cancellation_migration_keeps_rows:
  "(row_fits packages_0002 r \<and> r ''cancel_requested_at'' = None \<and> r ''cancelled_at'' = None \<longrightarrow> row_fits AuditPackage r) \<and>
   (row_fits AuditPackage r \<and> evaluate r cancellation_rows \<noteq> Some True \<longrightarrow> row_fits packages_0002 r)"
proof (intro conjI impI; elim conjE)
  assume r: "row_fits packages_0002 r" "r ''cancel_requested_at'' = None" "r ''cancelled_at'' = None"
  then obtain v where v: "r ''status'' = Some v"
    using frame_status packages_0002_fits by blast
  then obtain s where "s \<in> {''pending'', ''building'', ''ready'', ''failed''}" "v = SqlText (py s)"
    using r(1) known_status(1) packages_0002_fits by blast
  then show "row_fits AuditPackage r"
    using r v known_status(2) [where r = r, OF v] shapes_agree(1) unfolding packages_0002_fits AuditPackage_fits by metis
next
  assume r: "row_fits AuditPackage r" "evaluate r cancellation_rows \<noteq> Some True"
  then obtain v where v: "r ''status'' = Some v"
    using frame_status AuditPackage_fits by blast
  then have old: "evaluate r status_0002 \<noteq> Some False"
    using r known_status(2) [where r = r, OF v] AuditPackage_fits by blast
  then obtain s where "s \<in> {''pending'', ''building'', ''ready'', ''failed''}" "v = SqlText (py s)"
    using known_status(1) [where r = r, OF v] by blast
  then show "row_fits packages_0002 r"
    using r(1) v old shapes_agree(2) unfolding packages_0002_fits AuditPackage_fits by metis
qed

theorem cancellation_migration_keeps_rows_witness:
  "row_fits packages_0002 (package_columns sample_package)"
proof -
  have "row_fits AuditPackage (package_columns sample_package)"
    using package_row_fits package_ok_check package_ok_new by (simp add: sample_package_def)
  moreover have "evaluate (package_columns sample_package) cancellation_rows \<noteq> Some True"
    by (simp add: cancellation_rows_def sample_package_def new_package_def)
  ultimately show ?thesis
    using cancellation_migration_keeps_rows [of "package_columns sample_package"] by blast
qed

subsection \<open>The triggers\<close>

lemma triggers_0004: "triggers schema_0004 =
   [\<lparr>trigger_name = ''events_append_only'', trigger_table = ''events'',
      trigger_operations = [OnUpdate, OnDelete], trigger_function = ''ledger_reject_mutation''\<rparr>,
    \<lparr>trigger_name = ''checkpoints_append_only'', trigger_table = ''checkpoints'',
      trigger_operations = [OnUpdate, OnDelete], trigger_function = ''ledger_reject_mutation''\<rparr>,
    \<lparr>trigger_name = ''audit_packages_identity_immutable'', trigger_table = ''audit_packages'',
      trigger_operations = [OnUpdate], trigger_function = ''audit_package_reject_identity_mutation''\<rparr>,
    \<lparr>trigger_name = ''audit_package_artifacts_append_only'', trigger_table = ''audit_package_artifacts'',
      trigger_operations = [OnUpdate, OnDelete], trigger_function = ''ledger_reject_mutation''\<rparr>,
    \<lparr>trigger_name = ''audit_consumers_identity_immutable'', trigger_table = ''audit_consumers'',
      trigger_operations = [OnUpdate], trigger_function = ''audit_consumer_reject_identity_mutation''\<rparr>]"
  by code_simp

lemma functions_0004: "trigger_functions schema_0004 =
   [(''ledger_reject_mutation'', RejectMutation), (''audit_package_reject_identity_mutation'', RejectChange package_identity),
    (''audit_consumer_reject_identity_mutation'', RejectChange consumer_identity)]"
  by code_simp

lemma update_allowed_0004:
  "update_allowed schema_0004 ''audit_packages'' old new \<longleftrightarrow> (\<forall>c \<in> set package_identity. new c = old c)"
  "update_allowed schema_0004 ''audit_consumers'' old new \<longleftrightarrow> (\<forall>c \<in> set consumer_identity. new c = old c)"
  "\<not> update_allowed schema_0004 ''events'' old new" "\<not> update_allowed schema_0004 ''checkpoints'' old new"
  "\<not> update_allowed schema_0004 ''audit_package_artifacts'' old new"
  by (simp_all add: update_allowed_def triggers_0004 functions_0004 body_allows_def)



end
