(* ===== verification/Json_Loads.thy ===== *)
theory Json_Loads
  imports Receipt "HOL-Library.AList"
begin

section \<open>Reading JSON text\<close>

text \<open>
  \<open>json.loads\<close> on text, as \<open>src/ledger/config.py\<close> and \<open>src/ledger/verify.py\<close> use it: the scanner of
  Python's \<open>json\<close> module with its default options (duplicate keys keep the last value, \<open>NaN\<close> and the
  infinities are numbers). The value of a number with a point or an exponent is the parameter
  \<open>parse_float\<close>. The nesting depth at which the interpreter gives up is not modelled. The main results:
  reading back what the ledger wrote gives the value with its keys in order.
\<close>

subsection \<open>Strings\<close>

definition hex4 :: "pystr \<Rightarrow> nat option" where
  "hex4 s =
     (case map hex_value (take 4 s) of
        [Some a, Some b, Some c, Some d] \<Rightarrow> Some (4096 * a + 256 * b + 16 * c + d)
      | _ \<Rightarrow> None)"

definition simple_escape :: "nat \<Rightarrow> nat option" where
  "simple_escape c =
     (if c = 34 \<or> c = 92 \<or> c = 47 then Some c
      else if c = 98 then Some 8 else if c = 102 then Some 12 else if c = 110 then Some 10
      else if c = 114 then Some 13 else if c = 116 then Some 9 else None)"

text \<open>A high surrogate followed by the escape of a low one is joined with it.\<close>

definition surrogate_pair :: "nat \<Rightarrow> pystr \<Rightarrow> nat option" where
  "surrogate_pair u s =
     (if 0xD800 \<le> u \<and> u \<le> 0xDBFF \<and> take 2 s = [92, 117] then
        case hex4 (drop 2 s) of
          Some v \<Rightarrow> if 0xDC00 \<le> v \<and> v \<le> 0xDFFF then Some (0x10000 + (u - 0xD800) * 1024 + (v - 0xDC00)) else None
        | None \<Rightarrow> None
      else None)"

definition push_char :: "nat \<Rightarrow> (pystr \<times> pystr) result \<Rightarrow> (pystr \<times> pystr) result" where
  "push_char c = map_result (\<lambda>(s, rest). (c # s, rest))"

function scan_string :: "pystr \<Rightarrow> (pystr \<times> pystr) result" where
  "scan_string [] = Inl JSONDecodeError"
| "scan_string (c # cs) =
     (if c = 34 then Inr ([], cs)
      else if c \<noteq> 92 then if c < 32 then Inl JSONDecodeError else push_char c (scan_string cs)
      else
        case cs of
          [] \<Rightarrow> Inl JSONDecodeError
        | x # ys \<Rightarrow>
            case simple_escape x of
              Some d \<Rightarrow> push_char d (scan_string ys)
            | None \<Rightarrow>
                if x \<noteq> 117 then Inl JSONDecodeError
                else
                  case hex4 ys of
                    None \<Rightarrow> Inl JSONDecodeError
                  | Some u \<Rightarrow>
                      case surrogate_pair u (drop 4 ys) of
                        Some d \<Rightarrow> push_char d (scan_string (drop 10 ys))
                      | None \<Rightarrow> push_char u (scan_string (drop 4 ys)))"
  by pat_completeness auto
termination by (relation "measure length") auto

subsection \<open>Numbers and literals\<close>

text \<open>The longest number at the front of a text: its characters, whether it is a float, and the rest.\<close>

definition fraction_part :: "pystr \<Rightarrow> pystr" where
  "fraction_part s =
     (let ds = takeWhile is_digit (drop 1 s) in if take 1 s = [46] \<and> ds \<noteq> [] then 46 # ds else [])"

definition exponent_part :: "pystr \<Rightarrow> pystr" where
  "exponent_part s =
     (case s of
        [] \<Rightarrow> []
      | e # r \<Rightarrow>
          if e \<noteq> 101 \<and> e \<noteq> 69 then []
          else
            let sign = (if take 1 r = [43] \<or> take 1 r = [45] then take 1 r else []);
                ds = takeWhile is_digit (drop (length sign) r) in
            if ds = [] then [] else e # sign @ ds)"

definition integer_part :: "pystr \<Rightarrow> pystr option" where
  "integer_part s =
     (case s of
        [] \<Rightarrow> None
      | c # r \<Rightarrow> if c = 48 then Some [48] else if is_digit c then Some (takeWhile is_digit s) else None)"

definition number_value :: "(pystr \<Rightarrow> pyfloat) \<Rightarrow> pystr \<Rightarrow> pystr \<Rightarrow> pystr \<Rightarrow> json result" where
  "number_value parse_float sign ds tail =
     (if tail \<noteq> [] then Inr (JFloat (parse_float (sign @ ds @ tail)))
      else if max_int_digits < length ds then Inl ValueError
      else Inr (JInt ((if sign = [] then 1 else -1) * int (digits_value ds))))"

definition scan_digits :: "(pystr \<Rightarrow> pyfloat) \<Rightarrow> pystr \<Rightarrow> pystr \<Rightarrow> (json \<times> pystr) result" where
  "scan_digits parse_float sign s =
     (case integer_part s of
        None \<Rightarrow> Inl JSONDecodeError
      | Some ds \<Rightarrow>
          let r = drop (length ds) s;
              frac = fraction_part r;
              ex = exponent_part (drop (length frac) r) in
          map_result (\<lambda>v. (v, drop (length frac + length ex) r)) (number_value parse_float sign ds (frac @ ex)))"

definition scan_number :: "(pystr \<Rightarrow> pyfloat) \<Rightarrow> pystr \<Rightarrow> (json \<times> pystr) result" where
  "scan_number parse_float s =
     (if take 1 s = [45] then scan_digits parse_float [45] (drop 1 s) else scan_digits parse_float [] s)"

definition json_literals :: "(pystr \<times> json) list" where
  "json_literals =
     [(py ''null'', JNull), (py ''true'', JBool True), (py ''false'', JBool False),
      (py ''NaN'', JFloat NaN), (py ''Infinity'', JFloat PosInf), (py ''-Infinity'', JFloat NegInf)]"

definition scan_literal :: "(pystr \<Rightarrow> pyfloat) \<Rightarrow> pystr \<Rightarrow> (json \<times> pystr) result" where
  "scan_literal parse_float s =
     (case find (\<lambda>(t, v). take (length t) s = t) json_literals of
        Some (t, v) \<Rightarrow> Inr (v, drop (length t) s)
      | None \<Rightarrow> scan_number parse_float s)"

subsection \<open>Values\<close>

definition json_space :: "nat \<Rightarrow> bool" where
  "json_space c \<longleftrightarrow> c = 32 \<or> c = 9 \<or> c = 10 \<or> c = 13"

definition skip :: "pystr \<Rightarrow> pystr" where
  "skip s = dropWhile json_space s"

definition expect :: "nat \<Rightarrow> pystr \<Rightarrow> pystr result" where
  "expect c s = (if take 1 s = [c] then Inr (drop 1 s) else Inl JSONDecodeError)"

text \<open>What follows a member: the closing bracket, or a comma and the next member.\<close>

definition separator :: "nat \<Rightarrow> pystr \<Rightarrow> (bool \<times> pystr) result" where
  "separator closing s =
     (case skip s of
        [] \<Rightarrow> Inl JSONDecodeError
      | c # cs \<Rightarrow>
          if c = closing then Inr (True, cs) else if c = 44 then Inr (False, skip cs) else Inl JSONDecodeError)"

text \<open>
  The scanner, on lists and objects a loop over the members. The first argument bounds the number
  of nested calls; twice the length of the text is always enough (\<open>scan_enough\<close>). \<open>AList.update\<close> is the
  assignment to a \<open>dict\<close>: a new key goes to the end, an old one keeps its place.
\<close>

fun scan_value :: "(pystr \<Rightarrow> pyfloat) \<Rightarrow> nat \<Rightarrow> pystr \<Rightarrow> (json \<times> pystr) result"
and scan_items :: "(pystr \<Rightarrow> pyfloat) \<Rightarrow> nat \<Rightarrow> json list \<Rightarrow> pystr \<Rightarrow> (json \<times> pystr) result"
and scan_members :: "(pystr \<Rightarrow> pyfloat) \<Rightarrow> nat \<Rightarrow> pydict \<Rightarrow> pystr \<Rightarrow> (json \<times> pystr) result" where
  "scan_value pf 0 s = Inl JSONDecodeError"
| "scan_value pf (Suc n) [] = Inl JSONDecodeError"
| "scan_value pf (Suc n) (c # cs) =
     (if c = 34 then map_result (\<lambda>(t, r). (JStr t, r)) (scan_string cs)
      else if c = 123 then
        if take 1 (skip cs) = [125] then Inr (JObj [], drop 1 (skip cs)) else scan_members pf n [] (skip cs)
      else if c = 91 then
        if take 1 (skip cs) = [93] then Inr (JArr [], drop 1 (skip cs)) else scan_items pf n [] (skip cs)
      else scan_literal pf (c # cs))"
| "scan_items pf 0 vs s = Inl JSONDecodeError"
| "scan_items pf (Suc n) vs s =
     bind_result (scan_value pf n s) (\<lambda>(v, r).
     bind_result (separator 93 r) (\<lambda>(closed, r').
       if closed then Inr (JArr (vs @ [v]), r') else scan_items pf n (vs @ [v]) r'))"
| "scan_members pf 0 kvs s = Inl JSONDecodeError"
| "scan_members pf (Suc n) kvs s =
     bind_result (expect 34 s) (\<lambda>body.
     bind_result (scan_string body) (\<lambda>(k, r).
     bind_result (expect 58 (skip r)) (\<lambda>r.
     bind_result (scan_value pf n (skip r)) (\<lambda>(v, r).
     bind_result (separator 125 r) (\<lambda>(closed, r').
       if closed then Inr (JObj (AList.update k v kvs), r')
       else scan_members pf n (AList.update k v kvs) r')))))"

definition json_loads :: "(pystr \<Rightarrow> pyfloat) \<Rightarrow> pystr \<Rightarrow> json result" where
  "json_loads parse_float s =
     (if take 1 s = [65279] then Inl JSONDecodeError
      else
        bind_result (scan_value parse_float (Suc (2 * length s)) (skip s)) (\<lambda>(v, r).
          if skip r = [] then Inr v else Inl JSONDecodeError))"

subsection \<open>The bound is enough\<close>

lemma push_char_Inr: "push_char c r = Inr (t, u) \<longleftrightarrow> (\<exists>s. r = Inr (s, u) \<and> t = c # s)"
  by (auto simp: push_char_def result_simps)

lemma scan_string_shorter: "scan_string s = Inr (t, r) \<Longrightarrow> length r < length s"
proof (induction s arbitrary: t rule: scan_string.induct)
  case (2 c cs)
  then show ?case
    by (fastforce simp: push_char_Inr split: if_splits list.splits option.splits)
qed simp

lemma integer_part_some: "integer_part s = Some ds \<Longrightarrow> ds \<noteq> [] \<and> (\<exists>r. s = ds @ r)"
  using takeWhile_dropWhile_id [of is_digit s, symmetric]
  by (auto simp: integer_part_def simp del: takeWhile_dropWhile_id split: list.splits if_splits)

lemma scan_digits_shorter:
  assumes "scan_digits pf sign s = Inr (v, r)"
  shows "length r < length s"
proof -
  obtain b c where "r = drop c (drop (length b) s)" "integer_part s = Some b"
    using assms by (auto simp: scan_digits_def Let_def result_simps simp del: drop_drop split: option.splits)
  moreover from this obtain u where "s = b @ u" "b \<noteq> []"
    using integer_part_some by blast
  ultimately show ?thesis
    by (simp only: length_drop) (cases b; simp)
qed

lemma scan_number_shorter: "scan_number pf s = Inr (v, r) \<Longrightarrow> length r < length s"
  using scan_digits_shorter [of pf "[45]" "drop 1 s" v r] scan_digits_shorter [of pf "[]" s v r]
  by (cases s) (auto simp: scan_number_def split: if_splits)

lemma literals_nonempty: "(t, v) \<in> set json_literals \<Longrightarrow> 0 < length t"
  by (auto simp: json_literals_def py_def)

lemma scan_literal_shorter:
  assumes "scan_literal pf s = Inr (v, r)"
  shows "length r < length s"
proof (cases "find (\<lambda>(t, v). take (length t) s = t) json_literals")
  case None
  then show ?thesis
    using assms scan_number_shorter by (simp add: scan_literal_def)
next
  case (Some x)
  obtain t w where x: "x = (t, w)" by fastforce
  have "r = drop (length t) s" "(t, w) \<in> set json_literals" "take (length t) s = t"
    using assms Some by (auto simp: scan_literal_def x find_Some_iff in_set_conv_nth)
  then show ?thesis
    using literals_nonempty [of t w] by (cases s) auto
qed

lemma skip_shorter: "length (skip s) \<le> length s"
  by (simp add: skip_def length_dropWhile_le)

lemma skip_Cons_shorter: "skip s = c # r \<Longrightarrow> length r < length s"
  using skip_shorter [of s] by simp

lemma expect_Inr: "expect c s = Inr r \<longleftrightarrow> s = c # r"
  by (cases s) (auto simp: expect_def)

lemma separator_shorter: "separator c s = Inr (b, r) \<Longrightarrow> length r < length s"
  using skip_shorter [of s] skip_shorter [of "tl (skip s)"]
  by (auto simp: separator_def split: list.splits if_splits)

lemma take_1: "take (Suc 0) s = [c] \<longleftrightarrow> (\<exists>cs. s = c # cs)"
  by (cases s) auto

lemma scan_shorter:
  "scan_value pf n s = Inr (v, r) \<Longrightarrow> length r < length s"
  "scan_items pf n vs s = Inr (v, r) \<Longrightarrow> length r < length s"
  "scan_members pf n kvs s = Inr (v, r) \<Longrightarrow> length r < length s"
proof (induction pf n s and pf n vs s and pf n kvs s arbitrary: v r and v r and v r
    rule: scan_value_scan_items_scan_members.induct)
  case (3 pf n c cs)
  have "length r < Suc (length cs)" if "length r < length (skip cs)"
    using that skip_shorter [of cs] by linarith
  with 3 show ?case
    using skip_shorter [of cs]
    by (auto simp: result_simps split: if_splits dest!: scan_string_shorter scan_literal_shorter)
next
  case (5 pf n vs s)
  obtain x u closed w where u: "scan_value pf n s = Inr (x, u)" "separator 93 u = Inr (closed, w)"
      "closed \<and> r = w \<or> \<not> closed \<and> scan_items pf n (vs @ [x]) w = Inr (v, r)"
    using 5(3) by (auto simp: result_simps split: if_splits)
  then have "length u < length s" "length w < length u" "length r \<le> length w"
    using 5(1) [OF u(1)] separator_shorter [OF u(2)] 5(2) [OF u(1) refl u(2) refl] by auto
  then show ?case by linarith
next
  case (7 pf n kvs s)
  obtain b k t t' x u closed w where u: "expect 34 s = Inr b" "scan_string b = Inr (k, t)"
      "expect 58 (skip t) = Inr t'" "scan_value pf n (skip t') = Inr (x, u)" "separator 125 u = Inr (closed, w)"
      "closed \<and> r = w \<or> \<not> closed \<and> scan_members pf n (AList.update k x kvs) w = Inr (v, r)"
    using 7(3) by (auto simp: result_simps split: if_splits)
  have "length u < length (skip t')" "length r \<le> length w"
    using u(6) 7(1) [OF u(1) u(2) refl u(3) u(4)] 7(2) [OF u(1) u(2) refl u(3) u(4) refl u(5) refl] by auto
  moreover have "length t < length b" "length w < length u"
    using scan_string_shorter [OF u(2)] separator_shorter [OF u(5)] by simp_all
  ultimately show ?case
    using u(1,3) skip_shorter [of t] skip_shorter [of t'] by (simp add: expect_Inr)
qed simp_all

lemma scan_enough:
  "2 * length s < n \<Longrightarrow> 2 * length s < m \<Longrightarrow> scan_value pf n s = scan_value pf m s"
  "2 * length s + 1 < n \<Longrightarrow> 2 * length s + 1 < m \<Longrightarrow> scan_items pf n vs s = scan_items pf m vs s"
  "2 * length s + 1 < n \<Longrightarrow> 2 * length s + 1 < m \<Longrightarrow> scan_members pf n kvs s = scan_members pf m kvs s"
proof (induction pf n s and pf n vs s and pf n kvs s arbitrary: m and m and m
    rule: scan_value_scan_items_scan_members.induct)
  case (2 pf n)
  then show ?case by (cases m) simp_all
next
  case (3 pf n c cs)
  obtain m' where m: "m = Suc m'" using 3(4) by (cases m) auto
  have "2 * length (skip cs) + 1 < n" "2 * length (skip cs) + 1 < m'"
    using 3(3,4) skip_shorter [of cs] by (simp_all add: m)
  note shorter = this
  show ?case
    unfolding m scan_value.simps by (intro if_cong refl) (auto intro: 3(1) [OF _ _ _ shorter] 3(2) [OF _ _ _ _ shorter])
next
  case (5 pf n vs s)
  obtain m' where m: "m = Suc m'" using 5(4) by (cases m) auto
  have first: "scan_value pf n s = scan_value pf m' s"
    by (rule 5(1)) (use 5(3,4) in \<open>simp_all add: m\<close>)
  have "scan_items pf n (vs @ [x]) w = scan_items pf m' (vs @ [x]) w"
    if x: "scan_value pf n s = Inr (x, u)" "separator 93 u = Inr (False, w)" for x u w
  proof (rule 5(2) [OF x(1) refl x(2) refl])
    have "length u < length s" "length w < length u"
      using x scan_shorter(1) separator_shorter by blast+
    then show "2 * length w + 1 < n" "2 * length w + 1 < m'"
      using 5(3,4) by (simp_all add: m)
  qed simp
  then show ?case
    unfolding m scan_items.simps first [symmetric]
    by (intro bind_result_cong refl) (auto split: prod.split intro!: bind_result_cong)
next
  case (7 pf n kvs s)
  obtain m' where m: "m = Suc m'" using 7(4) by (cases m) auto
  have bounds: "length t' < length s" if "expect 34 s = Inr b" "scan_string b = Inr (k, t)" "expect 58 (skip t) = Inr t'"
    for b k t t'
    using that scan_string_shorter [OF that(2)] skip_shorter [of t] by (simp add: expect_Inr)
  have first: "scan_value pf n (skip t') = scan_value pf m' (skip t')"
    if t: "expect 34 s = Inr b" "scan_string b = Inr (k, t)" "expect 58 (skip t) = Inr t'" for b k t t'
    by (rule 7(1) [OF t(1) t(2) refl t(3)]) (use bounds [OF t] 7(3,4) skip_shorter [of t'] in \<open>simp_all add: m\<close>)
  have second: "scan_members pf n (AList.update k x kvs) w = scan_members pf m' (AList.update k x kvs) w"
    if t: "expect 34 s = Inr b" "scan_string b = Inr (k, t)" "expect 58 (skip t) = Inr t'"
      and x: "scan_value pf n (skip t') = Inr (x, u)" "separator 125 u = Inr (False, w)" for b k t t' x u w
  proof (rule 7(2) [OF t(1) t(2) refl t(3) x(1) refl x(2) refl])
    have "length u < length (skip t')" "length w < length u"
      using x scan_shorter(1) separator_shorter by blast+
    then show "2 * length w + 1 < n" "2 * length w + 1 < m'"
      using 7(3,4) bounds [OF t] skip_shorter [of t'] by (simp_all add: m)
  qed simp
  show ?case
    unfolding m scan_members.simps
  proof (rule bind_result_cong [OF refl], rule bind_result_cong [OF refl], goal_cases)
    case (1 b kt)
    obtain k t where kt: "kt = (k, t)" by fastforce
    let ?rest = "\<lambda>m (v, r). bind_result (separator 125 r) (\<lambda>(closed, r').
       if closed then Inr (JObj (AList.update k v kvs), r') else scan_members pf m (AList.update k v kvs) r')"
    show ?case
      unfolding kt prod.case
    proof (rule bind_result_cong [OF refl])
      fix t' assume "expect 58 (skip t) = Inr t'"
      with 1 have t: "expect 34 s = Inr b" "scan_string b = Inr (k, t)" "expect 58 (skip t) = Inr t'"
        by (simp_all add: kt)
      show "bind_result (scan_value pf n (skip t')) (?rest n) = bind_result (scan_value pf m' (skip t')) (?rest m')"
      proof (rule bind_result_cong [OF first [OF t]])
        fix xu assume xu: "scan_value pf m' (skip t') = Inr xu"
        obtain x u where pair: "xu = (x, u)" by fastforce
        have x: "scan_value pf n (skip t') = Inr (x, u)"
          by (simp only: first [OF t] xu pair)
        show "?rest n xu = ?rest m' xu"
          unfolding pair prod.case
          by (intro bind_result_cong refl) (auto simp only: second [OF t x] split: prod.split if_split)
      qed
    qed
  qed
qed simp_all

lemma json_loads_fuel:
  "2 * length s < n \<Longrightarrow> scan_value pf (Suc (2 * length s)) (skip s) = scan_value pf n (skip s)"
  using skip_shorter [of s] by (intro scan_enough(1)) auto

subsection \<open>The exceptions\<close>

text \<open>Text that is not JSON is a \<open>JSONDecodeError\<close>; a number with too many digits a bare \<open>ValueError\<close>.\<close>

definition scan_error :: "exn \<Rightarrow> bool" where
  "scan_error e \<longleftrightarrow> e = JSONDecodeError \<or> e = ValueError"

lemma scan_error_simps [simp]: "scan_error JSONDecodeError" "scan_error ValueError"
  by (simp_all add: scan_error_def)

lemma scan_string_error: "scan_string s = Inl e \<Longrightarrow> e = JSONDecodeError"
proof (induction s rule: scan_string.induct)
  case (2 c cs)
  then show ?case
    by (auto simp: push_char_def result_simps split: if_splits list.splits option.splits)
qed simp

lemma scan_literal_error: "scan_literal pf s = Inl e \<Longrightarrow> scan_error e"
  by (auto simp: scan_literal_def scan_number_def scan_digits_def number_value_def Let_def result_simps
      split: option.splits prod.splits if_splits)

lemma separator_error: "separator c s = Inl e \<Longrightarrow> e = JSONDecodeError"
  by (auto simp: separator_def split: list.splits if_splits)

lemma expect_error: "expect c s = Inl e \<Longrightarrow> e = JSONDecodeError"
  by (auto simp: expect_def split: if_splits)

lemma scan_errors:
  "scan_value pf n s = Inl e \<Longrightarrow> scan_error e"
  "scan_items pf n vs s = Inl e \<Longrightarrow> scan_error e"
  "scan_members pf n kvs s = Inl e \<Longrightarrow> scan_error e"
proof (induction pf n s and pf n vs s and pf n kvs s
    rule: scan_value_scan_items_scan_members.induct)
  case (3 pf n c cs)
  then show ?case
    by (auto simp: result_simps split: if_splits dest!: scan_string_error scan_literal_error)
next
  case (5 pf n vs s)
  then show ?case
    by (auto simp: result_simps split: if_splits dest!: separator_error)
next
  case (7 pf n kvs s)
  then show ?case
    by (auto simp: result_simps split: if_splits dest!: separator_error expect_error scan_string_error)
qed simp_all

lemma json_loads_error: "json_loads pf s = Inl e \<Longrightarrow> scan_error e"
  by (auto simp: json_loads_def result_simps split: if_splits dest!: scan_errors(1))

subsection \<open>Reading a token back\<close>

lemma scan_string_escape: "scan_string (escape c @ t) = push_char c (scan_string t)"
proof -
  have "hex4 (48 # 48 # hex_digit (c div 16) # hex_digit (c mod 16) # t) = Some c" if "c < 32"
  proof -
    have "hex_value 48 = Some 0" "c div 16 < 16"
      using that by (simp_all add: hex_value_def)
    then show ?thesis
      by (simp add: hex4_def)
  qed
  moreover have "surrogate_pair c u = None" if "c < 32" for u
    using that by (simp add: surrogate_pair_def)
  ultimately show ?thesis
    by (simp add: escape_def simple_escape_def)
qed

lemma scan_string_quote: "scan_string (concat (map escape s) @ 34 # r) = Inr (s, r)"
  by (induction s) (simp_all del: scan_string.simps(2) add: scan_string_escape push_char_def, simp)

lemma stops_not_digit: "stops r \<Longrightarrow> takeWhile is_digit r = []"
  by (cases r) (auto simp: stops_def is_digit_def)

lemma digits_append: "stops r \<Longrightarrow> takeWhile is_digit (s @ r) = takeWhile is_digit s"
  by (induction s) (simp_all add: stops_not_digit)

lemma integer_part_append: "integer_part s = Some ds \<Longrightarrow> stops r \<Longrightarrow> integer_part (s @ r) = Some ds"
  by (cases s) (auto simp: integer_part_def digits_append split: if_splits)

lemma fraction_part_append: "stops r \<Longrightarrow> fraction_part (s @ r) = fraction_part s"
proof (cases s)
  case Nil
  moreover assume "stops r"
  ultimately show ?thesis
    by (cases r) (auto simp: fraction_part_def stops_def)
qed (simp add: fraction_part_def digits_append)

lemma exponent_part_append:
  assumes "stops r"
  shows "exponent_part (s @ r) = exponent_part s"
proof (cases s)
  case Nil
  with assms show ?thesis
    by (cases r) (auto simp: exponent_part_def stops_def)
next
  case (Cons c cs)
  show ?thesis
  proof (cases cs)
    case Nil
    with assms show ?thesis
      by (cases r) (auto simp: exponent_part_def Cons stops_def is_digit_def)
  qed (use assms in \<open>simp add: exponent_part_def Cons digits_append\<close>)
qed

lemma parts_prefix:
  "length (fraction_part s) \<le> length s" "length (exponent_part s) \<le> length s"
proof -
  show "length (fraction_part s) \<le> length s"
    using length_takeWhile_le [of is_digit "drop 1 s"]
    by (cases s) (auto simp: fraction_part_def Let_def)
  show "length (exponent_part s) \<le> length s"
  proof (cases s)
    case (Cons c cs)
    let ?sign = "if take 1 cs = [43] \<or> take 1 cs = [45] then take 1 cs else []"
    have "length ?sign \<le> length cs"
      by simp
    then show ?thesis
      using length_takeWhile_le [of is_digit "drop (length ?sign) cs"]
      by (auto simp: exponent_part_def Cons Let_def)
  qed (simp add: exponent_part_def)
qed

lemma scan_digits_append:
  assumes "scan_digits pf sign s = Inr (v, [])" "stops r"
  shows "scan_digits pf sign (s @ r) = Inr (v, r)"
proof -
  obtain ds where ds: "integer_part s = Some ds"
    using assms(1) by (auto simp: scan_digits_def split: option.splits)
  then obtain u where u: "s = ds @ u"
    using integer_part_some by blast
  let ?f = "fraction_part u" and ?e = "exponent_part (drop (length (fraction_part u)) u)"
  have v: "number_value pf sign ds (?f @ ?e) = Inr v" "length u \<le> length ?f + length ?e"
    using assms(1) ds by (auto simp: scan_digits_def u Let_def result_simps)
  have "length ?f + length ?e \<le> length u"
    using parts_prefix(1) [of u] parts_prefix(2) [of "drop (length ?f) u"] by simp
  moreover have "drop (length ?f) (u @ r) = drop (length ?f) u @ r"
    using parts_prefix(1) [of u] by simp
  ultimately show ?thesis
    using v integer_part_append [OF ds assms(2)]
    by (simp add: scan_digits_def u Let_def fraction_part_append [OF assms(2)] exponent_part_append [OF assms(2)])
qed

lemma scan_number_append:
  assumes "scan_number pf s = Inr (v, [])" "stops r"
  shows "scan_number pf (s @ r) = Inr (v, r)"
proof (cases s)
  case Nil
  with assms(1) show ?thesis
    by (simp add: scan_number_def scan_digits_def integer_part_def)
next
  case (Cons c cs)
  with assms show ?thesis
    using scan_digits_append [OF _ assms(2), of pf "[]" s v]
    by (auto simp: scan_number_def intro: scan_digits_append split: if_splits)
qed

lemma nat_text_leading: "0 < n \<Longrightarrow> hd (nat_text n) \<noteq> 48"
proof (induction n rule: nat_text.induct)
  case (1 n)
  then show ?case
    by (cases "n < 10") (auto simp: nat_text.simps [of n] nat_text_not_Nil)
qed

lemma integer_part_nat_text: "integer_part (nat_text n) = Some (nat_text n)"
proof (cases "n = 0")
  case True
  then show ?thesis
    by (simp add: nat_text.simps integer_part_def)
next
  case False
  then obtain c cs where c: "nat_text n = c # cs" "c \<noteq> 48"
    using nat_text_leading [of n] nat_text_not_Nil [of n] by (cases "nat_text n") auto
  moreover have "\<forall>x \<in> set (nat_text n). is_digit x"
    using nat_text_digits by (simp add: is_digit_def)
  ultimately show ?thesis
    by (simp add: integer_part_def)
qed

lemma scan_digits_nat_text:
  "length (nat_text n) \<le> max_int_digits \<Longrightarrow>
     scan_digits pf sign (nat_text n) = Inr (JInt ((if sign = [] then 1 else -1) * int n), [])"
  by (simp add: scan_digits_def Let_def integer_part_nat_text number_value_def fraction_part_def exponent_part_def)

lemma scan_number_int:
  assumes "length (nat_text (nat \<bar>i\<bar>)) \<le> max_int_digits"
  shows "scan_number pf (int_text i) = Inr (JInt i, [])"
proof (cases "i < 0")
  case True
  then have "scan_digits pf [45] (nat_text (nat (- i))) = Inr (JInt i, [])"
    using assms by (simp add: scan_digits_nat_text)
  with True show ?thesis
    by (simp add: scan_number_def int_text_def)
next
  case False
  have "take 1 (nat_text (nat i)) \<noteq> [45]"
    using nat_text_not_minus [of "nat i"] by (cases "nat_text (nat i)") auto
  moreover have "scan_digits pf [] (nat_text (nat i)) = Inr (JInt i, [])"
    using assms False by (simp add: scan_digits_nat_text)
  ultimately show ?thesis
    using False by (simp add: scan_number_def int_text_def)
qed

definition json_float :: "pystr \<Rightarrow> bool" where
  "json_float t \<longleftrightarrow> scan_number Finite t = Inr (JFloat (Finite t), [])"

lemma scan_number_float: "json_float t \<Longrightarrow> scan_number pf t = Inr (JFloat (pf t), [])"
  by (auto simp: json_float_def scan_number_def scan_digits_def number_value_def Let_def result_simps split: option.splits if_splits)

lemma scan_number_start:
  assumes "scan_number pf s = Inr x"
  shows "\<exists>d u. is_digit d \<and> (s = d # u \<or> s = 45 # d # u)"
proof -
  have "\<exists>d v. is_digit d \<and> b = d # v" if "integer_part b = Some ds" for b ds
    using that by (auto simp: integer_part_def is_digit_def split: list.splits if_splits)
  then show ?thesis
    using assms by (cases s) (fastforce simp: scan_number_def scan_digits_def split: option.splits if_splits)+
qed

lemma scan_literal_number:
  assumes "scan_number pf s = Inr (v, [])" "stops r"
  shows "scan_literal pf (s @ r) = Inr (v, r)"
proof -
  obtain d u where d: "is_digit d" "s = d # u \<or> s = 45 # d # u"
    using scan_number_start [OF assms(1)] by blast
  then have "find (\<lambda>(t, v). take (length t) (s @ r) = t) json_literals = None"
    by (auto simp: json_literals_def py_def is_digit_def)
  then show ?thesis
    using scan_number_append [OF assms] by (simp add: scan_literal_def)
qed

subsection \<open>Reading a value back\<close>

text \<open>Numbers that survive: integers within the interpreter's limit, floats with their own \<open>repr\<close>.\<close>

fun readable :: "(pystr \<Rightarrow> pyfloat) \<Rightarrow> json \<Rightarrow> bool" where
  "readable pf (JInt i) \<longleftrightarrow> length (nat_text (nat \<bar>i\<bar>)) \<le> max_int_digits"
| "readable pf (JFloat f) \<longleftrightarrow> (\<exists>t. f = Finite t \<and> json_float t \<and> pf t = f)"
| "readable pf (JArr vs) \<longleftrightarrow> (\<forall>v \<in> set vs. readable pf v)"
| "readable pf (JObj kvs) \<longleftrightarrow> (\<forall>(k, v) \<in> set kvs. readable pf v)"
| "readable pf _ \<longleftrightarrow> True"

definition reads_back :: "(pystr \<Rightarrow> pyfloat) \<Rightarrow> json \<Rightarrow> bool" where
  "reads_back pf v \<longleftrightarrow> (\<forall>r n. stops r \<longrightarrow> 2 * length (json_text v @ r) < n \<longrightarrow>
     scan_value pf n (json_text v @ r) = Inr (normalize v, r))"

lemma skip_Cons: "\<not> json_space c \<Longrightarrow> skip (c # s) = c # s"
  by (simp add: skip_def)

lemma skip_json_text: "plain v \<Longrightarrow> skip (json_text v @ r) = json_text v @ r"
  using json_text_first [of v] by (cases v) (auto simp: plain_def skip_def json_space_def number_char_def split: if_splits)

lemma separator_simps:
  "separator c (c # r) = (if json_space c then separator c r else Inr (True, r))"
  "c \<noteq> 44 \<Longrightarrow> separator c (44 # r) = Inr (False, skip r)"
  by (auto simp: separator_def skip_def json_space_def)

lemma scan_items_text:
  assumes "\<forall>x \<in> set (v # vs). plain x \<and> reads_back pf x"
    and "2 * length (json_text v @ concat (map (\<lambda>x. 44 # json_text x) vs) @ 93 # r) + 1 < n"
  shows "scan_items pf n acc (json_text v @ concat (map (\<lambda>x. 44 # json_text x) vs) @ 93 # r) =
    Inr (JArr (acc @ map normalize (v # vs)), r)"
  using assms
proof (induction vs arbitrary: v acc n)
  case Nil
  then obtain m where m: "n = Suc m" by (cases n) auto
  have "scan_value pf m (json_text v @ 93 # r) = Inr (normalize v, 93 # r)"
    using Nil by (simp add: reads_back_def m)
  then show ?case
    by (simp add: m separator_simps json_space_def)
next
  case (Cons u us)
  then obtain m where m: "n = Suc m" by (cases n) auto
  let ?tail = "json_text u @ concat (map (\<lambda>x. 44 # json_text x) us) @ 93 # r"
  have "scan_value pf m (json_text v @ 44 # ?tail) = Inr (normalize v, 44 # ?tail)"
    using Cons.prems by (simp add: reads_back_def m)
  moreover have "skip ?tail = ?tail"
    using Cons.prems(1) by (intro skip_json_text) simp
  moreover have "scan_items pf m (acc @ [normalize v]) ?tail = Inr (JArr ((acc @ [normalize v]) @ map normalize (u # us)), r)"
    using Cons.prems by (intro Cons.IH) (simp_all add: m)
  ultimately show ?case
    by (simp add: m separator_simps)
qed

lemma update_new: "k \<notin> fst ` set kvs \<Longrightarrow> AList.update k v kvs = kvs @ [(k, v)]"
  by (induction kvs) auto

lemma scan_string_key: "scan_string (concat (map escape k) @ 34 # 58 # r) = Inr (k, 58 # r)"
  using scan_string_quote [of k "58 # r"] by simp

lemma scan_member_text:
  assumes "plain v" "reads_back pf v" "stops r" "2 * length (json_text v @ r) < n"
  shows "scan_members pf (Suc n) acc (quote k @ 58 # json_text v @ r) =
    bind_result (separator 125 r) (\<lambda>(closed, r').
      if closed then Inr (JObj (AList.update k (normalize v) acc), r')
      else scan_members pf n (AList.update k (normalize v) acc) r')"
proof -
  have "scan_value pf n (json_text v @ r) = Inr (normalize v, r)"
    using assms(2-4) by (simp add: reads_back_def)
  then show ?thesis
    using skip_json_text [OF assms(1)]
    by (simp add: expect_def quote_def scan_string_key skip_Cons json_space_def)
qed

definition member_text :: "pystr \<times> json \<Rightarrow> pystr" where
  "member_text kv = (case kv of (k, v) \<Rightarrow> quote k @ 58 # json_text v)"

lemma scan_members_text:
  assumes "\<forall>(k, x) \<in> set (kv # kvs). plain x \<and> reads_back pf x"
    and "distinct (map fst (acc @ kv # kvs))"
    and "2 * length (member_text kv @ concat (map (\<lambda>x. 44 # member_text x) kvs) @ 125 # r) + 1 < n"
  shows "scan_members pf n acc (member_text kv @ concat (map (\<lambda>x. 44 # member_text x) kvs) @ 125 # r) =
    Inr (JObj (acc @ map (\<lambda>(k, v). (k, normalize v)) (kv # kvs)), r)"
  using assms
proof (induction kvs arbitrary: kv acc n)
  case Nil
  obtain m where m: "n = Suc m" using Nil(3) by (cases n) auto
  obtain k v where kv: "kv = (k, v)" by fastforce
  show ?case
    using Nil scan_member_text [of v pf "125 # r" m acc k]
    by (simp add: m kv member_text_def separator_simps json_space_def update_new)
next
  case (Cons u us)
  obtain m where m: "n = Suc m" using Cons.prems(3) by (cases n) auto
  obtain k v where kv: "kv = (k, v)" by fastforce
  let ?tail = "member_text u @ concat (map (\<lambda>x. 44 # member_text x) us) @ 125 # r"
  have "scan_members pf (Suc m) acc (quote k @ 58 # json_text v @ 44 # ?tail) =
      scan_members pf m (acc @ [(k, normalize v)]) (skip ?tail)"
    using Cons.prems scan_member_text [of v pf "44 # ?tail" m acc k]
    by (simp add: m kv member_text_def separator_simps update_new)
  moreover have "skip ?tail = ?tail"
    by (simp add: member_text_def quote_def skip_def json_space_def split: prod.split)
  moreover have "scan_members pf m (acc @ [(k, normalize v)]) ?tail =
      Inr (JObj ((acc @ [(k, normalize v)]) @ map (\<lambda>(k, v). (k, normalize v)) (u # us)), r)"
    using Cons.prems by (intro Cons.IH) (auto simp: m kv member_text_def)
  ultimately show ?case
    by (simp add: m kv) (simp add: member_text_def)
qed

lemma first_char_dispatch:
  assumes "plain v" "first_char v c"
  shows "c = 34 \<longleftrightarrow> (\<exists>s. v = JStr s)" "c = 123 \<longleftrightarrow> (\<exists>d. v = JObj d)" "c = 91 \<longleftrightarrow> (\<exists>a. v = JArr a)"
  using assms by (cases v; auto simp: number_char_def split: if_splits)+

lemma reads_back_token:
  assumes "plain v" "\<forall>s. v \<noteq> JStr s" "\<forall>a. v \<noteq> JArr a" "\<forall>d. v \<noteq> JObj d"
    and "\<And>r. stops r \<Longrightarrow> scan_literal pf (json_text v @ r) = Inr (v, r)"
  shows "reads_back pf v"
  unfolding reads_back_def
proof (intro allI impI)
  fix r n assume r: "stops r" "2 * length (json_text v @ r) < n"
  obtain m where m: "n = Suc m" using r(2) by (cases n) auto
  obtain c t where t: "json_text v = c # t" "first_char v c"
    using assms(1) json_text_first [of v] by (auto simp: plain_def)
  have "normalize v = v"
    using assms(2-4) by (cases v) auto
  then show "scan_value pf n (json_text v @ r) = Inr (normalize v, r)"
    using assms(2-4) assms(5) [OF r(1)] first_char_dispatch [OF assms(1) t(2)] by (simp add: m t(1))
qed

lemma scan_literal_words:
  "scan_literal pf (py ''null'' @ r) = Inr (JNull, r)" "scan_literal pf (py ''true'' @ r) = Inr (JBool True, r)"
  "scan_literal pf (py ''false'' @ r) = Inr (JBool False, r)"
  by (simp_all add: scan_literal_def json_literals_def py_def)

lemma join_Cons: "join (t # ts) = t @ concat (map (\<lambda>u. 44 # u) ts)"
  by simp

lemma reads_back_text: "plain v \<Longrightarrow> readable pf v \<Longrightarrow> reads_back pf v"
proof (induction v)
  case (JStr s)
  show ?case
    unfolding reads_back_def
  proof (intro allI impI)
    fix r n assume "2 * length (json_text (JStr s) @ r) < n"
    then show "scan_value pf n (json_text (JStr s) @ r) = Inr (normalize (JStr s), r)"
      using scan_string_quote [of s r] by (cases n) (simp_all add: quote_def)
  qed
next
  case (JArr vs)
  have vs: "\<forall>x \<in> set vs. plain x \<and> reads_back pf x"
    using JArr by auto
  show ?case
    unfolding reads_back_def
  proof (intro allI impI)
    fix r n assume n: "2 * length (json_text (JArr vs) @ r) < n"
    then obtain m where m: "n = Suc m" by (cases n) auto
    show "scan_value pf n (json_text (JArr vs) @ r) = Inr (normalize (JArr vs), r)"
    proof (cases vs)
      case Nil
      then show ?thesis by (simp add: m skip_Cons json_space_def)
    next
      case (Cons x xs)
      let ?text = "json_text x @ concat (map (\<lambda>x. 44 # json_text x) xs) @ 93 # r"
      have shape: "json_text (JArr vs) @ r = 91 # ?text"
        by (simp add: Cons comp_def)
      have "skip ?text = ?text"
        using vs Cons by (intro skip_json_text) simp
      moreover have "take 1 ?text \<noteq> [93]"
        using vs Cons json_text_not_closing [of x 93] by (simp only: plain_def One_nat_def take_1) auto
      moreover have "scan_items pf m [] ?text = Inr (JArr ([] @ map normalize (x # xs)), r)"
        using vs n by (intro scan_items_text) (simp_all only: Cons shape m, simp_all add: comp_def)
      ultimately show ?thesis
        unfolding shape m by (simp add: Cons)
    qed
  qed
next
  case (JObj kvs)
  define members where "members = sort_key fst kvs"
  have "plain x \<and> reads_back pf x" if "(k, x) \<in> set kvs" for k x
    using JObj.prems that by (auto intro: JObj.IH [OF that, of x])
  then have kvs: "\<forall>(k, x) \<in> set members. plain x \<and> reads_back pf x"
    by (auto simp: members_def)
  have keys: "distinct (map fst members)"
    using JObj.prems(1) by (simp add: members_def distinct_map)
  have plain_text: "json_text (JObj kvs) = 123 # join (map member_text members) @ [125]"
    by (simp add: json_text_JObj members_def member_text_def [abs_def])
  have normal: "normalize (JObj kvs) = JObj (map (\<lambda>(k, v). (k, normalize v)) members)"
    by (simp add: normalize_JObj members_def)
  show ?case
    unfolding reads_back_def
  proof (intro allI impI)
    fix r n assume n: "2 * length (json_text (JObj kvs) @ r) < n"
    then obtain m where m: "n = Suc m" by (cases n) auto
    show "scan_value pf n (json_text (JObj kvs) @ r) = Inr (normalize (JObj kvs), r)"
    proof (cases members)
      case Nil
      then show ?thesis by (simp add: m plain_text normal skip_Cons json_space_def)
    next
      case (Cons x xs)
      let ?text = "member_text x @ concat (map (\<lambda>x. 44 # member_text x) xs) @ 125 # r"
      have shape: "json_text (JObj kvs) @ r = 123 # ?text"
        by (simp add: plain_text Cons comp_def)
      have "skip ?text = ?text" "take 1 ?text \<noteq> [125]"
        by (simp_all add: member_text_def quote_def skip_def json_space_def split: prod.split)
      moreover have "scan_members pf m [] ?text = Inr (JObj ([] @ map (\<lambda>(k, v). (k, normalize v)) (x # xs)), r)"
        using kvs keys n by (intro scan_members_text) (simp_all only: Cons shape m, simp_all add: comp_def)
      ultimately show ?thesis
        unfolding shape m by (simp add: Cons normal)
    qed
  qed
next
  case JNull
  then show ?case
    using scan_literal_words by (intro reads_back_token) simp_all
next
  case (JBool b)
  then show ?case
    using scan_literal_words by (intro reads_back_token) simp_all
next
  case (JInt i)
  then show ?case
    using scan_literal_number [OF scan_number_int] by (intro reads_back_token) simp_all
next
  case (JFloat f)
  then obtain t where "f = Finite t" "json_float t" "pf t = f"
    by auto
  with JFloat show ?case
    using scan_literal_number [OF scan_number_float] by (intro reads_back_token) (simp_all add: float_text_def)
qed

text \<open>What \<open>json.dumps\<close> wrote with sorted keys, \<open>json.loads\<close> reads back with its keys in order.\<close>

theorem json_loads_text:
  assumes "plain v" "readable pf v"
  shows "json_loads pf (json_text v) = Inr (normalize v)"
proof -
  have "skip (json_text v) = json_text v" "take 1 (json_text v) \<noteq> [65279]"
    using skip_json_text [OF assms(1), of "[]"] json_text_first [of v] assms(1)
    by (cases v; auto simp: plain_def number_char_def split: if_splits)+
  moreover have "scan_value pf (Suc (2 * length (json_text v))) (json_text v @ []) = Inr (normalize v, [])"
    using reads_back_text [OF assms] unfolding reads_back_def by (metis append_Nil2 lessI stops_simps(1))
  ultimately show ?thesis
    by (simp add: json_loads_def skip_def)
qed

end
