(* ===== verification/Settings.thy ===== *)
theory Settings
  imports Json_Loads Sealing
begin

section \<open>Settings\<close>

text \<open>
  \<open>src/ledger/config.py\<close>: the settings with their defaults, and the keyring they hold. \<open>pydantic\<close>
  fills the record from the environment and checks the types; a float is given by its \<open>repr\<close>.
\<close>

record settings =
  database_url :: pystr
  hmac_keys_json :: "pystr option"
  current_key_version :: pystr
  seal_batch_size :: int
  seal_poll_seconds :: pyfloat
  export_poll_seconds :: pyfloat
  export_lease_seconds :: pyfloat
  log_level :: pystr

definition default_settings :: settings where
  "default_settings =
     \<lparr>database_url = py ''postgresql+asyncpg://ledger:ledger@db:5432/ledger'', hmac_keys_json = None,
      current_key_version = py ''v1'', seal_batch_size = 100, seal_poll_seconds = Finite (py ''2.0''),
      export_poll_seconds = Finite (py ''2.0''), export_lease_seconds = Finite (py ''120.0''), log_level = py ''INFO''\<rparr>"

text \<open>The entries of a JSON object whose value is text, with the secrets decoded.\<close>

fun text_entries :: "pydict \<Rightarrow> (pystr \<times> pystr) list" where
  "text_entries [] = []"
| "text_entries ((version, value) # raw) =
     (case value of JStr secret \<Rightarrow> (version, secret) # text_entries raw | _ \<Rightarrow> text_entries raw)"

definition decode_secrets :: "(pystr \<times> pystr) list \<Rightarrow> (pystr \<times> bytes) list result" where
  "decode_secrets entries = traverse (\<lambda>(version, secret). map_result (\<lambda>key. (version, key)) (decode_secret secret)) entries"

definition checked_keyring :: "settings \<Rightarrow> pydict \<Rightarrow> keyring result" where
  "checked_keyring s raw =
     bind_result (decode_secrets (text_entries raw)) (\<lambda>decoded.
     if length decoded \<noteq> length raw then
       Inl (KeyConfigurationError (py ''every HMAC key value must be a string''))
     else if current_key_version s \<notin> fst ` set decoded then
       Inl (KeyConfigurationError (py ''LEDGER_CURRENT_KEY_VERSION is not present in keyring''))
     else Inr (map_of decoded))"

definition settings_keyring :: "(pystr \<Rightarrow> pyfloat) \<Rightarrow> settings \<Rightarrow> keyring result" where
  "settings_keyring parse_float s =
     (case hmac_keys_json s of
        None \<Rightarrow> Inl (KeyConfigurationError (py ''LEDGER_HMAC_KEYS_JSON is required''))
      | Some source \<Rightarrow>
          if source = [] then Inl (KeyConfigurationError (py ''LEDGER_HMAC_KEYS_JSON is required''))
          else
            case json_loads parse_float source of
              Inl e \<Rightarrow>
                Inl (if e = JSONDecodeError then KeyConfigurationError (py ''LEDGER_HMAC_KEYS_JSON must be valid JSON'')
                  else e)
            | Inr (JObj (entry # raw)) \<Rightarrow> checked_keyring s (entry # raw)
            | Inr _ \<Rightarrow> Inl (KeyConfigurationError (py ''LEDGER_HMAC_KEYS_JSON must be a non-empty object'')))"

subsection \<open>What a keyring holds\<close>

lemma text_entries_all:
  "length (text_entries raw) \<le> length raw"
  "length (text_entries raw) = length raw \<Longrightarrow> raw = map (\<lambda>(version, secret). (version, JStr secret)) (text_entries raw)"
proof (induction raw)
  case (Cons x raw)
  obtain k v where x: "x = (k, v)" by fastforce
  {
    case 1
    then show ?case using Cons by (auto simp: x split: json.split)
  next
    case 2
    then show ?case using Cons by (cases v) (auto simp: x)
  }
qed simp_all

lemma decode_secret_length: "decode_secret s = Inr key \<Longrightarrow> 32 \<le> length key"
  by (auto simp: decode_secret_def result_simps split: if_splits)

lemma decode_secrets_keys:
  assumes "decode_secrets entries = Inr decoded"
  shows "map fst decoded = map fst entries" "(version, key) \<in> set decoded \<Longrightarrow> 32 \<le> length key"
  using assms
proof (induction entries arbitrary: decoded)
  case (Cons x entries)
  obtain v s where x: "x = (v, s)" by fastforce
  {
    case 1
    then show ?case using Cons by (auto simp: x decode_secrets_def result_simps split: sum.splits)
  next
    case 2
    then show ?case using Cons
      by (auto simp: x decode_secrets_def result_simps split: sum.splits dest: decode_secret_length)
  }
qed (simp_all add: decode_secrets_def)

lemma settings_keyring_Inr:
  assumes "settings_keyring pf s = Inr k"
  obtains source raw decoded where "hmac_keys_json s = Some source" "json_loads pf source = Inr (JObj raw)"
    "raw = map (\<lambda>(version, secret). (version, JStr secret)) (text_entries raw)"
    "decode_secrets (text_entries raw) = Inr decoded" "current_key_version s \<in> fst ` set decoded" "k = map_of decoded"
proof -
  obtain source raw where s: "hmac_keys_json s = Some source" "json_loads pf source = Inr (JObj raw)"
      "checked_keyring s raw = Inr k"
    using assms by (auto simp: settings_keyring_def split: option.splits if_splits sum.splits json.splits list.splits)
  then obtain decoded where d: "decode_secrets (text_entries raw) = Inr decoded" "length decoded = length raw"
      "current_key_version s \<in> fst ` set decoded" "k = map_of decoded"
    by (auto simp: checked_keyring_def result_simps split: if_splits)
  have "length (text_entries raw) = length raw"
    using d(1,2) decode_secrets_keys(1) [OF d(1)] by (metis length_map)
  then show thesis
    using that [OF s(1,2) text_entries_all(2) d(1,3,4)] by blast
qed

end
