(* ===== verification/Text_Input.thy ===== *)
theory Text_Input
  imports Json_Loads
begin

section \<open>Reading text files\<close>

text \<open>
  \<open>Path.read_text(encoding="utf-8")\<close>: strict UTF-8 decoding (no overlong forms, no surrogates, nothing
  above 0x10FFFF) and universal newlines. Canonical bytes, and with them every file of an
  archive, are read back as the text that was encoded.
\<close>

subsection \<open>Strict UTF-8\<close>

definition utf8_size :: "nat \<Rightarrow> nat" where
  "utf8_size b =
     (if b < 128 then 1 else if b < 194 then 0 else if b < 224 then 2 else if b < 240 then 3
      else if b < 245 then 4 else 0)"

definition continuation :: "nat \<Rightarrow> bool" where
  "continuation b \<longleftrightarrow> 128 \<le> b \<and> b < 192"

definition utf8_accepts :: "nat \<Rightarrow> nat list \<Rightarrow> bool" where
  "utf8_accepts b bs \<longleftrightarrow>
     0 < utf8_size b \<and> utf8_size b \<le> length bs + 1 \<and> list_all continuation (take (utf8_size b - 1) bs) \<and>
     encodable (fst (utf8_first (b # bs))) \<and> length (utf8_char (fst (utf8_first (b # bs)))) = utf8_size b"

function utf8_decode :: "nat list \<Rightarrow> pystr result" where
  "utf8_decode [] = Inr []"
| "utf8_decode (b # bs) =
     (if utf8_accepts b bs
      then map_result ((#) (fst (utf8_first (b # bs)))) (utf8_decode (drop (utf8_size b - 1) bs))
      else Inl UnicodeDecodeError)"
  by pat_completeness auto
termination by (relation "measure length") auto

function newlines :: "pystr \<Rightarrow> pystr" where
  "newlines [] = []"
| "newlines (c # s) =
     (if c = 13 then 10 # newlines (if take 1 s = [10] then drop 1 s else s) else c # newlines s)"
  by pat_completeness auto
termination by (relation "measure length") auto

definition read_text :: "bytes \<Rightarrow> pystr result" where
  "read_text data = map_result newlines (utf8_decode (map unat data))"

lemma utf8_decode_error: "utf8_decode bs = Inl e \<Longrightarrow> e = UnicodeDecodeError"
  by (induction bs rule: utf8_decode.induct) (auto simp: result_simps split: if_splits)

lemma read_text_error: "read_text b = Inl e \<Longrightarrow> e = UnicodeDecodeError"
  by (auto simp: read_text_def result_simps dest: utf8_decode_error)

subsection \<open>Reading back\<close>

lemma utf8_size_char:
  assumes "c < 0x110000"
  shows "\<exists>b bs. utf8_char c = b # bs \<and> utf8_size b = length bs + 1 \<and> list_all continuation bs"
proof -
  consider "c < 128" | "128 \<le> c" "c < 2048" | "2048 \<le> c" "c < 65536" | "65536 \<le> c"
    by linarith
  then show ?thesis
  proof cases
    case 2
    then have "2 \<le> c div 64" "c div 64 < 32"
      by (auto simp: less_mult_imp_div_less div_le_mono [of 128 c 64, simplified])
    with 2 show ?thesis
      by (auto simp: utf8_char_def utf8_size_def continuation_def)
  next
    case 3
    then have "c div 4096 < 16"
      by (auto simp: less_mult_imp_div_less)
    with 3 show ?thesis
      by (auto simp: utf8_char_def utf8_size_def continuation_def)
  next
    case 4
    then have "c div 262144 < 5"
      using assms by (auto simp: less_mult_imp_div_less)
    with 4 show ?thesis
      by (auto simp: utf8_char_def utf8_size_def continuation_def)
  qed (auto simp: utf8_char_def utf8_size_def)
qed

lemma utf8_decode_char:
  assumes "encodable c"
  shows "utf8_decode (utf8_char c @ r) = map_result ((#) c) (utf8_decode r)"
proof -
  have c: "c < 0x110000"
    using assms by (simp add: encodable_def)
  obtain b bs where b: "utf8_char c = b # bs" "utf8_size b = length bs + 1" "list_all continuation bs"
    using utf8_size_char [OF c] by blast
  have "utf8_first (b # bs @ r) = (c, r)"
    using utf8_first_char [OF c, of r] by (simp add: b(1))
  then have "utf8_accepts b (bs @ r)"
    using assms b by (simp add: utf8_accepts_def)
  then show ?thesis
    using b \<open>utf8_first (b # bs @ r) = (c, r)\<close> by simp
qed

lemma utf8_decode_encoded: "\<forall>c \<in> set s. encodable c \<Longrightarrow> utf8_decode (concat (map utf8_char s)) = Inr s"
  by (induction s) (simp_all add: utf8_decode_char)

lemma newlines_id: "13 \<notin> set s \<Longrightarrow> newlines s = s"
  by (induction s) auto

lemma read_text_encoded:
  assumes "utf8_encode s = Inr b" "13 \<notin> set s"
  shows "read_text b = Inr s"
proof -
  have s: "\<forall>c \<in> set s. encodable c" and b: "b = map word_of_nat (concat (map utf8_char s))"
    using assms(1) by (auto simp: utf8_encode_def split: if_splits)
  have "x < 256" if "x \<in> set (concat (map utf8_char s))" for x
    using that s utf8_char_bound by (fastforce simp: encodable_def)
  then have "map (unat \<circ> (word_of_nat :: nat \<Rightarrow> 8 word)) (concat (map utf8_char s)) = concat (map utf8_char s)"
    by (intro map_idI) (auto simp: unat_of_nat)
  then have "map unat b = concat (map utf8_char s)"
    unfolding b by simp
  then show ?thesis
    using utf8_decode_encoded [OF s] newlines_id [OF assms(2)] by (simp add: read_text_def)
qed

lemma quote_no_return: "13 \<notin> set (quote s)"
proof -
  have "13 \<notin> set (escape c)" for c
  proof -
    have "hex_digit (c div 16) \<noteq> 13 \<and> hex_digit (c mod 16) \<noteq> 13" if "c < 32"
    proof -
      have "c div 16 < 16"
        using that by auto
      then show ?thesis
        using hex_digit_bounds [of "c div 16"] hex_digit_bounds [of "c mod 16"] by auto
    qed
    then show ?thesis
      by (auto simp: escape_def)
  qed
  then show ?thesis
    by (auto simp: quote_def)
qed

lemma join_no_return: "13 \<notin> set (join ts) \<longleftrightarrow> (\<forall>t \<in> set ts. 13 \<notin> set t)"
  by (cases ts) auto

lemma json_text_no_return: "plain v \<Longrightarrow> 13 \<notin> set (json_text v)"
proof (induction v)
  case (JObj kvs)
  have "13 \<notin> set (json_text x)" if "(k, x) \<in> set kvs" for k x
    using JObj.IH [OF that, of x] JObj.prems that by fastforce
  then show ?case
    using quote_no_return by (auto simp: json_text_JObj join_no_return)
next
  case (JInt i)
  then show ?case
    using plain_number_text [of "JInt i" i] by (force simp: number_char_def)
next
  case (JFloat f)
  then show ?case
    using plain_number_text [of "JFloat f" _ f] by (force simp: number_char_def)
qed (auto simp: py_literals join_no_return quote_no_return)

text \<open>A file of canonical bytes, read as text and parsed, is the value with its keys in order.\<close>

theorem read_canonical:
  assumes "canonical_json v = Inr b" "wf_json v" "readable pf v"
  shows "bind_result (read_text b) (json_loads pf) = Inr (normalize v)"
proof -
  have "plain v" "utf8_encode (json_text v) = Inr b"
    using assms(1,2) by (simp_all add: canonical_json_Inr plain_def)
  then show ?thesis
    using read_text_encoded json_text_no_return json_loads_text [OF _ assms(3)] by simp
qed

end
