(* ===== verification/Verify_Cli.thy ===== *)
theory Verify_Cli
  imports Text_Input Receipt_Claims
begin

section \<open>The command-line verifier\<close>

text \<open>
  \<open>src/ledger/verify.py\<close>: \<open>main\<close> reads a receipt and a keyring from two files, verifies, prints one
  line of JSON and ends with status 0 or 2; other exceptions end it with a traceback. A file is its
  bytes, or the \<open>OSError\<close> of reading it. Parsing the command line is left to \<open>argparse\<close>; the wording of
  library exceptions is the parameter \<open>exception_text\<close>.
\<close>

subsection \<open>\<open>json.dumps(value, sort_keys=True)\<close>\<close>

definition u_escape :: "nat \<Rightarrow> pystr" where
  "u_escape n = [92, 117, hex_digit (n div 4096 mod 16), hex_digit (n div 256 mod 16),
     hex_digit (n div 16 mod 16), hex_digit (n mod 16)]"

definition ascii_escape :: "nat \<Rightarrow> pystr" where
  "ascii_escape c =
     (if c = 34 then [92, 34] else if c = 92 then [92, 92]
      else if c = 10 then [92, 110] else if c = 13 then [92, 114] else if c = 9 then [92, 116]
      else if c = 12 then [92, 102] else if c = 8 then [92, 98]
      else if 32 \<le> c \<and> c < 127 then [c]
      else if c < 65536 then u_escape c
      else u_escape (0xD800 + (c - 65536) div 1024 mod 1024) @ u_escape (0xDC00 + (c - 65536) mod 1024))"

definition ascii_quote :: "pystr \<Rightarrow> pystr" where
  "ascii_quote s = 34 # concat (map ascii_escape s) @ [34]"

fun comma_space :: "pystr list \<Rightarrow> pystr" where
  "comma_space [] = []"
| "comma_space (t # ts) = t @ concat (map (\<lambda>u. [44, 32] @ u) ts)"

fun ascii_text :: "json \<Rightarrow> pystr" where
  "ascii_text JNull = py ''null''"
| "ascii_text (JBool b) = (if b then py ''true'' else py ''false'')"
| "ascii_text (JInt i) = int_text i"
| "ascii_text (JFloat f) = float_text f"
| "ascii_text (JStr s) = ascii_quote s"
| "ascii_text (JArr vs) = 91 # comma_space (map ascii_text vs) @ [93]"
| "ascii_text (JObj kvs) =
     123 # comma_space (map (\<lambda>(k, t). ascii_quote k @ [58, 32] @ t)
                         (sort_key fst (map (\<lambda>(k, v). (k, ascii_text v)) kvs))) @ [125]"

subsection \<open>The code\<close>

record input_file =
  file_path :: pystr
  file_data :: "bytes result"

definition read_object :: "(pystr \<Rightarrow> pyfloat) \<Rightarrow> input_file \<Rightarrow> pydict result" where
  "read_object parse_float f =
     bind_result (file_data f) (\<lambda>data.
     bind_result (read_text data) (\<lambda>source.
     bind_result (json_loads parse_float source) (\<lambda>value.
       case value of
         JObj d \<Rightarrow> Inr d
       | _ \<Rightarrow> Inl (ValueErrorWith (file_path f @ py '' must contain a JSON object'')))))"

definition decode_keys :: "python \<Rightarrow> pydict \<Rightarrow> keyring result" where
  "decode_keys rt raw_keys =
     map_result map_of (traverse (\<lambda>(version, secret).
       map_result (\<lambda>key. (version, key)) (decode_secret (to_str rt secret))) raw_keys)"

definition verify_files :: "python \<Rightarrow> (pystr \<Rightarrow> pyfloat) \<Rightarrow> input_file \<Rightarrow> input_file \<Rightarrow> pydict result" where
  "verify_files rt parse_float receipt_file keyring_file =
     bind_result (read_object parse_float receipt_file) (\<lambda>receipt.
     bind_result (read_object parse_float keyring_file) (\<lambda>raw_keys.
     bind_result (decode_keys rt raw_keys) (\<lambda>keys.
       verify_receipt rt receipt keys)))"

text \<open>A line on standard output and status 0, a line on standard error and status 2, or a traceback.\<close>

datatype cli_outcome = Printed pystr | Rejected pystr | Crashed exn

definition error_line :: "pystr \<Rightarrow> pystr \<Rightarrow> pydict \<Rightarrow> pystr" where
  "error_line code_text message_text detail =
     ascii_text (JObj
       [(py ''valid'', JBool False),
        (py ''error'', JObj
           [(py ''code'', JStr code_text), (py ''message'', JStr message_text), (py ''details'', JObj detail)])]) @ [10]"

definition error_text :: "(exn \<Rightarrow> pystr) \<Rightarrow> exn \<Rightarrow> pystr" where
  "error_text exception_text e = (case e of ValueErrorWith t \<Rightarrow> t | _ \<Rightarrow> exception_text e)"

definition verify_main ::
    "python \<Rightarrow> (pystr \<Rightarrow> pyfloat) \<Rightarrow> (exn \<Rightarrow> pystr) \<Rightarrow> input_file \<Rightarrow> input_file \<Rightarrow> cli_outcome" where
  "verify_main rt parse_float exception_text receipt_file keyring_file =
     (case verify_files rt parse_float receipt_file keyring_file of
        Inr reply \<Rightarrow> Printed (ascii_text (JObj reply) @ [10])
      | Inl e \<Rightarrow>
          (case e of
             LedgerError x \<Rightarrow>
               if code x = py ''INVALID_PROOF'' then Rejected (error_line (code x) (message x) (details x)) else Crashed e
           | KeyConfigurationError t \<Rightarrow> Rejected (error_line (py ''UNKNOWN_KEY_VERSION'') t [])
           | _ \<Rightarrow>
               if e = OSError \<or> is_value_error e
               then Rejected (error_line (py ''INPUT_ERROR'') (error_text exception_text e) [])
               else Crashed e))"

end
