(* ===== verification/Receipt_Order.thy ===== *)
theory Receipt_Order
  imports Receipt
begin

section \<open>The order of keys does not matter to the verifier\<close>

text \<open>
  A receipt that was written with sorted keys and read back has its objects in another order than the
  one the service built. \<open>ordered rt\<close> is the interpreter that shows every container in that order: what it
  accepts of a receipt, the interpreter itself accepts of the sorted one.
\<close>

definition ordered :: "python \<Rightarrow> python" where
  "ordered rt = rt\<lparr>container_str := container_str rt \<circ> normalize,
     same_value := (\<lambda>v w. same_value rt (normalize v) (normalize w))\<rparr>"

definition sorted_dict :: "pydict \<Rightarrow> pydict" where
  "sorted_dict d = map (\<lambda>(k, v). (k, normalize v)) (sort_key fst d)"

lemma normalize_dict: "normalize (JObj d) = JObj (sorted_dict d)"
  by (simp add: sorted_dict_def normalize_JObj)

lemma map_of_sorted_dict:
  "distinct (map fst d) \<Longrightarrow> map_of (sorted_dict d) k = map_option normalize (map_of d k)"
  unfolding sorted_dict_def by (rule map_of_normalize)

lemma dict_get_sorted: "distinct (map fst d) \<Longrightarrow> dict_get (sorted_dict d) k = normalize (dict_get d k)"
  by (simp add: dict_get_def map_of_sorted_dict split: option.split)

lemma normalize_idem: "normalize (normalize v) = normalize v"
proof (induction v)
  case (JObj kvs)
  have "normalize (normalize x) = normalize x" if "(k, x) \<in> set kvs" for k x
    using JObj [OF that, of x] by simp
  then have "map (\<lambda>(k, v). (k, normalize v)) (map (\<lambda>(k, v). (k, normalize v)) (sort_key fst kvs)) =
      map (\<lambda>(k, v). (k, normalize v)) (sort_key fst kvs)"
    by auto
  then show ?case
    by (simp only: normalize_JObj sort_key_normalize json.inject)
qed simp_all

lemma normalize_scalars [simp]:
  "normalize v = JNull \<longleftrightarrow> v = JNull" "JNull = normalize v \<longleftrightarrow> v = JNull" "normalize v = JStr s \<longleftrightarrow> v = JStr s"
  by (cases v; simp add: normalize_JObj)+

subsection \<open>Dynamic operations\<close>

lemma wf_subscript:
  assumes "wf_json v" "subscript v k = Inr x"
  shows "wf_json x" "subscript (normalize v) k = Inr (normalize x)"
proof -
  obtain d where d: "v = JObj d" "map_of d (py k) = Some x"
    using assms(2) by (auto simp: subscript_def split: json.splits option.splits)
  then show "wf_json x"
    using assms(1) map_of_SomeD [OF d(2)] by auto
  show "subscript (normalize v) k = Inr (normalize x)"
    using d assms(1) by (simp add: normalize_dict subscript_def map_of_sorted_dict)
qed

lemma wf_get_or:
  assumes "wf_json v" "get_or v k JNull = Inr x"
  shows "get_or (normalize v) k JNull = Inr (normalize x)"
proof -
  obtain d where "v = JObj d"
    using assms(2) by (auto simp: get_or_def split: json.splits)
  then show ?thesis
    using assms by (cases "map_of d (py k)") (simp_all add: normalize_dict get_or_def map_of_sorted_dict)
qed

lemma to_str_normalize: "to_str rt (normalize v) = to_str (ordered rt) v"
  by (cases v) (simp_all add: to_str_def py_str_def ordered_def normalize_JObj)

lemma int_of_text_ordered: "int_of_text (ordered rt) s = int_of_text rt s"
proof -
  have "fold_char (ordered rt) = fold_char rt"
    by (simp add: ordered_def)
  then show ?thesis
    by (simp only: int_of_text_def)
qed

lemma float_trunc_ordered: "float_trunc (ordered rt) = float_trunc rt"
  by (simp add: ordered_def)

lemma to_int_normalize: "to_int rt (normalize v) = to_int (ordered rt) v"
  by (cases v) (simp_all add: to_int_def int_of_text_ordered normalize_JObj float_trunc_ordered split: pyfloat.split)

lemma equal_values_normalize: "equal_values rt (normalize v) (normalize w) = equal_values (ordered rt) v w"
  by (cases v; cases w) (simp_all add: equal_values_def ordered_def normalize_JObj)

lemma decode_hash_normalize: "decode_hash (normalize v) field = decode_hash v field"
  by (cases v) (simp_all add: decode_hash_def normalize_JObj)

lemma get_normalize:
  assumes "wf_json (JObj d)"
  shows "dict_get (sorted_dict d) k = normalize (dict_get d k)"
  using assms by (intro dict_get_sorted) simp

lemma py_str_normalize: "py_str cs (normalize v) = py_str (cs \<circ> normalize) v"
  by (cases v) (simp_all add: py_str_def normalize_JObj)

lemma str_or_none_normalize: "str_or_none cs (normalize v) = str_or_none (cs \<circ> normalize) v"
  by (simp add: str_or_none_def py_str_normalize)

lemma dict_timestamp_normalize: "dict_timestamp (normalize v) = dict_timestamp v"
  by (cases v) (simp_all add: dict_timestamp_def normalize_JObj)

lemma canonical_members:
  assumes "map (\<lambda>(k, v). (k, normalize v)) a = map (\<lambda>(k, v). (k, normalize v)) b"
  shows "canonical_json (JObj a) = canonical_json (JObj b)"
proof -
  have "normalize (JObj a) = normalize (JObj b)"
    unfolding normalize.simps by (simp only: assms)
  then show ?thesis
    by (metis canonical_json_normalize)
qed

lemma canonical_result_members:
  assumes "map_result (map (\<lambda>(k, v). (k, normalize v))) a = map_result (map (\<lambda>(k, v). (k, normalize v))) b"
  shows "bind_result a (\<lambda>c. canonical_json (JObj c)) = bind_result b (\<lambda>c. canonical_json (JObj c))"
  using assms by (cases a; cases b) (auto dest: canonical_members)

lemma event_dict_bytes_sorted:
  assumes "wf_json (JObj d)"
  shows "event_dict_bytes cs (sorted_dict d) = event_dict_bytes (cs \<circ> normalize) d"
  unfolding event_dict_bytes_def
  by (rule canonical_result_members)
     (cases "dict_timestamp (dict_get d (py ''occurred_at''))"; simp add: event_commitment_dict_def Let_def
       get_normalize [OF assms] py_str_normalize str_or_none_normalize dict_timestamp_normalize normalize_idem)

lemma checkpoint_dict_bytes_sorted:
  assumes "wf_json (JObj d)"
  shows "checkpoint_dict_bytes cs (sorted_dict d) = checkpoint_dict_bytes (cs \<circ> normalize) d"
  unfolding checkpoint_dict_bytes_def
  by (rule canonical_result_members)
     (cases "dict_timestamp (dict_get d (py ''created_at''))"; simp add: checkpoint_payload_dict_def Let_def
       get_normalize [OF assms] py_str_normalize str_or_none_normalize dict_timestamp_normalize normalize_idem)

lemma event_json_bytes_normalize: "wf_json v \<Longrightarrow> event_json_bytes rt (normalize v) = event_json_bytes (ordered rt) v"
  by (cases v) (simp_all add: event_json_bytes_def normalize_dict event_dict_bytes_sorted ordered_def)

lemma checkpoint_json_bytes_normalize:
  "wf_json v \<Longrightarrow> checkpoint_json_bytes rt (normalize v) = checkpoint_json_bytes (ordered rt) v"
  by (cases v) (simp_all add: checkpoint_json_bytes_def normalize_dict checkpoint_dict_bytes_sorted ordered_def)

subsection \<open>The verifier\<close>

text \<open>
  The paths of the proofs are lists in every genuine receipt; over the keys of a dictionary the
  verifier would iterate in order.
\<close>

definition no_dict :: "json \<Rightarrow> bool" where
  "no_dict v \<longleftrightarrow> (\<forall>d. v \<noteq> JObj d)"

lemma iterate_normalize: "no_dict v \<Longrightarrow> iterate v = Inr vs \<Longrightarrow> iterate (normalize v) = Inr (map normalize vs)"
  by (cases v) (auto simp: no_dict_def iterate_def)

lemma wf_iterate: "wf_json v \<Longrightarrow> iterate v = Inr vs \<Longrightarrow> x \<in> set vs \<Longrightarrow> wf_json x"
  by (cases v) (auto simp: iterate_def)

lemma verify_signed_checkpoint_sorted:
  assumes "wf_json c" "verify_signed_checkpoint (ordered rt) c keyring = Inr ()"
  shows "verify_signed_checkpoint rt (normalize c) keyring = Inr ()"
proof -
  obtain version signature key payload where s: "subscript c ''key_version'' = Inr version"
      "subscript c ''signature'' = Inr signature" "require_key keyring (to_str (ordered rt) version) = Inr key"
      "checkpoint_json_bytes (ordered rt) c = Inr payload"
      "verify_checkpoint_signature payload (to_str (ordered rt) signature) key = Inr True"
    using assms(2) by (auto simp: verify_signed_checkpoint_def result_simps split: if_splits)
  show ?thesis
    using s by (simp add: verify_signed_checkpoint_def wf_subscript [OF assms(1)] to_str_normalize malformed_def
        checkpoint_json_bytes_normalize [OF assms(1)])
qed

lemma receipt_event_sorted:
  assumes "wf_json (JObj r)" "receipt_event (ordered rt) r = Inr (status, claimed, calculated)"
  shows "receipt_event rt (sorted_dict r) = Inr (normalize status, claimed, calculated)"
proof -
  obtain event h b where s: "subscript (JObj r) ''event'' = Inr event"
      "subscript (JObj r) ''witness_status'' = Inr status" "subscript event ''leaf_hash'' = Inr h"
      "decode_hash h (py ''event.leaf_hash'') = Inr claimed" "event_json_bytes (ordered rt) event = Inr b"
      "calculated = leaf_hash b"
    using assms(2) by (auto simp: receipt_event_def result_simps)
  have "wf_json event"
    using wf_subscript(1) [OF assms(1) s(1)] .
  then show ?thesis
    using s wf_subscript(2) [OF assms(1), unfolded normalize_dict]
    by (simp add: receipt_event_def wf_subscript decode_hash_normalize event_json_bytes_normalize malformed_def)
qed

lemma receipt_step_sorted:
  assumes "wf_json item" "receipt_step (i, item) = Inr (side, h)"
  shows "receipt_step (i, normalize item) = Inr (normalize side, h)"
  using assms(2) by (auto simp: receipt_step_def result_simps wf_subscript [OF assms(1)] decode_hash_normalize)

lemma traverse_sorted:
  assumes "traverse f (enumerate n vs) = Inr ys" "\<forall>v \<in> set vs. P v"
    and "\<And>i v y. P v \<Longrightarrow> f (i, v) = Inr y \<Longrightarrow> f (i, g v) = Inr (h y)"
  shows "traverse f (enumerate n (map g vs)) = Inr (map h ys)"
  using assms(1,2)
proof (induction vs arbitrary: n ys)
  case (Cons v vs)
  obtain y zs where y: "f (n, v) = Inr y" "traverse f (enumerate (Suc n) vs) = Inr zs" "ys = y # zs"
    using Cons.prems(1) by (auto simp: result_simps split: sum.splits)
  then show ?case
    using Cons.IH [OF y(2)] Cons.prems(2) assms(3) [OF _ y(1)] by simp
qed simp

lemma checked_steps_sorted:
  "checked_steps raw = Inr steps \<Longrightarrow> checked_steps (map (\<lambda>(side, h). (normalize side, h)) raw) = Inr steps"
proof (induction raw arbitrary: steps)
  case (Cons x raw)
  obtain side h where x: "x = (side, h)" by fastforce
  show ?case
    using Cons unfolding x by (cases side) (auto simp: result_simps reject_def split: if_splits)
qed simp

lemma receipt_inclusion_sorted:
  assumes "wf_json (JObj r)" "receipt_inclusion (ordered rt) r leaf keyring = Inr (c, root, included)"
    and "\<And>pr path. subscript (JObj r) ''inclusion_proof'' = Inr pr \<Longrightarrow> subscript pr ''path'' = Inr path \<Longrightarrow>
      no_dict path"
  shows "receipt_inclusion rt (sorted_dict r) leaf keyring = Inr (normalize c, root, included)"
    "subscript (JObj r) ''checkpoint'' = Inr c"
proof -
  obtain pr root_json path items raw steps size_json size count_json index_json index where s:
    "subscript (JObj r) ''checkpoint'' = Inr c" "subscript (JObj r) ''inclusion_proof'' = Inr pr"
    "verify_signed_checkpoint (ordered rt) c keyring = Inr ()" "subscript c ''root_hash'' = Inr root_json"
    "decode_hash root_json (py ''checkpoint.root_hash'') = Inr root" "subscript pr ''path'' = Inr path"
    "iterate path = Inr items" "traverse receipt_step (enumerate 0 items) = Inr raw"
    "checked_steps raw = Inr steps" "subscript pr ''tree_size'' = Inr size_json"
    "to_int (ordered rt) size_json = Inr size" "subscript c ''leaf_count'' = Inr count_json"
    "to_int (ordered rt) count_json = Inr size" "subscript pr ''leaf_index'' = Inr index_json"
    "to_int (ordered rt) index_json = Inr index" "included = verify_inclusion leaf index size steps root"
    using assms(2) by (auto simp: receipt_inclusion_def result_simps reject_def split: if_splits)
  show "subscript (JObj r) ''checkpoint'' = Inr c"
    by (rule s(1))
  have c: "wf_json c" and p: "wf_json pr"
    using wf_subscript(1) [OF assms(1)] s(1,2) by blast+
  then have "wf_json path"
    using wf_subscript(1) s(6) by blast
  then have steps: "traverse receipt_step (enumerate 0 (map normalize items)) =
      Inr (map (\<lambda>(side, h). (normalize side, h)) raw)"
    using wf_iterate [OF _ s(7)] by (intro traverse_sorted [OF s(8), of wf_json]) (auto intro: receipt_step_sorted)
  note sub = wf_subscript(2) [OF assms(1), unfolded normalize_dict] wf_subscript(2) [OF c] wf_subscript(2) [OF p]
  show "receipt_inclusion rt (sorted_dict r) leaf keyring = Inr (normalize c, root, included)"
    using s sub verify_signed_checkpoint_sorted [OF c s(3)] iterate_normalize [OF assms(3) [OF s(2,6)] s(7)]
      steps checked_steps_sorted [OF s(9)]
    by (simp add: receipt_inclusion_def decode_hash_normalize to_int_normalize malformed_def)
qed

lemma receipt_hash_sorted: "receipt_hash (i, v) = Inr h \<Longrightarrow> receipt_hash (i, normalize v) = Inr h"
  by (simp add: receipt_hash_def decode_hash_normalize)

lemma consistency_fields_sorted:
  assumes "wf_json c" "wf_json b" "consistency_fields (ordered rt) c b i root keyring = Inr ok"
    and "\<And>hashes. subscript b ''hashes'' = Inr hashes \<Longrightarrow> no_dict hashes"
  shows "consistency_fields rt (normalize c) (normalize b) (normalize i) root keyring = Inr ok"
proof -
  obtain old old_id linked_root old_root new_id own_id hashes_json items hashes os_json ns_json oc_json nc_json
      old_size new_size root_json old_hash where s:
    "subscript b ''old_checkpoint'' = Inr old" "verify_signed_checkpoint (ordered rt) old keyring = Inr ()"
    "subscript old ''checkpoint_id'' = Inr old_id" "to_str (ordered rt) old_id = to_str (ordered rt) i"
    "get_or c ''previous_root_hash'' JNull = Inr linked_root" "get_or old ''root_hash'' JNull = Inr old_root"
    "equal_values (ordered rt) linked_root old_root" "subscript b ''new_checkpoint_id'' = Inr new_id"
    "subscript c ''checkpoint_id'' = Inr own_id" "to_str (ordered rt) new_id = to_str (ordered rt) own_id"
    "subscript b ''hashes'' = Inr hashes_json" "iterate hashes_json = Inr items"
    "traverse receipt_hash (enumerate 0 items) = Inr hashes"
    "subscript b ''old_size'' = Inr os_json" "to_int (ordered rt) os_json = Inr old_size"
    "subscript b ''new_size'' = Inr ns_json" "to_int (ordered rt) ns_json = Inr new_size"
    "subscript old ''leaf_count'' = Inr oc_json" "to_int (ordered rt) oc_json = Inr old_size"
    "subscript c ''leaf_count'' = Inr nc_json" "to_int (ordered rt) nc_json = Inr new_size"
    "subscript old ''root_hash'' = Inr root_json"
    "decode_hash root_json (py ''old_checkpoint.root_hash'') = Inr old_hash"
    "ok = verify_consistency old_size new_size old_hash root hashes"
    using assms(3) by (auto simp: consistency_fields_def result_simps reject_def split: if_splits)
  have old: "wf_json old"
    using wf_subscript(1) [OF assms(2) s(1)] .
  have hashes: "traverse receipt_hash (enumerate 0 (map normalize items)) = Inr (map (\<lambda>h. h) hashes)"
    by (rule traverse_sorted [OF s(13), of "\<lambda>_. True"]) (auto intro: receipt_hash_sorted)
  note sub = wf_subscript(2) [OF assms(1)] wf_subscript(2) [OF assms(2)] wf_subscript(2) [OF old]
    wf_get_or [OF assms(1)] wf_get_or [OF old]
  show ?thesis
    using s sub verify_signed_checkpoint_sorted [OF old s(2)] iterate_normalize [OF assms(4) [OF s(11)] s(12)] hashes
    by (simp add: consistency_fields_def decode_hash_normalize to_int_normalize to_str_normalize equal_values_normalize)
qed

lemma receipt_consistency_sorted:
  assumes "wf_json (JObj r)" "wf_json c" "receipt_consistency (ordered rt) r c root keyring = Inr ()"
    and "\<And>hashes. subscript (dict_get r (py ''consistency_proof'')) ''hashes'' = Inr hashes \<Longrightarrow> no_dict hashes"
  shows "receipt_consistency rt (sorted_dict r) (normalize c) root keyring = Inr ()"
proof -
  let ?b = "dict_get r (py ''consistency_proof'')"
  have b: "dict_get (sorted_dict r) (py ''consistency_proof'') = normalize ?b"
    by (rule get_normalize [OF assms(1)])
  have wf: "wf_json ?b"
    using assms(1) map_of_SomeD [of r "py ''consistency_proof''"] by (auto simp: dict_get_def split: option.split)
  obtain i where i: "get_or c ''previous_checkpoint_id'' JNull = Inr i"
    using assms(3) by (auto simp: receipt_consistency_def result_simps)
  show ?thesis
  proof (cases "i = JNull")
    case True
    then obtain v where v: "get_or c ''previous_root_hash'' JNull = Inr v" "v = JNull" "?b = JNull"
      using assms(3) i by (auto simp: receipt_consistency_def result_simps reject_def split: if_splits)
    then show ?thesis
      using True i wf_get_or [OF assms(2)] b by (simp add: receipt_consistency_def)
  next
    case False
    then obtain d where d: "?b = JObj d" "consistency_fields (ordered rt) c ?b i root keyring = Inr True"
      using assms(3) i by (auto simp: receipt_consistency_def result_simps reject_def Let_def split: json.splits if_splits)
    then show ?thesis
      using False i wf_get_or [OF assms(2) i] b consistency_fields_sorted [OF assms(2) wf d(2) assms(4)]
      by (simp add: receipt_consistency_def d(1) normalize_dict malformed_def)
  qed
qed

text \<open>The paths of a receipt are not dictionaries.\<close>

definition listed_paths :: "pydict \<Rightarrow> bool" where
  "listed_paths r \<longleftrightarrow>
     (\<forall>p v. subscript (JObj r) ''inclusion_proof'' = Inr p \<and> subscript p ''path'' = Inr v \<longrightarrow> no_dict v) \<and>
     (\<forall>v. subscript (dict_get r (py ''consistency_proof'')) ''hashes'' = Inr v \<longrightarrow> no_dict v)"

lemma verify_receipt_sorted:
  assumes "wf_json (JObj r)" "listed_paths r" "verify_receipt (ordered rt) r keyring = Inr reply"
  shows "verify_receipt rt (sorted_dict r) keyring = Inr reply"
proof -
  obtain status leaf where e: "receipt_event (ordered rt) r = Inr (status, leaf, leaf)"
    using assms(3) by (auto simp: verify_receipt_def result_simps reject_def split: if_splits)
  note e' = receipt_event_sorted [OF assms(1) e]
  have gets: "dict_get (sorted_dict r) k = normalize (dict_get r k)" for k
    by (rule get_normalize [OF assms(1)])
  show ?thesis
  proof (cases "status = JStr (py ''pending'')")
    case True
    with assms(3) e e' show ?thesis
      by (auto simp: verify_receipt_def reject_def gets split: if_splits)
  next
    case False
    with assms(3) e obtain c root i where c: "status = JStr (py ''sealed'')"
        "receipt_inclusion (ordered rt) r leaf keyring = Inr (c, root, True)"
        "receipt_consistency (ordered rt) r c root keyring = Inr ()"
        "subscript c ''checkpoint_id'' = Inr i" "reply = witnessed_reply (to_str (ordered rt) i)"
      by (auto simp: verify_receipt_def result_simps reject_def split: if_splits)
    have inc: "receipt_inclusion rt (sorted_dict r) leaf keyring = Inr (normalize c, root, True)"
        "subscript (JObj r) ''checkpoint'' = Inr c"
      using receipt_inclusion_sorted [OF assms(1) c(2)] assms(2) by (auto simp: listed_paths_def)
    have wf: "wf_json c"
      using wf_subscript(1) [OF assms(1) inc(2)] .
    have "receipt_consistency rt (sorted_dict r) (normalize c) root keyring = Inr ()"
      using receipt_consistency_sorted [OF assms(1) wf c(3)] assms(2) by (auto simp: listed_paths_def)
    then show ?thesis
      using False c e' inc(1) wf_subscript(2) [OF wf c(4)]
      by (simp add: verify_receipt_def to_str_normalize)
  qed
qed

end
