(* ===== verification/Offline_Claims.thy ===== *)
theory Offline_Claims
  imports Package_Archive Settings Verify_Cli Receipt_Order
begin

section \<open>Properties of the settings and of the offline verifier\<close>

text \<open>
  The keyring the service accepts, and how the command-line verifier ends whatever its files hold. That
  it accepts the receipt files of an archive is in \<open>Offline_Archives\<close>.
\<close>

subsection \<open>Settings\<close>

lemma decode_keys_texts:
  "decode_secrets entries = Inr decoded \<Longrightarrow>
     decode_keys rt (map (\<lambda>(version, secret). (version, JStr secret)) entries) = Inr (map_of decoded)"
proof -
  have "traverse (\<lambda>(version, secret). map_result (\<lambda>key. (version, key)) (decode_secret (to_str rt secret)))
      (map (\<lambda>(version, secret). (version, JStr secret)) entries) = decode_secrets entries"
    by (induction entries) (auto simp: decode_secrets_def to_str_def py_str_def split: sum.splits)
  then show "decode_secrets entries = Inr decoded \<Longrightarrow> ?thesis"
    by (simp add: decode_keys_def)
qed

text \<open>
  C38: an accepted keyring works. When the settings yield a keyring it has the current key, every
  key in it has at least 32 bytes, a positive batch size makes a sealer that can sign with it, and the
  same JSON in a file gives the command-line verifier the same keyring, with a key for every
  version that the JSON names.
\<close>

theorem settings_keyring_sound:
  assumes "settings_keyring pf s = Inr k"
  shows "(\<exists>key. k (current_key_version s) = Some key) \<and> (\<forall>v key. k v = Some key \<longrightarrow> 32 \<le> length key) \<and>
    (0 < seal_batch_size s \<longrightarrow> (\<exists>sealer key. make_sealer k (current_key_version s) (seal_batch_size s) = Inr sealer \<and>
       signing_key sealer (current_key_version s) = Inr key)) \<and>
    (\<exists>source raw. hmac_keys_json s = Some source \<and> json_loads pf source = Inr (JObj raw) \<and>
       dom k = fst ` set raw \<and> decode_keys rt raw = Inr k)"
proof -
  obtain source raw decoded where s: "hmac_keys_json s = Some source" "json_loads pf source = Inr (JObj raw)"
      "raw = map (\<lambda>(version, secret). (version, JStr secret)) (text_entries raw)"
      "decode_secrets (text_entries raw) = Inr decoded" "current_key_version s \<in> fst ` set decoded" "k = map_of decoded"
    by (rule settings_keyring_Inr [OF assms])
  have "fst ` set raw = fst ` set (text_entries raw)"
    by (subst s(3)) force
  also have "\<dots> = dom k"
    using arg_cong [OF decode_secrets_keys(1) [OF s(4)], of set] by (simp add: s(6) dom_map_of_conv_image_fst)
  finally have dom: "dom k = fst ` set raw" ..
  have current: "\<exists>key. k (current_key_version s) = Some key"
    using s(5,6) by (simp add: map_of_eq_None_iff flip: not_None_eq)
  then have "\<exists>sealer key. make_sealer k (current_key_version s) (seal_batch_size s) = Inr sealer \<and>
       signing_key sealer (current_key_version s) = Inr key" if "0 < seal_batch_size s"
    using that by (auto simp: make_sealer_def signing_key_def require_key_def)
  moreover have "32 \<le> length key" if "k v = Some key" for v key
    using decode_secrets_keys(2) [OF s(4)] map_of_SomeD [OF that [unfolded s(6)]] by blast
  moreover have "decode_keys rt raw = Inr k"
    using decode_keys_texts [OF s(4), of rt] s(3,6) by simp
  ultimately show ?thesis
    using current s(1,2) dom by blast
qed

text \<open>A configured keyring with one key of 32 zero characters.\<close>

definition sample_keys :: json where
  "sample_keys = JObj [(py ''v1'', JStr (replicate 32 0))]"

definition sample_settings :: settings where
  "sample_settings = default_settings\<lparr>hmac_keys_json := Some (json_text sample_keys)\<rparr>"

lemma sample_keys_read: "json_loads pf (json_text sample_keys) = Inr sample_keys"
  using json_loads_text [of sample_keys pf] by (simp add: sample_keys_def normalize_JObj plain_def)

lemma sample_secret: "decode_secret (replicate 32 0) = Inr (replicate 32 0)"
proof -
  have "concat (map utf8_char (replicate n 0)) = replicate n 0" for n
    by (induction n) (simp_all add: utf8_char_def)
  moreover have "take 7 (replicate 32 (0 :: nat)) \<noteq> py ''base64:''"
    by (simp add: take_replicate py_def eval_nat_numeral)
  ultimately show ?thesis
    by (simp add: decode_secret_def utf8_encode_def encodable_def)
qed

lemma sample_settings_keyring: "settings_keyring pf sample_settings = Inr (sl_keyring sample_sealer)"
proof -
  have "json_text sample_keys \<noteq> []"
    by (simp add: sample_keys_def json_text_JObj)
  then show ?thesis
    using sample_keys_read [of pf] sample_secret
    by (simp add: settings_keyring_def sample_settings_def default_settings_def sample_keys_def
        checked_keyring_def decode_secrets_def sample_sealer_def)
qed

theorem settings_keyring_sound_witness:
  "\<exists>k key sealer. settings_keyring Finite sample_settings = Inr k \<and> k (py ''v1'') = Some key \<and> 32 \<le> length key \<and>
     make_sealer k (py ''v1'') 100 = Inr sealer \<and> signing_key sealer (py ''v1'') = Inr key"
proof -
  have s: "current_key_version sample_settings = py ''v1''" "seal_batch_size sample_settings = 100"
    by (simp_all add: sample_settings_def default_settings_def)
  obtain k where k: "settings_keyring Finite sample_settings = Inr k"
    using sample_settings_keyring by blast
  note sound = settings_keyring_sound [OF k, unfolded s, of plain_python]
  then obtain sealer key where m: "make_sealer k (py ''v1'') 100 = Inr sealer" "signing_key sealer (py ''v1'') = Inr key"
    by auto
  then have "k (py ''v1'') = Some key"
    by (auto simp: make_sealer_def signing_key_def require_key_def split: option.splits)
  then show ?thesis
    using k m sound by blast
qed

subsection \<open>How the verifier ends\<close>

lemma read_object_error:
  assumes "\<forall>e. file_data f = Inl e \<longrightarrow> e = OSError" "read_object pf f = Inl e"
  shows "e = OSError \<or> is_value_error e"
proof -
  have kind: "is_value_error e" if "(case v of JObj d \<Rightarrow> Inr d | _ \<Rightarrow> Inl (ValueErrorWith t)) = Inl e" for v t
    using that by (cases v) auto
  show ?thesis
    using assms
    by (auto simp: read_object_def result_simps scan_error_def dest!: read_text_error json_loads_error dest: kind)
qed

lemma b64decode_error: "b64decode t = Inl e \<Longrightarrow> e = ValueError"
  by (auto simp: b64decode_def split: if_splits option.splits)

lemma decode_secret_error: "decode_secret t = Inl e \<Longrightarrow> is_value_error e"
  by (auto simp: decode_secret_def utf8_encode_def result_simps split: if_splits sum.splits dest: b64decode_error)

lemma decode_keys_error: "decode_keys rt raw = Inl e \<Longrightarrow> is_value_error e"
  by (auto simp: decode_keys_def result_simps dest!: traverse_Inl_ex decode_secret_error)

text \<open>What the errors of the verifier itself look like to \<open>main\<close>.\<close>

definition crash :: "exn \<Rightarrow> bool" where
  "crash e \<longleftrightarrow> e = AttributeError \<or> e = OverflowError \<or> e = KeyError"

definition rejection :: "pystr \<Rightarrow> bool" where
  "rejection line \<longleftrightarrow> (\<exists>c m d. line = error_line c m d \<and>
     c \<in> {py ''INVALID_PROOF'', py ''UNKNOWN_KEY_VERSION'', py ''INPUT_ERROR''})"

lemma verify_files_error:
  assumes "\<forall>e. file_data f = Inl e \<longrightarrow> e = OSError" "\<forall>e. file_data g = Inl e \<longrightarrow> e = OSError"
    and "verify_files rt pf f g = Inl e"
  shows "e = OSError \<or> is_value_error e \<or> refused e \<or> crash e"
  using assms
  by (auto simp: verify_files_def result_simps crash_def contract_def escapes_def
      dest: read_object_error decode_keys_error verify_receipt_raises)

text \<open>
  C37: how the verifier ends. Whatever the two files hold, \<open>main\<close> prints a reply exactly when both are
  JSON objects, the keyring decodes and \<open>verify_receipt\<close> accepts, and the line is that reply; otherwise
  it prints one of the three documented error codes and ends with status 2, except that the exceptions
  that escape from \<open>verify_receipt\<close> on malformed receipts end it with a traceback.
\<close>

theorem verifier_outcomes:
  assumes "\<forall>e. file_data f = Inl e \<longrightarrow> e = OSError" "\<forall>e. file_data g = Inl e \<longrightarrow> e = OSError"
  shows "case verify_main rt pf exception_text f g of
      Printed line \<Rightarrow> \<exists>receipt raw keys reply. read_object pf f = Inr receipt \<and> read_object pf g = Inr raw \<and>
        decode_keys rt raw = Inr keys \<and> verify_receipt rt receipt keys = Inr reply \<and> line = ascii_text (JObj reply) @ [10]
    | Rejected line \<Rightarrow> rejection line \<and> \<not> is_ok (verify_files rt pf f g)
    | Crashed e \<Rightarrow> crash e \<and> (\<exists>receipt keys. read_object pf f = Inr receipt \<and> verify_receipt rt receipt keys = Inl e)"
proof (cases "verify_files rt pf f g")
  case (Inr reply)
  then show ?thesis
    by (auto simp: verify_main_def) (auto simp: verify_files_def result_simps)
next
  case (Inl e)
  note kinds = verify_files_error [OF assms Inl]
  have source: "\<exists>receipt keys. read_object pf f = Inr receipt \<and> verify_receipt rt receipt keys = Inl e"
    if "\<not> (e = OSError \<or> is_value_error e)"
    using Inl that assms by (auto simp: verify_files_def result_simps dest: read_object_error decode_keys_error)
  show ?thesis
  proof (cases e)
    case (LedgerError x)
    then have "code x = py ''INVALID_PROOF''"
      using kinds by (auto simp: refused_def error_code_def crash_def)
    then show ?thesis
      using Inl LedgerError by (auto simp: verify_main_def rejection_def is_ok_def)
  qed (use Inl kinds source in
      \<open>auto simp: verify_main_def rejection_def is_ok_def refused_def error_code_def crash_def\<close>)
qed

text \<open>A receipt without a timestamp ends the verifier with a traceback.\<close>

definition file_of :: "json \<Rightarrow> input_file" where
  "file_of v = \<lparr>file_path = [], file_data = canonical_json v\<rparr>"

lemma read_object_file:
  assumes "writable (JObj d)" "readable pf (JObj d)"
  shows "read_object pf (file_of (JObj d)) = Inr (sorted_dict d)"
proof -
  obtain b where "canonical_json (JObj d) = Inr b"
    using writable_ok [OF assms(1)] by blast
  moreover from this obtain t where "read_text b = Inr t" "json_loads pf t = Inr (JObj (sorted_dict d))"
    using read_canonical [OF _ _ assms(2)] assms(1) by (auto simp: writable_def plain_def normalize_dict result_simps)
  ultimately show ?thesis
    by (simp add: read_object_def file_of_def)
qed

theorem verifier_outcomes_witness:
  "verify_main plain_python Finite (\<lambda>_. []) (file_of (JObj undated_receipt)) (file_of sample_keys) = Crashed AttributeError \<and>
     crash AttributeError"
proof -
  let ?f = "file_of (JObj undated_receipt)" and ?g = "file_of sample_keys"
  have f: "read_object Finite ?f = Inr undated_receipt"
    using read_object_file [of undated_receipt Finite]
    by (simp add: undated_receipt_def writable_obj text_ok_py sorted_dict_def normalize_JObj) (simp add: py_def)
  have "read_object Finite ?g = Inr [(py ''v1'', JStr (replicate 32 0))]"
    using read_object_file [of "[(py ''v1'', JStr (replicate 32 0))]" Finite]
    by (simp add: sample_keys_def writable_obj sorted_dict_def text_ok_def encodable_def py_def)
  then obtain keys where "verify_files plain_python Finite ?f ?g = verify_receipt plain_python undated_receipt keys"
    using f sample_secret by (auto simp: verify_files_def decode_keys_def to_str_def py_str_def)
  then have "verify_main plain_python Finite (\<lambda>_. []) ?f ?g = Crashed AttributeError"
    by (simp add: verify_main_def undated_receipt_crashes)
  moreover have "writable (JObj undated_receipt)"
    by (simp add: undated_receipt_def writable_obj text_ok_py)
  moreover have "writable sample_keys"
    by (simp add: sample_keys_def writable_obj text_ok_py) (simp add: text_ok_def encodable_def)
  then have "\<forall>e. file_data ?f = Inl e \<longrightarrow> e = OSError" "\<forall>e. file_data ?g = Inl e \<longrightarrow> e = OSError"
    using writable_ok [of "JObj undated_receipt"] writable_ok [of sample_keys] calculation(2)
    by (auto simp: file_of_def)
  ultimately show ?thesis
    using verifier_outcomes [where f = ?f and g = ?g and rt = plain_python and pf = Finite and exception_text = "\<lambda>_. []"] by auto
qed

end
