(* ===== verification/Offline_Archives.thy ===== *)
theory Offline_Archives
  imports Offline_Claims
begin

section \<open>Archives verify offline\<close>

text \<open>
  The receipt files of an archive, unpacked, and a file with the keyring JSON of the service are all the
  command-line verifier needs: it reads back what the build wrote and accepts every one of them.
\<close>

subsection \<open>Numbers of a ledger can be read back\<close>

lemma length_nat_text: "n < 10 ^ Suc k \<Longrightarrow> length (nat_text n) \<le> Suc k"
proof (induction n arbitrary: k rule: nat_text.induct)
  case (1 n)
  show ?case
  proof (cases "n < 10")
    case False
    then obtain j where k: "k = Suc j"
      using "1.prems" by (cases k) auto
    then have "n div 10 < 10 ^ Suc j"
      using "1.prems" by (simp add: div_less_iff_less_mult)
    then show ?thesis
      using "1.IH" [OF False, of j] False by (simp add: nat_text.simps [of n] k)
  qed (simp add: nat_text.simps [of n])
qed

definition bigint :: "int \<Rightarrow> bool" where
  "bigint i \<longleftrightarrow> 0 \<le> i \<and> i < 2 ^ 63"

lemma readable_bigint: "bigint i \<Longrightarrow> readable pf (JInt i)"
proof -
  assume "bigint i"
  then have "nat \<bar>i\<bar> < 10 ^ Suc 18"
    by (simp add: bigint_def nat_less_iff)
  then show ?thesis
    using length_nat_text [of _ 18] by (fastforce simp: max_int_digits_def)
qed

lemma readable_options [simp]: "readable pf (opt_json t)" "readable pf (opt_uuid u)"
  by (simp_all add: opt_json_def opt_uuid_def split: option.split)

definition bigint_log :: "ledger_db \<Rightarrow> bool" where
  "bigint_log d \<longleftrightarrow> (\<forall>e \<in> set (events d). ev_sequence e < 2 ^ 63)"

lemma bigint_length:
  assumes "ledger_ok d" "bigint_log d" "n \<le> length (events d)"
  shows "bigint (int n)"
proof -
  have "set (map ev_sequence (events d)) \<subseteq> {1..<2 ^ 63}"
    using ledger_okD(3) [OF assms(1)] assms(2) by (force simp: bigint_log_def)
  then have "card (set (map ev_sequence (events d))) \<le> card {1 :: int..<2 ^ 63}"
    by (intro card_mono) auto
  then have "length (events d) \<le> 2 ^ 63 - 1"
    using distinct_card [OF ledger_okD(2) [OF assms(1)]] by simp
  then show ?thesis
    using assms(3) by (simp add: bigint_def)
qed

lemma length_events_up_to: "length (events_up_to t es) \<le> length es"
  by (simp add: events_up_to_def)

lemma readable_event:
  "event_view e = Inr v \<Longrightarrow> bigint (ev_sequence e) \<Longrightarrow> readable pf (JObj v)"
  using readable_bigint by (auto simp: event_view_def event_commitment_def result_simps)

lemma readable_checkpoint:
  "checkpoint_view c = Inr v \<Longrightarrow> bigint (cp_leaf_count c) \<Longrightarrow> bigint (cp_last_event_sequence c) \<Longrightarrow>
     readable pf (JObj v)"
  using readable_bigint [of 1] readable_bigint
  by (auto simp: checkpoint_view_payload checkpoint_payload_def result_simps bigint_def)

lemma sealed_bigint:
  assumes "ledger_ok d" "bigint_log d" "seals_ok keyring d" "c \<in> set (checkpoints d)"
  shows "bigint (cp_leaf_count c)" "bigint (cp_last_event_sequence c)"
proof -
  have "sealed_ok keyring (events d) c"
    using assms(3,4) by (simp add: seals_ok_def)
  then show "bigint (cp_leaf_count c)" "bigint (cp_last_event_sequence c)"
    using bigint_length [OF assms(1,2) length_events_up_to] assms(2) ledger_okD(3) [OF assms(1)]
    by (auto simp: sealed_ok_def bigint_log_def bigint_def [of "ev_sequence _"] less_imp_le)
qed

lemma readable_bundle:
  assumes "ledger_ok d" "bigint_log d" "seals_ok keyring d" "c \<in> set (checkpoints d)" "linked d c b"
  shows "readable pf b"
proof -
  have "readable pf b" if p: "p \<in> set (checkpoints d)" "consistency_bundle c p leaves = Inr b" for p leaves
    using p(2) readable_checkpoint sealed_bigint [OF assms(1-3) p(1)] sealed_bigint [OF assms(1-4)] readable_bigint
    by (fastforce simp: consistency_bundle_def result_simps)
  then show ?thesis
    using assms(5) by (auto simp: linked_def)
qed

lemma readable_path: "readable pf (path_json path)"
  by (auto simp: path_json_def)

lemma readable_receipt:
  assumes "ledger_ok d" "bigint_log d" "seals_ok keyring d" "c \<in> set (checkpoints d)" "e \<in> set (events d)"
    and "ev_sequence e \<le> cp_last_event_sequence c" "receipt_in d c e receipt"
  shows "readable pf (JObj receipt) \<and> listed_paths receipt"
proof -
  obtain k b where r: "position_of (ev_event_id e) (events_up_to (cp_last_event_sequence c) (events d)) = Some k"
      "linked d c b" "sealed_receipt e (int k) c (prefix_leaves (events d) (cp_last_event_sequence c)) b = Inr receipt"
    using assms(7) unfolding receipt_in_def by blast
  then obtain path v cv where p: "event_view e = Inr v" "checkpoint_view c = Inr cv"
    "receipt = [(py ''event'', JObj v), (py ''witness_status'', JStr (py ''sealed'')), (py ''checkpoint'', JObj cv),
       (py ''inclusion_proof'', JObj [(py ''leaf_index'', JInt (int k)), (py ''tree_size'', JInt (cp_leaf_count c)),
          (py ''path'', path_json path)]), (py ''consistency_proof'', b)]"
    by (auto simp: sealed_receipt_def result_simps)
  have "k < length (events_up_to (cp_last_event_sequence c) (events d))"
    using position_in [OF assms(1,5,6)] r(1) by (metis option.inject)
  then have k: "bigint (int k)"
    using bigint_length [OF assms(1,2)] length_events_up_to by (meson le_trans less_imp_le)
  have e: "bigint (ev_sequence e)"
    using assms(2,5) ledger_okD(3) [OF assms(1,5)] by (simp add: bigint_log_def bigint_def)
  note c = sealed_bigint [OF assms(1-4)]
  have "no_dict hashes" if "subscript b ''hashes'' = Inr hashes" for hashes
    using r(2) that by (auto simp: linked_def consistency_bundle_def result_simps subscript_def no_dict_def)
  then have "listed_paths receipt"
    by (auto simp: p(3) listed_paths_def subscript_def dict_get_def no_dict_def path_json_def)
  then show ?thesis
    using readable_event [OF p(1) e] readable_checkpoint [OF p(2) c] readable_bundle [OF assms(1-4) r(2)]
      readable_bigint [OF k] readable_bigint [OF c(1)] readable_path
    by (simp add: p(3))
qed

subsection \<open>The verifier on unpacked files\<close>

text \<open>A file with these bytes.\<close>

definition holding :: "pystr \<Rightarrow> bytes \<Rightarrow> input_file" where
  "holding path data = \<lparr>file_path = path, file_data = Inr data\<rparr>"

lemma keyring_file_decodes:
  assumes "settings_keyring pf s = Inr keyring" "hmac_keys_json s = Some source" "read_text kb = Inr source"
  obtains raw where "read_object pf (holding path kb) = Inr raw" "decode_keys rt raw = Inr keyring"
proof -
  obtain source' raw decoded where s: "hmac_keys_json s = Some source'" "json_loads pf source' = Inr (JObj raw)"
      "raw = map (\<lambda>(version, secret). (version, JStr secret)) (text_entries raw)"
      "decode_secrets (text_entries raw) = Inr decoded" "keyring = map_of decoded"
    by (rule settings_keyring_Inr [OF assms(1)])
  have "decode_keys rt raw = Inr keyring"
    using decode_keys_texts [OF s(4), of rt] s(3,5) by simp
  moreover have "read_object pf (holding path kb) = Inr raw"
    using s(1,2) assms(2,3) by (simp add: read_object_def holding_def)
  ultimately show thesis
    using that by blast
qed

lemma receipt_file_accepted:
  assumes "ledger_ok d" "bigint_log d" "seals_ok keyring d" "c \<in> set (checkpoints d)" "e \<in> set (events d)"
    and "ev_sequence e \<le> cp_last_event_sequence c" "receipt_in d c e receipt" "canonical_json (JObj receipt) = Inr data"
    and "read_object pf keyring_file = Inr raw" "decode_keys rt raw = Inr keyring"
  shows "verify_main rt pf et (holding path data) keyring_file =
    Printed (ascii_text (JObj (witnessed_reply (uuid_str (cp_checkpoint_id c)))) @ [10])"
proof -
  note readable = readable_receipt [OF assms(1-7), of pf]
  have "wf_json (JObj receipt)"
    using receipt_writable [OF assms(1,3-5,7)] by (simp add: writable_def plain_def)
  moreover from this obtain t where "read_text data = Inr t" "json_loads pf t = Inr (JObj (sorted_dict receipt))"
    using read_canonical [OF assms(8), of pf] readable by (auto simp: normalize_dict result_simps)
  then have "read_object pf (holding path data) = Inr (sorted_dict receipt)"
    by (simp add: read_object_def holding_def)
  moreover have "verify_receipt (ordered rt) receipt keyring = Inr (witnessed_reply (uuid_str (cp_checkpoint_id c)))"
    using receipt_in_accepted [OF assms(1,3-7)] by (simp add: receipt_of_def)
  ultimately show ?thesis
    using verify_receipt_sorted readable assms(9,10) by (simp add: verify_main_def verify_files_def)
qed

text \<open>
  C9: archives verify offline. The archive that any build stores on a sound ledger is the zip of one
  file per event of the instrument within the boundary, and of the manifest. Unpacked, each of these
  receipt files is accepted by the command-line verifier when its keyring file holds the keyring JSON
  that the service was configured with: it prints the boundary checkpoint as the witness and ends with
  status 0, on any interpreter. Sequences are those of a PostgreSQL \<open>BIGINT\<close>, which keeps every number
  of a receipt short enough to be read back.
\<close>

theorem archives_verify_offline:
  assumes "package_env env" "append_only keyring env" "ledger_ok d" "seals_ok keyring d" "bigint_log d"
    and "c \<in> set (checkpoints d)" "cp_checkpoint_id c = pk_checkpoint_id p"
    and "mine w = []" "package_table (shared w)" "extends keyring d (shared w)"
    and "build_once zip_file exception_text p keyring env w = (r, w')"
    and "InsertArtifact a \<in> set (drop (length (written w)) (written w'))"
    and "settings_keyring pf s = Inr keyring" "hmac_keys_json s = Some source" "read_text kb = Inr source"
  shows "\<exists>files manifest.
    ar_zip_content a = zip_file (zip_directory # map zip_member (files @ [(manifest_name, manifest)])) \<and>
    length files = length (boundary_events d c (pk_instrument_id p)) \<and>
    (\<forall>(name, data) \<in> set files. verify_main rt pf et (holding name data) (holding path kb) =
       Printed (ascii_text (JObj (witnessed_reply (uuid_str (cp_checkpoint_id c)))) @ [10]))"
proof -
  obtain x where x: "packs zip_file d c p x" "ar_zip_content a = ba_content x"
    by (rule stored_archive [OF assms(1-4,6-12)])
  then obtain m where m: "packed d c p m" "build_archive zip_file m = Inr x"
    by (auto simp: packs_def)
  obtain files manifest where f:
    "list_all2 (\<lambda>entry file. fst file = entry_name entry \<and> receipt_bytes entry = Inr (snd file)) (pb_entries m) files"
    "ba_content x = zip_file (zip_directory # map zip_member (files @ [(manifest_name, manifest)]))"
    by (rule build_archive_files [OF m(2)])
  let ?es = "boundary_events d c (pk_instrument_id p)"
  have es: "list_all2 (\<lambda>e entry. receipt_in d c e (re_receipt entry)) ?es (pb_entries m)"
    using m(1) by (auto simp: packed_def elim: list_all2_mono)
  obtain raw where raw: "read_object pf (holding path kb) = Inr raw" "decode_keys rt raw = Inr keyring"
    by (rule keyring_file_decodes [OF assms(13-15)])
  have "verify_main rt pf et (holding (fst entry) (snd entry)) (holding path kb) =
       Printed (ascii_text (JObj (witnessed_reply (uuid_str (cp_checkpoint_id c)))) @ [10])" if mem: "entry \<in> set files" for entry
  proof -
    obtain k where k: "k < length files" "entry = files ! k"
      using mem by (auto simp: in_set_conv_nth)
    have lengths: "length ?es = length (pb_entries m)" "length (pb_entries m) = length files"
      using list_all2_lengthD [OF es] list_all2_lengthD [OF f(1)] .
    then have "?es ! k \<in> set ?es"
      using k(1) by simp
    then have e: "?es ! k \<in> set (events d)" "ev_sequence (?es ! k) \<le> cp_last_event_sequence c"
      by (auto simp only: boundary_events_def sealed_events_def set_events_up_to set_filter)
    moreover have "receipt_in d c (?es ! k) (re_receipt (pb_entries m ! k))"
      using list_all2_nthD [OF es] k(1) lengths by simp
    moreover have "canonical_json (JObj (re_receipt (pb_entries m ! k))) = Inr (snd entry)"
      using list_all2_nthD2 [OF f(1) k(1)] k(2) by (simp add: receipt_bytes_def)
    ultimately show ?thesis
      by (rule receipt_file_accepted [OF assms(3,5,4,6) _ _ _ _ raw])
  qed
  moreover have "length files = length ?es"
    using list_all2_lengthD [OF es] list_all2_lengthD [OF f(1)] by simp
  ultimately show ?thesis
    using x(2) f(2) by (intro exI [of _ files] exI [of _ manifest]) auto
qed

text \<open>A sealed ledger with one event.\<close>

lemma numbered_archive:
  obtains w c e where "sound_world sample_sealer w" "bigint_log (shared w)" "c \<in> set (checkpoints (shared w))"
    "e \<in> set (events (shared w))" "ev_sequence e \<le> cp_last_event_sequence c"
proof -
  obtain b where b: "event_commitment_bytes sample_event = Inr b"
    using event_commitment_bytes_ok by fastforce
  let ?e = "sample_event\<lparr>ev_leaf_hash := hex (leaf_hash b)\<rparr>"
  let ?d = "empty_db\<lparr>events := [?e], next_sequence := 8\<rparr>"
  let ?w = "start_world\<lparr>shared := ?d\<rparr>"
  have "event_commitment_bytes ?e = Inr b"
    using event_commitment_bytes_cong [of ?e sample_event] b by (simp add: same_commitment_def)
  then have "committed ?e"
    by (simp add: committed_def)
  moreover have "event_fits [] ?e"
    by (simp add: event_fits_def event_payload_shape_def sample_event_def)
  ultimately have "ledger_ok ?d"
    by (simp add: ledger_ok_def event_table_def link_ok_def sample_event_def)
  then have w: "sound_world sample_sealer ?w"
    by (simp add: sound_world_def seals_ok_def empty_db_def)
  have fresh: "fresh_ids fixed_env 1 ?w"
    by (rule fixed_env_fresh) (simp_all add: start_world_def empty_db_def)
  obtain c w' where w': "sound_world sample_sealer w'" "last_checkpoint (shared w') = Some c"
      "events (shared w') = events (shared ?w)"
    by (rule sample_sealed [OF w fresh]) (simp_all add: empty_db_def)
  then have "seals_ok (sl_keyring sample_sealer) (shared w')"
    by (simp add: sound_world_def)
  note c = last_checkpoint_sealed [OF this w'(2)]
  then obtain e where "e \<in> set (events (shared w'))" "ev_sequence e = cp_last_event_sequence c"
    by (auto simp: sealed_ok_def)
  moreover have "bigint_log (shared w')"
    by (simp add: w'(3) bigint_log_def sample_event_def)
  ultimately show thesis
    using that [OF w'(1)] c(2) by simp
qed

theorem archives_verify_offline_witness:
  "\<exists>w p r w' a files manifest reply. build_once concat_zip (\<lambda>_. []) p (sl_keyring sample_sealer) fixed_env w = (r, w') \<and>
     InsertArtifact a \<in> set (drop (length (written w)) (written w')) \<and>
     ar_zip_content a = concat_zip (zip_directory # map zip_member (files @ [(manifest_name, manifest)])) \<and> files \<noteq> [] \<and>
     list_all (\<lambda>(name, data). verify_main plain_python Finite (\<lambda>_. []) (holding name data)
       \<lparr>file_path = py ''keys.json'', file_data = canonical_json sample_keys\<rparr> = Printed reply) files"
proof -
  obtain w0 c e where w0: "sound_world sample_sealer w0" "bigint_log (shared w0)" "c \<in> set (checkpoints (shared w0))"
      "e \<in> set (events (shared w0))" "ev_sequence e \<le> cp_last_event_sequence c"
    by (rule numbered_archive)
  let ?w = "claimed_world w0 e c"
  note s = claimed_build [OF w0(1,3-5) fixed_env(1) sample_envs_pg(1)]
  obtain v a where v: "build_once concat_zip (\<lambda>_. []) (claimed_sample e c) (sl_keyring sample_sealer) fixed_env ?w = (Inr (Settled Ready), v)"
      "InsertArtifact a \<in> set (drop (length (written ?w)) (written v))"
    using s(11) by blast
  have "writable sample_keys"
    by (simp add: sample_keys_def writable_obj text_ok_py) (simp add: text_ok_def encodable_def)
  then obtain kb where kb: "canonical_json sample_keys = Inr kb"
    using writable_ok by blast
  then have read: "read_text kb = Inr (json_text sample_keys)"
    using \<open>writable sample_keys\<close> json_text_no_return read_text_encoded [of "json_text sample_keys"]
    by (auto simp: canonical_json_Inr writable_def)
  have log: "bigint_log (shared ?w)"
    using w0(2) by (simp add: bigint_log_def claimed_world_def)
  have source: "hmac_keys_json sample_settings = Some (json_text sample_keys)"
    by (simp add: sample_settings_def)
  note result = archives_verify_offline [OF s(1-4) log s(5-9) v sample_settings_keyring source read,
      where rt = plain_python and et = "\<lambda>_. []" and path = "py ''keys.json''" and pf = Finite]
  then obtain files manifest where f:
    "ar_zip_content a = concat_zip (zip_directory # map zip_member (files @ [(manifest_name, manifest)]))"
    "length files = length (boundary_events (shared ?w) c (pk_instrument_id (claimed_sample e c)))"
    "\<forall>(name, data) \<in> set files. verify_main plain_python Finite (\<lambda>_. []) (holding name data) (holding (py ''keys.json'') kb) =
       Printed (ascii_text (JObj (witnessed_reply (uuid_str (cp_checkpoint_id c)))) @ [10])"
    by blast
  have "files \<noteq> []"
    using f(2) s(10) by auto
  with v f(1,3) show ?thesis
    unfolding list_all_iff kb holding_def [symmetric] by blast
qed

end
