(* ===== verification/Api.thy ===== *)
theory Api
  imports Settings Audit_Consumer Package_Session Proofs
begin

section \<open>The HTTP application\<close>

text \<open>
  \<open>src/ledger/api/app.py\<close> and the request types of \<open>src/ledger/schemas.py\<close>: one program per endpoint,
  from the validated request to the response, the exception handlers and the request id. Routing,
  parsing of the request and the encoding of responses are FastAPI's and pydantic's; the limits that
  \<open>schemas.py\<close> declares are predicates. An exception that no handler takes is answered by the server
  with status 500 and stays an exception here.
\<close>

subsection \<open>Request types\<close>

definition bounded_text :: "nat \<Rightarrow> pystr \<Rightarrow> bool" where
  "bounded_text maximum s \<longleftrightarrow> 1 \<le> length s \<and> length s \<le> maximum"

definition short_text :: "pystr \<Rightarrow> bool" where
  "short_text = bounded_text 128"

definition MAX_BATCH_REPORTS :: nat where
  "MAX_BATCH_REPORTS = 50"

definition DEFAULT_CHECKPOINT_EVENTS_PAGE :: int where
  "DEFAULT_CHECKPOINT_EVENTS_PAGE = 100"

definition MAX_CHECKPOINT_EVENTS_PAGE :: int where
  "MAX_CHECKPOINT_EVENTS_PAGE = 500"

definition report_valid :: "submit_report \<Rightarrow> bool" where
  "report_valid r \<longleftrightarrow>
     short_text (rq_business_key r) \<and> short_text (rq_instrument_id r) \<and> short_text (rq_operator_id r)"

definition batch_valid :: "submit_report list \<Rightarrow> bool" where
  "batch_valid rs \<longleftrightarrow> 1 \<le> length rs \<and> length rs \<le> MAX_BATCH_REPORTS \<and> list_all report_valid rs"

definition revocation_valid :: "submit_revocation \<Rightarrow> bool" where
  "revocation_valid r \<longleftrightarrow>
     short_text (rv_business_key r) \<and> short_text (rv_operator_id r) \<and> bounded_text 2000 (rv_reason r)"

record create_package_request =
  cr_instrument_id :: pystr
  cr_idempotency_key :: pystr
  cr_checkpoint_id :: "uuid option"

definition create_package_valid :: "create_package_request \<Rightarrow> bool" where
  "create_package_valid r \<longleftrightarrow> short_text (cr_instrument_id r) \<and> bounded_text 128 (cr_idempotency_key r)"

record register_request =
  rg_consumer_name :: pystr
  rg_idempotency_key :: pystr

definition register_valid :: "register_request \<Rightarrow> bool" where
  "register_valid r \<longleftrightarrow> short_text (rg_consumer_name r) \<and> bounded_text 128 (rg_idempotency_key r)"

text \<open>
  \<open>_require_integer_literal\<close>: \<open>fullmatch\<close> of \<open>[+-]?[0-9]+\<close>. What \<open>pydantic\<close> reads from such a literal is
  the parameter \<open>parse_int\<close>; the bounds are checked on its value.
\<close>

definition ascii_digit :: "nat \<Rightarrow> bool" where
  "ascii_digit c \<longleftrightarrow> 48 \<le> c \<and> c \<le> 57"

definition integer_literal :: "pystr \<Rightarrow> bool" where
  "integer_literal s =
     (let body = (case s of [] \<Rightarrow> [] | c # cs \<Rightarrow> if c = 43 \<or> c = 45 then cs else s) in
      body \<noteq> [] \<and> list_all ascii_digit body)"

definition require_integer_literal :: "(pystr \<Rightarrow> int option) \<Rightarrow> pystr \<Rightarrow> int option" where
  "require_integer_literal parse_int s = (if integer_literal s then parse_int s else None)"

text \<open>The query parameters \<open>after_sequence\<close> and \<open>limit\<close>: \<open>None\<close> is a violation.\<close>

definition after_param :: "(pystr \<Rightarrow> int option) \<Rightarrow> pystr option \<Rightarrow> int option option" where
  "after_param parse_int raw =
     (case raw of
        None \<Rightarrow> Some None
      | Some s \<Rightarrow>
          (case require_integer_literal parse_int s of
             None \<Rightarrow> None
           | Some i \<Rightarrow> if 0 \<le> i then Some (Some i) else None))"

definition limit_param :: "(pystr \<Rightarrow> int option) \<Rightarrow> pystr option \<Rightarrow> int option" where
  "limit_param parse_int raw =
     (case raw of
        None \<Rightarrow> Some DEFAULT_CHECKPOINT_EVENTS_PAGE
      | Some s \<Rightarrow>
          (case require_integer_literal parse_int s of
             None \<Rightarrow> None
           | Some i \<Rightarrow> if 1 \<le> i \<and> i \<le> MAX_CHECKPOINT_EVENTS_PAGE then Some i else None))"

subsection \<open>Responses\<close>

datatype response_body = JsonBody json | BytesBody bytes

record http_response =
  rs_status :: nat
  rs_headers :: "(pystr \<times> pystr) list"
  rs_body :: response_body

definition json_response :: "nat \<Rightarrow> pydict \<Rightarrow> http_response" where
  "json_response status content = \<lparr>rs_status = status, rs_headers = [], rs_body = JsonBody (JObj content)\<rparr>"

definition error_response :: "pystr \<Rightarrow> ledger_error \<Rightarrow> http_response" where
  "error_response request_id e =
     json_response (status_code e)
       [(py ''error'', JObj
          [(py ''code'', JStr (code e)),
           (py ''message'', JStr (message e)),
           (py ''details'', JObj (details e)),
           (py ''request_id'', JStr request_id)])]"

subsection \<open>Exception handlers\<close>

datatype loc_part = FieldName pystr | ItemIndex int

fun loc_text :: "loc_part \<Rightarrow> pystr" where
  "loc_text (FieldName s) = s"
| "loc_text (ItemIndex i) = int_text i"

record violation =
  vi_loc :: "loc_part list"
  vi_msg :: pystr
  vi_type :: pystr

definition validation_error :: "violation list \<Rightarrow> ledger_error" where
  "validation_error violations =
     \<lparr>code = py ''INVALID_REQUEST'', message = py ''request validation failed'', status_code = 422,
      details = [(py ''violations'', JArr (map (\<lambda>v. JObj
        [(py ''location'', JArr (map (\<lambda>part. JStr (loc_text part)) (vi_loc v))),
         (py ''message'', JStr (vi_msg v)),
         (py ''type'', JStr (vi_type v))]) violations))]\<rparr>"

definition validation_error_handler :: "pystr \<Rightarrow> violation list \<Rightarrow> http_response" where
  "validation_error_handler request_id violations = error_response request_id (validation_error violations)"

definition database_unavailable :: ledger_error where
  "database_unavailable =
     \<lparr>code = py ''DATABASE_UNAVAILABLE'', message = py ''database operation failed; retry after database recovery'',
      status_code = 503, details = [(py ''retryable'', JBool True)]\<rparr>"

definition exception_handlers :: "pystr \<Rightarrow> http_response op \<Rightarrow> http_response op" where
  "exception_handlers request_id handler = (\<lambda>env w.
     case handler env w of
       (Inr r, w') \<Rightarrow> (Inr r, w')
     | (Inl e, w') \<Rightarrow>
         (case e of
            LedgerError x \<Rightarrow> (Inr (error_response request_id x), w')
          | _ \<Rightarrow> if is_database_error e then (Inr (error_response request_id database_unavailable), w')
                 else (Inl e, w')))"

text \<open>The middleware: the client's id or a new one, on the errors and in the headers of every response.\<close>

definition add_header :: "pystr \<Rightarrow> pystr \<Rightarrow> http_response \<Rightarrow> http_response" where
  "add_header name field r = r\<lparr>rs_headers := rs_headers r @ [(name, field)]\<rparr>"

definition choose_request_id :: "pystr option \<Rightarrow> pystr op" where
  "choose_request_id header =
     (case header of
        Some (c # cs) \<Rightarrow> return_op (c # cs)
      | _ \<Rightarrow> bind_op uuid_op (\<lambda>i. return_op (uuid_str i)))"

definition request_identity :: "pystr option \<Rightarrow> http_response op \<Rightarrow> http_response op" where
  "request_identity header handler =
     bind_op (choose_request_id header) (\<lambda>request_id.
     bind_op (exception_handlers request_id handler) (\<lambda>r.
       return_op (add_header (py ''X-Request-ID'') request_id r)))"

subsection \<open>Health\<close>

definition lifespan :: "(pystr \<Rightarrow> pyfloat) \<Rightarrow> settings \<Rightarrow> unit result" where
  "lifespan parse_float s =
     bind_result (settings_keyring parse_float s) (\<lambda>keyring.
       if dom keyring = {} then Inl (KeyConfigurationError (py ''at least one HMAC key is required'')) else Inr ())"

definition live :: http_response where
  "live = json_response 200 [(py ''status'', JStr (py ''alive''))]"

definition not_ready_response :: "pystr \<Rightarrow> http_response" where
  "not_ready_response reason =
     json_response 503
       [(py ''status'', JStr (py ''not_ready'')),
        (py ''error'', JObj
          [(py ''code'', JStr (py ''DATABASE_OR_MIGRATION_UNAVAILABLE'')), (py ''message'', JStr reason)])]"

text \<open>What the two statements of \<open>ready\<close> gave is its argument: an exception, or the version if there is one.\<close>

definition ready :: "(exn \<Rightarrow> pystr) \<Rightarrow> pystr option result \<Rightarrow> http_response" where
  "ready exception_text answer =
     (case answer of
        Inl e \<Rightarrow> not_ready_response (exception_text e)
      | Inr (Some (c # cs)) \<Rightarrow>
          json_response 200 [(py ''status'', JStr (py ''ready'')), (py ''migration'', JStr (c # cs))]
      | Inr _ \<Rightarrow> not_ready_response (py ''migration version is absent''))"

subsection \<open>Events\<close>

definition created_status :: "bool \<Rightarrow> nat" where
  "created_status created = (if created then 201 else 200)"

definition event_reply :: "event_row \<times> bool \<Rightarrow> pydict result" where
  "event_reply answer =
     map_result (\<lambda>view.
       [(py ''created'', JBool (snd answer)), (py ''event'', JObj view), (py ''witness_status'', JStr (py ''pending''))])
       (event_view (fst answer))"

definition submitted :: "(event_row \<times> bool) op \<Rightarrow> http_response op" where
  "submitted service =
     bind_op service (\<lambda>answer. lift_op (map_result (json_response (created_status (snd answer))) (event_reply answer)))"

definition submit_report_endpoint :: "submit_report \<Rightarrow> http_response op" where
  "submit_report_endpoint payload = submitted (append_report payload)"

definition submit_report_batch :: "(exn \<Rightarrow> pystr) \<Rightarrow> submit_report list \<Rightarrow> http_response op" where
  "submit_report_batch exception_text reports =
     bind_op (append_report_batch exception_text reports) (\<lambda>answers.
       lift_op (map_result (\<lambda>items.
           json_response (created_status (list_ex snd answers)) [(py ''results'', JArr (map JObj items))])
         (traverse event_reply answers)))"

definition submit_revision_endpoint :: "uuid \<Rightarrow> submit_report \<Rightarrow> http_response op" where
  "submit_revision_endpoint event_id payload = submitted (append_revision event_id payload)"

definition submit_revocation_endpoint :: "uuid \<Rightarrow> submit_revocation \<Rightarrow> http_response op" where
  "submit_revocation_endpoint event_id payload = submitted (append_revocation event_id payload)"

definition record_not_found :: "uuid \<Rightarrow> exn" where
  "record_not_found record_id =
     ledger_error ''NOT_FOUND'' ''record was not found'' 404 [(py ''record_id'', JStr (uuid_str record_id))]"

definition record_events :: "uuid \<Rightarrow> ledger_db \<Rightarrow> event_row list" where
  "record_events record_id d = sort_key ev_sequence (filter (\<lambda>e. ev_record_id e = record_id) (events d))"

definition get_record :: "uuid \<Rightarrow> http_response op" where
  "get_record record_id =
     bind_op (select_op (record_events record_id)) (\<lambda>es.
       if es = [] then raise_op (record_not_found record_id)
       else lift_op (map_result (\<lambda>views.
         json_response 200
           [(py ''record_id'', JStr (uuid_str record_id)),
            (py ''current_state'', JStr (event_kind_text (ev_event_type (last es)))),
            (py ''events'', JArr (map JObj views))])
         (traverse event_view es)))"

subsection \<open>Proofs\<close>

definition with_keyring :: "(pystr \<Rightarrow> pyfloat) \<Rightarrow> settings \<Rightarrow> (keyring \<Rightarrow> pydict op) \<Rightarrow> http_response op" where
  "with_keyring parse_float configured f =
     bind_op (lift_op (settings_keyring parse_float configured)) (\<lambda>keyring.
     bind_op (f keyring) (\<lambda>content. return_op (json_response 200 content)))"

definition get_event :: "(pystr \<Rightarrow> pyfloat) \<Rightarrow> settings \<Rightarrow> uuid \<Rightarrow> http_response op" where
  "get_event parse_float configured event_id =
     with_keyring parse_float configured (\<lambda>keyring. build_receipt keyring event_id)"

definition get_checkpoint :: "(pystr \<Rightarrow> pyfloat) \<Rightarrow> settings \<Rightarrow> uuid \<Rightarrow> http_response op" where
  "get_checkpoint parse_float configured checkpoint_id =
     with_keyring parse_float configured (\<lambda>keyring. build_checkpoint_view keyring checkpoint_id)"

definition get_checkpoint_events ::
    "(pystr \<Rightarrow> pyfloat) \<Rightarrow> settings \<Rightarrow> uuid \<Rightarrow> int option \<Rightarrow> int \<Rightarrow> http_response op" where
  "get_checkpoint_events parse_float configured checkpoint_id after_sequence limit =
     with_keyring parse_float configured
       (\<lambda>keyring. build_checkpoint_event_page keyring checkpoint_id after_sequence limit)"

definition verify ::
    "python \<Rightarrow> (pystr \<Rightarrow> pyfloat) \<Rightarrow> settings \<Rightarrow> pydict \<Rightarrow> http_response result" where
  "verify rt parse_float configured receipt =
     (case bind_result (settings_keyring parse_float configured) (verify_receipt rt receipt) of
        Inr reply \<Rightarrow> Inr (json_response 200 reply)
      | Inl (KeyConfigurationError t) \<Rightarrow>
          Inl (LedgerError \<lparr>code = py ''UNKNOWN_KEY_VERSION'', message = t, status_code = 422,
            details = [(py ''retryable'', JBool False)]\<rparr>)
      | Inl e \<Rightarrow> Inl e)"

subsection \<open>Audit packages\<close>

definition package_reply :: "nat \<Rightarrow> pydict \<Rightarrow> package_row \<Rightarrow> http_response op" where
  "package_reply status flags p =
     lift_op (map_result (\<lambda>view. json_response status (flags @ [(py ''package'', JObj view)])) (audit_package_view p))"

definition create_audit_package :: "create_package_request \<Rightarrow> http_response op" where
  "create_audit_package payload =
     bind_op (create_package (cr_instrument_id payload) (cr_idempotency_key payload) (cr_checkpoint_id payload)) (\<lambda>(p, created).
       package_reply (created_status created) [(py ''created'', JBool created)] p)"

definition get_audit_package :: "uuid \<Rightarrow> http_response op" where
  "get_audit_package package_id = bind_op (get_package package_id) (package_reply 200 [])"

definition retry_audit_package :: "uuid \<Rightarrow> http_response op" where
  "retry_audit_package package_id = bind_op (request_retry package_id) (package_reply 200 [])"

definition cancel_audit_package :: "uuid \<Rightarrow> http_response op" where
  "cancel_audit_package package_id =
     bind_op (cancel_package package_id) (\<lambda>(p, changed).
       package_reply 200 [(py ''changed'', JBool changed)] p)"

text \<open>\<open>str.isalnum\<close> of one character needs Python's Unicode tables and is a parameter.\<close>

definition strip_dashes :: "pystr \<Rightarrow> pystr" where
  "strip_dashes s = rev (dropWhile (\<lambda>c. c = 45) (rev (dropWhile (\<lambda>c. c = 45) s)))"

definition safe_instrument :: "(nat \<Rightarrow> bool) \<Rightarrow> pystr \<Rightarrow> pystr" where
  "safe_instrument isalnum instrument_id =
     (let s = strip_dashes (map (\<lambda>c. if isalnum c \<or> c = 45 \<or> c = 95 then c else 45) instrument_id) in
      if s = [] then py ''instrument'' else s)"

definition download_filename :: "(nat \<Rightarrow> bool) \<Rightarrow> package_row \<Rightarrow> pystr" where
  "download_filename isalnum p =
     py ''audit-package-'' @ safe_instrument isalnum (pk_instrument_id p) @ py ''-'' @
       uuid_str (pk_package_id p) @ py ''.zip''"

definition download_audit_package :: "(nat \<Rightarrow> bool) \<Rightarrow> uuid \<Rightarrow> http_response op" where
  "download_audit_package isalnum package_id =
     bind_op (get_ready_artifact package_id) (\<lambda>(p, a). return_op
       \<lparr>rs_status = 200,
        rs_headers =
          [(py ''Content-Disposition'', py ''attachment; filename='' @ [34] @ download_filename isalnum p @ [34]),
           (py ''X-Content-SHA-256'', ar_sha256 a), (py ''content-type'', py ''application/zip'')],
        rs_body = BytesBody (ar_zip_content a)\<rparr>)"

subsection \<open>Audit consumers\<close>

definition register_audit_consumer :: "register_request \<Rightarrow> http_response op" where
  "register_audit_consumer payload =
     bind_op (register_consumer (rg_consumer_name payload) (rg_idempotency_key payload)) (\<lambda>(c, created).
       lift_op (map_result (\<lambda>view. json_response (created_status created)
           [(py ''created'', JBool created), (py ''consumer'', JObj view)])
         (audit_consumer_view c None)))"

definition get_audit_consumer :: "uuid \<Rightarrow> http_response op" where
  "get_audit_consumer consumer_id =
     bind_op (get_consumer consumer_id) (\<lambda>c.
     bind_op (current_checkpoint c) (\<lambda>checkpoint.
       lift_op (map_result (\<lambda>view. json_response 200 [(py ''consumer'', JObj view)])
         (audit_consumer_view c checkpoint))))"

definition acknowledgement_view :: "consumer_row \<Rightarrow> checkpoint_row \<Rightarrow> bool \<Rightarrow> http_response result" where
  "acknowledgement_view c checkpoint advanced =
     bind_result (audit_consumer_view c (Some checkpoint)) (\<lambda>view.
     map_result (\<lambda>acknowledged_at. json_response 201
         [(py ''advanced'', JBool advanced),
          (py ''consumer'', JObj view),
          (py ''acknowledgement'', JObj
             [(py ''checkpoint_id'', JStr (uuid_str (cp_checkpoint_id checkpoint))),
              (py ''leaf_count'', JInt (cp_leaf_count checkpoint)),
              (py ''last_event_sequence'', JInt (cp_last_event_sequence checkpoint)),
              (py ''acknowledged_at'', acknowledged_at)])])
       (opt_timestamp (co_last_acknowledged_at c)))"

definition acknowledge_audit_checkpoint :: "uuid \<Rightarrow> uuid \<Rightarrow> http_response op" where
  "acknowledge_audit_checkpoint consumer_id checkpoint_id =
     bind_op (acknowledge_checkpoint consumer_id checkpoint_id) (\<lambda>(found, checkpoint, advanced).
       case found of
         None \<Rightarrow> raise_op AttributeError
       | Some c \<Rightarrow> lift_op (acknowledgement_view c checkpoint advanced))"

end
