(* ===== verification/Api_Claims.thy ===== *)
theory Api_Claims
  imports Api Offline_Claims Event_Claims
begin

section \<open>Properties of the HTTP application\<close>

text \<open>
  What clients see of a submission: the answer through the middleware and the exception handlers, for
  each way the call behind it can end. The reading endpoints are in \<open>Api_Reads\<close>.
\<close>

subsection \<open>Through the middleware\<close>

definition identified :: "pystr \<Rightarrow> http_response \<Rightarrow> http_response" where
  "identified rid = add_header (py ''X-Request-ID'') rid"

lemma request_identity_run:
  assumes "rid \<noteq> []"
  shows "request_identity (Some rid) handler env w =
    (case handler env w of
       (Inr r, w') \<Rightarrow> (Inr (identified rid r), w')
     | (Inl (LedgerError x), w') \<Rightarrow> (Inr (identified rid (error_response rid x)), w')
     | (Inl e, w') \<Rightarrow>
         (if is_database_error e then Inr (identified rid (error_response rid database_unavailable)) else Inl e, w'))"
proof -
  obtain res w' where run: "handler env w = (res, w')"
    by fastforce
  have "choose_request_id (Some rid) = return_op rid"
    using assms by (cases rid) (simp_all add: choose_request_id_def)
  moreover have "exception_handlers rid handler env w = (case res of
       Inr r \<Rightarrow> (Inr r, w')
     | Inl (LedgerError x) \<Rightarrow> (Inr (error_response rid x), w')
     | Inl e \<Rightarrow> (if is_database_error e then Inr (error_response rid database_unavailable) else Inl e, w'))"
    by (simp add: exception_handlers_def run split: sum.split exn.split)
  ultimately show ?thesis
    by (simp add: request_identity_def bind_op_def return_op_def identified_def run split: sum.split exn.split)
qed

subsection \<open>Submissions\<close>

definition stored_reply :: "bool \<Rightarrow> pydict \<Rightarrow> http_response" where
  "stored_reply fresh_row view = json_response (if fresh_row then 201 else 200)
     [(py ''created'', JBool fresh_row), (py ''event'', JObj view), (py ''witness_status'', JStr (py ''pending''))]"

text \<open>
  The answer to a submission: the stored row as 201 or 200, an error the handlers turn into the
  envelope, or an exception because the request or the clock cannot be encoded. Nothing is written
  unless the answer is 201.
\<close>

definition submission_answer ::
    "world \<Rightarrow> pystr \<Rightarrow> pystr result \<Rightarrow> (exn \<Rightarrow> ledger_db \<Rightarrow> bool) \<Rightarrow> pystr \<Rightarrow> http_response result \<Rightarrow> world \<Rightarrow> bool" where
  "submission_answer w key content refuses rid res w' \<longleftrightarrow>
     (case res of
        Inr r \<Rightarrow>
          (\<exists>row fresh_row fp view. content = Inr fp \<and> appended w key fp row fresh_row w' \<and> event_view row = Inr view \<and>
             r = identified rid (stored_reply fresh_row view)) \<or>
          (\<exists>x. st w [] [] {} w' \<and> refuses (LedgerError x) (shared w') \<and> status_code x \<in> {404, 409} \<and>
             r = identified rid (error_response rid x)) \<or>
          st w [] [] {} w' \<and> r = identified rid (error_response rid database_unavailable)
      | Inl x \<Rightarrow> st w [] [] {} w' \<and> encoding_error x)"

locale event_endpoint = event_command +
  assumes refusals: "refused r x d \<Longrightarrow>
    x = IntegrityError \<or> encoding_error x \<or> (\<exists>e. x = LedgerError e \<and> status_code e \<in> {404, 409})"
begin

lemma submitted_stored:
  assumes "orderly env" "world_ok w" "mine w = []" "rid \<noteq> []" "run r env w = (Inr (row, fresh_row), w')"
  shows "\<exists>view. event_view row = Inr view \<and>
    request_identity (Some rid) (submitted (run r)) env w = (Inr (identified rid (stored_reply fresh_row view)), w')"
proof -
  have "ledger_ok (shared w')" "row \<in> set (events (shared w'))"
    using run_Inr [OF assms(1-3,5)] by (auto simp: appended_def st_def world_ok_def)
  then obtain view where "event_view row = Inr view"
    using ledger_okD(3) committed_view by blast
  then show ?thesis
    by (simp add: request_identity_run assms(4,5) submitted_def bind_op_def lift_op_def event_reply_def
        created_status_def stored_reply_def)
qed

lemma submitted_refused:
  assumes "orderly env" "world_ok w" "mine w = []" "rid \<noteq> []" "run r env w = (Inl x, w')"
  shows "case request_identity (Some rid) (submitted (run r)) env w of
    (res, w') \<Rightarrow> submission_answer w (key r) (content r) (refused r) rid res w'"
proof -
  have no: "st w [] [] {} w'" "refused r x (shared w')"
    using run_Inl [OF assms(1-3,5)] by simp_all
  have run: "submitted (run r) env w = (Inl x, w')"
    by (simp add: submitted_def bind_op_def assms(5))
  from refusals [OF no(2)] consider "x = IntegrityError" | "encoding_error x"
    | e where "x = LedgerError e" "status_code e \<in> {404, 409}" by blast
  then show ?thesis
  proof cases
    case 1
    then show ?thesis
      using no by (simp add: request_identity_run assms(4) run submission_answer_def)
  next
    case 2
    then have "request_identity (Some rid) (submitted (run r)) env w = (Inl x, w')"
      by (auto simp: request_identity_run assms(4) run encoding_error_def)
    then show ?thesis
      using no 2 by (simp add: submission_answer_def)
  next
    case 3
    then have "request_identity (Some rid) (submitted (run r)) env w = (Inr (identified rid (error_response rid e)), w')"
      by (simp add: request_identity_run assms(4) run)
    then show ?thesis
      unfolding submission_answer_def using no 3 by auto
  qed
qed

lemma submitted_answer:
  assumes "orderly env" "world_ok w" "mine w = []" "rid \<noteq> []"
  shows "case request_identity (Some rid) (submitted (run r)) env w of
    (res, w') \<Rightarrow> submission_answer w (key r) (content r) (refused r) rid res w'"
proof (cases "run r env w")
  case (Pair res w')
  show ?thesis
  proof (cases res)
    case (Inl x)
    then show ?thesis
      using submitted_refused [OF assms] Pair by simp
  next
    case (Inr answer)
    then obtain row fresh_row where run: "run r env w = (Inr (row, fresh_row), w')"
      using Pair by (cases answer) simp
    obtain view where view: "event_view row = Inr view"
        "request_identity (Some rid) (submitted (run r)) env w = (Inr (identified rid (stored_reply fresh_row view)), w')"
      using submitted_stored [OF assms run] by blast
    obtain fp where "content r = Inr fp" "appended w (key r) fp row fresh_row w'"
      using run_Inr [OF assms(1-3) run] by blast
    then show ?thesis
      unfolding view(2) submission_answer_def prod.case sum.case using view(1) by blast
  qed
qed

end

lemma command_refusals:
  "command_error k fp x d \<Longrightarrow> x = IntegrityError \<or> encoding_error x \<or> (\<exists>e. x = LedgerError e \<and> status_code e \<in> {404, 409})"
  by (auto simp: command_error_def conflicting_def idempotency_conflict_def ledger_error_def)

lemma successor_refusals:
  "successor_refused content p ins k x d \<Longrightarrow>
     x = IntegrityError \<or> encoding_error x \<or> (\<exists>e. x = LedgerError e \<and> status_code e \<in> {404, 409})"
  using command_refusals
  by (fastforce simp: successor_refused_def successor_error_def NotFoundError_def record_revoked_def superseded_def
      instrument_mismatch_def ledger_error_def)

interpretation report_endpoint: event_endpoint append_report rq_business_key report_content report_refused
  by unfold_locales (auto simp: report_refused_def dest: command_refusals)

interpretation revision_endpoint: event_endpoint "append_revision p" rq_business_key "revision_content p"
    "\<lambda>r. successor_refused (revision_content p r) p (Some (rq_instrument_id r)) (rq_business_key r)"
  by unfold_locales (auto dest: successor_refusals)

interpretation revocation_endpoint: event_endpoint "append_revocation p" rv_business_key "revocation_fingerprint p"
    "\<lambda>r. successor_refused (revocation_fingerprint p r) p None (rv_business_key r)"
  by unfold_locales (auto dest: successor_refusals)

text \<open>
  C4: submissions over HTTP. Whatever other transactions do, a report, revision or revocation is answered
  with 201 exactly when this call stored its row, with 200 and the stored row when it is a retry, with
  404 or 409 and the reason in the envelope when it is refused, or with 503 after a lost race that a retry
  resolves; only a request that cannot be encoded raises. Every answer carries the request id, and nothing
  is written unless it is 201.
\<close>

theorem submissions_answered:
  assumes "orderly env" "world_ok w" "mine w = []" "rid \<noteq> []"
  shows "(case request_identity (Some rid) (submit_report_endpoint report) env w of (res, w') \<Rightarrow>
      submission_answer w (rq_business_key report) (report_content report) (report_refused report) rid res w') \<and>
    (case request_identity (Some rid) (submit_revision_endpoint p revision) env w of (res, w') \<Rightarrow>
      submission_answer w (rq_business_key revision) (revision_content p revision)
        (successor_refused (revision_content p revision) p (Some (rq_instrument_id revision)) (rq_business_key revision))
        rid res w') \<and>
    (case request_identity (Some rid) (submit_revocation_endpoint p revocation) env w of (res, w') \<Rightarrow>
      submission_answer w (rv_business_key revocation) (revocation_fingerprint p revocation)
        (successor_refused (revocation_fingerprint p revocation) p None (rv_business_key revocation)) rid res w')"
  unfolding submit_report_endpoint_def submit_revision_endpoint_def submit_revocation_endpoint_def
  by (intro conjI report_endpoint.submitted_answer revision_endpoint.submitted_answer
      revocation_endpoint.submitted_answer assms)

theorem submissions_answered_witness:
  "\<exists>row view w'. request_identity (Some (py ''r1'')) (submit_report_endpoint sample_report) fixed_env start_world =
       (Inr (identified (py ''r1'') (stored_reply True view)), w') \<and> event_view row = Inr view \<and>
     submission_answer start_world (rq_business_key sample_report) (report_content sample_report)
       (report_refused sample_report) (py ''r1'') (Inr (identified (py ''r1'') (stored_reply True view))) w'"
proof -
  obtain row w' where run: "append_report sample_report fixed_env start_world = (Inr (row, True), w')"
    by (rule sample_appended)
  have rid: "py ''r1'' \<noteq> []"
    by (simp add: py_def)
  obtain view where view: "event_view row = Inr view" "request_identity (Some (py ''r1'')) (submit_report_endpoint sample_report) fixed_env start_world =
       (Inr (identified (py ''r1'') (stored_reply True view)), w')"
    using report_endpoint.submitted_stored [OF _ _ _ rid run] by (auto simp: submit_report_endpoint_def)
  then have "submission_answer start_world (rq_business_key sample_report) (report_content sample_report)
      (report_refused sample_report) (py ''r1'') (Inr (identified (py ''r1'') (stored_reply True view))) w'"
    using submissions_answered [OF fixed_env(2) start_world(1,2) rid, where report = sample_report]
    by auto
  then show ?thesis
    using view by blast
qed

end
