(* ===== verification/Api_Reads.thy ===== *)
theory Api_Reads
  imports Api_Claims Proof_Pages
begin

section \<open>Properties of the reading endpoints\<close>

text \<open>
  The history of a record, the receipts the service serves and itself accepts, pages within their
  limits, and the name of a download.
\<close>

subsection \<open>The history of a record\<close>

text \<open>One line of events: each is the successor of the one before, on the same instrument.\<close>

fun one_line :: "event_row list \<Rightarrow> bool" where
  "one_line (e # f # es) \<longleftrightarrow>
     ev_previous_event_id f = Some (ev_event_id e) \<and> ev_event_type e \<noteq> Revocation \<and>
     ev_instrument_id f = ev_instrument_id e \<and> one_line (f # es)"
| "one_line _ \<longleftrightarrow> True"

lemma one_line_nth:
  "(\<And>k. Suc k < length es \<Longrightarrow> ev_previous_event_id (es ! Suc k) = Some (ev_event_id (es ! k)) \<and>
       ev_event_type (es ! k) \<noteq> Revocation \<and> ev_instrument_id (es ! Suc k) = ev_instrument_id (es ! k)) \<Longrightarrow> one_line es"
proof (induction es rule: one_line.induct)
  case (1 e f es)
  have "one_line (f # es)"
    using "1.prems" [of "Suc _"] by (intro "1.IH") auto
  then show ?case
    using "1.prems" [of 0] by simp
qed simp_all

lemma record_events_mem: "e \<in> set (record_events i d) \<longleftrightarrow> e \<in> set (events d) \<and> ev_record_id e = i"
  by (auto simp: record_events_def)

lemma record_events_strict:
  assumes "ledger_ok d" "j < k" "k < length (record_events i d)"
  shows "ev_sequence (record_events i d ! j) < ev_sequence (record_events i d ! k)"
proof -
  have "sorted (map ev_sequence (record_events i d))"
    by (simp add: record_events_def)
  moreover have "distinct (map ev_sequence (record_events i d))"
    using ledger_okD(2) [OF assms(1)] by (simp add: record_events_def distinct_map_filter distinct_map)
      (auto simp: distinct_map intro: inj_on_subset)
  ultimately have "sorted_wrt (<) (map ev_sequence (record_events i d))"
    by (simp add: strict_sorted_iff)
  then show ?thesis
    using assms(2,3) by (auto simp: sorted_wrt_map dest: sorted_wrt_nth_less)
qed

lemma succeeds_step:
  assumes "ledger_ok d" "(e, f) \<in> succeeds d"
  shows "ev_sequence e < ev_sequence f" "ev_record_id e = ev_record_id f" "ev_instrument_id e = ev_instrument_id f"
    "ev_event_type e \<noteq> Revocation" "ev_previous_event_id f = Some (ev_event_id e)"
proof -
  have f: "e \<in> set (events d)" "f \<in> set (events d)" "ev_previous_event_id f = Some (ev_event_id e)"
    using assms(2) by (auto simp: succeeds_def)
  obtain q where q: "(q, f) \<in> succeeds d" "ev_record_id q = ev_record_id f" "ev_instrument_id q = ev_instrument_id f"
      "ev_event_type q \<noteq> Revocation" "ev_sequence q < ev_sequence f"
    using link_successor [OF assms(1) f(2,3)] by blast
  then have "q = e"
    using f event_table_id_inj [OF ledger_okD(1) [OF assms(1)], of q e] by (simp add: succeeds_def)
  with q f show "ev_sequence e < ev_sequence f" "ev_record_id e = ev_record_id f" "ev_instrument_id e = ev_instrument_id f"
    "ev_event_type e \<noteq> Revocation" "ev_previous_event_id f = Some (ev_event_id e)" by simp_all
qed

lemma succeeds_rtrancl:
  assumes "ledger_ok d" "(e, f) \<in> (succeeds d)\<^sup>*"
  shows "ev_sequence e \<le> ev_sequence f \<and> ev_record_id e = ev_record_id f"
  using assms(2) by (induction rule: rtrancl_induct) (use succeeds_step [OF assms(1)] in fastforce)+

lemma record_neighbours:
  assumes "ledger_ok d" "Suc k < length (record_events i d)"
  shows "(record_events i d ! k, record_events i d ! Suc k) \<in> succeeds d"
proof -
  let ?es = "record_events i d"
  let ?e = "?es ! k" and ?f = "?es ! Suc k"
  have mem: "?e \<in> set (events d)" "?f \<in> set (events d)" "ev_record_id ?e = i" "ev_record_id ?f = i"
    using nth_mem [of k ?es] nth_mem [of "Suc k" ?es] assms(2) by (simp_all add: record_events_mem)
  have less: "ev_sequence ?e < ev_sequence ?f"
    using record_events_strict [OF assms(1) _ assms(2), of k] by simp
  then have "(?f, ?e) \<notin> (succeeds d)\<^sup>*"
    using succeeds_rtrancl [OF assms(1), of ?f ?e] by auto
  then have "(?e, ?f) \<in> (succeeds d)\<^sup>*"
    using record_chain [OF assms(1) mem(1,2)] mem(3,4) by auto
  moreover have "?e \<noteq> ?f"
    using less by auto
  ultimately obtain g where g: "(?e, g) \<in> (succeeds d)\<^sup>*" "(g, ?f) \<in> succeeds d"
    by (blast elim: rtranclE)
  have "g \<in> set ?es"
    using g(2) succeeds_step(2) [OF assms(1) g(2)] mem(4) by (auto simp: record_events_mem succeeds_def)
  then obtain j where j: "j < length ?es" "?es ! j = g"
    by (auto simp: in_set_conv_nth)
  have "ev_sequence ?e \<le> ev_sequence (?es ! j)" "ev_sequence (?es ! j) < ev_sequence ?f"
    using succeeds_rtrancl [OF assms(1) g(1)] succeeds_step(1) [OF assms(1) g(2)] j(2) by simp_all
  moreover have "ev_sequence (?es ! j) < ev_sequence ?e" if "j < k"
    using record_events_strict [OF assms(1) that] assms(2) by simp
  moreover have "ev_sequence ?f < ev_sequence (?es ! j)" if "Suc k < j"
    using record_events_strict [OF assms(1) that j(1)] .
  ultimately have "\<not> j < k" "\<not> Suc k < j" "j \<noteq> Suc k"
    by (fastforce, fastforce, auto)
  then have "j = k"
    by linarith
  then have "g = ?e"
    using j(2) by simp
  then show ?thesis
    using g(2) by simp
qed

lemma record_events_line:
  assumes "ledger_ok d"
  shows "one_line (record_events i d)"
  using succeeds_step [OF assms record_neighbours [OF assms]] by (intro one_line_nth) auto

text \<open>The root is the first event, and nothing succeeds the last one.\<close>

lemma record_events_ends:
  assumes "ledger_ok d" "record_events i d \<noteq> []"
  shows "ev_event_type (hd (record_events i d)) = Report" "ev_event_id (hd (record_events i d)) = i"
    "f \<in> set (events d) \<Longrightarrow> ev_previous_event_id f \<noteq> Some (ev_event_id (last (record_events i d)))"
proof -
  let ?es = "record_events i d"
  have hd: "hd ?es \<in> set (events d)" "ev_record_id (hd ?es) = i"
    using hd_in_set [OF assms(2)] by (simp_all add: record_events_mem)
  obtain root where root: "root \<in> set (events d)" "ev_event_type root = Report" "ev_event_id root = i"
      "(root, hd ?es) \<in> (succeeds d)\<^sup>*"
    using record_root [OF assms(1) hd(1)] unfolding hd(2) by blast
  have "root \<in> set ?es"
    using root(1) succeeds_rtrancl [OF assms(1) root(4)] hd(2) by (simp add: record_events_mem)
  then obtain j where j: "j < length ?es" "?es ! j = root"
    by (auto simp: in_set_conv_nth)
  have "ev_sequence root \<le> ev_sequence (hd ?es)"
    using succeeds_rtrancl [OF assms(1) root(4)] by simp
  then have "j = 0"
    using record_events_strict [OF assms(1) _ j(1), of 0] assms(2) j(2) by (cases j) (auto simp: hd_conv_nth)
  then have "root = hd ?es"
    using j(2) assms(2) by (simp add: hd_conv_nth)
  then show "ev_event_type (hd ?es) = Report" "ev_event_id (hd ?es) = i"
    using root(2,3) by simp_all
  have last: "last ?es \<in> set (events d)" "ev_record_id (last ?es) = i"
    using last_in_set [OF assms(2)] by (simp_all add: record_events_mem)
  show "ev_previous_event_id f \<noteq> Some (ev_event_id (last ?es))" if f: "f \<in> set (events d)"
  proof
    assume "ev_previous_event_id f = Some (ev_event_id (last ?es))"
    then have s: "(last ?es, f) \<in> succeeds d"
      using f last(1) by (simp add: succeeds_def)
    then have "f \<in> set ?es"
      using succeeds_step(2) [OF assms(1) s] f last(2) by (simp add: record_events_mem)
    then obtain j where j: "j < length ?es" "?es ! j = f"
      by (auto simp: in_set_conv_nth)
    moreover from this have "j = length ?es - 1 \<or> j < length ?es - 1"
      by linarith
    ultimately have "ev_sequence f \<le> ev_sequence (last ?es)"
      using record_events_strict [OF assms(1), of j "length ?es - 1" i] assms(2)
      by (auto simp: last_conv_nth)
    then show False
      using succeeds_step(1) [OF assms(1) s] by simp
  qed
qed

text \<open>
  C19: a record is read as one line of events. Whatever other transactions do, \<open>GET /v1/records/{id}\<close> of a
  sound ledger answers with all events of the record in the order of the log: the first is the report whose
  id is the record's, each further one succeeds the one before on the same instrument, nothing succeeds
  the last, whose type is the reported state, and only the last can be a revocation. Only when there was
  no such event at the start it may raise, and then the error is 404.
\<close>

theorem record_history:
  assumes "orderly env" "world_ok w" "mine w = []"
  shows "case get_record i env w of
      (Inr r, w') \<Rightarrow> \<exists>es views. es = record_events i (shared w') \<and> es \<noteq> [] \<and> one_line es \<and>
        ev_event_type (hd es) = Report \<and> ev_event_id (hd es) = i \<and>
        (\<forall>f \<in> set (events (shared w')). ev_previous_event_id f \<noteq> Some (ev_event_id (last es))) \<and>
        traverse event_view es = Inr views \<and>
        r = json_response 200
          [(py ''record_id'', JStr (uuid_str i)),
           (py ''current_state'', JStr (event_kind_text (ev_event_type (last es)))),
           (py ''events'', JArr (map JObj views))]
    | (Inl x, w') \<Rightarrow> x = record_not_found i \<and> (\<forall>e \<in> set (events (shared w)). ev_record_id e \<noteq> i)"
proof -
  obtain es w' where run: "select_op (record_events i) env w = (Inr es, w')"
    by (simp add: select_op_def Let_def)
  have s: "st w [] [] {} w'" "es = record_events i (shared w')"
    using valid_Inr [OF select_valid [OF assms(1)] st_start [OF assms(2,3) empty_subsetI] run] by simp_all
  then have d: "ledger_ok (shared w')" "grows (shared w) (shared w')"
    by (simp_all add: st_def world_ok_def)
  show ?thesis
  proof (cases "es = []")
    case True
    then have "\<forall>e \<in> set (events (shared w)). ev_record_id e \<noteq> i"
      using record_events_mem [of _ i "shared w'"] s(2) grows_mem [OF d(2)] by fastforce
    then show ?thesis
      using True by (simp add: get_record_def bind_op_def run raise_op_def)
  next
    case False
    have "\<exists>v. event_view e = Inr v" if "e \<in> set es" for e
      using that s(2) record_events_mem ledger_okD(3) [OF d(1)] committed_view by blast
    then obtain g where "\<And>e. e \<in> set es \<Longrightarrow> event_view e = Inr (g e)"
      by metis
    then have "traverse event_view es = Inr (map g es)"
      by (intro traverse_all_Inr) simp
    then show ?thesis
      using False record_events_line [OF d(1), of i] record_events_ends [OF d(1), of i] s(2)
      by (simp add: get_record_def bind_op_def run lift_op_def)
  qed
qed

theorem record_history_witness:
  "\<exists>w i r w'. get_record i fixed_env w = (Inr r, w') \<and> rs_status r = 200 \<and> record_events i (shared w') \<noteq> []"
proof -
  obtain row w where run: "append_report sample_report fixed_env start_world = (Inr (row, True), w)" "later w w"
    by (rule sample_appended)
  then have w: "world_ok w" "mine w = []" "row \<in> set (events (shared w))"
    using report.run_Inr [of fixed_env start_world sample_report row True w]
    by (auto simp: appended_def st_def later_def)
  obtain res w' where g: "get_record (ev_record_id row) fixed_env w = (res, w')"
    by fastforce
  note history = record_history [OF fixed_env(2) w(1,2), of "ev_record_id row", unfolded g]
  obtain r where r: "res = Inr r"
    using history w(3) by (cases res) auto
  then have "rs_status r = 200" "record_events (ev_record_id row) (shared w') \<noteq> []"
    using history by (auto simp: json_response_def)
  then show ?thesis
    using g r by blast
qed

subsection \<open>Receipts\<close>

text \<open>
  C7: the service accepts what it serves. With a keyring that the settings yield and on a sound ledger,
  whatever other transactions append and seal meanwhile, \<open>GET /v1/events/{id}\<close> of a stored event answers 200
  with a receipt of exactly this event, and \<open>POST /v1/verify\<close> of that receipt answers 200: it is witnessed by
  a checkpoint that covers the event, or pending, which is only possible when none covered it at the start.
\<close>

theorem served_receipts_verify:
  assumes "settings_keyring pf s = Inr keyring" "append_only keyring env" "mine w = []" "ledger_ok (shared w)"
    and "seals_ok keyring (shared w)" "e \<in> set (events (shared w))" "rid \<noteq> []"
  shows "\<exists>receipt reply w'. request_identity (Some rid) (get_event pf s (ev_event_id e)) env w =
      (Inr (identified rid (json_response 200 receipt)), w') \<and>
    verify rt pf s receipt = Inr (json_response 200 reply) \<and>
    receipt_of rt keyring e reply receipt \<and> reply_for (shared w) (shared w') e reply"
proof -
  obtain receipt reply w' where r: "build_receipt keyring (ev_event_id e) env w = (Inr receipt, w')"
      "receipt_of rt keyring e reply receipt" "reply_for (shared w) (shared w') e reply"
    using receipts_are_issued [OF assms(2-6), of rt] by blast
  then have "request_identity (Some rid) (get_event pf s (ev_event_id e)) env w =
      (Inr (identified rid (json_response 200 receipt)), w')"
    by (simp add: request_identity_run assms(1,7) get_event_def with_keyring_def bind_op_def lift_op_def return_op_def)
  moreover have "verify rt pf s receipt = Inr (json_response 200 reply)"
    using r(2) assms(1) by (simp add: verify_def receipt_of_def)
  ultimately show ?thesis
    using r by blast
qed

theorem served_receipts_verify_witness:
  "\<exists>w (e :: event_row) receipt reply w'. request_identity (Some (py ''r1'')) (get_event Finite sample_settings (ev_event_id e)) fixed_env w =
       (Inr (identified (py ''r1'') (json_response 200 receipt)), w') \<and>
     verify plain_python Finite sample_settings receipt = Inr (json_response 200 reply) \<and> reply \<noteq> pending_reply"
proof -
  obtain w c e where w: "sound_world sample_sealer w" "last_checkpoint (shared w) = Some c"
    "e \<in> set (events (shared w))" "ev_sequence e \<le> cp_last_event_sequence c" "c \<in> set (checkpoints (shared w))"
    by (rule sample_archive)
  then have ok: "mine w = []" "ledger_ok (shared w)" "seals_ok (sl_keyring sample_sealer) (shared w)"
    by (simp_all add: sound_world_def)
  have "py ''r1'' \<noteq> []"
    by (simp add: py_def)
  then obtain receipt reply w' where r: "request_identity (Some (py ''r1'')) (get_event Finite sample_settings (ev_event_id e)) fixed_env w =
       (Inr (identified (py ''r1'') (json_response 200 receipt)), w')"
     "verify plain_python Finite sample_settings receipt = Inr (json_response 200 reply)"
     "reply_for (shared w) (shared w') e reply"
    using served_receipts_verify [OF sample_settings_keyring quiet_append_only [OF fixed_env(1)] ok w(3), where rt = plain_python]
    by blast
  moreover from this(3) have "reply \<noteq> pending_reply"
    using w(4,5) by (auto simp: reply_for_def pending_reply_def witnessed_reply_def)
  ultimately show ?thesis
    by blast
qed

subsection \<open>Pages\<close>

lemma bind_op_Inr:
  "bind_op m f env w = (Inr x, w') \<longleftrightarrow> (\<exists>y v. m env w = (Inr y, v) \<and> f y env v = (Inr x, w'))"
  by (auto simp: bind_op_def split: prod.splits sum.splits)

lemma lift_op_Inr: "lift_op r env w = (Inr x, w') \<longleftrightarrow> r = Inr x \<and> w' = w"
  by (auto simp: lift_op_def)

lemma page_rendered:
  assumes "build_checkpoint_event_page keyring i after limit env w = (Inr p, w')"
  shows "\<exists>c leaves b cands. render_page c leaves b limit cands = Inr p"
proof -
  have "valid env (\<lambda>_. True) (build_checkpoint_event_page keyring i after limit)
      (\<lambda>p _. \<exists>c leaves b cands. render_page c leaves b limit cands = Inr p) (\<lambda>_ _. True)"
    unfolding build_checkpoint_event_page_def Let_def
    by (rule valid_bind [OF valid_any], split option.split, intro conjI allI impI valid_raise TrueI,
        rule valid_bind [OF valid_any], split if_split, intro conjI impI valid_raise TrueI,
        split if_split, intro conjI impI valid_raise TrueI, rule valid_bind [OF valid_any], split prod.split, intro allI impI,
        rule valid_bind [OF valid_any], rule valid_lift) blast+
  from validD [OF this TrueI, of w] show ?thesis
    by (simp add: assms)
qed

lemma render_page_bounds:
  assumes "render_page c leaves b limit cands = Inr p" "1 \<le> limit"
  shows "\<exists>items more. map_of p (py ''items'') = Some (JArr items) \<and> map_of p (py ''has_more'') = Some (JBool more) \<and>
    int (length items) \<le> limit \<and> (more \<longrightarrow> int (length items) = limit) \<and>
    (map_of p (py ''next_after_sequence'') \<noteq> Some JNull \<longleftrightarrow> more)"
proof -
  let ?page = "slice_to limit cands"
  have page: "?page = take (nat limit) cands"
    using assms(2) by (simp add: slice_to_def)
  obtain items where items: "traverse (\<lambda>(index, e). map_result JObj (sealed_receipt e (int index) c leaves b)) ?page = Inr items"
      "p = [(py ''checkpoint_id'', JStr (uuid_str (cp_checkpoint_id c))), (py ''items'', JArr items),
         (py ''next_after_sequence'', if limit < int (length cands) then JInt (ev_sequence (snd (last ?page))) else JNull),
         (py ''has_more'', JBool (limit < int (length cands)))]"
    using assms(1) by (auto simp: render_page_def Let_def result_simps split: if_splits)
  then have "length items = length ?page"
    by (simp add: traverse_length)
  then show ?thesis
    using items(2) assms(2) by (auto simp: page)
qed



subsection \<open>Downloads\<close>

text \<open>The documented behaviour of \<open>str.isalnum\<close> on ASCII.\<close>

definition alnum_ascii :: "(nat \<Rightarrow> bool) \<Rightarrow> bool" where
  "alnum_ascii isalnum \<longleftrightarrow>
     (\<forall>c < 128. isalnum c \<longleftrightarrow> 48 \<le> c \<and> c \<le> 57 \<or> 65 \<le> c \<and> c \<le> 90 \<or> 97 \<le> c \<and> c \<le> 122)"

definition plain_char :: "(nat \<Rightarrow> bool) \<Rightarrow> nat \<Rightarrow> bool" where
  "plain_char isalnum c \<longleftrightarrow> isalnum c \<or> c = 45 \<or> c = 95"

lemma set_strip_dashes: "set (strip_dashes s) \<subseteq> set s"
  by (auto simp: strip_dashes_def dest!: set_dropWhileD)

lemma safe_instrument_chars:
  assumes "alnum_ascii isalnum"
  shows "\<forall>c \<in> set (safe_instrument isalnum i). plain_char isalnum c"
proof -
  have "plain_char isalnum c" if "c \<in> set (py ''instrument'')" for c
  proof -
    have "97 \<le> c \<and> c \<le> 122"
      using that by (auto simp: py_def)
    then show ?thesis
      using assms by (simp add: plain_char_def alnum_ascii_def)
  qed
  then show ?thesis
    using set_strip_dashes [of "map (\<lambda>c. if isalnum c \<or> c = 45 \<or> c = 95 then c else 45) i"]
    by (auto simp: safe_instrument_def Let_def plain_char_def)
qed

lemma strip_dashes_keeps: "c \<noteq> 45 \<Longrightarrow> c \<in> set s \<Longrightarrow> c \<in> set (strip_dashes s)"
proof -
  have drop: "c \<in> set (dropWhile (\<lambda>c. c = 45) s)" if "c \<noteq> 45" "c \<in> set s" for c :: nat and s
    using that by (induction s) auto
  show "c \<noteq> 45 \<Longrightarrow> c \<in> set s \<Longrightarrow> c \<in> set (strip_dashes s)"
    using drop [of c s] drop [of c "rev (dropWhile (\<lambda>c. c = 45) s)"] by (simp add: strip_dashes_def)
qed

lemma safe_instrument_keeps: "isalnum c \<Longrightarrow> c \<noteq> 45 \<Longrightarrow> c \<in> set i \<Longrightarrow> c \<in> set (safe_instrument isalnum i)"
  using strip_dashes_keeps [of c "map (\<lambda>c. if isalnum c \<or> c = 45 \<or> c = 95 then c else 45) i"]
  by (force simp: safe_instrument_def Let_def)

lemma uuid_str_chars: "c \<in> set (uuid_str u) \<Longrightarrow> c = 45 \<or> 48 \<le> c \<and> c \<le> 57 \<or> 97 \<le> c \<and> c \<le> 102"
proof -
  have "48 \<le> c \<and> c \<le> 57 \<or> 97 \<le> c \<and> c \<le> 102" if mem: "c \<in> set (uuid_hex u)" for c
  proof -
    obtain d where "d \<in> set (pad_digits 16 32 (unat u))" "c = hex_digit d"
      using mem by (auto simp: uuid_hex_def)
    then show ?thesis
      using pad_digits_less [of 16 d 32 "unat u"] by (auto simp: hex_digit_def)
  qed
  then show "c \<in> set (uuid_str u) \<Longrightarrow> ?thesis"
    by (auto simp: uuid_str_def Let_def dest!: in_set_takeD in_set_dropD)
qed

lemma filename_chars:
  assumes "alnum_ascii isalnum" "c \<in> set (download_filename isalnum p)"
  shows "plain_char isalnum c \<or> c = 46"
proof -
  have "isalnum c \<or> c = 45 \<or> c = 46" if "c \<in> set (py ''audit-package-'') \<union> set (py ''-'') \<union> set (py ''.zip'')"
  proof -
    have "c = 45 \<or> c = 46 \<or> 97 \<le> c \<and> c \<le> 122"
      using that by (auto simp: py_def)
    then show ?thesis
      using assms(1) by (auto simp: alnum_ascii_def)
  qed
  moreover have "isalnum c \<or> c = 45" if "c \<in> set (uuid_str (pk_package_id p))"
    using uuid_str_chars [OF that] assms(1) by (auto simp: alnum_ascii_def)
  ultimately show ?thesis
    using assms safe_instrument_chars [OF assms(1)] by (auto simp: download_filename_def plain_char_def)
qed

text \<open>A read of the packages while others work on them.\<close>

lemma idle_read:
  assumes "package_env env" "idle w w"
  obtains v where "select_op f env w = (Inr (f (shared v)), v)" "idle w v" "idle v v"
proof -
  obtain v where v: "select_op f env w = (Inr (f (visible v)), v)"
    by (simp add: select_op_def Let_def)
  then have "idle w v"
    by (rule valid_Inr [OF idle_select [OF assms(1)] assms(2)])
  moreover from this have "visible v = shared v" "idle v v"
    by (simp_all add: idle_iff visible_def)
  ultimately show thesis
    using that v by simp
qed

lemma ready_artifact_found:
  assumes "package_env env" "idle w w" "get_package i env w = (Inr p, v)" "pk_status p = Ready"
  shows "\<exists>a v'. get_ready_artifact i env w = (Inr (p, a), v') \<and> pk_package_id p = i \<and> a \<in> set (artifacts (shared v')) \<and>
    ar_package_id a = i \<and> (\<exists>q \<in> set (packages (shared v')). archive_of q a)"
proof -
  let ?find = "\<lambda>d. scalar (\<lambda>p. pk_package_id p = i) (packages d)"
  obtain v1 where v1: "select_op ?find env w = (Inr (?find (shared v1)), v1)" "idle v1 v1"
    by (rule idle_read [OF assms(1,2)])
  then have p: "?find (shared v1) = Some p" "v = v1"
    using assms(3) by (auto simp: get_package_def bind_op_def raise_op_def return_op_def split: option.splits)
  then have mem: "p \<in> set (packages (shared v1))" "pk_package_id p = i"
    using scalar_SomeD [OF p(1)] by simp_all
  let ?art = "\<lambda>d. scalar (\<lambda>a. ar_package_id a = i) (artifacts d)"
  obtain v2 where v2: "select_op ?art env v1 = (Inr (?art (shared v2)), v2)" "idle v1 v2" "idle v2 v2"
    by (rule idle_read [OF assms(1) v1(2)])
  then have "package_table (shared v2)" "moves (shared v1) (shared v2)"
    by (simp_all add: idle_iff)
  moreover obtain q where "q \<in> set (packages (shared v2))" "package_run p q"
    using mem(1) calculation(2) by (auto simp: moves_def)
  then have "p \<in> set (packages (shared v2))"
    using package_run_terminal assms(4) by blast
  ultimately obtain a' where "a' \<in> set (artifacts (shared v2))" "ar_package_id a' = i"
    using assms(4) mem(2) by (auto simp: package_table_def archive_of_def)
  then obtain a where a: "?art (shared v2) = Some a"
    using scalar_None [of "\<lambda>a. ar_package_id a = i" "artifacts (shared v2)"] by (cases "?art (shared v2)") auto
  note mem_a = scalar_SomeD [OF a]
  have "get_ready_artifact i env w = (Inr (p, a), v2)"
    using assms(3,4) p(2) mem(2) v2(1) a by (simp add: get_ready_artifact_def bind_op_def return_op_def)
  moreover have "\<exists>q \<in> set (packages (shared v2)). archive_of q a"
    using \<open>package_table (shared v2)\<close> mem_a by (simp add: package_table_def)
  ultimately show ?thesis
    using mem(2) mem_a by blast
qed


text \<open>
  A ready package for an instrument with a Chinese name: the file name in its header has a character
  outside Latin-1, the encoding of HTTP headers.
\<close>

definition sample_archive_data :: built_archive where
  "sample_archive_data = \<lparr>ba_content = [80, 75], ba_sha256 = py ''00'', ba_size_bytes = 2, ba_manifest = [], ba_event_count = 1\<rparr>"

definition ready_package :: package_row where
  "ready_package = apply_ready sample_archive_data \<lparr>wall = 6, tz = Some 0\<rparr> (sample_package\<lparr>pk_instrument_id := [28201, 34]\<rparr>)"

definition ready_db :: ledger_db where
  "ready_db = empty_db\<lparr>packages := [ready_package], next_package := 1,
     artifacts := [new_artifact ready_package sample_archive_data \<lparr>wall = 6, tz = Some 0\<rparr>]\<rparr>"

definition wide_alnum :: "nat \<Rightarrow> bool" where
  "wide_alnum c \<longleftrightarrow> 48 \<le> c \<and> c \<le> 57 \<or> 65 \<le> c \<and> c \<le> 90 \<or> 97 \<le> c \<and> c \<le> 122 \<or> 19968 \<le> c"

lemma ready_db_table: "package_table ready_db"
  by (simp add: package_table_def ready_db_def ready_package_def sample_package_def new_package_def apply_ready_def
      archive_of_def new_artifact_def package_ok_def package_check_def package_state_shape_def sample_archive_data_def)


end
