(* ===== verification/Daemons.thy ===== *)
theory Daemons
  imports Settings Audit_Build Seal_Claims
begin

section \<open>The sealer and exporter processes\<close>

text \<open>
  \<open>src/ledger/sealer.py\<close> and \<open>src/ledger/exporter.py\<close>, \<open>run\<close>: the start from the settings, the polling
  loop with the readiness file and the log records it writes, and the end, which removes the file. The
  number of turns before the stop signal is given; waiting, signal handlers and writing the file are
  left to the runtime, and the text of a database error is the parameter \<open>exception_text\<close>.
\<close>

subsection \<open>Processes\<close>

datatype log_level = InfoLevel | ErrorLevel

record process =
  ready_file :: "pystr option"
  log_lines :: "(log_level \<times> pydict) list"

definition new_process :: process where
  "new_process = \<lparr>ready_file = None, log_lines = []\<rparr>"

definition log_line :: "log_level \<Rightarrow> pydict \<Rightarrow> process \<Rightarrow> process" where
  "log_line level line p = p\<lparr>log_lines := log_lines p @ [(level, line)]\<rparr>"

definition write_ready :: "pystr \<Rightarrow> process \<Rightarrow> process" where
  "write_ready status p = p\<lparr>ready_file := Some status\<rparr>"

definition event_line :: "string \<Rightarrow> pydict \<Rightarrow> pydict" where
  "event_line name rest = (py ''event'', JStr (py name)) # rest"

text \<open>One turn of a loop: the exception that ends it, if any, and what the process did until then.\<close>

type_synonym turn = "process \<Rightarrow> environment \<Rightarrow> world \<Rightarrow> exn option \<times> process \<times> world"

definition database_error_line :: "(exn \<Rightarrow> pystr) \<Rightarrow> exn \<Rightarrow> pydict" where
  "database_error_line exception_text x =
     event_line ''database_unavailable'' [(py ''message'', JStr (exception_text x)), (py ''retryable'', JBool True)]"

definition on_database_error :: "(exn \<Rightarrow> pystr) \<Rightarrow> exn \<Rightarrow> turn" where
  "on_database_error exception_text x p env w =
     (if is_database_error x then (None, log_line ErrorLevel (database_error_line exception_text x) p, w)
      else (Some x, p, w))"

fun turns :: "turn \<Rightarrow> nat \<Rightarrow> turn" where
  "turns turn 0 p env w = (None, p, w)"
| "turns turn (Suc n) p env w =
     (case turn p env w of
        (None, p', w') \<Rightarrow> turns turn n p' env w'
      | stopped \<Rightarrow> stopped)"

definition until_stopped :: "turn \<Rightarrow> nat \<Rightarrow> turn" where
  "until_stopped turn n p env w =
     (case turns turn n p env w of (stop, p', w') \<Rightarrow> (stop, p'\<lparr>ready_file := None\<rparr>, w'))"

subsection \<open>The sealer\<close>

fun seal_status_text :: "seal_status \<Rightarrow> pystr" where
  "seal_status_text Busy = py ''busy''"
| "seal_status_text Idle = py ''idle''"
| "seal_status_text Sealed = py ''sealed''"

definition sealed_line :: "checkpoint_row \<Rightarrow> pydict" where
  "sealed_line c = event_line ''checkpoint_sealed''
     [(py ''checkpoint_id'', JStr (uuid_str (cp_checkpoint_id c))), (py ''leaf_count'', JInt (cp_leaf_count c))]"

definition rejected_line :: "ledger_error \<Rightarrow> pydict" where
  "rejected_line e = event_line ''sealing_rejected''
     [(py ''code'', JStr (code e)), (py ''message'', JStr (message e)), (py ''details'', JObj (details e))]"

definition sealer_turn :: "(exn \<Rightarrow> pystr) \<Rightarrow> sealer \<Rightarrow> turn" where
  "sealer_turn exception_text s p env w =
     (case seal_once s env w of
        (Inr r, w') \<Rightarrow>
          let p' = write_ready (seal_status_text (sr_status r)) p in
          if sr_status r = Sealed then
            (case sr_checkpoint r of
               None \<Rightarrow> (Some AttributeError, p', w')
             | Some c \<Rightarrow> (None, log_line InfoLevel (sealed_line c) p', w'))
          else (None, p', w')
      | (Inl (LedgerError e), w') \<Rightarrow> (None, log_line ErrorLevel (rejected_line e) p, w')
      | (Inl x, w') \<Rightarrow> on_database_error exception_text x p env w')"

definition sealer_process :: "(pystr \<Rightarrow> pyfloat) \<Rightarrow> (exn \<Rightarrow> pystr) \<Rightarrow> settings \<Rightarrow> nat \<Rightarrow>
    environment \<Rightarrow> world \<Rightarrow> exn option \<times> process \<times> world" where
  "sealer_process parse_float exception_text s n env w =
     (case bind_result (settings_keyring parse_float s)
         (\<lambda>keyring. make_sealer keyring (current_key_version s) (seal_batch_size s)) of
        Inl x \<Rightarrow> (Some x, new_process, w)
      | Inr sealer \<Rightarrow> until_stopped (sealer_turn exception_text sealer) n new_process env w)"

subsection \<open>The exporter\<close>

definition package_fields :: "package_row \<Rightarrow> pydict" where
  "package_fields p = [(py ''package_id'', JStr (uuid_str (pk_package_id p)))]"

definition cancel_line :: "string \<Rightarrow> package_row \<Rightarrow> pydict" where
  "cancel_line reason p = event_line ''audit_package_cancel_confirmed''
     (package_fields p @ [(py ''reason'', JStr (py reason)), (py ''attempt_count'', JInt (pk_attempt_count p))])"

fun log_settled :: "package_row option list \<Rightarrow> process \<Rightarrow> exn option \<times> process" where
  "log_settled [] p = (None, p)"
| "log_settled (None # rest) p = (Some AttributeError, p)"
| "log_settled (Some q # rest) p = log_settled rest (log_line InfoLevel (cancel_line ''lease_expired'' q) p)"

fun outcome_line :: "package_row \<Rightarrow> build_outcome \<Rightarrow> log_level \<times> pydict" where
  "outcome_line claimed (Settled status) =
     (if status = Ready then
        (InfoLevel, event_line ''audit_package_ready''
           (package_fields claimed @ [(py ''attempt_count'', JInt (pk_attempt_count claimed))]))
      else if status = Cancelled then (InfoLevel, cancel_line ''requested'' claimed)
      else (ErrorLevel, event_line ''audit_package_failed'' (package_fields claimed)))"
| "outcome_line claimed Superseded =
     (InfoLevel, event_line ''audit_package_claim_superseded'' (package_fields claimed))"

definition export_turn ::
    "zip_writer \<Rightarrow> (exn \<Rightarrow> pystr) \<Rightarrow> keyring \<Rightarrow> pystr \<Rightarrow> int \<Rightarrow> turn" where
  "export_turn zip_file exception_text keyring worker_id lease p env w =
     (case settle_stale_cancelling None env w of
        (Inl x, w') \<Rightarrow> on_database_error exception_text x p env w'
      | (Inr settled, w') \<Rightarrow>
          (case log_settled settled p of
             (Some x, p') \<Rightarrow> (Some x, p', w')
           | (None, p') \<Rightarrow>
               (case claim_package worker_id lease None env w' of
                  (Inl x, v) \<Rightarrow> on_database_error exception_text x p' env v
                | (Inr None, v) \<Rightarrow> (None, write_ready (py ''ok'') p', v)
                | (Inr (Some claimed), v) \<Rightarrow>
                    (case build_once zip_file exception_text claimed keyring env v of
                       (Inl x, v') \<Rightarrow> on_database_error exception_text x p' env v'
                     | (Inr result, v') \<Rightarrow>
                         (None, write_ready (py ''ok'')
                           (case outcome_line claimed result of (level, line) \<Rightarrow> log_line level line p'), v')))))"

text \<open>The worker's name is the configured one or a random one; the lease is given in microseconds.\<close>

definition worker_name :: "pystr option \<Rightarrow> uuid \<Rightarrow> pystr" where
  "worker_name configured random_id =
     (case configured of
        Some (c # cs) \<Rightarrow> c # cs
      | _ \<Rightarrow> py ''exporter-'' @ take 12 (uuid_hex random_id))"

definition exporter_process :: "zip_writer \<Rightarrow> (pystr \<Rightarrow> pyfloat) \<Rightarrow> (exn \<Rightarrow> pystr) \<Rightarrow> settings \<Rightarrow> pystr option \<Rightarrow> uuid \<Rightarrow>
    int \<Rightarrow> nat \<Rightarrow> environment \<Rightarrow> world \<Rightarrow> exn option \<times> process \<times> world" where
  "exporter_process zip_file parse_float exception_text s configured random_id lease n env w =
     (case settings_keyring parse_float s of
        Inl x \<Rightarrow> (Some x, new_process, w)
      | Inr keyring \<Rightarrow>
          until_stopped (export_turn zip_file exception_text keyring (worker_name configured random_id) lease) n new_process env w)"

end
