(* ===== verification/Daemon_Claims.thy ===== *)
theory Daemon_Claims
  imports Daemons Offline_Claims Package_Claims
begin

section \<open>Properties of the processes\<close>

text \<open>
  The log of a sealer lists what it committed, and both processes are the polling loops that the
  properties of sealing and of packages are about: the locale \<open>polling\<close> says when a loop over turns is the
  loop over the polls of the database, and both processes are instances of it.
\<close>

subsection \<open>What one sealing writes\<close>

definition clean :: "row_change list \<Rightarrow> world \<Rightarrow> bool" where
  "clean ws w \<longleftrightarrow> mine w = [] \<and> written w = ws"

lemma clean_stable: "stable env (clean ws)"
  by (simp add: stable_def clean_def interfere_def commit_def roll_back_def log_entry_def hold_def)

definition sealed_changes :: "seal_result \<Rightarrow> row_change list" where
  "sealed_changes r = (case sr_checkpoint r of None \<Rightarrow> [] | Some c \<Rightarrow> [InsertCheckpoint c])"

definition seal_shape :: "seal_result \<Rightarrow> bool" where
  "seal_shape r \<longleftrightarrow> (sr_status r = Sealed \<longleftrightarrow> sr_checkpoint r \<noteq> None)"

definition sealing_done :: "row_change list \<Rightarrow> seal_result \<Rightarrow> world \<Rightarrow> bool" where
  "sealing_done ws r w \<longleftrightarrow> seal_shape r \<and> written w = ws \<and> mine w = sealed_changes r"

lemma clean_keeps: "keeps env (clean ws) m \<Longrightarrow> valid env (clean ws) m (\<lambda>_. clean ws) (\<lambda>_ w. written w = ws)"
  unfolding keeps_def by (erule valid_weaken) (auto simp: clean_def)

lemma insert_checkpoint_done:
  "valid env (clean ws) (bind_op (insert_checkpoint c) (\<lambda>row. return_op \<lparr>sr_status = Sealed, sr_checkpoint = Some row\<rparr>))
     (sealing_done ws) (\<lambda>_ w. written w = ws)"
  by (rule validI) (simp add: bind_op_def return_op_def insert_checkpoint_def Let_def clean_def sealing_done_def
      seal_shape_def sealed_changes_def change_op_def log_entry_def interfere_def)

lemma seal_events_done:
  "valid env (clean ws) (seal_events s previous target es) (sealing_done ws) (\<lambda>_ w. written w = ws)"
proof -
  note pure = clean_keeps [OF keeps_pure(3)] and read = clean_keeps [OF keeps_read(5) [OF clean_stable]]
    clean_keeps [OF keeps_read(4) [OF clean_stable]]
  show ?thesis
    unfolding seal_events_def
    by (rule valid_bind [OF pure], rule valid_bind [OF pure], rule valid_bind [OF read(1)], rule valid_bind [OF read(2)],
        rule valid_bind [OF pure], rule insert_checkpoint_done)
qed

lemma idle_done:
  "valid env (clean ws) (return_op \<lparr>sr_status = Busy, sr_checkpoint = None\<rparr>) (sealing_done ws) E"
  "valid env (clean ws) (return_op \<lparr>sr_status = Idle, sr_checkpoint = None\<rparr>) (sealing_done ws) E"
  by (auto intro!: valid_return simp: clean_def sealing_done_def seal_shape_def sealed_changes_def)

lemma seal_batch_done:
  "valid env (clean ws) (seal_batch s previous es) (sealing_done ws) (\<lambda>_ w. written w = ws)"
  unfolding seal_batch_def Let_def
  by (split if_split, intro conjI impI idle_done valid_bind [OF clean_keeps [OF keeps_read(1) [OF clean_stable]]],
      split if_split, intro conjI impI seal_events_done valid_raise) (simp add: clean_def)

lemma seal_once_changes:
  assumes "mine w = []" "seal_once s env w = (res, w')"
  shows "mine w' = [] \<and> (case res of Inl _ \<Rightarrow> written w' = written w
    | Inr r \<Rightarrow> seal_shape r \<and> written w' = written w @ sealed_changes r)"
proof -
  let ?ws = "written w"
  have rest: "valid env (clean ws) (bind_op (lock_row (\<lambda>c. CheckpointLock (cp_checkpoint_id c)) last_checkpoint) (\<lambda>previous.
       bind_op (select_op (\<lambda>d. next_batch (sl_batch_size s) (previous_sequence previous) (events d)))
         (seal_batch s previous))) (sealing_done ws) (\<lambda>_ w. written w = ws)" for ws
    by (rule valid_bind [OF clean_keeps [OF keeps_read(2) [OF clean_stable]]],
        rule valid_bind [OF clean_keeps [OF keeps_read(1) [OF clean_stable]]], rule seal_batch_done)
  have body: "valid env (clean ws) (bind_op try_lock_op (\<lambda>acquired.
     if \<not> acquired then return_op \<lparr>sr_status = Busy, sr_checkpoint = None\<rparr>
     else bind_op (lock_row (\<lambda>c. CheckpointLock (cp_checkpoint_id c)) last_checkpoint) (\<lambda>previous.
       bind_op (select_op (\<lambda>d. next_batch (sl_batch_size s) (previous_sequence previous) (events d)))
         (seal_batch s previous)))) (sealing_done ws) (\<lambda>_ w. written w = ws)" for ws
    by (rule valid_bind [OF clean_keeps [OF keeps_read(7) [OF clean_stable]]], split if_split, intro conjI impI idle_done rest)
  have "valid env (clean ?ws) (seal_once s) (\<lambda>r w. seal_shape r \<and> mine w = [] \<and> written w = ?ws @ sealed_changes r)
      (\<lambda>_ w. mine w = [] \<and> written w = ?ws)"
    unfolding seal_once_def
    by (rule valid_transaction, rule valid_weaken [OF body [of ?ws]])
       (auto simp: clean_def log_entry_def sealing_done_def commit_def roll_back_def)
  then show ?thesis
    using validD [of env "clean ?ws" "seal_once s" _ _ w] assms by (fastforce simp: clean_def split: sum.splits)
qed

subsection \<open>Polling loops\<close>

text \<open>
  What both processes rely on: a turn does to the database what a poll does and goes on unless the poll
  raised something the process does not handle, and the effects of turns compose.
\<close>

fun ended :: "exn option \<Rightarrow> unit result" where
  "ended None = Inr ()"
| "ended (Some x) = Inl x"

definition not_database :: "exn option \<Rightarrow> bool" where
  "not_database stop \<longleftrightarrow> (\<forall>x. stop = Some x \<longrightarrow> \<not> is_database_error x)"

definition follows :: "exn option \<Rightarrow> 'a result \<times> world \<Rightarrow> world \<Rightarrow> bool" where
  "follows stop polled w \<longleftrightarrow> not_database stop \<and>
     (case stop of None \<Rightarrow> \<exists>r. polled = (Inr r, w) | Some x \<Rightarrow> polled = (Inl x, w))"

locale polling =
  fixes turn :: turn
    and poll :: "environment \<Rightarrow> world \<Rightarrow> 'a result \<times> world"
    and run :: "nat \<Rightarrow> environment \<Rightarrow> world \<Rightarrow> unit result \<times> world"
    and env :: environment
    and between :: "world \<Rightarrow> bool"
    and effect :: "process \<Rightarrow> world \<Rightarrow> exn option \<Rightarrow> process \<Rightarrow> world \<Rightarrow> bool"
  assumes run_0: "run 0 env w = (Inr (), w)"
    and run_Suc: "run (Suc n) env w = bind_op poll (\<lambda>_. run n) env w"
    and effect_refl: "effect p w None p w"
    and effect_trans: "effect p w None q v \<Longrightarrow> effect q v stop p' w' \<Longrightarrow> effect p w stop p' w'"
    and turn_poll: "between w \<Longrightarrow> turn p env w = (stop, p', w') \<Longrightarrow>
      between w' \<and> effect p w stop p' w' \<and> follows stop (poll env w) w'"
begin

lemma loop:
  "between w \<Longrightarrow> turns turn n p env w = (stop, p', w') \<Longrightarrow>
     effect p w stop p' w' \<and> not_database stop \<and> run n env w = (ended stop, w')"
proof (induction n arbitrary: p w)
  case 0
  then show ?case
    by (auto simp: run_0 effect_refl not_database_def)
next
  case (Suc n)
  obtain halt q v where t: "turn p env w = (halt, q, v)"
    by (cases "turn p env w") auto
  note one = turn_poll [OF Suc.prems(1) t]
  show ?case
  proof (cases halt)
    case None
    then have "turns turn n q env v = (stop, p', w')"
      using Suc.prems(2) t by simp
    note rest = Suc.IH [OF conjunct1 [OF one] this]
    obtain r where "poll env w = (Inr r, v)"
      using one None by (auto simp: follows_def)
    then show ?thesis
      using rest one None effect_trans by (simp add: run_Suc bind_op_def) blast
  next
    case (Some x)
    then show ?thesis
      using Suc.prems(2) t one by (auto simp: run_Suc bind_op_def follows_def)
  qed
qed

lemma stopped_loop:
  assumes "between w" "until_stopped turn n p env w = (stop, p', w')"
  shows "ready_file p' = None \<and> not_database stop \<and> run n env w = (ended stop, w') \<and>
    (\<exists>q. p' = q\<lparr>ready_file := None\<rparr> \<and> effect p w stop q w')"
proof -
  obtain halt q v where t: "turns turn n p env w = (halt, q, v)"
    by (cases "turns turn n p env w") auto
  then have "stop = halt" "p' = q\<lparr>ready_file := None\<rparr>" "w' = v"
    using assms(2) by (simp_all add: until_stopped_def)
  then show ?thesis
    using loop [OF assms(1) t] by auto
qed

end

subsection \<open>The sealer's log\<close>

text \<open>The records at the level of information, which only sealed checkpoints have in the sealer.\<close>

definition info_lines :: "process \<Rightarrow> pydict list" where
  "info_lines p = map snd (filter (\<lambda>(level, line). level = InfoLevel) (log_lines p))"

lemma info_lines_simps [simp]:
  "info_lines (log_line InfoLevel line p) = info_lines p @ [line]"
  "info_lines (log_line ErrorLevel line p) = info_lines p"
  "info_lines (write_ready t p) = info_lines p" "info_lines (p\<lparr>ready_file := f\<rparr>) = info_lines p"
  "info_lines new_process = []"
  by (simp_all add: info_lines_def log_line_def write_ready_def new_process_def)

definition logs_seals :: "process \<Rightarrow> world \<Rightarrow> exn option \<Rightarrow> process \<Rightarrow> world \<Rightarrow> bool" where
  "logs_seals p w stop p' w' \<longleftrightarrow> (\<forall>x. stop = Some x \<longrightarrow> \<not> is_ledger_error x) \<and>
     (\<exists>cs. written w' = written w @ map InsertCheckpoint cs \<and> info_lines p' = info_lines p @ map sealed_line cs)"

lemma logs_seals_trans:
  assumes "logs_seals p w None q v" "logs_seals q v stop p' w'"
  shows "logs_seals p w stop p' w'"
proof -
  obtain cs ds where "written v = written w @ map InsertCheckpoint cs" "info_lines q = info_lines p @ map sealed_line cs"
      "written w' = written v @ map InsertCheckpoint ds" "info_lines p' = info_lines q @ map sealed_line ds"
    using assms by (auto simp: logs_seals_def)
  then have "\<exists>es. written w' = written w @ map InsertCheckpoint es \<and> info_lines p' = info_lines p @ map sealed_line es"
    by (intro exI [of _ "cs @ ds"]) simp
  then show ?thesis
    using assms(2) by (simp add: logs_seals_def)
qed

lemma sealer_turn_ok:
  assumes "mine w = []" "sealer_turn exception_text s p env w = (stop, p', w')"
  shows "mine w' = [] \<and> logs_seals p w stop p' w' \<and> follows stop (sealer_poll s env w) w'"
proof (cases "seal_once s env w")
  case (Pair res v)
  note changes = seal_once_changes [OF assms(1) Pair]
  have none: "logs_seals p w stop p' w'" if "written w' = written w" "info_lines p' = info_lines p"
      "\<forall>x. stop = Some x \<longrightarrow> \<not> is_ledger_error x"
    using that by (auto simp: logs_seals_def intro: exI [of _ "[]"])
  show ?thesis
  proof (cases res)
    case (Inl x)
    then have w: "written v = written w" "mine v = []"
      using changes by simp_all
    show ?thesis
    proof (cases "is_ledger_error x")
      case True
      then obtain e where "x = LedgerError e"
        by (cases x) simp_all
      then have "stop = None" "p' = log_line ErrorLevel (rejected_line e) p" "w' = v"
        using assms(2) Pair Inl by (simp_all add: sealer_turn_def)
      then show ?thesis
        using none w Pair Inl True by (simp add: follows_def not_database_def sealer_poll_def)
    next
      case False
      then have "sealer_turn exception_text s p env w = on_database_error exception_text x p env v"
        using Pair Inl by (cases x) (simp_all add: sealer_turn_def)
      then show ?thesis
        using assms(2) none w Pair Inl False
        by (auto simp: on_database_error_def follows_def not_database_def sealer_poll_def split: if_splits)
    qed
  next
    case (Inr r)
    then have r: "seal_shape r" "written v = written w @ sealed_changes r" "mine v = []"
      using changes by simp_all
    show ?thesis
    proof (cases "sr_checkpoint r")
      case None
      then have "sr_status r \<noteq> Sealed"
        using r(1) by (simp add: seal_shape_def)
      then show ?thesis
        using assms(2) none r(2,3) Pair Inr None
        by (auto simp: sealer_turn_def Let_def follows_def not_database_def sealer_poll_def sealed_changes_def)
    next
      case (Some c)
      then have "sr_status r = Sealed"
        using r(1) by (simp add: seal_shape_def)
      then have out: "stop = None" "p' = log_line InfoLevel (sealed_line c) (write_ready (seal_status_text Sealed) p)" "w' = v"
        using assms(2) Pair Inr Some by (simp_all add: sealer_turn_def Let_def)
      have "written v = written w @ map InsertCheckpoint [c]"
        using r(2) Some by (simp add: sealed_changes_def)
      then have "logs_seals p w stop p' w'"
        unfolding logs_seals_def out by (intro conjI exI [of _ "[c]"]) simp_all
      then show ?thesis
        using out Pair Inr r(3) by (simp add: follows_def not_database_def sealer_poll_def)
    qed
  qed
qed

interpretation sealer_loop:
  polling "sealer_turn exception_text s" "sealer_poll s" "sealer_run s" env "\<lambda>w. mine w = []" logs_seals
  for exception_text s env
proof
  show "logs_seals p w None p w" for p w
    by (auto simp: logs_seals_def intro: exI [of _ "[]"])
qed (simp_all add: return_op_def logs_seals_trans sealer_turn_ok)

text \<open>
  C28: the sealer's log tells what it committed. Whatever other transactions do, a sealer process that
  starts from the settings and polls any number of times logs one \<open>checkpoint_sealed\<close> record for each
  checkpoint it committed, in order, with its id and size, and for nothing else; no ledger or database
  error ends it; when it ends its readiness file is gone; and on the database it is the polling loop of the
  sealer that the settings give. Without a keyring it ends before it has read or written anything.
\<close>

theorem sealer_process_logs:
  assumes "mine w = []" "sealer_process pf exception_text s n env w = (stop, p, w')"
  shows "ready_file p = None \<and>
    (\<exists>cs. written w' = written w @ map InsertCheckpoint cs \<and> info_lines p = map sealed_line cs) \<and>
    (case bind_result (settings_keyring pf s) (\<lambda>keyring. make_sealer keyring (current_key_version s) (seal_batch_size s)) of
       Inl x \<Rightarrow> stop = Some x \<and> w' = w \<and> p = new_process
     | Inr sealer \<Rightarrow> sealer_run sealer n env w = (ended stop, w') \<and> not_database stop \<and>
         (\<forall>x. stop = Some x \<longrightarrow> \<not> is_ledger_error x))"
proof (cases "bind_result (settings_keyring pf s) (\<lambda>keyring. make_sealer keyring (current_key_version s) (seal_batch_size s))")
  case (Inl x)
  then show ?thesis
    using assms(2) by (auto simp: sealer_process_def intro: exI [of _ "[]"]) (simp add: new_process_def)
next
  case (Inr sealer)
  then have "until_stopped (sealer_turn exception_text sealer) n new_process env w = (stop, p, w')"
    using assms(2) by (simp add: sealer_process_def)
  from sealer_loop.stopped_loop [OF assms(1) this] show ?thesis
    using Inr by (auto simp: logs_seals_def)
qed

definition small_batches :: settings where
  "small_batches = sample_settings\<lparr>seal_batch_size := 2\<rparr>"

lemma small_batches_sealer:
  "bind_result (settings_keyring pf small_batches)
     (\<lambda>keyring. make_sealer keyring (current_key_version small_batches) (seal_batch_size small_batches)) = Inr sample_sealer"
proof -
  have "current_key_version small_batches = current_key_version sample_settings"
    by (simp add: small_batches_def)
  then have "checked_keyring small_batches = checked_keyring sample_settings"
    by (simp only: fun_eq_iff checked_keyring_def) simp
  moreover have "hmac_keys_json small_batches = hmac_keys_json sample_settings"
    by (simp add: small_batches_def)
  ultimately have "settings_keyring pf small_batches = settings_keyring pf sample_settings"
    by (simp only: settings_keyring_def)
  then show ?thesis
    using sample_settings_keyring [of pf]
    by (simp add: make_sealer_def small_batches_def sample_settings_def default_settings_def sample_sealer_def)
qed

theorem sealer_process_logs_witness:
  "\<exists>w p w' c. sealer_process Finite (\<lambda>_. []) small_batches 1 fixed_env w = (None, p, w') \<and>
     written w' = written w @ [InsertCheckpoint c] \<and> info_lines p = [sealed_line c] \<and> ready_file p = None"
proof -
  obtain w where w: "sound_world sample_sealer w" "fresh_ids fixed_env 1 w" "events (shared w) \<noteq> []"
      "checkpoints (shared w) = []"
    by (rule sample_log)
  obtain c w' where run: "seal_once sample_sealer fixed_env w = (Inr \<lparr>sr_status = Sealed, sr_checkpoint = Some c\<rparr>, w')"
    by (rule sample_sealed [OF w])
  then obtain p where p: "sealer_process Finite (\<lambda>_. []) small_batches 1 fixed_env w = (None, p, w')"
      "info_lines p = [sealed_line c]"
    by (simp add: sealer_process_def small_batches_sealer until_stopped_def sealer_turn_def Let_def)
  have mine: "mine w = []"
    using w(1) by (simp add: sound_world_def)
  note logs = sealer_process_logs [OF mine p(1)]
  have "written w' = written w @ [InsertCheckpoint c]"
    using seal_once_changes [OF mine run] by (simp add: sealed_changes_def)
  then show ?thesis
    using p logs by blast
qed

subsection \<open>The exporter's loop\<close>

text \<open>On PostgreSQL the exporter process is the polling loop, and only other exceptions end it.\<close>

lemma settled_rows:
  assumes "postgresql env" "settle_stale_cancelling None env w = (Inr rows, w')"
  shows "None \<notin> set rows"
proof -
  have dialect: "valid env (\<lambda>_. True) dialect_op (\<lambda>x _. True \<and> x = True) (\<lambda>_ _. True)"
    using assms(1) by (simp add: valid_def dialect_op_def)
  have "valid env (\<lambda>_. True) (settle_stale_cancelling None) (\<lambda>qs _. None \<notin> set qs) (\<lambda>_ _. True)"
    unfolding settle_stale_cancelling_def
    by (rule valid_bind [OF valid_any], rule valid_transaction,
        rule valid_weaken [OF valid_known [OF dialect, where Q = "\<lambda>qs _. None \<notin> set qs"]],
        simp only: if_True, rule valid_bind [OF valid_any], rule valid_bind [OF valid_any], rule valid_return) auto
  from validD [OF this TrueI, of w] show ?thesis
    by (simp add: assms(2))
qed

lemma log_settled_rows: "None \<notin> set rows \<Longrightarrow> \<exists>q. log_settled rows p = (None, q)"
proof (induction rows arbitrary: p)
  case (Cons x rows)
  then show ?case
    by (cases x) auto
qed simp

lemma export_turn_poll:
  assumes "postgresql env" "export_turn zip_file exception_text keyring worker lease p env w = (stop, p', w')"
  shows "follows stop (export_poll zip_file exception_text keyring worker lease env w) w'"
proof (cases "settle_stale_cancelling None env w")
  case (Pair res v)
  show ?thesis
  proof (cases res)
    case (Inl x)
    then show ?thesis
      using assms(2) Pair
      by (auto simp: export_turn_def on_database_error_def follows_def not_database_def export_poll_def export_round_def bind_op_def split: if_splits)
  next
    case (Inr rows)
    obtain q where q: "log_settled rows p = (None, q)"
      using log_settled_rows settled_rows [OF assms(1) Pair [unfolded Inr]] by blast
    obtain claimed u where c: "claim_package worker lease None env v = (claimed, u)"
      by fastforce
    show ?thesis
    proof (cases "\<exists>k. claimed = Inr (Some k)")
      case False
      then show ?thesis
        using assms(2) Pair Inr q c
        by (cases claimed) (auto simp: export_turn_def on_database_error_def follows_def not_database_def export_poll_def export_round_def
            bind_op_def return_op_def split: if_splits option.splits)
    next
      case True
      then obtain k where k: "claimed = Inr (Some k)" by blast
      obtain built u' where b: "build_once zip_file exception_text k keyring env u = (built, u')"
        by fastforce
      show ?thesis
        using assms(2) Pair Inr q c k b
        by (cases built) (auto simp: export_turn_def on_database_error_def follows_def not_database_def export_poll_def export_round_def
            bind_op_def return_op_def split: if_splits prod.splits)
    qed
  qed
qed

interpretation export_loop:
  polling "export_turn zip_file exception_text keyring worker lease" "export_poll zip_file exception_text keyring worker lease"
    "export_run zip_file exception_text keyring worker lease" env "\<lambda>w. postgresql env" "\<lambda>p w stop p' w'. True"
  for zip_file exception_text keyring worker lease env
  by unfold_locales (simp_all add: return_op_def export_turn_poll)

lemma exporter_process_polls:
  assumes "postgresql env" "settings_keyring pf s = Inr keyring"
    and "exporter_process zip_file pf exception_text s configured random_id lease n env w = (stop, p, w')"
  shows "ready_file p = None \<and> not_database stop \<and>
    export_run zip_file exception_text keyring (worker_name configured random_id) lease n env w = (ended stop, w')"
proof -
  have "until_stopped (export_turn zip_file exception_text keyring (worker_name configured random_id) lease) n new_process env w =
      (stop, p, w')"
    using assms(2,3) by (simp add: exporter_process_def)
  from export_loop.stopped_loop [OF assms(1) this] show ?thesis by simp
qed

end
