(* ===== verification/Spec2Isabelle.thy ===== *)
theory Spec2Isabelle
  imports Merkle_Properties Digest_Vector Calendar Security Proof_Pages Package_Archive Consumer_Claims Migration_Claims Offline_Archives Api_Reads Daemon_Claims
begin

text \<open>
  Verification development for the calibration ledger under \<open>src/src/ledger\<close>.

  \<^bold>\<open>The program.\<close> Clients submit calibration reports, revisions and revocations over HTTP. Each
  becomes an append-only row with a sequence number, the canonical JSON of what is committed and its
  SHA-256. A sealer takes the rows above the last checkpoint in batches, checks them against what is
  committed, builds a Merkle tree over the whole prefix and signs its root with an HMAC key; checkpoints
  form a chain. From a checkpoint the service derives receipts (inclusion proofs), consistency proofs
  and pages of the increment between two checkpoints. Auditors ask for packages: an exporter claims
  them under a lease, builds a ZIP archive of receipts and stores it. Audit consumers move a stored cursor
  along the checkpoints. Receipts are checked by the service or offline by a command-line tool.

  \<^bold>\<open>Foundations.\<close> \<open>Prelude\<close> has bytes, Python strings as code points, exceptions and results,
  JSON values and the lemmas everything shares. \<open>Digest\<close> is SHA-256 and HMAC (\<open>hashlib\<close>, \<open>hmac\<close>) after
  FIPS 180-4; \<open>Digest_Vector\<close> evaluates it on the empty message. \<open>Canonical\<close> models \<open>canonical.py\<close>:
  \<open>json.dumps\<close> with sorted keys, UTF-8 and the digest. \<open>Calendar\<close> has the dates and identifiers of the
  standard library that the code parses and prints. \<open>Json_Loads\<close> is \<open>json.loads\<close>, and
  \<open>Text_Input\<close> is \<open>Path.read_text\<close>.

  \<^bold>\<open>Merkle trees and receipts.\<close> \<open>Merkle\<close> and \<open>Merkle_Consistency\<close> model \<open>merkle.py\<close>;
  \<open>Merkle_Properties\<close> shows completeness, length and soundness of both kinds of proof, where
  soundness names the collision that a false proof would contain; \<open>Commitment\<close> states what a commitment
  to a list promises, as locales which the tree interprets. \<open>Security\<close> models \<open>security.py\<close>. \<open>Receipt\<close> is
  \<open>verify_receipt\<close> of \<open>proofs.py\<close> on any decoded JSON, \<open>Receipt_Claims\<close> has every exception it raises, and
  \<open>Receipt_Order\<close> that its verdict does not depend on the order of keys.

  \<^bold>\<open>The ledger.\<close> \<open>Models\<close> has the rows of \<open>models.py\<close> with their constraints, \<open>Domain\<close> the committed
  payloads and views of \<open>domain.py\<close>. \<open>Session\<close> models a database session: a program is a function of an
  environment and a world that gives a result or an exception and the new world. The world has the
  committed rows, the changes of the open transaction, the locks it holds and the log of
  changes; at each statement the environment may commit changes of other transactions, and it gives
  the clock, new identifiers and the outcome of locks. \<open>Event_Service\<close> models \<open>service.py\<close> on it;
  \<open>Event_Invariant\<close> shows that every operation keeps the ledger sound, \<open>Event_Properties\<close>,
  \<open>Batch_Properties\<close> and \<open>Event_Claims\<close> what each call returns, writes and raises. \<open>Sealing\<close> models
  \<open>sealing.py\<close>, \<open>Seal_Invariant\<close> its invariant, and \<open>Seal_Claims\<close> its refinement of an abstract sealer,
  the detection of tampering and progress. \<open>Coordination\<close> is the advisory lock of
  \<open>coordination.py\<close>: who must hold it to write, and that a sealed prefix is final.

  \<^bold>\<open>Proofs, packages and consumers.\<close> \<open>Proofs\<close> models the builders of \<open>proofs.py\<close>; \<open>Proof_Views\<close>,
  \<open>Proof_Claims\<close> and \<open>Proof_Pages\<close> show that what they build verifies and that following the pages
  reads the increment once and in order. \<open>Audit_Package\<close> and \<open>Audit_Build\<close> model \<open>audit/service.py\<close> and
  \<open>audit/archive.py\<close>; \<open>Package_Lifecycle\<close> has the status machine as an inductive relation,
  \<open>Package_Session\<close> and \<open>Package_Claims\<close> show that every command takes its steps under any
  interleaving, and \<open>Package_Archive\<close> that archives are reproducible. \<open>Audit_Consumer\<close> and
  \<open>Consumer_Claims\<close> do the same for \<open>audit/consumers.py\<close>.

  \<^bold>\<open>Schema and migrations.\<close> \<open>Schema\<close> is the schema as data with the semantics of its checks and
  triggers, \<open>Migrations\<close> the four scripts of \<open>alembic/versions\<close>, and \<open>Migration_Claims\<close> shows that
  they build what the models declare, that downgrades undo upgrades and that the schema admits exactly what
  the services write.

  \<^bold>\<open>Processes and interfaces.\<close> \<open>Settings\<close> is \<open>config.py\<close>; \<open>Verify_Cli\<close> is \<open>verify.py\<close> from the bytes
  of its two files to its output and status. \<open>Offline_Claims\<close> has the keyring and every outcome of the
  verifier, \<open>Offline_Archives\<close> composes build, archive, keyring and verifier. \<open>Api\<close> models the
  endpoints and exception handlers of \<open>api/app.py\<close> with the limits of \<open>schemas.py\<close>; \<open>Api_Claims\<close> and
  \<open>Api_Reads\<close> show what clients see. \<open>Daemons\<close> models \<open>run\<close> of \<open>sealer.py\<close> and \<open>exporter.py\<close>, and
  \<open>Daemon_Claims\<close> relates it to the polling loops of the earlier theories.

  \<^bold>\<open>Interfaces.\<close> \<open>list_commitment\<close> and \<open>append_only_commitment\<close> are what receipts and consistency proofs
  need of the Merkle tree. \<open>event_command\<close> is what the three submissions of \<open>service.py\<close> have in common
  (idempotency, one row or none), \<open>event_endpoint\<close> extends it to HTTP answers; \<open>polling\<close> is what the
  two processes have in common. Each is interpreted on the definitions of the model.

  \<^bold>\<open>Bounds and fuel.\<close> Loops of the daemons run for a given number of polls, the number before the stop
  signal; every property holds for any number. The JSON scanner has fuel twice the length of its input
  plus one, and \<open>scan_enough\<close> shows that more changes nothing. Reading an increment takes as many
  requests as there are pages, which \<open>Proof_Pages\<close> proves to be enough. Sequence
  numbers and counts are Python's integers, bounded by \<open>2 ^ 63\<close> where the schema has a BIGINT, and integer
  literals by Python's limit of 4300 digits. Hash functions are executable functions on lists of
  bytes, and no property assumes that they have no collisions.

  \<^bold>\<open>Parameters.\<close> The bytes \<open>zipfile\<close> writes for given members, the text of an exception, the value of a
  JSON number with a fraction or an exponent, the parsing of integers and \<open>str.isalnum\<close> outside ASCII
  are arguments of the definitions; the record \<open>python\<close> holds the conversions of odd values in receipts
  (\<open>str\<close> of a list, \<open>int\<close> of a float) that depend on the interpreter. What PostgreSQL does with concurrent transactions is the
  environment; properties that need more of it (locks that exclude each other, fresh identifiers, a
  clock that can be represented) say so in their hypotheses.

  \<^bold>\<open>Not modelled.\<close> Routing, parsing of requests and encoding of responses (FastAPI, pydantic, Starlette);
  argument parsing; the engine and session factory of \<open>db.py\<close> and \<open>alembic/env.py\<close>, which only pass
  arguments to SQLAlchemy and Alembic; the configuration of logging, signal handlers, waiting and the
  writing of the readiness file; the nesting depth at which the interpreter gives up on JSON; the
  SQLite variants of column types. The package markers have no code.
\<close>

end
